(* ===== verification/TS_Prelude.thy ===== *)
theory TS_Prelude
  imports Main "HOL-Library.Sublist"
begin

text \<open>
  Shared vocabulary of the development: the Python string and list operations that the
  components use, written as executable functions on lists, with the generic lemmas about
  them.  A Python \<^verbatim>\<open>str\<close> is a \<^typ>\<open>string\<close>, that is a list of code points below 256;
  the predicates that look at a character class (\<open>py_isspace\<close>, \<open>is_digit\<close>) are Python's on
  that range.  A dictionary whose order matters is an association list with distinct keys
  (\<open>dict_get\<close> reads it).  The collection \<open>scan_simps\<close> holds the length and shape facts of
  the scanners, \<open>band_simps\<close> the facts that decide the closed set of risk bands.
\<close>

named_theorems scan_simps
named_theorems band_simps

type_synonym 'v dict = "(string \<times> 'v) list"

section \<open>Characters\<close>

abbreviation NL :: char where "NL \<equiv> CHR 0x0A"
abbreviation TAB :: char where "TAB \<equiv> CHR 0x09"
abbreviation CR :: char where "CR \<equiv> CHR 0x0D"
abbreviation DQ :: char where "DQ \<equiv> CHR 0x22"
abbreviation SQ :: char where "SQ \<equiv> CHR 0x27"
abbreviation BSL :: char where "BSL \<equiv> CHR 0x5C"
abbreviation BTK :: char where "BTK \<equiv> CHR 0x60"
abbreviation SPC :: char where "SPC \<equiv> CHR 0x20"

text \<open>\<^verbatim>\<open>str.isspace\<close> (and the regular-expression class \<open>\s\<close>) on the code points below 256.\<close>

definition py_isspace :: "char \<Rightarrow> bool" where
  "py_isspace c \<longleftrightarrow> c \<in> {CHR 0x09, CHR 0x0A, CHR 0x0B, CHR 0x0C, CHR 0x0D, CHR 0x1C,
     CHR 0x1D, CHR 0x1E, CHR 0x1F, CHR 0x20, CHR 0x85, CHR 0xA0}"

definition is_digit :: "char \<Rightarrow> bool" where
  "is_digit c \<longleftrightarrow> c \<in> set ''0123456789''"

text \<open>The class \<open>\w\<close> below code point 256: letters, digits (the superscripts and fractions too) and \<open>_\<close>.\<close>

definition is_word :: "char \<Rightarrow> bool" where
  "is_word c = (let n = (of_char c :: nat) in
     65 \<le> n \<and> n \<le> 90 \<or> 97 \<le> n \<and> n \<le> 122 \<or> 48 \<le> n \<and> n \<le> 57 \<or> n = 95 \<or>
     n \<in> {170, 178, 179, 181, 185, 186, 188, 189, 190} \<or> 192 \<le> n \<and> n \<noteq> 215 \<and> n \<noteq> 247)"

definition digit_val :: "char \<Rightarrow> nat" where
  "digit_val c = (of_char c :: nat) - 48"

text \<open>\<^verbatim>\<open>int(text)\<close> for a text of decimal digits, and the decimal rendering of a number.\<close>

definition nat_of_digits :: "string \<Rightarrow> nat" where
  "nat_of_digits ds = foldl (\<lambda>n d. 10 * n + digit_val d) 0 ds"

text \<open>\<^verbatim>\<open>int(s)\<close> of a text of decimal digits: more than 4300 of them are a \<^verbatim>\<open>ValueError\<close>, leading zeros included.\<close>

definition digits_int :: "string \<Rightarrow> nat option" where
  "digits_int ds = (if length ds \<le> 4300 then Some (nat_of_digits ds) else None)"

fun show_nat :: "nat \<Rightarrow> string" where
  "show_nat n = (if n < 10 then [char_of (48 + n)]
     else show_nat (n div 10) @ [char_of (48 + n mod 10)])"

declare show_nat.simps [simp del]

definition show_int :: "int \<Rightarrow> string" where
  "show_int i = (if i < 0 then ''-'' @ show_nat (nat (- i)) else show_nat (nat i))"

text \<open>The decimal rendering is digits, and reads back as the number.\<close>

lemma digit_char: "n < 10 \<Longrightarrow> is_digit (char_of (48 + n)) \<and> digit_val (char_of (48 + n)) = (n::nat)"
proof -
  assume "n < 10"
  then have "n \<in> {0, 1, 2, 3, 4, 5, 6, 7, 8, 9}" by auto
  then show ?thesis by (auto simp: is_digit_def digit_val_def char_of_def bit_0)
qed

lemma show_nat_digits: "list_all is_digit (show_nat n) \<and> show_nat n \<noteq> []"
proof (induction n rule: show_nat.induct)
  case (1 n)
  show ?case
  proof (cases "n < 10")
    case True
    then show ?thesis by (simp add: show_nat.simps [of n] digit_char)
  next
    case False
    with 1 digit_char [of "n mod 10"] show ?thesis by (simp add: show_nat.simps [of n])
  qed
qed

lemma nat_of_show_nat: "nat_of_digits (show_nat n) = n"
proof (induction n rule: show_nat.induct)
  case (1 n)
  show ?case
  proof (cases "n < 10")
    case True
    then show ?thesis by (simp add: show_nat.simps [of n] nat_of_digits_def digit_char)
  next
    case False
    with 1 digit_char [of "n mod 10"] show ?thesis
      by (simp add: show_nat.simps [of n] nat_of_digits_def)
  qed
qed
section \<open>Prefixes, suffixes, searching\<close>

fun py_startswith :: "'a list \<Rightarrow> 'a list \<Rightarrow> bool" where
  "py_startswith s [] = True"
| "py_startswith [] (p # ps) = False"
| "py_startswith (x # xs) (p # ps) = (x = p \<and> py_startswith xs ps)"

definition py_endswith :: "'a list \<Rightarrow> 'a list \<Rightarrow> bool" where
  "py_endswith s p = py_startswith (rev s) (rev p)"

lemma startswith_iff: "py_startswith s p \<longleftrightarrow> (\<exists>r. s = p @ r)"
  by (induction s p rule: py_startswith.induct) auto

lemma startswith_append [simp]: "py_startswith (p @ r) p"
  by (auto simp: startswith_iff)

lemma startswith_length: "py_startswith s p \<Longrightarrow> length p \<le> length s"
  by (auto simp: startswith_iff)

lemma startswith_take: "py_startswith s p \<longleftrightarrow> length p \<le> length s \<and> take (length p) s = p"
  by (auto simp: startswith_iff) (metis append_take_drop_id)

text \<open>\<^verbatim>\<open>sub in s\<close>, \<^verbatim>\<open>s.find(sub)\<close>, \<^verbatim>\<open>s.rfind(sub)\<close>: \<open>None\<close> stands for Python's -1.\<close>

fun py_find :: "'a list \<Rightarrow> 'a list \<Rightarrow> nat option" where
  "py_find [] p = (if p = [] then Some 0 else None)"
| "py_find (x # xs) p =
     (if py_startswith (x # xs) p then Some 0 else map_option Suc (py_find xs p))"

definition py_in :: "'a list \<Rightarrow> 'a list \<Rightarrow> bool" where
  "py_in p s = (py_find s p \<noteq> None)"

fun py_rfind :: "'a list \<Rightarrow> 'a list \<Rightarrow> nat option" where
  "py_rfind [] p = (if p = [] then Some 0 else None)"
| "py_rfind (x # xs) p =
     (case py_rfind xs p of Some i \<Rightarrow> Some (Suc i)
      | None \<Rightarrow> if py_startswith (x # xs) p then Some 0 else None)"

lemma py_find_Some: "py_find s p = Some i \<Longrightarrow> i + length p \<le> length s \<and> take (length p) (drop i s) = p"
proof (induction s p arbitrary: i rule: py_find.induct)
  case (1 p)
  then show ?case by (simp split: if_splits)
next
  case (2 x xs p)
  then show ?case
    by (auto simp del: py_startswith.simps simp: startswith_take split: if_splits)
qed

text \<open>Nothing is found before the first character of the pattern occurs.\<close>

lemma py_find_skip:
  "c \<notin> set a \<Longrightarrow> py_startswith (c # b) (c # p) \<Longrightarrow> py_find (a @ c # b) (c # p) = Some (length a)"
  by (induction a) auto

lemma py_rfind_Some:
  "py_rfind s p = Some i \<Longrightarrow> i + length p \<le> length s \<and> take (length p) (drop i s) = p"
proof (induction s p arbitrary: i rule: py_rfind.induct)
  case (1 p)
  then show ?case by (simp split: if_splits)
next
  case (2 x xs p)
  then show ?case
    by (auto simp del: py_startswith.simps simp: startswith_take split: if_splits option.splits)
qed

section \<open>Stripping, splitting, joining\<close>

definition py_lstrip_of :: "('a \<Rightarrow> bool) \<Rightarrow> 'a list \<Rightarrow> 'a list" where
  "py_lstrip_of P s = dropWhile P s"

definition py_rstrip_of :: "('a \<Rightarrow> bool) \<Rightarrow> 'a list \<Rightarrow> 'a list" where
  "py_rstrip_of P s = rev (dropWhile P (rev s))"

abbreviation py_lstrip :: "string \<Rightarrow> string" where "py_lstrip \<equiv> py_lstrip_of py_isspace"
abbreviation py_rstrip :: "string \<Rightarrow> string" where "py_rstrip \<equiv> py_rstrip_of py_isspace"

definition py_strip :: "string \<Rightarrow> string" where
  "py_strip s = py_lstrip (py_rstrip s)"

lemma dropWhile_none: "list_all (\<lambda>c. \<not> P c) s \<Longrightarrow> dropWhile P s = s"
  by (cases s) auto

lemma strip_no_space: "list_all (\<lambda>c. \<not> py_isspace c) s \<Longrightarrow> py_strip s = s"
  by (simp add: py_strip_def py_lstrip_of_def py_rstrip_of_def dropWhile_none)

lemma lstrip_length [scan_simps]: "length (py_lstrip_of P s) \<le> length s"
  by (simp add: py_lstrip_of_def length_dropWhile_le)

lemma rstrip_length [scan_simps]: "length (py_rstrip_of P s) \<le> length s"
  using length_dropWhile_le [of P "rev s"] by (simp add: py_rstrip_of_def)

lemma rstrip_prefix: "\<exists>t. s = py_rstrip_of P s @ t \<and> list_all P t"
proof -
  have "rev s = takeWhile P (rev s) @ dropWhile P (rev s)" by simp
  then have "s = rev (dropWhile P (rev s)) @ rev (takeWhile P (rev s))"
    by (metis rev_append rev_rev_ident)
  moreover have "list_all P (rev (takeWhile P (rev s)))"
    by (auto simp: list_all_iff dest: set_takeWhileD)
  ultimately show ?thesis unfolding py_rstrip_of_def by blast
qed

text \<open>\<^verbatim>\<open>s.split(c)\<close> for a one-character separator, and \<^verbatim>\<open>sep.join(parts)\<close>.\<close>

fun py_split :: "'a \<Rightarrow> 'a list \<Rightarrow> 'a list list" where
  "py_split c [] = [[]]"
| "py_split c (x # xs) =
     (if x = c then [] # py_split c xs
      else (case py_split c xs of [] \<Rightarrow> [[x]] | y # ys \<Rightarrow> (x # y) # ys))"

fun py_join :: "'a list \<Rightarrow> 'a list list \<Rightarrow> 'a list" where
  "py_join sep [] = []"
| "py_join sep [x] = x"
| "py_join sep (x # y # ys) = x @ sep @ py_join sep (y # ys)"

lemma py_split_nonempty [simp]: "py_split c s \<noteq> []"
  by (cases s) (auto split: list.splits)

lemma py_split_parts: "p \<in> set (py_split c s) \<Longrightarrow> c \<notin> set p"
  by (induction c s arbitrary: p rule: py_split.induct) (auto split: if_splits list.splits)

lemma py_join_split: "py_join [c] (py_split c s) = s"
proof (induction c s rule: py_split.induct)
  case (1 c)
  show ?case by simp
next
  case (2 c x xs)
  obtain y ys where *: "py_split c xs = y # ys"
    using py_split_nonempty [of c xs] by (cases "py_split c xs") auto
  from "2.IH" * show ?case by (cases "x = c"; cases ys) auto
qed

lemma py_split_no_sep: "c \<notin> set s \<Longrightarrow> py_split c s = [s]"
  by (induction s) auto

lemma py_split_append_sep: "c \<notin> set s \<Longrightarrow> py_split c (s @ c # t) = s # py_split c t"
  by (induction s) auto

lemma py_split_join:
  "ls \<noteq> [] \<Longrightarrow> \<forall>l \<in> set ls. c \<notin> set l \<Longrightarrow> py_split c (py_join [c] ls) = ls"
  by (induction "[c]" ls rule: py_join.induct) (auto simp: py_split_no_sep py_split_append_sep)

lemma length_py_split: "length (py_split c s) = Suc (count_list s c)"
  by (induction c s rule: py_split.induct) (auto split: list.splits)

lemma set_py_join: "set (py_join sep ls) \<subseteq> set sep \<union> (\<Union>l \<in> set ls. set l)"
  by (induction sep ls rule: py_join.induct) auto

text \<open>\<^verbatim>\<open>str.lower\<close> below code point 256, and \<^verbatim>\<open>s.strip("\"'")\<close>.\<close>

fun lower_char :: "char \<Rightarrow> char" where
  "lower_char c = (let n = (of_char c :: nat) in
     if 65 \<le> n \<and> n \<le> 90 \<or> 192 \<le> n \<and> n \<le> 222 \<and> n \<noteq> 215 then char_of (n + 32) else c)"

definition py_lower :: "string \<Rightarrow> string" where "py_lower s = map lower_char s"

text \<open>
  \<^verbatim>\<open>str.upper\<close> below code point 256: the ASCII letters, the accented Latin letters, and the
  sharp s which becomes two letters.  (The micro sign and the y with diaeresis have upper-case
  forms outside the range and are left alone; neither occurs in a rule id or a command word.)
\<close>

fun upper_char :: "char \<Rightarrow> string" where
  "upper_char c = (let n = (of_char c :: nat) in
     if 97 \<le> n \<and> n \<le> 122 then [char_of (n - 32)]
     else if n = 223 then ''SS''
     else if 224 \<le> n \<and> n \<le> 254 \<and> n \<noteq> 247 then [char_of (n - 32)]
     else [c])"

definition py_upper :: "string \<Rightarrow> string" where
  "py_upper s = concat (map upper_char s)"

definition strip_quotes :: "string \<Rightarrow> string" where
  "strip_quotes s = py_lstrip_of (\<lambda>c. c = DQ \<or> c = SQ) (py_rstrip_of (\<lambda>c. c = DQ \<or> c = SQ) s)"

section \<open>Dictionaries and order-preserving sets\<close>

definition dict_get :: "'v dict \<Rightarrow> string \<Rightarrow> 'v \<Rightarrow> 'v" where
  "dict_get d k v = (case map_of d k of Some x \<Rightarrow> x | None \<Rightarrow> v)"

text \<open>\<^verbatim>\<open>d[k] = v\<close>: the value is replaced in place, a new key goes to the end.\<close>

fun dict_set :: "'v dict \<Rightarrow> string \<Rightarrow> 'v \<Rightarrow> 'v dict" where
  "dict_set [] k v = [(k, v)]"
| "dict_set ((k', v') # d) k v =
     (if k' = k then (k, v) # d else (k', v') # dict_set d k v)"

lemma map_of_dict_set [simp]: "map_of (dict_set d k v) = (map_of d)(k \<mapsto> v)"
  by (induction d k v rule: dict_set.induct) (auto simp: fun_eq_iff)

lemma dict_set_keys: "fst ` set (dict_set d k v) = insert k (fst ` set d)"
  by (induction d k v rule: dict_set.induct) auto

lemma dict_set_distinct: "distinct (map fst d) \<Longrightarrow> distinct (map fst (dict_set d k v))"
proof (induction d k v rule: dict_set.induct)
  case (2 k' v' d k v)
  then show ?case using dict_set_keys [of d k v] by (auto simp: image_iff)
qed simp

text \<open>\<^verbatim>\<open>dict.fromkeys(xs)\<close> as a list: the first occurrence of every element.\<close>

fun uniq_first :: "'a list \<Rightarrow> 'a list" where
  "uniq_first [] = []"
| "uniq_first (x # xs) = x # uniq_first (filter (\<lambda>y. y \<noteq> x) xs)"

lemma set_uniq_first [simp]: "set (uniq_first xs) = set xs"
  by (induction xs rule: uniq_first.induct) auto

lemma distinct_uniq_first [simp]: "distinct (uniq_first xs)"
  by (induction xs rule: uniq_first.induct) auto

lemma uniq_first_filter: "uniq_first (filter P xs) = filter P (uniq_first xs)"
proof (induction xs rule: uniq_first.induct)
  case (2 x xs)
  show ?case
  proof (cases "P x")
    case True
    have "uniq_first (filter P (x # xs)) = x # uniq_first (filter P (filter (\<lambda>y. y \<noteq> x) xs))"
      using True by (simp add: conj_commute)
    with 2 True show ?thesis by simp
  next
    case False
    have "filter P xs = filter P (filter (\<lambda>y. y \<noteq> x) xs)"
      using False by (auto intro: filter_cong)
    with 2 False show ?thesis by simp
  qed
qed simp

text \<open>\<^verbatim>\<open>any(...)\<close> and \<^verbatim>\<open>sum(1 for ...)\<close> over lists.\<close>

definition count_if :: "('a \<Rightarrow> bool) \<Rightarrow> 'a list \<Rightarrow> nat" where
  "count_if P xs = length (filter P xs)"

lemma count_if_simps [simp]:
  "count_if P [] = 0"
  "count_if P (x # xs) = (if P x then Suc (count_if P xs) else count_if P xs)"
  "count_if P (xs @ ys) = count_if P xs + count_if P ys"
  by (simp_all add: count_if_def)

section \<open>Combinations\<close>

text \<open>\<^verbatim>\<open>itertools.combinations\<close>.\<close>

fun combinations :: "nat \<Rightarrow> 'a list \<Rightarrow> 'a list list" where
  "combinations 0 xs = [[]]"
| "combinations (Suc k) [] = []"
| "combinations (Suc k) (x # xs) = map (\<lambda>c. x # c) (combinations k xs) @ combinations (Suc k) xs"

lemma combinations_length: "c \<in> set (combinations k xs) \<Longrightarrow> length c = k"
  by (induction k xs arbitrary: c rule: combinations.induct) auto

lemma combinations_subset: "c \<in> set (combinations k xs) \<Longrightarrow> set c \<subseteq> set xs"
proof (induction k xs arbitrary: c rule: combinations.induct)
  case (3 k x xs)
  from "3.prems" consider d where "c = x # d" "d \<in> set (combinations k xs)"
    | "c \<in> set (combinations (Suc k) xs)" by auto
  then show ?case by cases (use "3.IH" in auto)
qed auto

lemma combinations_distinct: "distinct xs \<Longrightarrow> c \<in> set (combinations k xs) \<Longrightarrow> distinct c"
proof (induction k xs arbitrary: c rule: combinations.induct)
  case (3 k x xs)
  from "3.prems" consider d where "c = x # d" "d \<in> set (combinations k xs)"
    | "c \<in> set (combinations (Suc k) xs)" by auto
  then show ?case
  proof cases
    case 1
    with "3.prems" combinations_subset [OF 1(2)] "3.IH"(1) [of d] show ?thesis by auto
  next
    case 2
    with "3.prems" "3.IH"(2) show ?thesis by auto
  qed
qed auto

text \<open>Every subset of the elements is enumerated at its cardinality.\<close>

lemma combinations_complete:
  "distinct xs \<Longrightarrow> S \<subseteq> set xs \<Longrightarrow> \<exists>c \<in> set (combinations (card S) xs). set c = S"
proof (induction xs arbitrary: S)
  case Nil
  then show ?case by simp
next
  case (Cons x xs)
  show ?case
  proof (cases "x \<in> S")
    case True
    have fin: "finite S" using Cons.prems(2) finite_subset by blast
    with True have card: "card S = Suc (card (S - {x}))" by (metis card.remove)
    from Cons.prems have "distinct xs" "S - {x} \<subseteq> set xs" by auto
    from Cons.IH [OF this] obtain c where
      "c \<in> set (combinations (card (S - {x})) xs)" "set c = S - {x}" by blast
    then have "x # c \<in> set (combinations (card S) (x # xs))" unfolding card by simp
    moreover have "set (x # c) = S" using \<open>set c = S - {x}\<close> True by auto
    ultimately show ?thesis by blast
  next
    case False
    with Cons.prems have "distinct xs" "S \<subseteq> set xs" by auto
    from Cons.IH [OF this] obtain c where
      c: "c \<in> set (combinations (card S) xs)" "set c = S" by blast
    show ?thesis
    proof (cases "card S")
      case 0
      with c show ?thesis by auto
    next
      case (Suc k)
      with c show ?thesis by auto
    qed
  qed
qed

end
