(* ===== verification/Score_Schema.thy ===== *)
theory Score_Schema
  imports TS_Prelude "HOL-Library.Char_ord" "HOL-Library.List_Lexorder"
begin

text \<open>
  The data that rules, coverage and scoring exchange: findings (the dictionaries a rule
  emits), score entries, the novelty context, the declared rules of \<^verbatim>\<open>rules.toml\<close> and the
  fields of \<^verbatim>\<open>PackageFact\<close> the verdict reads (\<^verbatim>\<open>schema.py\<close>), with \<^verbatim>\<open>findings.stamp\<close>.
  A dictionary key that a rule may leave out is an \<^typ>\<open>'a option\<close> field.
\<close>

datatype py_value = VNone | VBool bool | VInt int | VStr string | VStrs "string list" | VCounts "nat dict"

text \<open>\<^verbatim>\<open>isinstance(v, int)\<close>: Python's booleans are integers.\<close>

fun py_int :: "py_value \<Rightarrow> int option" where
  "py_int (VInt i) = Some i"
| "py_int (VBool b) = Some (if b then 1 else 0)"
| "py_int _ = None"

text \<open>Truthiness of a value.\<close>

fun truthy :: "py_value \<Rightarrow> bool" where
  "truthy VNone = False"
| "truthy (VBool b) = b"
| "truthy (VInt i) = (i \<noteq> 0)"
| "truthy (VStr s) = (s \<noteq> [])"
| "truthy (VStrs xs) = (xs \<noteq> [])"
| "truthy (VCounts cs) = (cs \<noteq> [])"

record finding =
  f_rule_id :: string
  f_name :: string
  f_severity :: string
  f_match :: "string option"
  f_category :: "string option"
  f_params :: "py_value dict option"
  f_weight_override :: "py_value option"
  f_template :: "string option"
  f_evidence :: "py_value dict option"
  f_file :: "string option"
  f_line :: "nat option"
  f_techniques :: "string list option"
  f_present_before :: bool

text \<open>A finding with the four keys every rule sets and nothing else.\<close>

definition bare_finding :: "string \<Rightarrow> string \<Rightarrow> string \<Rightarrow> string \<Rightarrow> finding" where
  "bare_finding rid name severity category = \<lparr>f_rule_id = rid, f_name = name,
     f_severity = severity, f_match = None, f_category = Some category, f_params = None,
     f_weight_override = None, f_template = None, f_evidence = None, f_file = None,
     f_line = None, f_techniques = None, f_present_before = False\<rparr>"

record score_entry =
  e_rule_id :: string
  e_severity :: string
  e_weight :: int
  e_reason :: string
  e_params :: "py_value dict"
  e_template :: string
  e_evidence :: "py_value dict"
  e_file :: string
  e_line :: "nat option"
  e_licensed_by :: "string list"
  e_techniques :: "string list"

definition default_entry :: score_entry where
  "default_entry = \<lparr>e_rule_id = [], e_severity = [], e_weight = 0, e_reason = [], e_params = [],
     e_template = [], e_evidence = [], e_file = [], e_line = None, e_licensed_by = [], e_techniques = []\<rparr>"

record novelty_context =
  url_first_seen_in_this_package :: bool
  url_first_seen_globally :: bool
  url_first_seen_in_this_package_url :: string
  url_first_seen_globally_url :: string
  maintainer_first_seen_for_this_package :: bool
  observation_count :: int
  source_array_seen_before :: bool

definition default_novelty :: novelty_context where
  "default_novelty = \<lparr>url_first_seen_in_this_package = False, url_first_seen_globally = False,
     url_first_seen_in_this_package_url = [], url_first_seen_globally_url = [],
     maintainer_first_seen_for_this_package = False, observation_count = 0,
     source_array_seen_before = False\<rparr>"

text \<open>The fields of \<^verbatim>\<open>PackageFact\<close> that the coverage, layer and verdict views read.\<close>

record package_fact =
  pf_risk :: string
  pf_final_score :: int
  pf_coverage_gaps :: "string list"
  pf_score_breakdown :: "score_entry list"
  pf_novelty_context :: novelty_context
  pf_diff_truncated :: bool
  pf_scan_truncated :: bool
  pf_correlation_ran :: bool

definition default_fact :: package_fact where
  "default_fact = \<lparr>pf_risk = ''Low'', pf_final_score = 0, pf_coverage_gaps = [],
     pf_score_breakdown = [], pf_novelty_context = default_novelty, pf_diff_truncated = False,
     pf_scan_truncated = False, pf_correlation_ran = False\<rparr>"

text \<open>
  A rule of \<^verbatim>\<open>rules.toml\<close>: its id, what its pattern is matched against and the value of
  \<^verbatim>\<open>escalates_when\<close> (a bare string, a list read through \<^verbatim>\<open>str\<close>, or anything else).
\<close>

record rule_decl =
  rd_id :: string
  rd_match_target :: string
  rd_escalates :: "py_value option"

text \<open>
  \<^verbatim>\<open>stamp\<close> attaches the template and the evidence.  The vocabulary \<^verbatim>\<open>TEMPLATES\<close> is the
  dictionary \<open>templates\<close>; the caller's own template wins, then the registry, then the
  fallback built from the name.
\<close>

definition stamp :: "string dict \<Rightarrow> finding \<Rightarrow> string option \<Rightarrow> finding" where
  "stamp templates f tmpl =
     (let t = (case tmpl of Some t \<Rightarrow> t
               | None \<Rightarrow> (case map_of templates (f_rule_id f) of Some t \<Rightarrow> t
                          | None \<Rightarrow> f_name f @ '': {match}''));
          ev = (case f_params f of None \<Rightarrow> [] | Some p \<Rightarrow> p);
          ev' = (case f_match f of
                   Some m \<Rightarrow> if m \<noteq> [] \<and> map_of ev ''match'' = None
                             then dict_set ev ''match'' (VStr m) else ev
                 | None \<Rightarrow> ev);
          file' = (case f_file f of Some p \<Rightarrow> Some p | None \<Rightarrow> Some [])
      in f\<lparr>f_template := Some t, f_evidence := Some ev', f_file := file'\<rparr>)"

lemma stamp_keeps:
  "f_rule_id (stamp ts f t) = f_rule_id f" "f_severity (stamp ts f t) = f_severity f"
  "f_match (stamp ts f t) = f_match f" "f_params (stamp ts f t) = f_params f"
  "f_weight_override (stamp ts f t) = f_weight_override f"
  "f_category (stamp ts f t) = f_category f" "f_line (stamp ts f t) = f_line f"
  by (simp_all add: stamp_def Let_def)

text \<open>The severities that stand on their own evidence.\<close>

definition strong_severity :: "string \<Rightarrow> bool" where
  "strong_severity s \<longleftrightarrow> s \<in> {''HIGH'', ''CRITICAL'', ''FATAL''}"

text \<open>Sorting strings, as Python's \<^verbatim>\<open>sorted\<close> over a set of them.\<close>

definition sorted_set :: "string list \<Rightarrow> string list" where
  "sorted_set xs = sort (remdups xs)"

lemma set_sorted_set [simp]: "set (sorted_set xs) = set xs"
  by (simp add: sorted_set_def)

lemma sorted_sorted_set [simp]: "sorted (sorted_set xs)"
  by (simp add: sorted_set_def)

lemma distinct_sorted_set [simp]: "distinct (sorted_set xs)"
  by (simp add: sorted_set_def)

end
