(* ===== verification/Coverage.thy ===== *)
theory Coverage
  imports Score_Schema
begin

text \<open>
  Analysis coverage (\<^verbatim>\<open>coverage.py\<close>): the gap identifiers, the stage-failure record of one
  analysis, \<open>gaps_from\<close> which assembles the gap list of a run from its signals, and the
  functions that turn gaps into wording (\<open>describe\<close>, \<open>inconclusive_label\<close>,
  \<open>qualified_band\<close>) and into a verdict (\<open>fail_closed\<close>).  A gap is a string, because a stored
  report may carry one this build does not know.
\<close>

section \<open>The gap identifiers\<close>

definition DIFF_TRUNCATED :: string where "DIFF_TRUNCATED = ''diff_truncated''"
definition SCAN_TRUNCATED :: string where "SCAN_TRUNCATED = ''scan_truncated''"
definition LINE_TRUNCATED :: string where "LINE_TRUNCATED = ''line_truncated''"
definition TREE_NOT_ANALYZED :: string where "TREE_NOT_ANALYZED = ''tree_not_analyzed''"
definition UPSTREAM_MANIFEST_INCOMPLETE :: string where "UPSTREAM_MANIFEST_INCOMPLETE = ''upstream_manifest_incomplete''"
definition UNRESOLVED_SOURCE :: string where "UNRESOLVED_SOURCE = ''unresolved_source''"
definition UNRESOLVED_PARSE_TIME :: string where "UNRESOLVED_PARSE_TIME = ''unresolved_parse_time''"
definition SNAPSHOT_REFUSED :: string where "SNAPSHOT_REFUSED = ''snapshot_refused''"
definition UNPINNED_BUILD_DEPS :: string where "UNPINNED_BUILD_DEPS = ''unpinned_build_deps''"
definition COMPANION_TRUNCATED :: string where "COMPANION_TRUNCATED = ''companion_truncated''"
definition DEPS_NOT_SCANNED :: string where "DEPS_NOT_SCANNED = ''deps_not_scanned''"
definition PARENT_BASELINE :: string where "PARENT_BASELINE = ''parent_baseline''"
definition RULESET_DRIFTED :: string where "RULESET_DRIFTED = ''ruleset_drifted''"
definition STAGE_DEGRADED :: string where "STAGE_DEGRADED = ''stage_degraded''"
definition HISTORY_TRUNCATED :: string where "HISTORY_TRUNCATED = ''history_truncated''"
definition NOEXTRACT_SUPPRESSED :: string where "NOEXTRACT_SUPPRESSED = ''noextract_suppressed''"
definition BINARY_METADATA :: string where "BINARY_METADATA = ''binary_metadata''"
definition PARTIAL_HUNK :: string where "PARTIAL_HUNK = ''partial_hunk''"
definition PARTIAL_FILE_ANALYSIS :: string where "PARTIAL_FILE_ANALYSIS = ''partial_file_analysis''"

lemmas gap_names =
  DIFF_TRUNCATED_def SCAN_TRUNCATED_def LINE_TRUNCATED_def
  TREE_NOT_ANALYZED_def UPSTREAM_MANIFEST_INCOMPLETE_def UNRESOLVED_SOURCE_def
  UNRESOLVED_PARSE_TIME_def SNAPSHOT_REFUSED_def UNPINNED_BUILD_DEPS_def
  COMPANION_TRUNCATED_def DEPS_NOT_SCANNED_def PARENT_BASELINE_def
  RULESET_DRIFTED_def STAGE_DEGRADED_def HISTORY_TRUNCATED_def
  NOEXTRACT_SUPPRESSED_def BINARY_METADATA_def PARTIAL_HUNK_def
  PARTIAL_FILE_ANALYSIS_def

definition GAPS :: "string list" where
  "GAPS = [DIFF_TRUNCATED, SCAN_TRUNCATED, PARTIAL_HUNK,
     PARTIAL_FILE_ANALYSIS, LINE_TRUNCATED, TREE_NOT_ANALYZED,
     UPSTREAM_MANIFEST_INCOMPLETE, COMPANION_TRUNCATED, BINARY_METADATA,
     UNRESOLVED_SOURCE, UNRESOLVED_PARSE_TIME, SNAPSHOT_REFUSED,
     UNPINNED_BUILD_DEPS, RULESET_DRIFTED, DEPS_NOT_SCANNED,
     PARENT_BASELINE, STAGE_DEGRADED, HISTORY_TRUNCATED,
     NOEXTRACT_SUPPRESSED]"

definition GAP_REASONS :: "string dict" where
  "GAP_REASONS = [
    (DIFF_TRUNCATED,
      ''the diff exceeded the size cap, so only its first bytes were examined''),
    (SCAN_TRUNCATED,
      ''the diff held more lines than the matching limit, so its last lines were not matched against'' @
      '' any rule''),
    (PARTIAL_HUNK,
      ''a diff hunk carries fewer lines than its header declares without any truncation bound '' @
      ''reporting it, so the change was cut mid-hunk and its tail was not examined''),
    (PARTIAL_FILE_ANALYSIS,
      ''an install script'' @ [SQ] @ ''s diff shows only part of the file, so its hook bodies were not analysed '' @
      ''as whole scripts''),
    (LINE_TRUNCATED,
      ''a line was longer than the matching limit, so its tail was not matched against any rule''),
    (TREE_NOT_ANALYZED,
      ''the repository file manifest was unavailable, so only the PKGBUILD was examined''),
    (UPSTREAM_MANIFEST_INCOMPLETE,
      ''a committed dependency manifest was larger than the read budget, or there were more of them '' @
      ''than the file limit, so its dependency set was not recorded and the '' @
      ''shared-upstream-dependency comparison skipped it''),
    (COMPANION_TRUNCATED,
      ''a committed file the recipe names was larger than the companion read budget, or there were '' @
      ''more of them than the file limit, so its content was not matched against any rule''),
    (BINARY_METADATA,
      ''a metadata file (PKGBUILD, .SRCINFO or an install script) is binary, so git emitted no diff '' @
      ''body and its content was not matched against any rule''),
    (UNRESOLVED_SOURCE,
      ''a source entry is computed at build time, so the URL that will be fetched is not in the '' @
      ''analysed text''),
    (UNRESOLVED_PARSE_TIME,
      ''a command substitution runs when the recipe is parsed, so its result is not in the analysed '' @
      ''text''),
    (SNAPSHOT_REFUSED,
      ''the snapshot archive exceeded a read bound and was refused, so the committed file tree was '' @
      ''not examined''),
    (UNPINNED_BUILD_DEPS,
      ''a build step resolves dependencies from a package registry, so the code the build will fetch'' @
      '' and execute is not in the analysed text and no checksum in this recipe covers it''),
    (DEPS_NOT_SCANNED,
      ''the AUR dependency walk stopped before the closure was exhausted, so some packages this '' @
      ''build will pull in were never analysed''),
    (PARENT_BASELINE,
      ''there was no recorded analysis for this package, so only the change from the parent commit '' @
      ''was examined, not the package'' @ [SQ] @ ''s history''),
    (RULESET_DRIFTED,
      ''the installed rules.toml differs from the shipped rule set in a field that changes what a '' @
      ''rule detects, so this analysis did not run the checks this version documents''),
    (STAGE_DEGRADED,
      ''an analysis stage could not complete on this input, so the checks it performs did not run '' @
      ''over all of the change''),
    (HISTORY_TRUNCATED,
      ''the history walk stopped before yielding the requested number of results: a ceiling was '' @
      ''reached, the run diff budget was exhausted, or the repository had fewer content-bearing '' @
      ''commits than requested''),
    (NOEXTRACT_SUPPRESSED,
      ''noextract=() suppresses extraction of source archives whose contents could not be examined'')]"

section \<open>Stage failures\<close>

text \<open>
  The thread-local record: \<open>None\<close> before any analysis began on this thread, otherwise the
  stages noted so far.
\<close>

type_synonym stages = "string list option"

definition begin_stage_tracking :: "stages \<Rightarrow> stages" where
  "begin_stage_tracking st = Some []"

definition note_stage_failure :: "string \<Rightarrow> stages \<Rightarrow> stages" where
  "note_stage_failure stage st =
     (case st of None \<Rightarrow> None
      | Some failed \<Rightarrow> if stage \<in> set failed then Some failed else Some (failed @ [stage]))"

definition stage_failures :: "stages \<Rightarrow> string list" where
  "stage_failures st = (case st of None \<Rightarrow> [] | Some failed \<Rightarrow> failed)"

lemma note_stage_failure_set:
  "stage_failures (fold note_stage_failure ss (Some fs)) = stage_failures (Some fs) @
     filter (\<lambda>s. s \<notin> set fs) (uniq_first ss)"
proof (induction ss arbitrary: fs)
  case Nil
  show ?case by (simp add: stage_failures_def)
next
  case (Cons s ss)
  have *: "filter (\<lambda>x. x \<notin> set fs \<and> x \<noteq> s) (uniq_first ss)
      = filter (\<lambda>x. x \<notin> set fs) (uniq_first (filter (\<lambda>y. y \<noteq> s) ss))" for ss :: "string list"
  proof (induction ss rule: uniq_first.induct)
    case (2 x xs)
    show ?case
    proof (cases "x = s")
      case True
      have "filter (\<lambda>y. y \<noteq> x) (filter (\<lambda>y. y \<noteq> x) xs) = filter (\<lambda>y. y \<noteq> x) xs" by simp
      with "2.IH" True show ?thesis by simp
    next
      case False
      have "filter (\<lambda>y. y \<noteq> s) (filter (\<lambda>y. y \<noteq> x) xs) = filter (\<lambda>y. y \<noteq> x) (filter (\<lambda>y. y \<noteq> s) xs)"
        by (simp add: conj_commute)
      with "2.IH" False show ?thesis by simp
    qed
  qed simp
  show ?case
  proof (cases "s \<in> set fs")
    case True
    then have "(\<lambda>x. x \<notin> set fs \<and> x \<noteq> s) = (\<lambda>x. x \<notin> set fs)" by auto
    with True Cons [of fs] * [of ss] show ?thesis by (simp add: note_stage_failure_def)
  next
    case False
    have "(\<lambda>x. x \<notin> set (fs @ [s])) = (\<lambda>x. x \<notin> set fs \<and> x \<noteq> s)" by auto
    with False Cons [of "fs @ [s]"] * [of ss] show ?thesis
      by (simp add: note_stage_failure_def stage_failures_def)
  qed
qed

section \<open>From signals to gaps\<close>

text \<open>\<open>MAX_RULE_LINE\<close> is \<^verbatim>\<open>rules.MAX_RULE_LINE_BYTES\<close>.\<close>

definition MAX_RULE_LINE :: nat where "MAX_RULE_LINE = 8192"

definition oversized_lines :: "string list \<Rightarrow> nat" where
  "oversized_lines ls = count_if (\<lambda>l. length l > MAX_RULE_LINE) ls"

record coverage_signals =
  sig_diff_truncated :: bool
  sig_scan_truncated :: bool
  tree_analyzed :: bool
  companion_truncated :: bool
  binary_metadata :: bool
  unresolved_sources :: "string list option"
  long_lines :: nat
  parse_time_substitutions :: "string list option"
  snapshot_refused :: bool
  unpinned_build_deps :: bool
  deps_not_scanned :: bool
  parent_baseline :: bool
  ruleset_drifted :: bool
  degraded_stages :: "string list option"
  unresolved_assignments :: bool
  noextract_present :: bool
  partial_hunks :: nat
  partial_files :: "string list option"
  upstream_manifest_incomplete :: bool

text \<open>Truthiness of an optional list: \<^verbatim>\<open>None\<close> and \<^verbatim>\<open>[]\<close> are both false.\<close>

definition some_lines :: "string list option \<Rightarrow> bool" where
  "some_lines x \<longleftrightarrow> (\<exists>l ls. x = Some (l # ls))"

lemma some_lines_code [code, simp]:
  "some_lines None = False" "some_lines (Some []) = False" "some_lines (Some (l # ls)) = True"
  by (simp_all add: some_lines_def)

definition gaps_from :: "coverage_signals \<Rightarrow> string list" where
  "gaps_from s =
     (if sig_diff_truncated s then [DIFF_TRUNCATED] else []) @
     (if sig_scan_truncated s then [SCAN_TRUNCATED] else []) @
     (if partial_hunks s \<noteq> 0 \<and> \<not> (sig_diff_truncated s \<or> sig_scan_truncated s)
      then [PARTIAL_HUNK] else []) @
     (if some_lines (partial_files s) then [PARTIAL_FILE_ANALYSIS] else []) @
     (if long_lines s \<noteq> 0 then [LINE_TRUNCATED] else []) @
     (if \<not> tree_analyzed s then [TREE_NOT_ANALYZED] else []) @
     (if companion_truncated s then [COMPANION_TRUNCATED] else []) @
     (if binary_metadata s then [BINARY_METADATA] else []) @
     (if some_lines (unresolved_sources s) then [UNRESOLVED_SOURCE] else []) @
     (if some_lines (parse_time_substitutions s) then [UNRESOLVED_PARSE_TIME] else []) @
     (if snapshot_refused s then [SNAPSHOT_REFUSED] else []) @
     (if upstream_manifest_incomplete s then [UPSTREAM_MANIFEST_INCOMPLETE] else []) @
     (if unpinned_build_deps s then [UNPINNED_BUILD_DEPS] else []) @
     (if deps_not_scanned s then [DEPS_NOT_SCANNED] else []) @
     (if parent_baseline s then [PARENT_BASELINE] else []) @
     (if ruleset_drifted s then [RULESET_DRIFTED] else []) @
     (if some_lines (degraded_stages s) \<or> unresolved_assignments s
      then [STAGE_DEGRADED] else []) @
     (if noextract_present s then [NOEXTRACT_SUPPRESSED] else [])"

text \<open>How much of the diff the tokenizer could read.\<close>

record resolution_report =
  resolved_lines :: nat
  unresolved_lines :: nat
  resolved_target_rules :: "string list"
  resolved_target_rules_fired :: "string list"

definition resolution_coverage ::
  "string list \<Rightarrow> string list \<Rightarrow> finding list \<Rightarrow> rule_decl list \<Rightarrow> resolution_report" where
  "resolution_coverage resolved unresolved triggered rules =
     (let ids = map rd_id (filter (\<lambda>r. rd_match_target r = ''resolved'') rules);
          fired = filter (\<lambda>i. i \<in> set ids) (map f_rule_id triggered)
      in \<lparr>resolved_lines = length resolved, unresolved_lines = length unresolved,
          resolved_target_rules = sorted_set ids,
          resolved_target_rules_fired = sorted_set fired\<rparr>)"

section \<open>Gaps in words\<close>

definition cut_hunk_details :: "(string \<times> nat \<times> nat \<times> nat) list \<Rightarrow> string list" where
  "cut_hunk_details hs = map (\<lambda>(path, start, expected, actual).
     path @ '' @@ '' @ show_nat start @ '': header declares '' @ show_nat expected @
     '' new line(s), '' @ show_nat actual @ '' parsed'') hs"

definition describe_reason ::
  "string list \<Rightarrow> string list dict \<Rightarrow> string \<Rightarrow> string option" where
  "describe_reason carried details gap =
     (case map_of GAP_REASONS gap of
        None \<Rightarrow> None
      | Some r \<Rightarrow>
          Some (r @
            (case dict_get details gap [] of
               [] \<Rightarrow> []
             | l # _ \<Rightarrow> '' (first: '' @ take 80 (py_strip l) @ '')'') @
            (if gap \<in> set carried then '' (unchanged since the previous review)'' else [])))"

definition describe :: "string list \<Rightarrow> string list \<Rightarrow> string list dict \<Rightarrow> string" where
  "describe gaps carried details =
     (let reasons = List.map_filter (describe_reason carried details) gaps
      in if reasons = [] then []
         else ''This analysis was incomplete: '' @
           (if length reasons = 1 then hd reasons
            else py_join '', and '' [py_join '', '' (butlast reasons), last reasons]) @
           ''. The result describes what was examined, not the whole change.'')"

definition INCOMPLETE_SUFFIX :: string where "INCOMPLETE_SUFFIX = '' (incomplete analysis)''"

definition GAP_INCONCLUSIVE_REASONS :: "string dict" where
  "GAP_INCONCLUSIVE_REASONS = [
    (DIFF_TRUNCATED,
      ''diff truncated: payload may be hidden''),
    (SCAN_TRUNCATED,
      ''scan truncated: tail of diff not matched by any rule''),
    (PARTIAL_HUNK,
      ''diff cut mid-hunk without a declared bound: payload may be hidden''),
    (PARTIAL_FILE_ANALYSIS,
      ''an install script was only partly shown: its hooks were not read as whole scripts''),
    (LINE_TRUNCATED,
      ''line truncated: payload may be hidden''),
    (TREE_NOT_ANALYZED,
      ''repository files not examined: payload may be hidden''),
    (COMPANION_TRUNCATED,
      ''a committed file the recipe runs was not read in full: payload may be hidden''),
    (BINARY_METADATA,
      ''a metadata file is binary: its content was never read''),
    (UNRESOLVED_SOURCE,
      ''source computed at build time: fetch destination unknown''),
    (UNRESOLVED_PARSE_TIME,
      ''code runs at parse time: recipe not statically analyzable''),
    (SNAPSHOT_REFUSED,
      ''snapshot refused by a read bound: file tree not examined''),
    (UNPINNED_BUILD_DEPS,
      ''build fetches unpinned dependencies: what will execute is unknown''),
    (DEPS_NOT_SCANNED,
      ''dependency walk cut short: part of the closure was never analysed''),
    (PARENT_BASELINE,
      ''no recorded baseline: only the parent commit was compared''),
    (RULESET_DRIFTED,
      ''installed rules differ from shipped: checks did not run as documented''),
    (UPSTREAM_MANIFEST_INCOMPLETE,
      ''upstream manifest incomplete: shared-dependency additions not compared''),
    (STAGE_DEGRADED,
      ''an analysis stage failed on this input: its checks did not run''),
    (HISTORY_TRUNCATED,
      ''history walk stopped early: not all requested diffs were examined''),
    (NOEXTRACT_SUPPRESSED,
      ''noextract=() suppresses extraction: source archive contents not examined'')]"


definition inconclusive_label :: "string list \<Rightarrow> nat option \<Rightarrow> string" where
  "inconclusive_label gaps cold_start_needed =
     (if gaps \<noteq> [] then
        ''Inconclusive ('' @
        py_join ''; '' (map (\<lambda>g. dict_get GAP_INCONCLUSIVE_REASONS g
                                   (g @ '': analysis incomplete'')) gaps) @ '')''
      else (case cold_start_needed of
          Some n \<Rightarrow> ''Inconclusive (cold start: '' @ show_nat n @ '' more analyses needed)''
        | None \<Rightarrow> ''Inconclusive''))"

definition qualified_band :: "string \<Rightarrow> string list \<Rightarrow> string" where
  "qualified_band level gaps =
     (if gaps = [] \<or> level = [] then level
      else if level = ''Inconclusive'' then level
      else level @ INCOMPLETE_SUFFIX)"

definition fail_closed :: "string \<Rightarrow> string list \<Rightarrow> score_entry list \<Rightarrow> string" where
  "fail_closed level gaps breakdown =
     (if gaps = [] then level
      else if level \<notin> {''Low'', ''Medium''} then level
      else if \<exists>e \<in> set breakdown. e_severity e \<in> {''HIGH'', ''CRITICAL'', ''FATAL''} then level
      else ''Inconclusive'')"

section \<open>Lemmas\<close>

lemma GAPS_distinct: "distinct GAPS"
  by (simp add: GAPS_def gap_names)

text \<open>The same assembly as a table: one row per signal, in the order the gaps are reported.\<close>

definition signal_table :: "coverage_signals \<Rightarrow> (bool \<times> string) list" where
  "signal_table s = [
     (sig_diff_truncated s, DIFF_TRUNCATED),
     (sig_scan_truncated s, SCAN_TRUNCATED),
     (partial_hunks s \<noteq> 0 \<and> \<not> (sig_diff_truncated s \<or> sig_scan_truncated s), PARTIAL_HUNK),
     (some_lines (partial_files s), PARTIAL_FILE_ANALYSIS),
     (long_lines s \<noteq> 0, LINE_TRUNCATED),
     (\<not> tree_analyzed s, TREE_NOT_ANALYZED),
     (companion_truncated s, COMPANION_TRUNCATED),
     (binary_metadata s, BINARY_METADATA),
     (some_lines (unresolved_sources s), UNRESOLVED_SOURCE),
     (some_lines (parse_time_substitutions s), UNRESOLVED_PARSE_TIME),
     (snapshot_refused s, SNAPSHOT_REFUSED),
     (upstream_manifest_incomplete s, UPSTREAM_MANIFEST_INCOMPLETE),
     (unpinned_build_deps s, UNPINNED_BUILD_DEPS),
     (deps_not_scanned s, DEPS_NOT_SCANNED),
     (parent_baseline s, PARENT_BASELINE),
     (ruleset_drifted s, RULESET_DRIFTED),
     (some_lines (degraded_stages s) \<or> unresolved_assignments s, STAGE_DEGRADED),
     (noextract_present s, NOEXTRACT_SUPPRESSED)]"

lemma selected_Cons:
  "map snd (filter fst ((b, g) # xs)) = (if b then [g] else []) @ map snd (filter fst xs)"
  "map snd (filter fst []) = []"
  by simp_all

lemma gaps_from_table: "gaps_from s = map snd (filter fst (signal_table s))"
  by (simp only: gaps_from_def signal_table_def selected_Cons append_Nil2)

lemma signal_table_gaps: "map snd (signal_table s) = [
     DIFF_TRUNCATED, SCAN_TRUNCATED, PARTIAL_HUNK, PARTIAL_FILE_ANALYSIS, LINE_TRUNCATED,
     TREE_NOT_ANALYZED, COMPANION_TRUNCATED, BINARY_METADATA, UNRESOLVED_SOURCE,
     UNRESOLVED_PARSE_TIME, SNAPSHOT_REFUSED, UPSTREAM_MANIFEST_INCOMPLETE,
     UNPINNED_BUILD_DEPS, DEPS_NOT_SCANNED, PARENT_BASELINE, RULESET_DRIFTED,
     STAGE_DEGRADED, NOEXTRACT_SUPPRESSED]"
  by (simp add: signal_table_def)

lemma gaps_from_distinct: "distinct (gaps_from s)"
proof -
  have "distinct (map snd (signal_table s))"
    unfolding signal_table_gaps by (simp add: gap_names)
  then show ?thesis
    unfolding gaps_from_table by (rule distinct_map_filter)
qed

lemma gaps_from_subset: "set (gaps_from s) \<subseteq> set GAPS"
proof -
  have "set (gaps_from s) \<subseteq> set (map snd (signal_table s))"
    by (auto simp: gaps_from_table)
  also have "\<dots> \<subseteq> set GAPS"
    by (simp add: signal_table_gaps GAPS_def)
  finally show ?thesis .
qed

lemma gaps_from_member: "g \<in> set (gaps_from s) \<longleftrightarrow> (True, g) \<in> set (signal_table s)"
  by (force simp: gaps_from_table)

lemma gaps_from_empty: "gaps_from s = [] \<longleftrightarrow> (\<forall>(b, g) \<in> set (signal_table s). \<not> b)"
  by (auto simp: gaps_from_table filter_empty_conv)

lemma GAPS_explained: "g \<in> set GAPS \<Longrightarrow> map_of GAP_REASONS g \<noteq> None"
  by (auto simp: GAPS_def GAP_REASONS_def gap_names)

lemma GAPS_inconclusive: "g \<in> set GAPS \<Longrightarrow> map_of GAP_INCONCLUSIVE_REASONS g \<noteq> None"
  by (auto simp: GAPS_def GAP_INCONCLUSIVE_REASONS_def gap_names)

lemma fail_closed_cases:
  "fail_closed level gaps bd = level \<or> fail_closed level gaps bd = ''Inconclusive''"
  by (simp add: fail_closed_def)

text \<open>What the run failed to read is recorded once and only when it happened.  The gap list has
  no duplicates, names declared gaps only, and is empty exactly when every signal of the run is
  clear: nothing truncated, no partial hunk or file, no over-long line, the tree and companion
  files read, every source and substitution resolved, no stage degraded.\<close>

theorem gaps_complete:
  "distinct (gaps_from s) \<and> set (gaps_from s) \<subseteq> set GAPS \<and>
   (gaps_from s = [] \<longleftrightarrow>
      \<not> sig_diff_truncated s \<and> \<not> sig_scan_truncated s \<and> partial_hunks s = 0 \<and>
      \<not> some_lines (partial_files s) \<and> long_lines s = 0 \<and> tree_analyzed s \<and>
      \<not> companion_truncated s \<and> \<not> binary_metadata s \<and> \<not> some_lines (unresolved_sources s) \<and>
      \<not> some_lines (parse_time_substitutions s) \<and> \<not> snapshot_refused s \<and>
      \<not> upstream_manifest_incomplete s \<and> \<not> unpinned_build_deps s \<and> \<not> deps_not_scanned s \<and>
      \<not> parent_baseline s \<and> \<not> ruleset_drifted s \<and> \<not> some_lines (degraded_stages s) \<and>
      \<not> unresolved_assignments s \<and> \<not> noextract_present s)"
  by (intro conjI gaps_from_distinct gaps_from_subset,
      cases "sig_diff_truncated s"; cases "sig_scan_truncated s")
     (simp_all add: gaps_from_empty signal_table_def conj_ac)

end
