(* ===== verification/Categories.thy ===== *)
theory Categories
  imports TS_Prelude "HOL-Library.Char_ord" "HOL-Library.List_Lexorder"
begin

text \<open>
  The rule taxonomy (\<^verbatim>\<open>categories.py\<close>) and the rename history of rule ids
  (\<^verbatim>\<open>rule_id_history.py\<close>).  \<open>RULE_CATEGORIES\<close> is the source's table, section by section,
  as an association list; \<open>category_of\<close> and \<open>rules_in\<close> read it.  The lemmas decide the table's
  own invariants (ids are unique, upper case and well-formed) once, so that the layer and
  registry theories need not evaluate it again.
\<close>

section \<open>Categories\<close>

datatype rule_category =
    FETCH_AND_EXECUTION
  | OBFUSCATION
  | DECEPTION
  | INSTALL_AND_PERSIST
  | STAGING_AND_RECON
  | INTEGRITY
  | NAMING_AND_DEPENDENCY
  | MAINTAINER_AND_METADATA
  | TEMPORAL
  | COMPOSITION
  | COUNT_BASED
  | CORPUS_BEHAVIORAL
  | CROSSFIRE
  | SABOTAGE
  | UNVERIFIABLE
  | META
  | ENTROPY
  | CORRELATION
  | ARTIFACT
  | INDICATOR
  | UPSTREAM_MANIFESTS
  | UPSTREAM_RELEASE

fun slug :: "rule_category \<Rightarrow> string" where
  "slug FETCH_AND_EXECUTION = ''fetch-and-execution''"
| "slug OBFUSCATION = ''obfuscation''"
| "slug DECEPTION = ''deception''"
| "slug INSTALL_AND_PERSIST = ''install-and-persist''"
| "slug STAGING_AND_RECON = ''staging-and-recon''"
| "slug INTEGRITY = ''integrity''"
| "slug NAMING_AND_DEPENDENCY = ''naming-and-dependency''"
| "slug MAINTAINER_AND_METADATA = ''maintainer-and-metadata''"
| "slug TEMPORAL = ''temporal''"
| "slug COMPOSITION = ''composition''"
| "slug COUNT_BASED = ''count-based''"
| "slug CORPUS_BEHAVIORAL = ''corpus-behavioral''"
| "slug CROSSFIRE = ''crossfire''"
| "slug SABOTAGE = ''sabotage''"
| "slug UNVERIFIABLE = ''unverifiable''"
| "slug META = ''meta''"
| "slug ENTROPY = ''entropy''"
| "slug CORRELATION = ''correlation''"
| "slug ARTIFACT = ''artifact''"
| "slug INDICATOR = ''indicator''"
| "slug UPSTREAM_MANIFESTS = ''upstream-manifests''"
| "slug UPSTREAM_RELEASE = ''upstream-release''"

definition doc_page :: "rule_category \<Rightarrow> string" where
  "doc_page c = slug c @ ''.md''"

fun category_title :: "rule_category \<Rightarrow> string" where
  "category_title FETCH_AND_EXECUTION = ''Fetch and Execution''"
| "category_title OBFUSCATION = ''Obfuscation''"
| "category_title DECEPTION = ''Deception and Anti-Analysis''"
| "category_title INSTALL_AND_PERSIST = ''Install and Persistence''"
| "category_title STAGING_AND_RECON = ''Staging and Reconnaissance''"
| "category_title INTEGRITY = ''Integrity and Verification''"
| "category_title NAMING_AND_DEPENDENCY = ''Naming and Dependencies''"
| "category_title MAINTAINER_AND_METADATA = ''Maintainer and Metadata''"
| "category_title TEMPORAL = ''Temporal Context''"
| "category_title COMPOSITION = ''Composition''"
| "category_title COUNT_BASED = ''Count-Based''"
| "category_title CORPUS_BEHAVIORAL = ''Corpus Behavioral''"
| "category_title CROSSFIRE = ''Crossfire''"
| "category_title SABOTAGE = ''Sabotage''"
| "category_title UNVERIFIABLE = ''Unverifiable''"
| "category_title META = ''Meta and Confluence''"
| "category_title ENTROPY = ''Entropy''"
| "category_title CORRELATION = ''Correlation''"
| "category_title ARTIFACT = ''Artifact''"
| "category_title INDICATOR = ''Indicators''"
| "category_title UPSTREAM_MANIFESTS = ''Upstream Manifests''"
| "category_title UPSTREAM_RELEASE = ''Upstream Release Integrity''"

fun category_summary :: "rule_category \<Rightarrow> string" where
  "category_summary FETCH_AND_EXECUTION =
      ''Code reaches the machine and runs: a fetch, an execution, or the path between the two.''"
| "category_summary OBFUSCATION =
      ''The recipe hides what it does from a reader by encoding, indirection, or runtime assembly.''"
| "category_summary DECEPTION =
      ''The recipe targets whoever reviews it rather than the shell that runs it, or checks whether '' @
      ''it is being watched.''"
| "category_summary INSTALL_AND_PERSIST =
      ''Something survives the build: a root-time hook, a unit, a privileged bit, a file in the '' @
      ''user'' @ [SQ] @ ''s profile.''"
| "category_summary STAGING_AND_RECON =
      ''The build steps outside its staging roots, hides a drop, or profiles the host it is running '' @
      ''on.''"
| "category_summary INTEGRITY =
      ''A verification the recipe used to carry is weakened, removed, or cannot cover what it claims'' @
      '' to.''"
| "category_summary NAMING_AND_DEPENDENCY =
      ''A name is claimed or a dependency set changes in a way that redirects what gets installed.''"
| "category_summary MAINTAINER_AND_METADATA =
      ''Who owns the package, or a long-stable declared property, changed.''"
| "category_summary TEMPORAL =
      ''How recently the package or this revision appeared, independent of any diff content.''"
| "category_summary COMPOSITION =
      ''Distinct kinds of finding co-occurred; the combination is the signal. H027 and H043 annotate'' @
      '' at weight 0; H098 scores the naming/deception cluster.''"
| "category_summary COUNT_BASED =
      ''A count of indicators crossed a fixed threshold within one artifact or one cluster.''"
| "category_summary CORPUS_BEHAVIORAL =
      ''The package'' @ [SQ] @ ''s position in, or deviation from, the corpus baseline - silent without prior '' @
      ''observations.''"
| "category_summary CROSSFIRE =
      ''The evasion technique itself, not the payload it hides: a rule here fires on how a thing was'' @
      '' written rather than on what it does.''"
| "category_summary SABOTAGE =
      ''A payload aimed at the operator'' @ [SQ] @ ''s machine rather than at getting something out of it: '' @
      ''resource exhaustion, deletion, permission sabotage, service disruption, resource theft.''"
| "category_summary UNVERIFIABLE =
      ''Not a claim about the recipe but about the analysis: something the package will run that '' @
      ''this run could not read. Weight 0 always, and always shown.''"
| "category_summary META =
      ''A claim about other findings: a declared practice contradicted by structure, or a '' @
      ''composition only visible from the whole profile.''"
| "category_summary ENTROPY =
      ''The added content is statistically abnormal - a distribution outlier, not a known pattern. '' @
      ''Suspicion, never a verdict.''"
| "category_summary CORRELATION =
      ''The pattern is across packages, not inside one: a host, literal or adopter shared by several'' @
      '' packages in a window.''"
| "category_summary ARTIFACT =
      ''The built package does not match the recipe: the L9 artifact layer, off by default, never '' @
      ''blended into the static score.''"
| "category_summary INDICATOR =
      ''A declared surface matches an entry in signed external data: the IOC list, or a federated '' @
      ''publisher'' @ [SQ] @ ''s indicator set.  Outside the heuristic score and alerted at maximum priority.''"
| "category_summary UPSTREAM_MANIFESTS =
      ''A committed dependency manifest changed: a dependency moved, a new remote source entered the'' @
      '' recipe'' @ [SQ] @ ''s reach, or the resolver is being redirected.  Read from the repository, never '' @
      ''fetched.''"
| "category_summary UPSTREAM_RELEASE =
      ''What a recipe declares about upstream - its URL, its sources, their access mode - and the CI'' @
      '' surface it commits.  Upstream content is never read (A2/A8); the CI exfil and history-sweep'' @
      '' shapes arrive over the signed federation channel instead.''"

section \<open>The table\<close>

definition rules_fetch_and_execution_1 :: "(string \<times> rule_category) list" where
  "rules_fetch_and_execution_1 = [
    (''R001'', FETCH_AND_EXECUTION), (''R002'', FETCH_AND_EXECUTION),
    (''H003'', FETCH_AND_EXECUTION), (''R008'', FETCH_AND_EXECUTION),
    (''H004'', FETCH_AND_EXECUTION), (''R010'', FETCH_AND_EXECUTION),
    (''R011'', FETCH_AND_EXECUTION), (''H009'', FETCH_AND_EXECUTION),
    (''H011'', FETCH_AND_EXECUTION), (''R041'', FETCH_AND_EXECUTION),
    (''R042'', FETCH_AND_EXECUTION), (''R044'', FETCH_AND_EXECUTION),
    (''R046'', FETCH_AND_EXECUTION), (''R047'', FETCH_AND_EXECUTION),
    (''R048'', FETCH_AND_EXECUTION), (''R152'', FETCH_AND_EXECUTION),
    (''R051'', FETCH_AND_EXECUTION), (''R055'', FETCH_AND_EXECUTION),
    (''R056'', FETCH_AND_EXECUTION), (''R057'', FETCH_AND_EXECUTION)]"

definition rules_fetch_and_execution_2 :: "(string \<times> rule_category) list" where
  "rules_fetch_and_execution_2 = [
    (''H015'', FETCH_AND_EXECUTION), (''H016'', FETCH_AND_EXECUTION),
    (''H031'', FETCH_AND_EXECUTION), (''H034'', FETCH_AND_EXECUTION),
    (''H041'', FETCH_AND_EXECUTION), (''H068'', FETCH_AND_EXECUTION),
    (''H069'', FETCH_AND_EXECUTION), (''H071'', FETCH_AND_EXECUTION),
    (''H072'', FETCH_AND_EXECUTION), (''H075'', FETCH_AND_EXECUTION),
    (''H077'', FETCH_AND_EXECUTION), (''H081'', FETCH_AND_EXECUTION),
    (''H082'', FETCH_AND_EXECUTION), (''H083'', FETCH_AND_EXECUTION),
    (''C007'', FETCH_AND_EXECUTION)]"

definition rules_obfuscation :: "(string \<times> rule_category) list" where
  "rules_obfuscation = [
    (''R003'', OBFUSCATION), (''H014'', OBFUSCATION), (''R039'', OBFUSCATION),
    (''R040'', OBFUSCATION), (''R043'', OBFUSCATION), (''R045'', OBFUSCATION),
    (''H065'', OBFUSCATION), (''H080'', OBFUSCATION)]"

definition rules_deception_and_anti_analysis :: "(string \<times> rule_category) list" where
  "rules_deception_and_anti_analysis = [
    (''R012'', DECEPTION), (''R013'', DECEPTION), (''H012'', DECEPTION), (''H013'', DECEPTION),
    (''H067'', DECEPTION), (''C012'', DECEPTION)]"

definition rules_install_and_persistence :: "(string \<times> rule_category) list" where
  "rules_install_and_persistence = [
    (''R007'', INSTALL_AND_PERSIST), (''R017'', INSTALL_AND_PERSIST),
    (''R052'', INSTALL_AND_PERSIST), (''R053'', INSTALL_AND_PERSIST),
    (''R054'', INSTALL_AND_PERSIST), (''R059'', INSTALL_AND_PERSIST),
    (''H017'', INSTALL_AND_PERSIST), (''H023'', INSTALL_AND_PERSIST),
    (''H032'', INSTALL_AND_PERSIST), (''H035'', INSTALL_AND_PERSIST),
    (''H106'', NAMING_AND_DEPENDENCY), (''H107'', FETCH_AND_EXECUTION),
    (''H108'', INSTALL_AND_PERSIST), (''H039'', INSTALL_AND_PERSIST),
    (''H062'', INSTALL_AND_PERSIST), (''H084'', INSTALL_AND_PERSIST)]"

definition rules_staging_and_reconnaissance_1 :: "(string \<times> rule_category) list" where
  "rules_staging_and_reconnaissance_1 = [
    (''H007'', STAGING_AND_RECON), (''H010'', STAGING_AND_RECON), (''R058'', STAGING_AND_RECON),
    (''H038'', STAGING_AND_RECON), (''H040'', STAGING_AND_RECON), (''H042'', STAGING_AND_RECON),
    (''H076'', STAGING_AND_RECON), (''H085'', STAGING_AND_RECON),
    (''H086'', MAINTAINER_AND_METADATA), (''H087'', INTEGRITY),
    (''H088'', MAINTAINER_AND_METADATA), (''H105'', MAINTAINER_AND_METADATA),
    (''R144'', INSTALL_AND_PERSIST), (''H089'', INSTALL_AND_PERSIST),
    (''H090'', FETCH_AND_EXECUTION), (''H091'', INTEGRITY), (''H092'', INTEGRITY),
    (''H103'', INTEGRITY), (''H099'', INTEGRITY), (''H101'', INTEGRITY)]"

definition rules_staging_and_reconnaissance_2 :: "(string \<times> rule_category) list" where
  "rules_staging_and_reconnaissance_2 = [
    (''H093'', INSTALL_AND_PERSIST), (''H094'', FETCH_AND_EXECUTION),
    (''H095'', INSTALL_AND_PERSIST), (''H100'', INSTALL_AND_PERSIST), (''H102'', COMPOSITION),
    (''W001'', UNVERIFIABLE), (''W002'', UNVERIFIABLE), (''W003'', UNVERIFIABLE),
    (''W004'', UNVERIFIABLE), (''W005'', UNVERIFIABLE), (''W006'', UNVERIFIABLE),
    (''W007'', UNVERIFIABLE), (''W008'', UNVERIFIABLE), (''W009'', UNVERIFIABLE),
    (''W010'', UNVERIFIABLE), (''W011'', UNVERIFIABLE), (''W012'', UNVERIFIABLE),
    (''W013'', UNVERIFIABLE), (''U001'', UPSTREAM_MANIFESTS), (''U002'', UPSTREAM_MANIFESTS)]"

definition rules_staging_and_reconnaissance_3 :: "(string \<times> rule_category) list" where
  "rules_staging_and_reconnaissance_3 = [
    (''U003'', UPSTREAM_MANIFESTS), (''U004'', UPSTREAM_MANIFESTS),
    (''U005'', UPSTREAM_MANIFESTS), (''U006'', UPSTREAM_MANIFESTS),
    (''U011'', UPSTREAM_MANIFESTS), (''U012'', UPSTREAM_MANIFESTS), (''U007'', UPSTREAM_RELEASE),
    (''U008'', UPSTREAM_RELEASE), (''U009'', UPSTREAM_RELEASE), (''U010'', UPSTREAM_RELEASE),
    (''M001'', META), (''M002'', META), (''M003'', META), (''M004'', META), (''M005'', META),
    (''M006'', META), (''E001'', ENTROPY), (''E002'', ENTROPY), (''E003'', ENTROPY),
    (''T001'', TEMPORAL)]"

definition rules_staging_and_reconnaissance_4 :: "(string \<times> rule_category) list" where
  "rules_staging_and_reconnaissance_4 = [
    (''T002'', TEMPORAL), (''T003'', TEMPORAL), (''T004'', TEMPORAL), (''T005'', TEMPORAL),
    (''T006'', TEMPORAL), (''T007'', TEMPORAL), (''G001'', CORRELATION), (''G002'', CORRELATION),
    (''G003'', CORRELATION), (''G004'', CORRELATION), (''G005'', CORRELATION),
    (''G006'', CORRELATION), (''G007'', CORRELATION), (''G008'', CORRELATION),
    (''G009'', CORRELATION), (''G010'', CORRELATION), (''G011'', CORRELATION),
    (''G012'', CORRELATION), (''G013'', CORRELATION), (''G014'', CORRELATION)]"

definition rules_staging_and_reconnaissance_5 :: "(string \<times> rule_category) list" where
  "rules_staging_and_reconnaissance_5 = [
    (''A001'', ARTIFACT), (''A002'', ARTIFACT), (''A003'', ARTIFACT), (''A004'', ARTIFACT),
    (''A005'', ARTIFACT), (''A006'', ARTIFACT), (''A007'', ARTIFACT), (''A008'', ARTIFACT),
    (''X001'', CROSSFIRE), (''X002'', CROSSFIRE), (''X003'', CROSSFIRE), (''X004'', CROSSFIRE),
    (''X005'', CROSSFIRE), (''X006'', CROSSFIRE), (''X007'', CROSSFIRE), (''X008'', CROSSFIRE),
    (''X009'', CROSSFIRE), (''X010'', CROSSFIRE), (''X011'', CROSSFIRE), (''X012'', CROSSFIRE)]"

definition rules_staging_and_reconnaissance_6 :: "(string \<times> rule_category) list" where
  "rules_staging_and_reconnaissance_6 = [
    (''X013'', CROSSFIRE), (''X014'', CROSSFIRE), (''X015'', CROSSFIRE), (''X016'', CROSSFIRE),
    (''X017'', CROSSFIRE), (''X018'', CROSSFIRE), (''X019'', CROSSFIRE), (''X020'', CROSSFIRE),
    (''X021'', CROSSFIRE), (''X022'', CROSSFIRE), (''X023'', CROSSFIRE), (''X024'', CROSSFIRE),
    (''X025'', CROSSFIRE), (''X026'', CROSSFIRE), (''X027'', CROSSFIRE), (''X028'', CROSSFIRE),
    (''X029'', CROSSFIRE), (''X030'', CROSSFIRE), (''X031'', CROSSFIRE), (''X032'', CROSSFIRE)]"

definition rules_staging_and_reconnaissance_7 :: "(string \<times> rule_category) list" where
  "rules_staging_and_reconnaissance_7 = [
    (''X033'', CROSSFIRE), (''X034'', CROSSFIRE), (''S001'', SABOTAGE), (''S002'', SABOTAGE),
    (''S003'', SABOTAGE), (''S004'', SABOTAGE), (''S005'', SABOTAGE), (''S006'', SABOTAGE),
    (''S007'', SABOTAGE), (''S008'', SABOTAGE)]"

definition rules_integrity_and_verification_1 :: "(string \<times> rule_category) list" where
  "rules_integrity_and_verification_1 = [
    (''H001'', INTEGRITY), (''H002'', INTEGRITY), (''H005'', INTEGRITY), (''H008'', INTEGRITY),
    (''R049'', INTEGRITY), (''R050'', INTEGRITY), (''H018'', INTEGRITY), (''H019'', INTEGRITY),
    (''H024'', INTEGRITY), (''H025'', INTEGRITY), (''H033'', INTEGRITY), (''H047'', INTEGRITY),
    (''H066'', INTEGRITY), (''H070'', INTEGRITY), (''H078'', INTEGRITY), (''H079'', INTEGRITY),
    (''R078'', INTEGRITY), (''R091'', INTEGRITY), (''R099'', INTEGRITY), (''R104'', INTEGRITY)]"

definition rules_integrity_and_verification_2 :: "(string \<times> rule_category) list" where
  "rules_integrity_and_verification_2 = [
    (''H096'', INTEGRITY), (''H097'', INTEGRITY), (''C001'', INTEGRITY), (''C002'', INTEGRITY),
    (''C003'', INTEGRITY), (''C004'', INTEGRITY), (''C005'', INTEGRITY), (''C008'', INTEGRITY),
    (''C009'', INTEGRITY), (''C010'', INTEGRITY), (''C011'', INTEGRITY), (''C013'', INTEGRITY),
    (''C014'', INTEGRITY), (''C018'', INTEGRITY), (''C019'', INTEGRITY), (''C020'', INTEGRITY),
    (''C022'', INTEGRITY), (''C015'', FETCH_AND_EXECUTION), (''C016'', FETCH_AND_EXECUTION),
    (''C021'', COMPOSITION)]"

definition rules_integrity_and_verification_3 :: "(string \<times> rule_category) list" where
  "rules_integrity_and_verification_3 = [
    (''C024'', COMPOSITION), (''C023'', INTEGRITY), (''C017'', INSTALL_AND_PERSIST),
    (''C025'', STAGING_AND_RECON), (''C028'', STAGING_AND_RECON), (''C026'', INTEGRITY),
    (''C027'', INTEGRITY), (''C029'', INSTALL_AND_PERSIST), (''C030'', MAINTAINER_AND_METADATA),
    (''C031'', INSTALL_AND_PERSIST), (''C032'', INSTALL_AND_PERSIST), (''C033'', INTEGRITY),
    (''C034'', MAINTAINER_AND_METADATA)]"

definition rules_naming_and_dependencies :: "(string \<times> rule_category) list" where
  "rules_naming_and_dependencies = [
    (''H006'', NAMING_AND_DEPENDENCY), (''H029'', NAMING_AND_DEPENDENCY),
    (''H104'', NAMING_AND_DEPENDENCY), (''H048'', NAMING_AND_DEPENDENCY),
    (''H053'', NAMING_AND_DEPENDENCY), (''H059'', NAMING_AND_DEPENDENCY),
    (''H064'', NAMING_AND_DEPENDENCY), (''D001'', NAMING_AND_DEPENDENCY),
    (''D002'', NAMING_AND_DEPENDENCY), (''D003'', NAMING_AND_DEPENDENCY),
    (''D004'', NAMING_AND_DEPENDENCY), (''D005'', NAMING_AND_DEPENDENCY)]"

definition rules_maintainer_and_metadata :: "(string \<times> rule_category) list" where
  "rules_maintainer_and_metadata = [
    (''H026'', MAINTAINER_AND_METADATA), (''H037'', MAINTAINER_AND_METADATA),
    (''H044'', MAINTAINER_AND_METADATA), (''H049'', MAINTAINER_AND_METADATA),
    (''H050'', MAINTAINER_AND_METADATA), (''H051'', MAINTAINER_AND_METADATA),
    (''H054'', MAINTAINER_AND_METADATA), (''H058'', MAINTAINER_AND_METADATA),
    (''H063'', MAINTAINER_AND_METADATA), (''H074'', MAINTAINER_AND_METADATA),
    (''C006'', MAINTAINER_AND_METADATA)]"

definition rules_temporal_context :: "(string \<times> rule_category) list" where
  "rules_temporal_context = [
    (''H020'', TEMPORAL), (''H021'', TEMPORAL), (''H022'', TEMPORAL)]"

definition rules_composition :: "(string \<times> rule_category) list" where
  "rules_composition = [
    (''H027'', COMPOSITION), (''H043'', COMPOSITION), (''H098'', COMPOSITION)]"

definition rules_count_based :: "(string \<times> rule_category) list" where
  "rules_count_based = [
    (''H030'', COUNT_BASED), (''H036'', COUNT_BASED), (''H045'', COUNT_BASED),
    (''H052'', COUNT_BASED), (''H055'', COUNT_BASED)]"

definition rules_corpus_behavioral :: "(string \<times> rule_category) list" where
  "rules_corpus_behavioral = [
    (''H028'', CORPUS_BEHAVIORAL), (''H046'', CORPUS_BEHAVIORAL), (''H056'', INDICATOR),
    (''H057'', CORPUS_BEHAVIORAL), (''H060'', CORPUS_BEHAVIORAL), (''H061'', CORPUS_BEHAVIORAL),
    (''H073'', CORPUS_BEHAVIORAL)]"

definition RULE_CATEGORIES :: "(string \<times> rule_category) list" where
  "RULE_CATEGORIES = rules_fetch_and_execution_1 @
     rules_fetch_and_execution_2 @
     rules_obfuscation @
     rules_deception_and_anti_analysis @
     rules_install_and_persistence @
     rules_staging_and_reconnaissance_1 @
     rules_staging_and_reconnaissance_2 @
     rules_staging_and_reconnaissance_3 @
     rules_staging_and_reconnaissance_4 @
     rules_staging_and_reconnaissance_5 @
     rules_staging_and_reconnaissance_6 @
     rules_staging_and_reconnaissance_7 @
     rules_integrity_and_verification_1 @
     rules_integrity_and_verification_2 @
     rules_integrity_and_verification_3 @
     rules_naming_and_dependencies @
     rules_maintainer_and_metadata @
     rules_temporal_context @
     rules_composition @
     rules_count_based @
     rules_corpus_behavioral"

lemmas category_tables =
  RULE_CATEGORIES_def rules_fetch_and_execution_1_def
  rules_fetch_and_execution_2_def
  rules_obfuscation_def
  rules_deception_and_anti_analysis_def
  rules_install_and_persistence_def
  rules_staging_and_reconnaissance_1_def
  rules_staging_and_reconnaissance_2_def
  rules_staging_and_reconnaissance_3_def
  rules_staging_and_reconnaissance_4_def
  rules_staging_and_reconnaissance_5_def
  rules_staging_and_reconnaissance_6_def
  rules_staging_and_reconnaissance_7_def
  rules_integrity_and_verification_1_def
  rules_integrity_and_verification_2_def
  rules_integrity_and_verification_3_def
  rules_naming_and_dependencies_def
  rules_maintainer_and_metadata_def
  rules_temporal_context_def
  rules_composition_def
  rules_count_based_def
  rules_corpus_behavioral_def

definition category_of :: "string \<Rightarrow> rule_category option" where
  "category_of rule_id = map_of RULE_CATEGORIES (py_upper rule_id)"

definition rules_in :: "rule_category \<Rightarrow> string list" where
  "rules_in category = sort (map fst (filter (\<lambda>(rid, cat). cat = category) RULE_CATEGORIES))"

section \<open>Rename history\<close>

definition ANCHOR_RULE_IDS :: "string list" where
  "ANCHOR_RULE_IDS = [
     ''H005'', ''H006'', ''H007'', ''H008'', ''H009'', ''H010'', ''H011'', ''H012'',
     ''H013'', ''H014'', ''H028'']"

text \<open>\<^verbatim>\<open>f"H{n:03d}"\<close> for n from 1 to 108.\<close>

definition pad3 :: "nat \<Rightarrow> string" where
  "pad3 n = (let d = show_nat n in replicate (3 - length d) (CHR ''0'') @ d)"

definition FROZEN_H_IDS :: "string list" where
  "FROZEN_H_IDS = map (\<lambda>n. ''H'' @ pad3 n) [1..<109]"

definition RETIRED_RULE_IDS :: "string dict" where
  "RETIRED_RULE_IDS = []"

definition RENAMED_RULE_IDS :: "string dict" where
  "RENAMED_RULE_IDS = [
    (''R004'', ''H001''), (''R005'', ''H002''), (''R006'', ''H003''), (''R009'', ''H004''),
    (''R014'', ''H005''), (''R016'', ''H006''), (''R018'', ''H007''), (''R019'', ''H008''),
    (''R020'', ''H009''), (''R021'', ''H010''), (''R022'', ''H011''), (''R023'', ''H012''),
    (''R024'', ''H013''), (''R025'', ''H014''), (''R060'', ''H015''), (''R061'', ''H016''),
    (''R062'', ''H017''), (''R063'', ''H018''), (''R064'', ''H019''), (''R065'', ''H020''),
    (''R066'', ''H021''), (''R067'', ''H022''), (''R068'', ''H023''), (''R069'', ''H024''),
    (''R070'', ''H025''), (''R071'', ''H026''), (''R072'', ''H027''), (''R073'', ''H028''),
    (''R074'', ''H029''), (''R075'', ''H030''), (''R076'', ''H031''), (''R077'', ''H032''),
    (''R079'', ''H033''), (''R080'', ''H034''), (''R081'', ''H035''), (''R082'', ''H036''),
    (''R083'', ''H037''), (''R084'', ''H038''), (''R085'', ''H039''), (''R086'', ''H040''),
    (''R087'', ''H041''), (''R088'', ''H042''), (''R089'', ''H043''), (''R090'', ''H044''),
    (''R092'', ''H045''), (''R093'', ''H046''), (''R094'', ''H047''), (''R095'', ''H048''),
    (''R096'', ''H049''), (''R097'', ''H050''), (''R098'', ''H051''), (''R100'', ''H052''),
    (''R101'', ''H053''), (''R102'', ''H054''), (''R105'', ''H055''), (''R106'', ''H056''),
    (''R107'', ''H057''), (''R108'', ''H058''), (''R110'', ''H059''), (''R111'', ''H060''),
    (''R112'', ''H061''), (''R114'', ''H062''), (''R115'', ''H063''), (''R116'', ''H064''),
    (''R117'', ''H065''), (''R118'', ''H066''), (''R119'', ''H067''), (''R120'', ''H068''),
    (''R121'', ''H069''), (''R122'', ''H070''), (''R123'', ''H071''), (''R124'', ''H072''),
    (''R125'', ''H073''), (''R126'', ''H074''), (''R127'', ''H075''), (''R128'', ''H076''),
    (''R129'', ''H077''), (''R130'', ''H078''), (''R131'', ''H079''), (''R132'', ''H080''),
    (''R136'', ''H081''), (''R137'', ''H082''), (''R138'', ''H083''), (''R139'', ''H084''),
    (''R140'', ''H085''), (''R141'', ''H086''), (''R142'', ''H087''), (''R143'', ''H088''),
    (''R145'', ''H089''), (''R146'', ''H090''), (''R147'', ''H091''), (''R148'', ''H092''),
    (''R149'', ''H093''), (''R150'', ''H094''), (''R151'', ''H095'')]"

definition survivor_id :: "string \<Rightarrow> string" where
  "survivor_id rule_id =
     (let resolved = dict_get RETIRED_RULE_IDS rule_id rule_id
      in dict_get RENAMED_RULE_IDS resolved resolved)"

definition current_id :: "string \<Rightarrow> string" where
  "current_id rule_id = dict_get RENAMED_RULE_IDS rule_id rule_id"

section \<open>Deciding the tables\<close>

text \<open>
  Every id is read as a number in base 256, so that membership in a table of some three
  hundred ids is decided on numerals, one section of the table at a time.
\<close>

definition rid_code :: "string \<Rightarrow> nat" where
  "rid_code s = foldl (\<lambda>n c. 256 * n + of_char c) 0 s"

lemma rid_code_snoc: "rid_code (s @ [c]) = 256 * rid_code s + of_char c"
  by (simp add: rid_code_def)

lemma rid_code_inj: "length s = length t \<Longrightarrow> rid_code s = rid_code t \<Longrightarrow> s = t"
proof (induction s arbitrary: t rule: rev_induct)
  case Nil
  then show ?case by simp
next
  case (snoc c s)
  from snoc.prems(1) obtain u d where t: "t = u @ [d]" and len: "length s = length u"
    by (cases t rule: rev_cases) auto
  from snoc.prems(2) t have eq: "256 * rid_code s + of_char c = 256 * rid_code u + of_char d"
    by (simp add: rid_code_snoc)
  from arg_cong [OF eq, of "\<lambda>n. n div 256"] have "rid_code s = rid_code u" by simp
  with eq snoc.IH [OF len] t show ?case by simp
qed

definition id_codes :: "(string \<times> 'v) list \<Rightarrow> nat list" where
  "id_codes t = map (\<lambda>(r, _). rid_code r) t"

definition ids4 :: "(string \<times> 'v) list \<Rightarrow> bool" where
  "ids4 t = list_all (\<lambda>(r, _). length r = 4) t"

lemma id_codes_append: "id_codes (s @ t) = id_codes s @ id_codes t"
  and ids4_append: "ids4 (s @ t) \<longleftrightarrow> ids4 s \<and> ids4 t"
  by (simp_all add: id_codes_def ids4_def)

lemma listed_iff_code:
  assumes "ids4 t" and "length r = 4"
  shows "r \<in> fst ` set t \<longleftrightarrow> rid_code r \<in> set (id_codes t)"
proof
  assume "rid_code r \<in> set (id_codes t)"
  then obtain q c where q: "(q, c) \<in> set t" and eq: "rid_code q = rid_code r"
    by (auto simp: id_codes_def)
  with assms(1) have "length q = 4" by (auto simp: ids4_def list_all_iff)
  with assms(2) eq have "q = r" by (intro rid_code_inj) simp_all
  with q show "r \<in> fst ` set t" by force
qed (force simp: id_codes_def)

lemma rules_fetch_and_execution_1_codes: "id_codes rules_fetch_and_execution_1 = [
     1378889777, 1378889778, 1211117619, 1378889784, 1211117620, 1378890032, 1378890033, 1211117625,
     1211117873, 1378890801, 1378890802, 1378890804, 1378890806, 1378890807, 1378890808, 1378956594,
     1378891057, 1378891061, 1378891062, 1378891063]" and rules_fetch_and_execution_1_ids4: "ids4 rules_fetch_and_execution_1"
  by (simp_all add: rules_fetch_and_execution_1_def id_codes_def ids4_def rid_code_def)

lemma rules_fetch_and_execution_2_codes: "id_codes rules_fetch_and_execution_2 = [
     1211117877, 1211117878, 1211118385, 1211118388, 1211118641, 1211119160, 1211119161, 1211119409,
     1211119410, 1211119413, 1211119415, 1211119665, 1211119666, 1211119667, 1127231543]" and rules_fetch_and_execution_2_ids4: "ids4 rules_fetch_and_execution_2"
  by (simp_all add: rules_fetch_and_execution_2_def id_codes_def ids4_def rid_code_def)

lemma rules_obfuscation_codes: "id_codes rules_obfuscation = [
     1378889779, 1211117876, 1378890553, 1378890800, 1378890803, 1378890805, 1211119157, 1211119664]" and rules_obfuscation_ids4: "ids4 rules_obfuscation"
  by (simp_all add: rules_obfuscation_def id_codes_def ids4_def rid_code_def)

lemma rules_deception_and_anti_analysis_codes: "id_codes rules_deception_and_anti_analysis = [
     1378890034, 1378890035, 1211117874, 1211117875, 1211119159, 1127231794]" and rules_deception_and_anti_analysis_ids4: "ids4 rules_deception_and_anti_analysis"
  by (simp_all add: rules_deception_and_anti_analysis_def id_codes_def ids4_def rid_code_def)

lemma rules_install_and_persistence_codes: "id_codes rules_install_and_persistence = [
     1378889783, 1378890039, 1378891058, 1378891059, 1378891060, 1378891065, 1211117879, 1211118131,
     1211118386, 1211118389, 1211183158, 1211183159, 1211183160, 1211118393, 1211119154, 1211119668]" and rules_install_and_persistence_ids4: "ids4 rules_install_and_persistence"
  by (simp_all add: rules_install_and_persistence_def id_codes_def ids4_def rid_code_def)

lemma rules_staging_and_reconnaissance_1_codes: "id_codes rules_staging_and_reconnaissance_1 = [
     1211117623, 1211117872, 1378891064, 1211118392, 1211118640, 1211118642, 1211119414, 1211119669,
     1211119670, 1211119671, 1211119672, 1211183157, 1378956340, 1211119673, 1211119920, 1211119921,
     1211119922, 1211183155, 1211119929, 1211183153]" and rules_staging_and_reconnaissance_1_ids4: "ids4 rules_staging_and_reconnaissance_1"
  by (simp_all add: rules_staging_and_reconnaissance_1_def id_codes_def ids4_def rid_code_def)

lemma rules_staging_and_reconnaissance_2_codes: "id_codes rules_staging_and_reconnaissance_2 = [
     1211119923, 1211119924, 1211119925, 1211183152, 1211183154, 1462775857, 1462775858, 1462775859,
     1462775860, 1462775861, 1462775862, 1462775863, 1462775864, 1462775865, 1462776112, 1462776113,
     1462776114, 1462776115, 1429221425, 1429221426]" and rules_staging_and_reconnaissance_2_ids4: "ids4 rules_staging_and_reconnaissance_2"
  by (simp_all add: rules_staging_and_reconnaissance_2_def id_codes_def ids4_def rid_code_def)

lemma rules_staging_and_reconnaissance_3_codes: "id_codes rules_staging_and_reconnaissance_3 = [
     1429221427, 1429221428, 1429221429, 1429221430, 1429221681, 1429221682, 1429221431, 1429221432,
     1429221433, 1429221680, 1295003697, 1295003698, 1295003699, 1295003700, 1295003701, 1295003702,
     1160785969, 1160785970, 1160785971, 1412444209]" and rules_staging_and_reconnaissance_3_ids4: "ids4 rules_staging_and_reconnaissance_3"
  by (simp_all add: rules_staging_and_reconnaissance_3_def id_codes_def ids4_def rid_code_def)

lemma rules_staging_and_reconnaissance_4_codes: "id_codes rules_staging_and_reconnaissance_4 = [
     1412444210, 1412444211, 1412444212, 1412444213, 1412444214, 1412444215, 1194340401, 1194340402,
     1194340403, 1194340404, 1194340405, 1194340406, 1194340407, 1194340408, 1194340409, 1194340656,
     1194340657, 1194340658, 1194340659, 1194340660]" and rules_staging_and_reconnaissance_4_ids4: "ids4 rules_staging_and_reconnaissance_4"
  by (simp_all add: rules_staging_and_reconnaissance_4_def id_codes_def ids4_def rid_code_def)

lemma rules_staging_and_reconnaissance_5_codes: "id_codes rules_staging_and_reconnaissance_5 = [
     1093677105, 1093677106, 1093677107, 1093677108, 1093677109, 1093677110, 1093677111, 1093677112,
     1479553073, 1479553074, 1479553075, 1479553076, 1479553077, 1479553078, 1479553079, 1479553080,
     1479553081, 1479553328, 1479553329, 1479553330]" and rules_staging_and_reconnaissance_5_ids4: "ids4 rules_staging_and_reconnaissance_5"
  by (simp_all add: rules_staging_and_reconnaissance_5_def id_codes_def ids4_def rid_code_def)

lemma rules_staging_and_reconnaissance_6_codes: "id_codes rules_staging_and_reconnaissance_6 = [
     1479553331, 1479553332, 1479553333, 1479553334, 1479553335, 1479553336, 1479553337, 1479553584,
     1479553585, 1479553586, 1479553587, 1479553588, 1479553589, 1479553590, 1479553591, 1479553592,
     1479553593, 1479553840, 1479553841, 1479553842]" and rules_staging_and_reconnaissance_6_ids4: "ids4 rules_staging_and_reconnaissance_6"
  by (simp_all add: rules_staging_and_reconnaissance_6_def id_codes_def ids4_def rid_code_def)

lemma rules_staging_and_reconnaissance_7_codes: "id_codes rules_staging_and_reconnaissance_7 = [
     1479553843, 1479553844, 1395666993, 1395666994, 1395666995, 1395666996, 1395666997, 1395666998,
     1395666999, 1395667000]" and rules_staging_and_reconnaissance_7_ids4: "ids4 rules_staging_and_reconnaissance_7"
  by (simp_all add: rules_staging_and_reconnaissance_7_def id_codes_def ids4_def rid_code_def)

lemma rules_integrity_and_verification_1_codes: "id_codes rules_integrity_and_verification_1 = [
     1211117617, 1211117618, 1211117621, 1211117624, 1378890809, 1378891056, 1211117880, 1211117881,
     1211118132, 1211118133, 1211118387, 1211118647, 1211119158, 1211119408, 1211119416, 1211119417,
     1378891576, 1378892081, 1378892089, 1378955316]" and rules_integrity_and_verification_1_ids4: "ids4 rules_integrity_and_verification_1"
  by (simp_all add: rules_integrity_and_verification_1_def id_codes_def ids4_def rid_code_def)

lemma rules_integrity_and_verification_2_codes: "id_codes rules_integrity_and_verification_2 = [
     1211119926, 1211119927, 1127231537, 1127231538, 1127231539, 1127231540, 1127231541, 1127231544,
     1127231545, 1127231792, 1127231793, 1127231795, 1127231796, 1127231800, 1127231801, 1127232048,
     1127232050, 1127231797, 1127231798, 1127232049]" and rules_integrity_and_verification_2_ids4: "ids4 rules_integrity_and_verification_2"
  by (simp_all add: rules_integrity_and_verification_2_def id_codes_def ids4_def rid_code_def)

lemma rules_integrity_and_verification_3_codes: "id_codes rules_integrity_and_verification_3 = [
     1127232052, 1127232051, 1127231799, 1127232053, 1127232056, 1127232054, 1127232055, 1127232057,
     1127232304, 1127232305, 1127232306, 1127232307, 1127232308]" and rules_integrity_and_verification_3_ids4: "ids4 rules_integrity_and_verification_3"
  by (simp_all add: rules_integrity_and_verification_3_def id_codes_def ids4_def rid_code_def)

lemma rules_naming_and_dependencies_codes: "id_codes rules_naming_and_dependencies = [
     1211117622, 1211118137, 1211183156, 1211118648, 1211118899, 1211118905, 1211119156, 1144008753,
     1144008754, 1144008755, 1144008756, 1144008757]" and rules_naming_and_dependencies_ids4: "ids4 rules_naming_and_dependencies"
  by (simp_all add: rules_naming_and_dependencies_def id_codes_def ids4_def rid_code_def)

lemma rules_maintainer_and_metadata_codes: "id_codes rules_maintainer_and_metadata = [
     1211118134, 1211118391, 1211118644, 1211118649, 1211118896, 1211118897, 1211118900, 1211118904,
     1211119155, 1211119412, 1127231542]" and rules_maintainer_and_metadata_ids4: "ids4 rules_maintainer_and_metadata"
  by (simp_all add: rules_maintainer_and_metadata_def id_codes_def ids4_def rid_code_def)

lemma rules_temporal_context_codes: "id_codes rules_temporal_context = [
     1211118128, 1211118129, 1211118130]" and rules_temporal_context_ids4: "ids4 rules_temporal_context"
  by (simp_all add: rules_temporal_context_def id_codes_def ids4_def rid_code_def)

lemma rules_composition_codes: "id_codes rules_composition = [
     1211118135, 1211118643, 1211119928]" and rules_composition_ids4: "ids4 rules_composition"
  by (simp_all add: rules_composition_def id_codes_def ids4_def rid_code_def)

lemma rules_count_based_codes: "id_codes rules_count_based = [
     1211118384, 1211118390, 1211118645, 1211118898, 1211118901]" and rules_count_based_ids4: "ids4 rules_count_based"
  by (simp_all add: rules_count_based_def id_codes_def ids4_def rid_code_def)

lemma rules_corpus_behavioral_codes: "id_codes rules_corpus_behavioral = [
     1211118136, 1211118646, 1211118902, 1211118903, 1211119152, 1211119153, 1211119411]" and rules_corpus_behavioral_ids4: "ids4 rules_corpus_behavioral"
  by (simp_all add: rules_corpus_behavioral_def id_codes_def ids4_def rid_code_def)

lemmas section_codes =
  rules_fetch_and_execution_1_codes
  rules_fetch_and_execution_2_codes
  rules_obfuscation_codes
  rules_deception_and_anti_analysis_codes
  rules_install_and_persistence_codes
  rules_staging_and_reconnaissance_1_codes
  rules_staging_and_reconnaissance_2_codes
  rules_staging_and_reconnaissance_3_codes
  rules_staging_and_reconnaissance_4_codes
  rules_staging_and_reconnaissance_5_codes
  rules_staging_and_reconnaissance_6_codes
  rules_staging_and_reconnaissance_7_codes
  rules_integrity_and_verification_1_codes
  rules_integrity_and_verification_2_codes
  rules_integrity_and_verification_3_codes
  rules_naming_and_dependencies_codes
  rules_maintainer_and_metadata_codes
  rules_temporal_context_codes
  rules_composition_codes
  rules_count_based_codes
  rules_corpus_behavioral_codes

lemmas section_ids4 =
  rules_fetch_and_execution_1_ids4
  rules_fetch_and_execution_2_ids4
  rules_obfuscation_ids4
  rules_deception_and_anti_analysis_ids4
  rules_install_and_persistence_ids4
  rules_staging_and_reconnaissance_1_ids4
  rules_staging_and_reconnaissance_2_ids4
  rules_staging_and_reconnaissance_3_ids4
  rules_staging_and_reconnaissance_4_ids4
  rules_staging_and_reconnaissance_5_ids4
  rules_staging_and_reconnaissance_6_ids4
  rules_staging_and_reconnaissance_7_ids4
  rules_integrity_and_verification_1_ids4
  rules_integrity_and_verification_2_ids4
  rules_integrity_and_verification_3_ids4
  rules_naming_and_dependencies_ids4
  rules_maintainer_and_metadata_ids4
  rules_temporal_context_ids4
  rules_composition_ids4
  rules_count_based_ids4
  rules_corpus_behavioral_ids4

lemma categories_ids4: "ids4 RULE_CATEGORIES"
  by (simp add: RULE_CATEGORIES_def ids4_append section_ids4)

lemmas categories_codes =
  RULE_CATEGORIES_def id_codes_append section_codes append_Cons append_Nil

lemma renamed_old_codes: "id_codes RENAMED_RULE_IDS = [
     1378889780, 1378889781, 1378889782, 1378889785, 1378890036, 1378890038, 1378890040, 1378890041,
     1378890288, 1378890289, 1378890290, 1378890291, 1378890292, 1378890293, 1378891312, 1378891313,
     1378891314, 1378891315, 1378891316, 1378891317, 1378891318, 1378891319, 1378891320, 1378891321,
     1378891568, 1378891569, 1378891570, 1378891571, 1378891572, 1378891573, 1378891574, 1378891575,
     1378891577, 1378891824, 1378891825, 1378891826, 1378891827, 1378891828, 1378891829, 1378891830,
     1378891831, 1378891832, 1378891833, 1378892080, 1378892082, 1378892083, 1378892084, 1378892085,
     1378892086, 1378892087, 1378892088, 1378955312, 1378955313, 1378955314, 1378955317, 1378955318,
     1378955319, 1378955320, 1378955568, 1378955569, 1378955570, 1378955572, 1378955573, 1378955574,
     1378955575, 1378955576, 1378955577, 1378955824, 1378955825, 1378955826, 1378955827, 1378955828,
     1378955829, 1378955830, 1378955831, 1378955832, 1378955833, 1378956080, 1378956081, 1378956082,
     1378956086, 1378956087, 1378956088, 1378956089, 1378956336, 1378956337, 1378956338, 1378956339,
     1378956341, 1378956342, 1378956343, 1378956344, 1378956345, 1378956592, 1378956593]"
  and renamed_ids4: "ids4 RENAMED_RULE_IDS"
  by (simp_all add: RENAMED_RULE_IDS_def id_codes_def ids4_def rid_code_def)

definition renamed_new :: "(string \<times> unit) list" where
  "renamed_new = map (\<lambda>(_, new). (new, ())) RENAMED_RULE_IDS"

lemma renamed_new_codes: "id_codes renamed_new = [
     1211117617, 1211117618, 1211117619, 1211117620, 1211117621, 1211117622, 1211117623, 1211117624,
     1211117625, 1211117872, 1211117873, 1211117874, 1211117875, 1211117876, 1211117877, 1211117878,
     1211117879, 1211117880, 1211117881, 1211118128, 1211118129, 1211118130, 1211118131, 1211118132,
     1211118133, 1211118134, 1211118135, 1211118136, 1211118137, 1211118384, 1211118385, 1211118386,
     1211118387, 1211118388, 1211118389, 1211118390, 1211118391, 1211118392, 1211118393, 1211118640,
     1211118641, 1211118642, 1211118643, 1211118644, 1211118645, 1211118646, 1211118647, 1211118648,
     1211118649, 1211118896, 1211118897, 1211118898, 1211118899, 1211118900, 1211118901, 1211118902,
     1211118903, 1211118904, 1211118905, 1211119152, 1211119153, 1211119154, 1211119155, 1211119156,
     1211119157, 1211119158, 1211119159, 1211119160, 1211119161, 1211119408, 1211119409, 1211119410,
     1211119411, 1211119412, 1211119413, 1211119414, 1211119415, 1211119416, 1211119417, 1211119664,
     1211119665, 1211119666, 1211119667, 1211119668, 1211119669, 1211119670, 1211119671, 1211119672,
     1211119673, 1211119920, 1211119921, 1211119922, 1211119923, 1211119924, 1211119925]"
  and renamed_new_ids4: "ids4 renamed_new"
  by (simp_all add: renamed_new_def RENAMED_RULE_IDS_def id_codes_def ids4_def rid_code_def)

lemma distinct_codes: "distinct (id_codes t) \<Longrightarrow> distinct (map fst t)"
  by (induction t) (force simp: id_codes_def)+

lemma subset_codes:
  assumes "ids4 s" "ids4 t" "set (id_codes s) \<subseteq> set (id_codes t)"
  shows "fst ` set s \<subseteq> fst ` set t"
proof
  fix r assume r: "r \<in> fst ` set s"
  with assms(1) have "length r = 4" by (auto simp: ids4_def list_all_iff)
  with r assms show "r \<in> fst ` set t" by (meson listed_iff_code subsetD)
qed

lemma disjoint_codes:
  assumes "ids4 s" "ids4 t" "set (id_codes s) \<inter> set (id_codes t) = {}"
  shows "fst ` set s \<inter> fst ` set t = {}"
proof (rule ccontr)
  assume "\<not> ?thesis"
  then obtain r where r: "r \<in> fst ` set s" "r \<in> fst ` set t" by blast
  with assms(1) have "length r = 4" by (auto simp: ids4_def list_all_iff)
  from listed_iff_code [OF assms(1) this] listed_iff_code [OF assms(2) this] r assms(3)
  show False by blast
qed

lemma renamed_old_distinct: "distinct (map fst RENAMED_RULE_IDS)"
  by (rule distinct_codes) (simp add: renamed_old_codes)

lemma renamed_new_distinct: "distinct (map snd RENAMED_RULE_IDS)"
proof -
  have "distinct (map fst renamed_new)"
    by (rule distinct_codes) (simp add: renamed_new_codes)
  then show ?thesis by (simp add: renamed_new_def comp_def case_prod_beta')
qed

lemma renamed_new_categorised: "fst ` set renamed_new \<subseteq> fst ` set RULE_CATEGORIES"
  by (rule subset_codes [OF renamed_new_ids4 categories_ids4])
     (simp add: renamed_new_codes categories_codes)

lemma renamed_old_uncategorised: "fst ` set RENAMED_RULE_IDS \<inter> fst ` set RULE_CATEGORIES = {}"
  by (rule disjoint_codes [OF renamed_ids4 categories_ids4])
     (simp add: renamed_old_codes categories_codes)


lemma current_id_listed:
  "current_id x = x \<and> x \<notin> fst ` set RENAMED_RULE_IDS \<or> current_id x \<in> fst ` set renamed_new"
proof (cases "map_of RENAMED_RULE_IDS x")
  case None
  then have "x \<notin> fst ` set RENAMED_RULE_IDS" by (simp add: map_of_eq_None_iff)
  with None show ?thesis by (simp add: current_id_def dict_get_def)
next
  case (Some y)
  then have "(x, y) \<in> set RENAMED_RULE_IDS" by (rule map_of_SomeD)
  with Some show ?thesis by (force simp: current_id_def dict_get_def renamed_new_def)
qed

lemma current_id_new: "y \<in> fst ` set renamed_new \<Longrightarrow> current_id y = y"
proof -
  assume "y \<in> fst ` set renamed_new"
  with renamed_new_categorised renamed_old_uncategorised
  have "y \<notin> fst ` set RENAMED_RULE_IDS" by blast
  then have "map_of RENAMED_RULE_IDS y = None" by (simp add: map_of_eq_None_iff)
  then show ?thesis by (simp add: current_id_def dict_get_def)
qed

lemma survivor_id_current: "survivor_id = current_id"
  by (simp add: fun_eq_iff survivor_id_def current_id_def RETIRED_RULE_IDS_def dict_get_def)

text \<open>C39: the rename history is closed.  Renaming twice is renaming once; every entry of the
  table renames its old id to its new id, the new id is a categorised rule and the old id is
  not; and no two old ids were merged into one.\<close>

theorem rename_history_closed:
  "current_id (current_id x) = current_id x \<and>
   list_all (\<lambda>(old, new). current_id old = new \<and> survivor_id old = new \<and>
     map_of RULE_CATEGORIES new \<noteq> None \<and> map_of RULE_CATEGORIES old = None) RENAMED_RULE_IDS \<and>
   distinct (map snd RENAMED_RULE_IDS)"
proof (intro conjI)
  show "current_id (current_id x) = current_id x"
    using current_id_listed [of x] current_id_new by auto
  show "distinct (map snd RENAMED_RULE_IDS)" by (rule renamed_new_distinct)
  have "current_id a = b \<and> survivor_id a = b \<and> map_of RULE_CATEGORIES b \<noteq> None
      \<and> map_of RULE_CATEGORIES a = None" if ab: "(a, b) \<in> set RENAMED_RULE_IDS" for a b
  proof -
    from ab renamed_old_distinct have cur: "current_id a = b"
      by (simp add: current_id_def dict_get_def)
    from ab have "b \<in> fst ` set renamed_new" by (force simp: renamed_new_def)
    with renamed_new_categorised have b: "map_of RULE_CATEGORIES b \<noteq> None"
      by (auto simp: map_of_eq_None_iff)
    from ab have "a \<in> fst ` set RENAMED_RULE_IDS" by force
    with renamed_old_uncategorised have "map_of RULE_CATEGORIES a = None"
      by (auto simp: map_of_eq_None_iff)
    with cur b show ?thesis by (simp add: survivor_id_current)
  qed
  then show "list_all (\<lambda>(old, new). current_id old = new \<and> survivor_id old = new \<and>
      map_of RULE_CATEGORIES new \<noteq> None \<and> map_of RULE_CATEGORIES old = None) RENAMED_RULE_IDS"
    by (auto simp: list_all_iff)
qed

end
