(* ===== verification/Layers.thy ===== *)
theory Layers
  imports Coverage Categories
begin

text \<open>
  The assurance layers (\<^verbatim>\<open>layers.py\<close>): which kind of evidence a rule represents, which
  layers a coverage gap blinds, the report's per-layer profile, and the harness measures over
  attack attempts (exact minimum cut, single-layer failure, resilience).  \<open>layer\<close> is a linear
  order in \<^verbatim>\<open>LAYER_ORDER\<close>, so that \<^verbatim>\<open>sorted(..., key=LAYER_ORDER.index)\<close> is \<^const>\<open>sort\<close>.
\<close>

section \<open>Layers and their order\<close>

datatype layer = L1 | L2 | L3 | L4 | L5 | L6 | L7 | L8

definition LAYER_ORDER :: "layer list" where
  "LAYER_ORDER = [L1, L2, L3, L4, L5, L6, L7, L8]"

fun layer_index :: "layer \<Rightarrow> nat" where
  "layer_index L1 = 0" | "layer_index L2 = 1" | "layer_index L3 = 2" | "layer_index L4 = 3"
| "layer_index L5 = 4" | "layer_index L6 = 5" | "layer_index L7 = 6" | "layer_index L8 = 7"

lemma layer_index_inj: "layer_index a = layer_index b \<Longrightarrow> a = b"
  by (cases a; cases b) simp_all

instantiation layer :: linorder
begin

definition less_eq_layer :: "layer \<Rightarrow> layer \<Rightarrow> bool" where
  "less_eq_layer a b = (layer_index a \<le> layer_index b)"

definition less_layer :: "layer \<Rightarrow> layer \<Rightarrow> bool" where
  "less_layer a b = (layer_index a < layer_index b)"

instance
  by standard (auto simp: less_eq_layer_def less_layer_def dest: layer_index_inj)

end

lemma layer_index_order: "LAYER_ORDER ! layer_index l = l"
  by (cases l) (simp_all add: LAYER_ORDER_def)

lemma LAYER_ORDER_all: "l \<in> set LAYER_ORDER"
  by (cases l) (simp_all add: LAYER_ORDER_def)

lemma LAYER_ORDER_sorted: "sorted LAYER_ORDER" "distinct LAYER_ORDER"
  by (simp_all add: LAYER_ORDER_def less_eq_layer_def)

fun layer_value :: "layer \<Rightarrow> string" where
  "layer_value L1 = ''L1''" | "layer_value L2 = ''L2''" | "layer_value L3 = ''L3''"
| "layer_value L4 = ''L4''" | "layer_value L5 = ''L5''" | "layer_value L6 = ''L6''"
| "layer_value L7 = ''L7''" | "layer_value L8 = ''L8''"

fun layer_name :: "layer \<Rightarrow> string" where
  "layer_name L1 = ''Structural coherence''"
| "layer_name L2 = ''Readability''"
| "layer_name L3 = ''Payload signature''"
| "layer_name L4 = ''Evasion shape''"
| "layer_name L5 = ''Behavioral suspicion''"
| "layer_name L6 = ''Ecosystem memory''"
| "layer_name L7 = ''Known indicators''"
| "layer_name L8 = ''Campaign correlation''"

definition LAYER_VALUES :: "string list" where
  "LAYER_VALUES = map layer_value LAYER_ORDER"

text \<open>\<^verbatim>\<open>Layer(text)\<close>: the layer with that value.\<close>

definition layer_of_value :: "string \<Rightarrow> layer option" where
  "layer_of_value t = List.find (\<lambda>l. layer_value l = t) LAYER_ORDER"

section \<open>The layer of a rule\<close>

definition SERIES_LAYER :: "(string \<times> layer) list" where
  "SERIES_LAYER = [(''R'', L3), (''C'', L1), (''D'', L6), (''S'', L3), (''X'', L4), (''H'', L5),
     (''T'', L6), (''G'', L8), (''E'', L4), (''I'', L7), (''U'', L3), (''P'', L1), (''W'', L2)]"

definition RULE_LAYER_OVERRIDES :: "(string \<times> layer) list" where
  "RULE_LAYER_OVERRIDES = [
     (''T004'', L1), (''T005'', L1), (''X026'', L2), (''X027'', L2), (''H099'', L1),
     (''H101'', L1), (''H103'', L1), (''H020'', L6), (''H021'', L6), (''H022'', L6),
     (''H026'', L6), (''H028'', L6), (''H037'', L6), (''H044'', L6), (''H045'', L6),
     (''H046'', L6), (''H056'', L7), (''H058'', L6), (''H060'', L6), (''H073'', L6),
     (''H074'', L6), (''H086'', L6), (''H088'', L6), (''U007'', L7), (''U008'', L7),
     (''U009'', L1)]"

definition series_of :: "string \<Rightarrow> string" where
  "series_of rule_id = (if rule_id = [] then [] else py_upper (take 1 rule_id))"

text \<open>
  \<open>raw\<close> is the \<^verbatim>\<open>[layers]\<close> table of the configuration, its values through \<^verbatim>\<open>str\<close>;
  \<open>None\<close> when the key is absent or not a table.
\<close>

fun parse_override_rows :: "string dict \<Rightarrow> (string \<times> layer) list \<Rightarrow> (string \<times> layer) list" where
  "parse_override_rows [] acc = acc"
| "parse_override_rows ((rule_id, v) # raw) acc =
     (let key = py_upper rule_id; txt = py_upper v in
      if txt \<notin> set LAYER_VALUES \<or> map_of RULE_CATEGORIES key = None
      then parse_override_rows raw acc
      else parse_override_rows raw
             (case layer_of_value txt of Some l \<Rightarrow> dict_set acc key l | None \<Rightarrow> acc))"

definition parse_overrides :: "string dict option \<Rightarrow> (string \<times> layer) list" where
  "parse_overrides raw = (case raw of None \<Rightarrow> [] | Some r \<Rightarrow> parse_override_rows r [])"

definition layer_of :: "string \<Rightarrow> (string \<times> layer) list \<Rightarrow> layer option" where
  "layer_of rule_id overrides =
     (let r = py_upper rule_id in
      if map_of RULE_CATEGORIES r = None then None
      else (case map_of overrides r of Some l \<Rightarrow> Some l
        | None \<Rightarrow> (case map_of RULE_LAYER_OVERRIDES r of Some l \<Rightarrow> Some l
            | None \<Rightarrow> map_of SERIES_LAYER (series_of r))))"

definition rules_in_layer :: "layer \<Rightarrow> (string \<times> layer) list \<Rightarrow> string list" where
  "rules_in_layer l overrides =
     sort (filter (\<lambda>rid. layer_of rid overrides = Some l) (map fst RULE_CATEGORIES))"

section \<open>Blinded layers\<close>

definition GAP_BLINDED_LAYERS :: "(string \<times> layer list) list" where
  "GAP_BLINDED_LAYERS = [
     (PARENT_BASELINE, [L6]), (HISTORY_TRUNCATED, [L6]), (DEPS_NOT_SCANNED, [L3, L6]),
     (UNRESOLVED_SOURCE, [L1, L2, L3, L4]), (UNRESOLVED_PARSE_TIME, [L1, L2, L3, L4]),
     (UNPINNED_BUILD_DEPS, [L3, L6]), (TREE_NOT_ANALYZED, [L1, L3]),
     (SNAPSHOT_REFUSED, [L1, L3]), (COMPANION_TRUNCATED, [L1, L3]),
     (BINARY_METADATA, [L1, L3]), (PARTIAL_FILE_ANALYSIS, [L1, L3]),
     (NOEXTRACT_SUPPRESSED, [L1, L3])]"

definition blinded_layers :: "string list \<Rightarrow> layer set" where
  "blinded_layers gaps = (\<Union>g \<in> set gaps. set (dict_get GAP_BLINDED_LAYERS g LAYER_ORDER))"

section \<open>Harness measures over attack attempts\<close>

record attempt =
  at_fired :: "string list"
  at_bypassed :: bool

definition observed_layers :: "finding list \<Rightarrow> (string \<times> layer) list \<Rightarrow> attempt" where
  "observed_layers triggered overrides =
     (let ls = sort (remdups (List.map_filter (\<lambda>f. layer_of (f_rule_id f) overrides) triggered))
      in \<lparr>at_fired = map layer_value ls, at_bypassed = (ls = [])\<rparr>)"

text \<open>One attempt is cut by a set of layers when one of its fired layers is in it.\<close>

definition cuts :: "string list \<Rightarrow> string list list \<Rightarrow> bool" where
  "cuts chosen caught = list_all (\<lambda>f. list_ex (\<lambda>l. l \<in> set chosen) f) caught"

fun cut_search :: "string list list \<Rightarrow> nat list \<Rightarrow> nat" where
  "cut_search caught [] = length LAYER_VALUES"
| "cut_search caught (k # ks) =
     (if list_ex (\<lambda>combo. cuts combo caught) (combinations k LAYER_VALUES) then k
      else cut_search caught ks)"

text \<open>An attempt that is not there (\<^verbatim>\<open>None\<close> or an empty dictionary) is \<open>None\<close>.\<close>

definition minimum_layer_cut :: "attempt option list \<Rightarrow> nat option" where
  "minimum_layer_cut attempts =
     (let paths = List.map_filter id attempts; caught = map at_fired paths in
      if paths = [] then None
      else if list_ex (\<lambda>f. f = []) caught then None
      else Some (cut_search caught [1..<Suc (length LAYER_VALUES)]))"

definition nonempty :: "string list \<Rightarrow> string list" where
  "nonempty fs = filter (\<lambda>l. l \<noteq> []) fs"

definition single_layer_failure :: "attempt list \<Rightarrow> nat dict" where
  "single_layer_failure paths =
     (let hits = concat (map (\<lambda>p. case nonempty (at_fired p) of [l] \<Rightarrow> [l] | _ \<Rightarrow> []) paths)
      in map (\<lambda>l. (l, count_list hits l)) (sorted_set hits))"

definition bypass_count :: "attempt option list \<Rightarrow> nat" where
  "bypass_count paths = count_if (\<lambda>p. case p of None \<Rightarrow> False | Some a \<Rightarrow> at_bypassed a) paths"

definition resilience_distribution :: "attempt option list \<Rightarrow> (nat \<times> nat) list" where
  "resilience_distribution paths =
     (let depths = filter (\<lambda>n. n \<noteq> 0)
            (map (\<lambda>a. length (remdups (nonempty (at_fired a))))
               (filter (\<lambda>a. \<not> at_bypassed a) (List.map_filter id paths)))
      in map (\<lambda>n. (n, count_list depths n)) (sort (remdups depths)))"

section \<open>The report's layer profile\<close>

record layer_row =
  lr_name :: string
  lr_detection :: string
  lr_coverage :: string
  lr_status :: string
  lr_findings :: "string list"

definition layer_coverage :: "layer \<Rightarrow> layer set \<Rightarrow> bool \<Rightarrow> string" where
  "layer_coverage l blinded corr =
     (if l = L8 \<and> \<not> corr then ''not_applicable''
      else if l \<in> blinded then ''incomplete'' else ''complete'')"

definition layer_status :: "layer \<Rightarrow> string list \<Rightarrow> layer set \<Rightarrow> bool \<Rightarrow> string" where
  "layer_status l fs blinded corr =
     (if fs \<noteq> [] then ''fired''
      else if l = L8 \<and> \<not> corr then ''not_exercised''
      else if l \<in> blinded then ''unreadable'' else ''passed'')"

definition findings_of_layer ::
  "layer \<Rightarrow> finding list \<Rightarrow> (string \<times> layer) list \<Rightarrow> string list" where
  "findings_of_layer l fs overrides =
     map f_rule_id (filter (\<lambda>f. \<not> f_present_before f \<and>
        layer_of (f_rule_id f) overrides = Some l) fs)"

definition profile_gaps :: "package_fact \<Rightarrow> string list" where
  "profile_gaps pf = pf_coverage_gaps pf @
     (if pf_diff_truncated pf then [DIFF_TRUNCATED] else []) @
     (if pf_scan_truncated pf then [SCAN_TRUNCATED] else [])"

definition layer_profile ::
  "package_fact \<Rightarrow> finding list \<Rightarrow> bool \<Rightarrow> (string \<times> layer) list \<Rightarrow> (string \<times> layer_row) list" where
  "layer_profile pf fs corr overrides =
     (let blinded = blinded_layers (profile_gaps pf);
          corr' = (corr \<or> pf_correlation_ran pf \<or> findings_of_layer L8 fs overrides \<noteq> [])
      in map (\<lambda>l. let here = findings_of_layer l fs overrides in
           (layer_value l,
            \<lparr>lr_name = layer_name l,
             lr_detection = (if here \<noteq> [] then ''fired'' else ''none''),
             lr_coverage = layer_coverage l blinded corr',
             lr_status = layer_status l here blinded corr',
             lr_findings = here\<rparr>)) LAYER_ORDER)"

section \<open>Lemmas\<close>

lemma blinded_layers_member:
  "l \<in> blinded_layers gaps \<longleftrightarrow> (\<exists>g \<in> set gaps. l \<in> set (dict_get GAP_BLINDED_LAYERS g LAYER_ORDER))"
  by (simp add: blinded_layers_def)

lemma unknown_gap_blinds:
  "g \<in> set gaps \<Longrightarrow> map_of GAP_BLINDED_LAYERS g = None \<Longrightarrow> l \<in> blinded_layers gaps"
  using LAYER_ORDER_all [of l] by (force simp: blinded_layers_member dict_get_def)

lemma cuts_alt: "cuts chosen caught \<longleftrightarrow> (\<forall>f \<in> set caught. set f \<inter> set chosen \<noteq> {})"
  by (auto simp: cuts_def list_all_iff list_ex_iff)

lemma LAYER_VALUES_distinct: "distinct LAYER_VALUES"
  by (simp add: LAYER_VALUES_def LAYER_ORDER_def)

lemma length_LAYER_VALUES: "length LAYER_VALUES = 8"
  by (simp add: LAYER_VALUES_def LAYER_ORDER_def)

text \<open>The search returns the first size, from the smallest, at which some set of layers cuts.\<close>

lemma cut_search_le:
  "sorted ks \<Longrightarrow> k \<in> set ks \<Longrightarrow> c \<in> set (combinations k LAYER_VALUES) \<Longrightarrow> cuts c caught \<Longrightarrow>
    cut_search caught ks \<le> k"
  by (induction ks) (auto simp: list_ex_iff)

lemma cut_search_cuts:
  "k \<in> set ks \<Longrightarrow> c \<in> set (combinations k LAYER_VALUES) \<Longrightarrow> cuts c caught \<Longrightarrow>
    \<exists>c \<in> set (combinations (cut_search caught ks) LAYER_VALUES). cuts c caught"
  by (induction ks) (auto simp: list_ex_iff)

text \<open>
  The shape of the shipped ids, section by section: no letter that \<^verbatim>\<open>str.upper\<close> changes, a series
  letter that is known, and which ids have a series without a default layer.
\<close>

definition plain_ids :: "(string \<times> 'v) list \<Rightarrow> bool" where
  "plain_ids t = list_all (\<lambda>(r, _). list_all (\<lambda>c. (of_char c :: nat) < 97) r) t"

definition known_series :: "(string \<times> 'v) list \<Rightarrow> bool" where
  "known_series t = list_all (\<lambda>(r, _). take 1 r \<in> set (''A'' # ''M'' # map fst SERIES_LAYER)) t"

definition undefaulted :: "(string \<times> 'v) list \<Rightarrow> string list" where
  "undefaulted t = map fst (filter (\<lambda>(r, _). take 1 r \<in> {''A'', ''M''}) t)"

lemma shape_append:
  "plain_ids (s @ t) \<longleftrightarrow> plain_ids s \<and> plain_ids t"
  "known_series (s @ t) \<longleftrightarrow> known_series s \<and> known_series t"
  "undefaulted (s @ t) = undefaulted s @ undefaulted t"
  by (simp_all add: plain_ids_def known_series_def undefaulted_def)

lemma rules_fetch_and_execution_1_shape: "plain_ids rules_fetch_and_execution_1" "known_series rules_fetch_and_execution_1"
  "undefaulted rules_fetch_and_execution_1 = []"
  by (simp_all add: rules_fetch_and_execution_1_def plain_ids_def known_series_def undefaulted_def SERIES_LAYER_def)

lemma rules_fetch_and_execution_2_shape: "plain_ids rules_fetch_and_execution_2" "known_series rules_fetch_and_execution_2"
  "undefaulted rules_fetch_and_execution_2 = []"
  by (simp_all add: rules_fetch_and_execution_2_def plain_ids_def known_series_def undefaulted_def SERIES_LAYER_def)

lemma rules_obfuscation_shape: "plain_ids rules_obfuscation" "known_series rules_obfuscation"
  "undefaulted rules_obfuscation = []"
  by (simp_all add: rules_obfuscation_def plain_ids_def known_series_def undefaulted_def SERIES_LAYER_def)

lemma rules_deception_and_anti_analysis_shape: "plain_ids rules_deception_and_anti_analysis" "known_series rules_deception_and_anti_analysis"
  "undefaulted rules_deception_and_anti_analysis = []"
  by (simp_all add: rules_deception_and_anti_analysis_def plain_ids_def known_series_def undefaulted_def SERIES_LAYER_def)

lemma rules_install_and_persistence_shape: "plain_ids rules_install_and_persistence" "known_series rules_install_and_persistence"
  "undefaulted rules_install_and_persistence = []"
  by (simp_all add: rules_install_and_persistence_def plain_ids_def known_series_def undefaulted_def SERIES_LAYER_def)

lemma rules_staging_and_reconnaissance_1_shape: "plain_ids rules_staging_and_reconnaissance_1" "known_series rules_staging_and_reconnaissance_1"
  "undefaulted rules_staging_and_reconnaissance_1 = []"
  by (simp_all add: rules_staging_and_reconnaissance_1_def plain_ids_def known_series_def undefaulted_def SERIES_LAYER_def)

lemma rules_staging_and_reconnaissance_2_shape: "plain_ids rules_staging_and_reconnaissance_2" "known_series rules_staging_and_reconnaissance_2"
  "undefaulted rules_staging_and_reconnaissance_2 = []"
  by (simp_all add: rules_staging_and_reconnaissance_2_def plain_ids_def known_series_def undefaulted_def SERIES_LAYER_def)

lemma rules_staging_and_reconnaissance_3_shape: "plain_ids rules_staging_and_reconnaissance_3" "known_series rules_staging_and_reconnaissance_3"
  "undefaulted rules_staging_and_reconnaissance_3 = [''M001'', ''M002'', ''M003'', ''M004'', ''M005'', ''M006'']"
  by (simp_all add: rules_staging_and_reconnaissance_3_def plain_ids_def known_series_def undefaulted_def SERIES_LAYER_def)

lemma rules_staging_and_reconnaissance_4_shape: "plain_ids rules_staging_and_reconnaissance_4" "known_series rules_staging_and_reconnaissance_4"
  "undefaulted rules_staging_and_reconnaissance_4 = []"
  by (simp_all add: rules_staging_and_reconnaissance_4_def plain_ids_def known_series_def undefaulted_def SERIES_LAYER_def)

lemma rules_staging_and_reconnaissance_5_shape: "plain_ids rules_staging_and_reconnaissance_5" "known_series rules_staging_and_reconnaissance_5"
  "undefaulted rules_staging_and_reconnaissance_5 = [''A001'', ''A002'', ''A003'', ''A004'', ''A005'', ''A006'', ''A007'', ''A008'']"
  by (simp_all add: rules_staging_and_reconnaissance_5_def plain_ids_def known_series_def undefaulted_def SERIES_LAYER_def)

lemma rules_staging_and_reconnaissance_6_shape: "plain_ids rules_staging_and_reconnaissance_6" "known_series rules_staging_and_reconnaissance_6"
  "undefaulted rules_staging_and_reconnaissance_6 = []"
  by (simp_all add: rules_staging_and_reconnaissance_6_def plain_ids_def known_series_def undefaulted_def SERIES_LAYER_def)

lemma rules_staging_and_reconnaissance_7_shape: "plain_ids rules_staging_and_reconnaissance_7" "known_series rules_staging_and_reconnaissance_7"
  "undefaulted rules_staging_and_reconnaissance_7 = []"
  by (simp_all add: rules_staging_and_reconnaissance_7_def plain_ids_def known_series_def undefaulted_def SERIES_LAYER_def)

lemma rules_integrity_and_verification_1_shape: "plain_ids rules_integrity_and_verification_1" "known_series rules_integrity_and_verification_1"
  "undefaulted rules_integrity_and_verification_1 = []"
  by (simp_all add: rules_integrity_and_verification_1_def plain_ids_def known_series_def undefaulted_def SERIES_LAYER_def)

lemma rules_integrity_and_verification_2_shape: "plain_ids rules_integrity_and_verification_2" "known_series rules_integrity_and_verification_2"
  "undefaulted rules_integrity_and_verification_2 = []"
  by (simp_all add: rules_integrity_and_verification_2_def plain_ids_def known_series_def undefaulted_def SERIES_LAYER_def)

lemma rules_integrity_and_verification_3_shape: "plain_ids rules_integrity_and_verification_3" "known_series rules_integrity_and_verification_3"
  "undefaulted rules_integrity_and_verification_3 = []"
  by (simp_all add: rules_integrity_and_verification_3_def plain_ids_def known_series_def undefaulted_def SERIES_LAYER_def)

lemma rules_naming_and_dependencies_shape: "plain_ids rules_naming_and_dependencies" "known_series rules_naming_and_dependencies"
  "undefaulted rules_naming_and_dependencies = []"
  by (simp_all add: rules_naming_and_dependencies_def plain_ids_def known_series_def undefaulted_def SERIES_LAYER_def)

lemma rules_maintainer_and_metadata_shape: "plain_ids rules_maintainer_and_metadata" "known_series rules_maintainer_and_metadata"
  "undefaulted rules_maintainer_and_metadata = []"
  by (simp_all add: rules_maintainer_and_metadata_def plain_ids_def known_series_def undefaulted_def SERIES_LAYER_def)

lemma rules_temporal_context_shape: "plain_ids rules_temporal_context" "known_series rules_temporal_context"
  "undefaulted rules_temporal_context = []"
  by (simp_all add: rules_temporal_context_def plain_ids_def known_series_def undefaulted_def SERIES_LAYER_def)

lemma rules_composition_shape: "plain_ids rules_composition" "known_series rules_composition"
  "undefaulted rules_composition = []"
  by (simp_all add: rules_composition_def plain_ids_def known_series_def undefaulted_def SERIES_LAYER_def)

lemma rules_count_based_shape: "plain_ids rules_count_based" "known_series rules_count_based"
  "undefaulted rules_count_based = []"
  by (simp_all add: rules_count_based_def plain_ids_def known_series_def undefaulted_def SERIES_LAYER_def)

lemma rules_corpus_behavioral_shape: "plain_ids rules_corpus_behavioral" "known_series rules_corpus_behavioral"
  "undefaulted rules_corpus_behavioral = []"
  by (simp_all add: rules_corpus_behavioral_def plain_ids_def known_series_def undefaulted_def SERIES_LAYER_def)

lemmas section_shape =
  rules_fetch_and_execution_1_shape
  rules_fetch_and_execution_2_shape
  rules_obfuscation_shape
  rules_deception_and_anti_analysis_shape
  rules_install_and_persistence_shape
  rules_staging_and_reconnaissance_1_shape
  rules_staging_and_reconnaissance_2_shape
  rules_staging_and_reconnaissance_3_shape
  rules_staging_and_reconnaissance_4_shape
  rules_staging_and_reconnaissance_5_shape
  rules_staging_and_reconnaissance_6_shape
  rules_staging_and_reconnaissance_7_shape
  rules_integrity_and_verification_1_shape
  rules_integrity_and_verification_2_shape
  rules_integrity_and_verification_3_shape
  rules_naming_and_dependencies_shape
  rules_maintainer_and_metadata_shape
  rules_temporal_context_shape
  rules_composition_shape
  rules_count_based_shape
  rules_corpus_behavioral_shape

lemma categories_shape: "plain_ids RULE_CATEGORIES" "known_series RULE_CATEGORIES"
  "undefaulted RULE_CATEGORIES = [''M001'', ''M002'', ''M003'', ''M004'', ''M005'', ''M006'', 
     ''A001'', ''A002'', ''A003'', ''A004'', ''A005'', ''A006'', ''A007'', ''A008'']"
  by (simp_all add: RULE_CATEGORIES_def shape_append section_shape)

lemma py_upper_plain: "list_all (\<lambda>c. (of_char c :: nat) < 97) r \<Longrightarrow> py_upper r = r"
  by (induction r) (simp_all add: py_upper_def)

lemma override_series: "map_of RULE_LAYER_OVERRIDES r \<noteq> None \<Longrightarrow> take 1 r \<notin> {''A'', ''M''}"
  by (auto simp: RULE_LAYER_OVERRIDES_def split: if_splits)

lemma default_series:
  "''A'' \<notin> fst ` set SERIES_LAYER" "''M'' \<notin> fst ` set SERIES_LAYER"
  by (simp_all add: SERIES_LAYER_def)

text \<open>A shipped rule has no layer exactly when its series has no default.\<close>

lemma layer_of_shipped:
  assumes "r \<in> fst ` set RULE_CATEGORIES"
  shows "layer_of r [] = None \<longleftrightarrow> take 1 r \<in> {''A'', ''M''}"
proof -
  from assms categories_shape(1) have pl: "list_all (\<lambda>c. (of_char c :: nat) < 97) r"
    by (force simp: plain_ids_def list_all_iff)
  then have up: "py_upper r = r" by (rule py_upper_plain)
  from assms categories_shape(2) have ser: "take 1 r \<in> set (''A'' # ''M'' # map fst SERIES_LAYER)"
    by (force simp: known_series_def list_all_iff)
  have up1: "py_upper (take 1 r) = take 1 r"
    using pl by (intro py_upper_plain) (cases r, simp_all)
  have ser1: "series_of r = take 1 r" using up1 by (auto simp: series_of_def)
  from assms have cat: "map_of RULE_CATEGORIES r \<noteq> None" by (auto simp: map_of_eq_None_iff)
  have eq: "layer_of r [] = (case map_of RULE_LAYER_OVERRIDES r of Some l \<Rightarrow> Some l
      | None \<Rightarrow> map_of SERIES_LAYER (take 1 r))"
    using cat unfolding layer_of_def Let_def up ser1 by auto
  show ?thesis
  proof (cases "map_of RULE_LAYER_OVERRIDES r")
    case None
    with eq have "layer_of r [] = None \<longleftrightarrow> take 1 r \<notin> fst ` set SERIES_LAYER"
      by (simp add: map_of_eq_None_iff)
    moreover have "take 1 r \<in> {''A'', ''M''} \<or> take 1 r \<in> fst ` set SERIES_LAYER"
      using ser by (simp del: One_nat_def)
    moreover have "take 1 r \<in> {''A'', ''M''} \<Longrightarrow> take 1 r \<notin> fst ` set SERIES_LAYER"
      using default_series by (metis empty_iff insert_iff)
    ultimately show ?thesis by blast
  next
    case (Some l)
    with eq override_series [of r] show ?thesis by simp
  qed
qed

lemma undefaulted_filter: "undefaulted t = filter (\<lambda>r. take 1 r \<in> {''A'', ''M''}) (map fst t)"
  by (induction t) (auto simp: undefaulted_def)

text \<open>The evidence a cut is about: which layers fired on the attempts that are there.\<close>

lemma cuts_all_layers:
  "list_all (\<lambda>f. f \<noteq> [] \<and> set f \<subseteq> set LAYER_VALUES) caught \<Longrightarrow> cuts LAYER_VALUES caught"
  by (auto simp: cuts_alt list_all_iff dest!: bspec) (metis inf.absorb1 set_empty)

lemma cut_size_bounds:
  "cuts chosen caught \<Longrightarrow> caught \<noteq> [] \<Longrightarrow> chosen \<noteq> []"
  by (cases caught) (auto simp: cuts_alt)

text \<open>The exact minimum layer cut.  When there is at least one attempt and every attempt fired
  some of the eight layers, \<^verbatim>\<open>minimum_layer_cut\<close> returns a number, some set of that many layers
  meets the fired layers of every attempt, and no smaller set of layers does.\<close>

theorem minimum_layer_cut_exact:
  assumes "List.map_filter id attempts \<noteq> []"
    and "list_all (\<lambda>a. at_fired a \<noteq> [] \<and> set (at_fired a) \<subseteq> set LAYER_VALUES)
           (List.map_filter id attempts)"
  shows "\<exists>k. minimum_layer_cut attempts = Some k \<and>
      (\<exists>S \<subseteq> set LAYER_VALUES. card S = k \<and>
         (\<forall>a \<in> set (List.map_filter id attempts). S \<inter> set (at_fired a) \<noteq> {})) \<and>
      (\<forall>S \<subseteq> set LAYER_VALUES.
         (\<forall>a \<in> set (List.map_filter id attempts). S \<inter> set (at_fired a) \<noteq> {}) \<longrightarrow> k \<le> card S)"
proof -
  define paths where "paths = List.map_filter id attempts"
  define caught where "caught = map at_fired paths"
  define sizes where "sizes = [1..<Suc (length LAYER_VALUES)]"
  have ne: "caught \<noteq> []" using assms(1) by (simp add: caught_def paths_def)
  have ok: "list_all (\<lambda>f. f \<noteq> [] \<and> set f \<subseteq> set LAYER_VALUES) caught"
    using assms(2) by (simp add: caught_def paths_def list_all_iff)
  have val: "minimum_layer_cut attempts = Some (cut_search caught sizes)"
    using assms(1) ok
    by (simp add: minimum_layer_cut_def Let_def sizes_def flip: paths_def caught_def)
       (auto simp: paths_def list_ex_iff list_all_iff)
  have size_in: "card (set c) \<in> set sizes" if "cuts c caught" "set c \<subseteq> set LAYER_VALUES" for c
  proof -
    from cut_size_bounds [OF that(1) ne] have "0 < card (set c)" by (simp add: card_gt_0_iff)
    moreover have "card (set c) \<le> length LAYER_VALUES"
      using card_mono [OF finite_set that(2)] card_length le_trans by blast
    ultimately show ?thesis unfolding sizes_def
      by (metis One_nat_def Suc_leI atLeastLessThan_iff less_Suc_eq_le set_upt)
  qed
  have meets: "cuts c caught \<longleftrightarrow> (\<forall>a \<in> set paths. set c \<inter> set (at_fired a) \<noteq> {})" for c
    by (auto simp: cuts_alt caught_def)
  have least: "cut_search caught sizes \<le> card S \<and> (\<exists>c. c \<in> set (combinations (card S) LAYER_VALUES)
      \<and> cuts c caught \<and> card S \<in> set sizes)"
    if S: "S \<subseteq> set LAYER_VALUES" "\<forall>a \<in> set paths. S \<inter> set (at_fired a) \<noteq> {}" for S
  proof -
    from combinations_complete [OF LAYER_VALUES_distinct S(1)] obtain c where
      c: "c \<in> set (combinations (card S) LAYER_VALUES)" "set c = S" by blast
    with S meets have cut: "cuts c caught" by simp
    with size_in [of c] c S(1) have "card S \<in> set sizes" by simp
    moreover have "sorted sizes" by (simp only: sizes_def sorted_upt)
    ultimately show ?thesis using cut_search_le [of sizes "card S" c caught] c(1) cut by blast
  qed
  have "\<forall>a \<in> set paths. set LAYER_VALUES \<inter> set (at_fired a) \<noteq> {}"
    using cuts_all_layers [OF ok] meets by blast
  from least [OF subset_refl this] obtain c0 k0 where
    "c0 \<in> set (combinations k0 LAYER_VALUES)" "cuts c0 caught" "k0 \<in> set sizes" by blast
  from cut_search_cuts [OF this(3,1,2)] obtain c where
    c: "c \<in> set (combinations (cut_search caught sizes) LAYER_VALUES)" "cuts c caught" by blast
  have "card (set c) = cut_search caught sizes"
    using combinations_distinct [OF LAYER_VALUES_distinct c(1)] combinations_length [OF c(1)]
    by (simp add: distinct_card)
  with c combinations_subset [OF c(1)] meets have
    "\<exists>S \<subseteq> set LAYER_VALUES. card S = cut_search caught sizes \<and>
       (\<forall>a \<in> set paths. S \<inter> set (at_fired a) \<noteq> {})" by blast
  with val least show ?thesis unfolding paths_def by blast
qed

theorem minimum_layer_cut_exact_witness:
  "\<exists>k. minimum_layer_cut [Some \<lparr>at_fired = [''L1''], at_bypassed = False\<rparr>, None,
        Some \<lparr>at_fired = [''L3'', ''L5''], at_bypassed = False\<rparr>] = Some k"
  using minimum_layer_cut_exact [of "[Some \<lparr>at_fired = [''L1''], at_bypassed = False\<rparr>, None,
        Some \<lparr>at_fired = [''L3'', ''L5''], at_bypassed = False\<rparr>]"]
  by (simp add: List.map_filter_def LAYER_VALUES_def LAYER_ORDER_def) blast

text \<open>Which shipped rules have no layer.  Without overrides, the categorised rules whose
  \<^verbatim>\<open>layer_of\<close> is \<^verbatim>\<open>None\<close> are exactly the M series and also the A series: the module's claim that
  every categorised rule has exactly one layer, with only M undefined, does not hold for A.\<close>

theorem rules_without_layer:
  "filter (\<lambda>r. layer_of r [] = None) (map fst RULE_CATEGORIES) =
     [''M001'', ''M002'', ''M003'', ''M004'', ''M005'', ''M006'',
      ''A001'', ''A002'', ''A003'', ''A004'', ''A005'', ''A006'', ''A007'', ''A008'']"
proof -
  have "filter (\<lambda>r. layer_of r [] = None) (map fst RULE_CATEGORIES) = undefaulted RULE_CATEGORIES"
    unfolding undefaulted_filter by (rule filter_cong [OF refl]) (simp add: layer_of_shipped)
  then show ?thesis by (simp add: categories_shape(3))
qed

lemma length_LAYER_ORDER: "length LAYER_ORDER = 8"
  by (simp add: LAYER_ORDER_def)

text \<open>The fail-safe direction of the layer profile.  When the run recorded a gap that the
  blinding table does not list, none of the eight layers of the profile reads
  \<^verbatim>\<open>passed\<close> and none has complete coverage.\<close>

theorem unlisted_gap_passes_no_layer:
  assumes "g \<in> set (pf_coverage_gaps pf)" and "map_of GAP_BLINDED_LAYERS g = None"
  shows "length (layer_profile pf fs corr overrides) = 8 \<and>
    list_all (\<lambda>(l, row). lr_status row \<noteq> ''passed'' \<and> lr_coverage row \<noteq> ''complete'')
      (layer_profile pf fs corr overrides)"
proof -
  have "l \<in> blinded_layers (profile_gaps pf)" for l
    using assms by (intro unknown_gap_blinds [of g]) (simp_all add: profile_gaps_def)
  then show ?thesis
    by (simp add: layer_profile_def Let_def list_all_iff layer_status_def layer_coverage_def
        length_LAYER_ORDER)
qed

theorem unlisted_gap_passes_no_layer_witness:
  "list_all (\<lambda>(l, row). lr_status row \<noteq> ''passed'' \<and> lr_coverage row \<noteq> ''complete'')
     (layer_profile (default_fact\<lparr>pf_coverage_gaps := [DIFF_TRUNCATED]\<rparr>) [] False [])"
  by (rule unlisted_gap_passes_no_layer [THEN conjunct2, of DIFF_TRUNCATED])
     (simp_all add: GAP_BLINDED_LAYERS_def gap_names)

end
