(* ===== verification/Boundaries.thy ===== *)
theory Boundaries
  imports Coverage
begin

text \<open>
  The analysis-boundary model (\<^verbatim>\<open>boundaries.py\<close>): one boundary per coverage gap of a fact and one
  per W-series finding, and the view the verdict takes of them.  The lemmas show that the view
  agrees with the coverage gaps for the gaps the program declares, and where it does not.
\<close>

section \<open>Kinds\<close>

datatype boundary_kind = TRUNCATED | UNREADABLE_FILE | UNREADABLE_TREE | PARTIAL_FILE | UNRESOLVED
  | UNPINNED_DEPS | NO_HISTORY | ANALYSIS_INCOMPLETE | REGISTRY_RESOLUTION | BUILD_ONLY_PATH
  | SATURATED | UPSTREAM_UNREAD | FEDERATION_UNAVAILABLE

fun kind_text :: "boundary_kind \<Rightarrow> string" where
  "kind_text TRUNCATED = ''truncated''"
| "kind_text UNREADABLE_FILE = ''unreadable_file''"
| "kind_text UNREADABLE_TREE = ''unreadable_tree''"
| "kind_text PARTIAL_FILE = ''partial_file''"
| "kind_text UNRESOLVED = ''unresolved''"
| "kind_text UNPINNED_DEPS = ''unpinned_deps''"
| "kind_text NO_HISTORY = ''no_history''"
| "kind_text ANALYSIS_INCOMPLETE = ''analysis_incomplete''"
| "kind_text REGISTRY_RESOLUTION = ''registry_resolution''"
| "kind_text BUILD_ONLY_PATH = ''build_only_path''"
| "kind_text SATURATED = ''saturated''"
| "kind_text UPSTREAM_UNREAD = ''upstream_unread''"
| "kind_text FEDERATION_UNAVAILABLE = ''federation_unavailable''"

definition GAP_KIND :: "(string \<times> boundary_kind) list" where
  "GAP_KIND = [
     (''diff_truncated'', TRUNCATED), (''scan_truncated'', TRUNCATED),
     (''partial_hunk'', TRUNCATED), (''line_truncated'', TRUNCATED),
     (''tree_not_analyzed'', UNREADABLE_TREE), (''snapshot_refused'', UNREADABLE_TREE),
     (''companion_truncated'', UNREADABLE_FILE), (''upstream_manifest_incomplete'', UNREADABLE_FILE),
     (''binary_metadata'', UNREADABLE_FILE), (''partial_file_analysis'', PARTIAL_FILE),
     (''unresolved_source'', UNRESOLVED), (''unresolved_parse_time'', UNRESOLVED),
     (''unpinned_build_deps'', UNPINNED_DEPS), (''deps_not_scanned'', UNPINNED_DEPS),
     (''parent_baseline'', NO_HISTORY), (''history_truncated'', NO_HISTORY),
     (''ruleset_drifted'', ANALYSIS_INCOMPLETE), (''stage_degraded'', ANALYSIS_INCOMPLETE),
     (''noextract_suppressed'', UNREADABLE_FILE)]"

definition W_RULE_KIND :: "(string \<times> boundary_kind) list" where
  "W_RULE_KIND = [
     (''W001'', UNREADABLE_FILE), (''W002'', REGISTRY_RESOLUTION), (''W003'', UNREADABLE_FILE),
     (''W004'', UNREADABLE_FILE), (''W005'', UNREADABLE_FILE), (''W006'', BUILD_ONLY_PATH),
     (''W007'', NO_HISTORY), (''W008'', UNRESOLVED), (''W010'', SATURATED),
     (''W011'', UPSTREAM_UNREAD), (''W012'', FEDERATION_UNAVAILABLE)]"

definition boundary_kind_for_gap :: "string \<Rightarrow> boundary_kind option" where
  "boundary_kind_for_gap gap = map_of GAP_KIND gap"

definition boundary_kind_for_w_rule :: "string \<Rightarrow> boundary_kind option" where
  "boundary_kind_for_w_rule rid = map_of W_RULE_KIND rid"

section \<open>Boundaries\<close>

record analysis_boundary =
  b_kind :: boundary_kind
  b_gap :: string
  b_w_rule :: string
  b_detail :: string

definition boundary_forbids_clean :: "analysis_boundary \<Rightarrow> bool" where
  "boundary_forbids_clean b = (b_gap b \<noteq> [])"

fun gap_boundaries :: "string list \<Rightarrow> analysis_boundary list" where
  "gap_boundaries [] = []"
| "gap_boundaries (gap # gaps) =
     (case boundary_kind_for_gap gap of
        None \<Rightarrow> gap_boundaries gaps
      | Some kind \<Rightarrow> \<lparr>b_kind = kind, b_gap = gap, b_w_rule = [], b_detail = []\<rparr> # gap_boundaries gaps)"

text \<open>The loop over the score breakdown, with the W rules already rendered in \<open>seen\<close>.\<close>

fun w_boundaries :: "score_entry list \<Rightarrow> string set \<Rightarrow> analysis_boundary list" where
  "w_boundaries [] seen = []"
| "w_boundaries (entry # entries) seen =
     (let rid = e_rule_id entry in
      if \<not> py_startswith rid ''W'' \<or> rid \<in> seen then w_boundaries entries seen
      else
        \<lparr>b_kind = (case boundary_kind_for_w_rule rid of Some k \<Rightarrow> k | None \<Rightarrow> UNREADABLE_FILE),
         b_gap = [], b_w_rule = rid, b_detail = e_reason entry\<rparr>
        # w_boundaries entries (insert rid seen))"

definition boundaries_from_fact :: "package_fact \<Rightarrow> analysis_boundary list" where
  "boundaries_from_fact pf =
     (let out = gap_boundaries (pf_coverage_gaps pf);
          seen_rules = set (filter (\<lambda>r. r \<noteq> []) (map b_w_rule out))
      in out @ w_boundaries (pf_score_breakdown pf) seen_rules)"

definition forbids_clean :: "analysis_boundary list \<Rightarrow> bool" where
  "forbids_clean boundaries = list_ex boundary_forbids_clean boundaries"

section \<open>Lemmas\<close>

lemma GAP_KIND_covers: "g \<in> set GAPS \<longleftrightarrow> map_of GAP_KIND g \<noteq> None"
  by (auto simp: GAP_KIND_def GAPS_def gap_names)

lemma GAP_KIND_nonempty: "map_of GAP_KIND [] = None"
  by (simp add: GAP_KIND_def)

lemma gap_boundaries_gaps: "map b_gap (gap_boundaries gaps) = filter (\<lambda>g. g \<in> set GAPS) gaps"
  by (induction gaps) (auto simp: GAP_KIND_covers boundary_kind_for_gap_def split: option.splits)

lemma gap_boundaries_no_w: "b \<in> set (gap_boundaries gaps) \<Longrightarrow> b_w_rule b = [] \<and> b_gap b \<noteq> []"
  by (induction gaps)
     (auto simp: boundary_kind_for_gap_def GAP_KIND_nonempty split: option.splits)

lemma w_boundaries_no_gap: "b \<in> set (w_boundaries es seen) \<Longrightarrow> b_gap b = []"
  by (induction es seen rule: w_boundaries.induct) (auto simp: Let_def split: if_splits)

text \<open>Each W rule of the breakdown is rendered once, at its first entry.\<close>

lemma w_boundaries_rules:
  "map b_w_rule (w_boundaries es seen) =
     filter (\<lambda>r. py_startswith r ''W'' \<and> r \<notin> seen) (uniq_first (map e_rule_id es))"
  by (induction es seen rule: w_boundaries.induct)
     (auto simp: Let_def uniq_first_filter intro!: filter_cong)

lemma forbids_clean_iff: "forbids_clean (boundaries_from_fact pf) \<longleftrightarrow>
    (\<exists>g \<in> set (pf_coverage_gaps pf). g \<in> set GAPS)"
proof -
  have "forbids_clean (boundaries_from_fact pf) \<longleftrightarrow> gap_boundaries (pf_coverage_gaps pf) \<noteq> []"
    using gap_boundaries_no_w [of "hd (gap_boundaries (pf_coverage_gaps pf))" "pf_coverage_gaps pf"]
    by (cases "gap_boundaries (pf_coverage_gaps pf)")
       (auto simp: forbids_clean_def boundaries_from_fact_def Let_def list_ex_iff
          boundary_forbids_clean_def dest: w_boundaries_no_gap)
  also have "\<dots> \<longleftrightarrow> map b_gap (gap_boundaries (pf_coverage_gaps pf)) \<noteq> []" by simp
  finally show ?thesis unfolding gap_boundaries_gaps by (auto simp: filter_empty_conv)
qed

text \<open>The boundary view and the coverage gaps.  Every declared gap of a fact becomes exactly one
  boundary, in order, and every W rule of the breakdown exactly one, at its first entry; a fact
  forbids a clean verdict exactly when one of its gaps is a declared one.  (For undeclared gap
  ids this is not \<^verbatim>\<open>bool(coverage_gaps)\<close>, which the module promises.)\<close>

theorem boundaries_mirror_gaps:
  "map b_gap (filter boundary_forbids_clean (boundaries_from_fact pf)) =
     filter (\<lambda>g. g \<in> set GAPS) (pf_coverage_gaps pf) \<and>
   map b_w_rule (filter (\<lambda>b. \<not> boundary_forbids_clean b) (boundaries_from_fact pf)) =
     filter (\<lambda>r. py_startswith r ''W'') (uniq_first (map e_rule_id (pf_score_breakdown pf))) \<and>
   forbids_clean (boundaries_from_fact pf) = list_ex (\<lambda>g. g \<in> set GAPS) (pf_coverage_gaps pf)"
proof -
  let ?gs = "gap_boundaries (pf_coverage_gaps pf)"
  let ?ws = "w_boundaries (pf_score_breakdown pf) {}"
  have "set (filter (\<lambda>r. r \<noteq> []) (map b_w_rule ?gs)) = {}"
    using gap_boundaries_no_w [of _ "pf_coverage_gaps pf"] by auto
  then have split: "boundaries_from_fact pf = ?gs @ ?ws"
    unfolding boundaries_from_fact_def Let_def by (simp only:)
  have gs: "filter boundary_forbids_clean ?gs = ?gs" "filter (\<lambda>b. \<not> boundary_forbids_clean b) ?gs = []"
    using gap_boundaries_no_w [of _ "pf_coverage_gaps pf"]
    by (auto simp: boundary_forbids_clean_def filter_id_conv filter_empty_conv)
  have ws: "filter boundary_forbids_clean ?ws = []" "filter (\<lambda>b. \<not> boundary_forbids_clean b) ?ws = ?ws"
    using w_boundaries_no_gap [of _ "pf_score_breakdown pf" "{}"]
    by (auto simp: boundary_forbids_clean_def filter_id_conv filter_empty_conv)
  have "forbids_clean (boundaries_from_fact pf) = list_ex (\<lambda>g. g \<in> set GAPS) (pf_coverage_gaps pf)"
    by (simp add: forbids_clean_iff list_ex_iff)
  then show ?thesis
    by (simp add: split gs ws gap_boundaries_gaps w_boundaries_rules)
qed

end
