(* ===== verification/Anergy.thy ===== *)
theory Anergy
  imports Score_Schema
begin

text \<open>
  The anergy ledger (\<^verbatim>\<open>anergy.py\<close>), which holds a rule at weight 0 until it is promoted, and the
  review-workload policy (\<^verbatim>\<open>review_policy.py\<close>).  The decoded JSON of the ledger and the decoded
  configuration are arguments; a raised exception is the left of a sum.
\<close>

section \<open>The ledger\<close>

definition ANERGIC :: string where "ANERGIC = ''anergic''"
definition PROMOTED :: string where "PROMOTED = ''promoted''"

record anergy_entry =
  an_rule_id :: string
  an_status :: string
  an_signal :: string
  an_since :: string
  an_promotion :: string
  an_promoted_in :: string
  an_changelog :: string

text \<open>
  A row of the JSON object: \<open>None\<close> when it is not an object, otherwise its keys with their
  values as text.  \<^verbatim>\<open>str(row.get(k) or default)\<close> takes the default for a missing and for an empty value.
\<close>

type_synonym anergy_row = "string dict option"

definition row_text :: "string dict \<Rightarrow> string \<Rightarrow> string \<Rightarrow> string" where
  "row_text row key dflt =
     (case map_of row key of None \<Rightarrow> dflt | Some v \<Rightarrow> if v = [] then dflt else v)"

definition anergy_entry_of :: "string \<Rightarrow> anergy_row \<Rightarrow> string + anergy_entry" where
  "anergy_entry_of rid r =
     (case r of
        None \<Rightarrow> Inl (''anergy entry '' @ rid @ '' is not an object'')
      | Some row \<Rightarrow>
          (let status = row_text row ''status'' ANERGIC in
           if status \<notin> {ANERGIC, PROMOTED}
           then Inl (''anergy entry '' @ rid @ '' has unknown status '' @ status)
           else Inr \<lparr>an_rule_id = rid, an_status = status,
                  an_signal = row_text row ''signal'' [],
                  an_since = row_text row ''since'' [],
                  an_promotion = row_text row ''promotion'' [],
                  an_promoted_in = row_text row ''promoted_in'' [],
                  an_changelog = row_text row ''changelog'' []\<rparr>))"

fun load_rows :: "(string \<times> anergy_row) list \<Rightarrow> string + (string \<times> anergy_entry) list" where
  "load_rows [] = Inr []"
| "load_rows ((rid, r) # rows) =
     (case anergy_entry_of rid r of
        Inl err \<Rightarrow> Inl err
      | Inr e \<Rightarrow> (case load_rows rows of Inl err \<Rightarrow> Inl err | Inr es \<Rightarrow> Inr ((rid, e) # es)))"

text \<open>\<open>None\<close>: the file carries no \<^verbatim>\<open>rules\<close> object.  The keys of a JSON object are distinct.\<close>

definition load_ledger ::
  "(string \<times> anergy_row) list option \<Rightarrow> string + (string \<times> anergy_entry) list" where
  "load_ledger rules =
     (case rules of None \<Rightarrow> Inl ''anergy.json must carry a rules object'' | Some rows \<Rightarrow> load_rows rows)"

text \<open>\<^verbatim>\<open>dict(sorted(_load().items()))\<close>: the entries by rule id.\<close>

definition ledger_entries :: "(string \<times> anergy_entry) list \<Rightarrow> (string \<times> anergy_entry) list" where
  "ledger_entries loaded = sort_key fst loaded"

definition ledger_entry :: "(string \<times> anergy_entry) list \<Rightarrow> string \<Rightarrow> anergy_entry option" where
  "ledger_entry ledger rid = (if rid = [] then None else map_of ledger rid)"

definition is_anergic :: "(string \<times> anergy_entry) list \<Rightarrow> string \<Rightarrow> bool" where
  "is_anergic ledger rid =
     (case ledger_entry ledger rid of None \<Rightarrow> False | Some e \<Rightarrow> an_status e = ANERGIC)"

definition anergic_ids :: "(string \<times> anergy_entry) list \<Rightarrow> string list" where
  "anergic_ids ledger = sort (map fst (filter (\<lambda>(rid, e). an_status e = ANERGIC) ledger))"

definition promoted_entries :: "(string \<times> anergy_entry) list \<Rightarrow> anergy_entry list" where
  "promoted_entries ledger =
     map snd (filter (\<lambda>(rid, e). an_status e = PROMOTED) (sort_key fst ledger))"

section \<open>Review policy\<close>

record review_policy =
  rp_name :: string
  rp_threshold :: int

definition flagged :: "review_policy \<Rightarrow> int \<Rightarrow> bool" where
  "flagged policy score = (score > rp_threshold policy)"

definition DEFAULT_PROFILE_THRESHOLDS :: "int dict" where
  "DEFAULT_PROFILE_THRESHOLDS = [(''default'', 20), (''quiet'', 40), (''strict'', 10)]"

text \<open>A configured threshold: an integer that is not a boolean, from 0 to 100.\<close>

fun valid_threshold :: "py_value \<Rightarrow> int option" where
  "valid_threshold (VInt t) = (if 0 \<le> t \<and> t \<le> 100 then Some t else None)"
| "valid_threshold _ = None"

fun apply_profiles :: "py_value dict \<Rightarrow> int dict \<Rightarrow> string + int dict" where
  "apply_profiles [] profiles = Inr profiles"
| "apply_profiles ((name, v) # configured) profiles =
     (if map_of profiles name = None
      then Inl (''review profile names must be one of: '' @ py_join '', '' (sort (map fst profiles)))
      else (case valid_threshold v of
              None \<Rightarrow> Inl (''review profile '' @ name @
                             '' threshold must be an integer between 0 and 100'')
            | Some t \<Rightarrow> apply_profiles configured (dict_set profiles name t)))"

text \<open>
  The \<^verbatim>\<open>[review]\<close> table: \<open>rc_table\<close> tells whether it is a table, \<open>rc_profiles\<close> is
  \<open>None\<close> when \<^verbatim>\<open>profiles\<close> is not one (absent is \<open>Some []\<close>), \<open>rc_profile\<close> is the selected
  profile when the key is there.
\<close>

record review_config =
  rc_table :: bool
  rc_profiles :: "py_value dict option"
  rc_profile :: "py_value option"

definition review_policy_of :: "review_config \<Rightarrow> string + review_policy" where
  "review_policy_of cfg =
     (if \<not> rc_table cfg then Inl ''[review] must be a table''
      else (case rc_profiles cfg of
              None \<Rightarrow> Inl ''[review.profiles] must be a table''
            | Some configured \<Rightarrow>
                (case apply_profiles configured DEFAULT_PROFILE_THRESHOLDS of
                   Inl err \<Rightarrow> Inl err
                 | Inr profiles \<Rightarrow>
                     (let bad = Inl (''review.profile must be one of: ''
                                       @ py_join '', '' (sort (map fst profiles)))
                      in case (case rc_profile cfg of None \<Rightarrow> VStr ''default'' | Some v \<Rightarrow> v) of
                           VStr name \<Rightarrow>
                             (case map_of profiles name of
                                None \<Rightarrow> bad
                              | Some t \<Rightarrow> Inr \<lparr>rp_name = name, rp_threshold = t\<rparr>)
                         | _ \<Rightarrow> bad))))"

section \<open>Lemmas\<close>

lemma load_rows_keys: "load_rows rows = Inr es \<Longrightarrow> map fst es = map fst rows"
  by (induction rows arbitrary: es rule: load_rows.induct) (auto split: sum.splits)

lemma load_rows_status:
  "load_rows rows = Inr es \<Longrightarrow> (rid, e) \<in> set es \<Longrightarrow>
     an_rule_id e = rid \<and> (an_status e = ANERGIC \<or> an_status e = PROMOTED)"
  by (induction rows arbitrary: es rule: load_rows.induct)
     (auto simp: anergy_entry_of_def Let_def split: sum.splits option.splits if_splits)

lemma map_of_sort_key:
  "distinct (map fst es) \<Longrightarrow> map_of (sort_key fst es) = map_of (es :: (string \<times> 'v) list)"
proof -
  assume d: "distinct (map fst es)"
  then have "distinct (map fst (sort_key fst es))" by (simp add: distinct_map)
  with d show ?thesis by (simp add: map_of_inject_set)
qed

text \<open>The profiles stay the three shipped ones, with thresholds from 0 to 100.\<close>

definition sane :: "int dict \<Rightarrow> bool" where
  "sane ps = list_all (\<lambda>p. 0 \<le> snd p \<and> snd p \<le> 100) ps"

lemma sane_dict_set: "sane ps \<Longrightarrow> 0 \<le> t \<Longrightarrow> t \<le> 100 \<Longrightarrow> sane (dict_set ps name t)"
  by (induction ps name t rule: dict_set.induct) (auto simp: sane_def)

lemma valid_threshold_range: "valid_threshold v = Some t \<Longrightarrow> 0 \<le> t \<and> t \<le> 100"
  by (cases v) (auto split: if_splits)

lemma apply_profiles_inv:
  "apply_profiles configured ps = Inr qs \<Longrightarrow> sane ps \<Longrightarrow> sane qs \<and> fst ` set qs = fst ` set ps"
proof (induction configured ps arbitrary: qs rule: apply_profiles.induct)
  case (2 name v configured ps)
  from "2.prems"(1) obtain t where t: "valid_threshold v = Some t" "map_of ps name \<noteq> None"
    and rec: "apply_profiles configured (dict_set ps name t) = Inr qs"
    by (auto split: if_splits option.splits)
  from t(2) have "name \<in> fst ` set ps" by (simp add: map_of_eq_None_iff)
  then have keys: "fst ` set (dict_set ps name t) = fst ` set ps"
    unfolding dict_set_keys by blast
  have "sane (dict_set ps name t)"
    using valid_threshold_range [OF t(1)] "2.prems"(2) by (simp add: sane_dict_set)
  from "2.IH" [OF t(2) t(1) rec this] keys show ?case by simp
qed simp

lemma status_of_loaded:
  assumes "load_rows rows = Inr es" "distinct (map fst rows)"
  shows "(r, e) \<in> set es \<Longrightarrow> map_of es r = Some e"
  using assms load_rows_keys [OF assms(1)] by simp

text \<open>The ledger after loading.  Loading keeps the ids of the file and gives every entry a known
  status, \<^verbatim>\<open>entry\<close> looks an id up whatever the sorting did, a rule is anergic exactly when it is
  listed among the anergic ids, and no rule is both anergic and promoted.\<close>

theorem ledger_states:
  assumes "load_ledger (Some rows) = Inr loaded" and "distinct (map fst rows)" and "rid \<noteq> []"
  shows "ledger_entry (ledger_entries loaded) rid = map_of loaded rid \<and>
    (is_anergic (ledger_entries loaded) rid \<longleftrightarrow> rid \<in> set (anergic_ids (ledger_entries loaded))) \<and>
    set (anergic_ids (ledger_entries loaded)) \<union> an_rule_id ` set (promoted_entries (ledger_entries loaded))
      = fst ` set rows \<and>
    set (anergic_ids (ledger_entries loaded)) \<inter> an_rule_id ` set (promoted_entries (ledger_entries loaded))
      = {}"
proof -
  from assms(1) have rows: "load_rows rows = Inr loaded" by (simp add: load_ledger_def)
  then have d: "distinct (map fst loaded)" using assms(2) load_rows_keys by metis
  note st = load_rows_status [OF rows]
  have look: "ledger_entry (ledger_entries loaded) rid = map_of loaded rid"
    using assms(3) by (simp add: ledger_entry_def ledger_entries_def map_of_sort_key [OF d])
  have an: "set (anergic_ids (ledger_entries loaded)) =
      {r. \<exists>e. map_of loaded r = Some e \<and> an_status e = ANERGIC}"
    using d by (force simp: anergic_ids_def ledger_entries_def)
  have pr: "an_rule_id ` set (promoted_entries (ledger_entries loaded)) =
      {r. \<exists>e. map_of loaded r = Some e \<and> an_status e = PROMOTED}"
  proof -
    have "an_rule_id ` set (promoted_entries (ledger_entries loaded)) =
        an_rule_id ` snd ` {p \<in> set loaded. an_status (snd p) = PROMOTED}"
      by (simp add: promoted_entries_def ledger_entries_def case_prod_beta')
    also have "\<dots> = fst ` {p \<in> set loaded. an_status (snd p) = PROMOTED}"
      unfolding image_image using st by (intro image_cong) auto
    also have "\<dots> = {r. \<exists>e. (r, e) \<in> set loaded \<and> an_status e = PROMOTED}" by force
    finally show ?thesis using d by simp
  qed
  have iff: "is_anergic (ledger_entries loaded) rid \<longleftrightarrow> rid \<in> set (anergic_ids (ledger_entries loaded))"
    unfolding is_anergic_def look an by (simp split: option.split)
  have keys: "fst ` set loaded = fst ` set rows" using load_rows_keys [OF rows] by (metis set_map)
  have union: "{r. \<exists>e. map_of loaded r = Some e \<and> an_status e = ANERGIC} \<union>
      {r. \<exists>e. map_of loaded r = Some e \<and> an_status e = PROMOTED} = fst ` set loaded"
  proof -
    have "(\<exists>e. map_of loaded r = Some e \<and> an_status e = ANERGIC) \<or>
        (\<exists>e. map_of loaded r = Some e \<and> an_status e = PROMOTED) \<longleftrightarrow> map_of loaded r \<noteq> None" for r
      using st map_of_SomeD [of loaded r] by blast
    then have "(\<exists>e. map_of loaded r = Some e \<and> an_status e = ANERGIC) \<or>
        (\<exists>e. map_of loaded r = Some e \<and> an_status e = PROMOTED) \<longleftrightarrow> r \<in> fst ` set loaded" for r
      by (simp only: map_of_eq_None_iff not_not)
    then show ?thesis by (simp add: set_eq_iff)
  qed
  have disj: "{r. \<exists>e. map_of loaded r = Some e \<and> an_status e = ANERGIC} \<inter>
      {r. \<exists>e. map_of loaded r = Some e \<and> an_status e = PROMOTED} = {}"
    by (auto simp: ANERGIC_def PROMOTED_def)
  show ?thesis
    by (intro conjI look iff, unfold an pr) (rule trans [OF union keys], rule disj)
qed

theorem ledger_states_witness:
  "is_anergic (ledger_entries [(''C033'', \<lparr>an_rule_id = ''C033'', an_status = ANERGIC, an_signal = [],
     an_since = [], an_promotion = [], an_promoted_in = [], an_changelog = []\<rparr>)]) ''C033''"
  using ledger_states [of "[(''C033'', Some [])]" "[(''C033'', \<lparr>an_rule_id = ''C033'',
     an_status = ANERGIC, an_signal = [], an_since = [], an_promotion = [], an_promoted_in = [],
     an_changelog = []\<rparr>)]" "''C033''"]
  by (simp add: load_ledger_def anergy_entry_of_def row_text_def Let_def ledger_entries_def
      anergic_ids_def is_anergic_def)

text \<open>A review policy that is accepted is safe.  Its name is one of the three shipped profiles
  and its threshold lies between 0 and 100; a configuration that would need anything else
  is an error, never a policy.\<close>

theorem review_policy_safe:
  assumes "review_policy_of cfg = Inr policy"
  shows "rp_name policy \<in> {''default'', ''quiet'', ''strict''} \<and>
    0 \<le> rp_threshold policy \<and> rp_threshold policy \<le> 100"
proof -
  from assms obtain configured profiles where
    ap: "apply_profiles configured DEFAULT_PROFILE_THRESHOLDS = Inr profiles"
    and sel: "map_of profiles (rp_name policy) = Some (rp_threshold policy)"
    by (auto simp: review_policy_of_def Let_def
        split: if_splits option.splits sum.splits py_value.splits)
  from sel have mem: "(rp_name policy, rp_threshold policy) \<in> set profiles" by (rule map_of_SomeD)
  have "sane DEFAULT_PROFILE_THRESHOLDS" by (simp add: sane_def DEFAULT_PROFILE_THRESHOLDS_def)
  from apply_profiles_inv [OF ap this] have "sane profiles"
    and keys: "fst ` set profiles = {''default'', ''quiet'', ''strict''}"
    by (simp_all add: DEFAULT_PROFILE_THRESHOLDS_def)
  with mem have "0 \<le> rp_threshold policy \<and> rp_threshold policy \<le> 100"
    unfolding sane_def list_all_iff by fastforce
  moreover have "rp_name policy \<in> fst ` set profiles" using mem by force
  ultimately show ?thesis unfolding keys by blast
qed

theorem review_policy_safe_witness:
  "0 \<le> rp_threshold \<lparr>rp_name = ''quiet'', rp_threshold = 55\<rparr>"
  using review_policy_safe [of "\<lparr>rc_table = True, rc_profiles = Some [(''quiet'', VInt 55)],
      rc_profile = Some (VStr ''quiet'')\<rparr>" "\<lparr>rp_name = ''quiet'', rp_threshold = 55\<rparr>"]
  by (simp add: review_policy_of_def DEFAULT_PROFILE_THRESHOLDS_def Let_def)

end
