(* ===== verification/Maturity.thy ===== *)
theory Maturity
  imports TS_Prelude
begin

text \<open>
  The maturity multiplier of \<^verbatim>\<open>scoring.py\<close>, in binary floating point.  A non-negative
  \<^verbatim>\<open>float\<close> is a pair \<open>(a, k)\<close> that stands for \<open>a / 2 ^ k\<close>; \<open>round53\<close> rounds a ratio to 53
  significant bits, ties to even, as IEEE 754 double precision does (infinities and
  subnormals are out of reach of the weights).  The lemmas show that no rounding is visible in
  the shipped novelty weights.
\<close>

section \<open>Binary floating point\<close>

type_synonym dbl = "nat \<times> nat"

definition rnd_tie :: "nat \<Rightarrow> nat \<Rightarrow> nat \<Rightarrow> nat" where
  "rnd_tie q r den =
     (if 2 * r < den then q else if den < 2 * r then q + 1 else if even q then q else q + 1)"

definition rnd_half_even :: "nat \<Rightarrow> nat \<Rightarrow> nat" where
  "rnd_half_even num den = rnd_tie (num div den) (num mod den) den"

text \<open>
  How often the numerator is doubled until the quotient has 53 bits, in strides of 16, 4 and 1.
\<close>

function scale_of :: "nat \<Rightarrow> nat \<Rightarrow> nat" where
  "scale_of num den =
     (if num = 0 \<or> 2 ^ 52 * den \<le> num then 0
      else if 65536 * num < 2 ^ 52 * den then scale_of (65536 * num) den + 16
      else if 16 * num < 2 ^ 52 * den then scale_of (16 * num) den + 4
      else scale_of (2 * num) den + 1)"
  by auto
termination by (relation "measure (\<lambda>(num, den). 2 ^ 52 * den - num)") auto

text \<open>How often the denominator is doubled until the quotient has at most 53 bits.\<close>

function excess_of :: "nat \<Rightarrow> nat \<Rightarrow> nat" where
  "excess_of num den =
     (if den = 0 \<or> num < 2 ^ 53 * den then 0 else excess_of num (2 * den) + 1)"
  by auto
termination by (relation "measure (\<lambda>(num, den). num - den)") auto

declare scale_of.simps [simp del] excess_of.simps [simp del]

definition round_fine :: "nat \<Rightarrow> nat \<Rightarrow> nat \<Rightarrow> dbl" where
  "round_fine num den k = (rnd_half_even (num * 2 ^ k) den, k)"

definition round_coarse :: "nat \<Rightarrow> nat \<Rightarrow> nat \<Rightarrow> dbl" where
  "round_coarse num den e = (rnd_half_even num (den * 2 ^ e) * 2 ^ e, 0)"

definition round53 :: "nat \<Rightarrow> nat \<Rightarrow> dbl" where
  "round53 num den =
     (if num < 2 ^ 53 * den then round_fine num den (scale_of num den)
      else round_coarse num den (excess_of num den))"

text \<open>Conversion of an integer, product, and truncation to an integer.\<close>

definition dbl_of :: "nat \<Rightarrow> dbl" where "dbl_of n = round53 n 1"

definition dbl_mul :: "dbl \<Rightarrow> dbl \<Rightarrow> dbl" where
  "dbl_mul x y = round53 (fst x * fst y) (2 ^ (snd x + snd y))"

definition dbl_trunc :: "dbl \<Rightarrow> int" where "dbl_trunc x = int (fst x div 2 ^ snd x)"

section \<open>Maturity\<close>

definition MATURITY_THRESHOLD :: int where "MATURITY_THRESHOLD = 50"

definition maturity :: "int \<Rightarrow> dbl" where
  "maturity n_obs =
     (if n_obs \<le> 0 then (0, 0)
      else if n_obs \<ge> MATURITY_THRESHOLD then (1, 0)
      else round53 (nat n_obs) (nat MATURITY_THRESHOLD))"

text \<open>\<^verbatim>\<open>m < 0.5\<close>.\<close>

definition below_half :: "dbl \<Rightarrow> bool" where
  "below_half m = (2 * fst m < 2 ^ snd m)"

text \<open>\<^verbatim>\<open>int(raw_w * m)\<close>: the weight becomes a float, the product is rounded, \<^verbatim>\<open>int\<close> truncates.\<close>

definition scaled_weight :: "int \<Rightarrow> dbl \<Rightarrow> int" where
  "scaled_weight raw_w m =
     (if raw_w < 0 then - dbl_trunc (dbl_mul (dbl_of (nat (- raw_w))) m)
      else dbl_trunc (dbl_mul (dbl_of (nat raw_w)) m))"

text \<open>\<^verbatim>\<open>f"{m:.2f}"\<close>.\<close>

definition show_2f :: "dbl \<Rightarrow> string" where
  "show_2f m =
     (let h = rnd_half_even (fst m * 100) (2 ^ snd m)
      in show_nat (h div 100) @ ''.'' @ show_nat (h mod 100 div 10) @ show_nat (h mod 10))"

section \<open>Lemmas\<close>

lemmas dbl_simps =
  scale_of.simps excess_of.simps round53_def round_fine_def round_coarse_def rnd_half_even_def rnd_tie_def
  dbl_of_def dbl_mul_def dbl_trunc_def
  maturity_def MATURITY_THRESHOLD_def below_half_def scaled_weight_def

lemma maturity_values:
  "maturity 1 = (5764607523034235, 58)"
  "maturity 2 = (5764607523034235, 57)"
  "maturity 3 = (8646911284551352, 57)"
  "maturity 4 = (5764607523034235, 56)"
  "maturity 5 = (7205759403792794, 56)"
  "maturity 6 = (8646911284551352, 56)"
  "maturity 7 = (5044031582654956, 55)"
  "maturity 8 = (5764607523034235, 55)"
  "maturity 9 = (6485183463413514, 55)"
  "maturity 10 = (7205759403792794, 55)"
  "maturity 11 = (7926335344172073, 55)"
  "maturity 12 = (8646911284551352, 55)"
  "maturity 13 = (4683743612465316, 54)"
  "maturity 14 = (5044031582654956, 54)"
  "maturity 15 = (5404319552844595, 54)"
  "maturity 16 = (5764607523034235, 54)"
  "maturity 17 = (6124895493223875, 54)"
  "maturity 18 = (6485183463413514, 54)"
  "maturity 19 = (6845471433603154, 54)"
  "maturity 20 = (7205759403792794, 54)"
  "maturity 21 = (7566047373982433, 54)"
  "maturity 22 = (7926335344172073, 54)"
  "maturity 23 = (8286623314361713, 54)"
  "maturity 24 = (8646911284551352, 54)"
  "maturity 25 = (4503599627370496, 53)"
  "maturity 26 = (4683743612465316, 53)"
  "maturity 27 = (4863887597560136, 53)"
  "maturity 28 = (5044031582654956, 53)"
  "maturity 29 = (5224175567749775, 53)"
  "maturity 30 = (5404319552844595, 53)"
  "maturity 31 = (5584463537939415, 53)"
  "maturity 32 = (5764607523034235, 53)"
  "maturity 33 = (5944751508129055, 53)"
  "maturity 34 = (6124895493223875, 53)"
  "maturity 35 = (6305039478318694, 53)"
  "maturity 36 = (6485183463413514, 53)"
  "maturity 37 = (6665327448508334, 53)"
  "maturity 38 = (6845471433603154, 53)"
  "maturity 39 = (7025615418697974, 53)"
  "maturity 40 = (7205759403792794, 53)"
  "maturity 41 = (7385903388887613, 53)"
  "maturity 42 = (7566047373982433, 53)"
  "maturity 43 = (7746191359077253, 53)"
  "maturity 44 = (7926335344172073, 53)"
  "maturity 45 = (8106479329266893, 53)"
  "maturity 46 = (8286623314361713, 53)"
  "maturity 47 = (8466767299456532, 53)"
  "maturity 48 = (8646911284551352, 53)"
  "maturity 49 = (8827055269646172, 53)"
  by (simp_all add: dbl_simps del: One_nat_def)

lemma weight_values:
  "dbl_of 5 = (5629499534213120, 50)"
  "dbl_of 10 = (5629499534213120, 49)"
  "dbl_of 15 = (8444249301319680, 49)"
  by (simp_all add: dbl_simps del: One_nat_def)

lemmas table_simps =
  maturity_values weight_values scaled_weight_def dbl_mul_def dbl_trunc_def below_half_def
  scale_of.simps excess_of.simps round53_def round_fine_def round_coarse_def rnd_half_even_def rnd_tie_def

text \<open>The observation counts on the ramp, and the facts that hold at each of them.\<close>

definition ramp :: "int list" where "ramp = 1 # [2..49]"

lemma on_ramp: "0 < n \<Longrightarrow> n < 50 \<Longrightarrow> n \<in> set ramp"
  unfolding ramp_def by (auto simp del: upto_rec_numeral)

definition half_at :: "int \<Rightarrow> bool" where
  "half_at n = (below_half (maturity n) = (n < 25))"

lemma below_half_table: "list_all half_at ramp"
  by (simp add: half_at_def table_simps ramp_def del: One_nat_def)

lemma below_half_maturity: "below_half (maturity n) \<longleftrightarrow> n < 25"
proof -
  consider "n \<le> 0" | "0 < n" "n < 50" | "50 \<le> n" by linarith
  then show ?thesis
  proof cases
    case 2
    then have "half_at n" using below_half_table on_ramp by (simp only: list_all_iff)
    then show ?thesis by (simp only: half_at_def)
  qed (simp_all add: maturity_def MATURITY_THRESHOLD_def below_half_def)
qed

text \<open>The weights of the shipped configuration, at every observation count below the threshold.\<close>

definition weight_at :: "int \<Rightarrow> int \<Rightarrow> bool" where
  "weight_at w n = (scaled_weight w (maturity n) = w * n div 50)"

lemma weight_at_5: "list_all (weight_at 5) ramp"
  by (simp add: weight_at_def table_simps ramp_def del: One_nat_def)

lemma weight_at_10: "list_all (weight_at 10) ramp"
  by (simp add: weight_at_def table_simps ramp_def del: One_nat_def)

lemma weight_at_15: "list_all (weight_at 15) ramp"
  by (simp add: weight_at_def table_simps ramp_def del: One_nat_def)

lemma weight_full: "scaled_weight 5 (1, 0) = 5" "scaled_weight 10 (1, 0) = 10" "scaled_weight 15 (1, 0) = 15"
  by (simp_all add: table_simps del: One_nat_def)

end
