(* ===== verification/Scoring.thy ===== *)
theory Scoring
  imports Coverage Anergy Maturity
begin

text \<open>
  The trust score and the risk band (\<^verbatim>\<open>scoring.py\<close>).  \<open>calculate_score\<close> builds the score
  breakdown part by part, in the order of the code: the triggered rules, the coverage gaps, the
  source-bucket prior, the declared forge, the three novelty signals, and the declared practices;
  then it derives the band.  The configuration, the anergy ledger and the rules of \<^verbatim>\<open>rules.toml\<close>
  are arguments (\<open>None\<close> when the rules cannot be loaded).
\<close>

section \<open>Declared practices\<close>

definition P_CHECKSUMS :: string where "P_CHECKSUMS = ''P001''"
definition P_VALIDPGPKEYS :: string where "P_VALIDPGPKEYS = ''P002''"
definition P_SIGNATURE_SOURCE :: string where "P_SIGNATURE_SOURCE = ''P003''"
definition P_COMMIT_PINNED :: string where "P_COMMIT_PINNED = ''P005''"
definition P_TAG_PINNED :: string where "P_TAG_PINNED = ''P006''"
definition P_TRUSTED_FORGE :: string where "P_TRUSTED_FORGE = ''P007''"
definition P_NO_COMMIT_PIN :: string where "P_NO_COMMIT_PIN = ''P008''"
definition P_PREBUILT :: string where "P_PREBUILT = ''P009''"

lemmas practice_ids =
  P_CHECKSUMS_def P_VALIDPGPKEYS_def P_SIGNATURE_SOURCE_def P_COMMIT_PINNED_def
  P_TAG_PINNED_def P_TRUSTED_FORGE_def P_NO_COMMIT_PIN_def P_PREBUILT_def

definition DECLARED_BUCKETS :: "string list" where "DECLARED_BUCKETS = [''trusted_forge'']"

definition PINNED_LEVELS :: "string dict" where
  "PINNED_LEVELS = [(''commit_pinned'', P_COMMIT_PINNED), (''tag_pinned'', P_TAG_PINNED)]"

definition EVIDENCE_IDS :: "string dict" where
  "EVIDENCE_IDS = [(''checksum_present'', P_CHECKSUMS), (''no_commit_pin'', P_NO_COMMIT_PIN),
     (''validpgpkeys_declared'', P_VALIDPGPKEYS), (''gpg_verify_present'', P_SIGNATURE_SOURCE)]"

definition DECLARED_REASONS :: "string dict" where
  "DECLARED_REASONS = [
     (P_CHECKSUMS, ''checksums declared for all non-VCS sources''),
     (P_VALIDPGPKEYS, ''validpgpkeys declared''),
     (P_SIGNATURE_SOURCE, ''a signature source accompanies a source, with PGP keys declared''),
     (P_COMMIT_PINNED, ''source pinned to a full commit hash''),
     (P_TAG_PINNED, ''source pinned to a tag (tags can be repointed; commit pins cannot)''),
     (P_TRUSTED_FORGE, ''source hosted on a trusted forge over HTTPS''),
     (P_NO_COMMIT_PIN, ''source tracks a branch or unpinned ref; upstream decides at build '' @
        ''time what this compiles and runs''),
     (P_PREBUILT, ''the recipe declares a prebuilt deliverable (-bin/-appimage/-wine '' @
        ''name or a prebuilt-artifact source)'')]"

text \<open>\<^verbatim>\<open>d[k]\<close> for a key that is always there.\<close>

definition declared_reason :: "string \<Rightarrow> string" where
  "declared_reason rid = dict_get DECLARED_REASONS rid []"

text \<open>The parts of a parsed recipe that \<^verbatim>\<open>prebuilt_declared\<close> reads (\<^verbatim>\<open>recipedoc.parse_recipe\<close>).\<close>

record recipe_doc =
  doc_arrays :: "string list dict"
  doc_scalars :: "string dict"

definition PREBUILT_NAME_SUFFIXES :: "string list" where
  "PREBUILT_NAME_SUFFIXES = [''-bin'', ''-appimage'', ''-wine'']"

definition PREBUILT_EXTENSIONS :: "string list" where
  "PREBUILT_EXTENSIONS = [''bin'', ''exe'', ''elf'', ''so'', ''dll'', ''dylib'', ''appimage'',
     ''deb'', ''rpm'', ''apk'', ''msi'', ''jar'', ''run'']"

text \<open>
  \<^verbatim>\<open>_PREBUILT_ARTIFACT_RE.search\<close>: a dot, an extension in any case, and then the end (also
  before a final newline), a question mark or a hash.
\<close>

definition artifact_here :: "string \<Rightarrow> bool" where
  "artifact_here s =
     list_ex (\<lambda>ext. py_startswith (py_lower s) (''.'' @ ext) \<and>
        (let rest = drop (Suc (length ext)) s in
         rest = [] \<or> rest = [NL] \<or> hd rest = CHR ''?'' \<or> hd rest = CHR ''#'')) PREBUILT_EXTENSIONS"

fun prebuilt_artifact :: "string \<Rightarrow> bool" where
  "prebuilt_artifact [] = False"
| "prebuilt_artifact (c # s) = (artifact_here (c # s) \<or> prebuilt_artifact s)"

text \<open>\<open>doc\<close> is \<open>None\<close> for no text and for a recipe that does not parse.\<close>

definition prebuilt_declared :: "recipe_doc option \<Rightarrow> bool" where
  "prebuilt_declared doc =
     (case doc of
        None \<Rightarrow> False
      | Some d \<Rightarrow>
          (let listed = dict_get (doc_arrays d) ''pkgname'' [];
               scalar = dict_get (doc_scalars d) ''pkgname'' [];
               names = (if listed = [] \<and> scalar \<noteq> [] then [scalar] else listed)
           in list_ex (\<lambda>name. list_ex (py_endswith (py_lower (strip_quotes (py_strip name))))
                                PREBUILT_NAME_SUFFIXES) names \<or>
              list_ex (\<lambda>(field, entries).
                 (field = ''source'' \<or> py_startswith field ''source_'') \<and>
                 list_ex prebuilt_artifact entries) (doc_arrays d)))"

definition declared_claims :: "string list \<Rightarrow> string \<Rightarrow> string dict \<Rightarrow> bool \<Rightarrow> string set" where
  "declared_claims verification_evidence pinning_level source_buckets prebuilt =
     set (List.map_filter (map_of EVIDENCE_IDS) verification_evidence) \<union>
     (case map_of PINNED_LEVELS pinning_level of Some pin \<Rightarrow> {pin} | None \<Rightarrow> {}) \<union>
     (if list_ex (\<lambda>(url, bucket). bucket \<in> set DECLARED_BUCKETS) source_buckets
      then {P_TRUSTED_FORGE} else {}) \<union>
     (if prebuilt then {P_PREBUILT} else {})"

section \<open>Bands\<close>

definition FLAG_THRESHOLD :: int where "FLAG_THRESHOLD = 20"

definition risk_level :: "int \<Rightarrow> string" where
  "risk_level score =
     (if score \<le> FLAG_THRESHOLD then ''Low''
      else if score \<le> 50 then ''Medium''
      else if score \<le> 80 then ''High''
      else ''Critical'')"

definition verdict_level :: "package_fact \<Rightarrow> string" where
  "verdict_level pf = (if pf_risk pf \<noteq> [] then pf_risk pf else risk_level (pf_final_score pf))"

text \<open>\<^verbatim>\<open>-(-50 // 2)\<close>.\<close>

definition cold_start_remaining :: "package_fact \<Rightarrow> nat option" where
  "cold_start_remaining pf =
     (let half = - (- MATURITY_THRESHOLD div 2); obs = observation_count (pf_novelty_context pf)
      in if obs \<ge> half then None else Some (nat (half - obs)))"

definition fatal_label :: "string \<Rightarrow> score_entry list \<Rightarrow> string" where
  "fatal_label level breakdown =
     (let fatal = filter (\<lambda>e. e_severity e = ''FATAL'') breakdown;
          names = py_join '', '' (uniq_first (filter (\<lambda>r. r \<noteq> []) (map e_rule_id fatal)))
      in if fatal = [] \<or> names = [] then level else level @ '' (FATAL: '' @ names @ '')'')"

definition verdict_label :: "package_fact \<Rightarrow> string" where
  "verdict_label pf =
     (let level = verdict_level pf; gaps = pf_coverage_gaps pf in
      if level = ''Inconclusive'' then inconclusive_label gaps (cold_start_remaining pf)
      else qualified_band (fatal_label level (pf_score_breakdown pf)) gaps)"

definition CRITICAL_BAND_FLOOR :: string where "CRITICAL_BAND_FLOOR = ''High''"

definition BAND_ORDER :: "string list" where
  "BAND_ORDER = [''Low'', ''Medium'', ''High'', ''Critical'']"

text \<open>\<^verbatim>\<open>xs.index(x)\<close> for an element that is there.\<close>

fun index_of :: "'a list \<Rightarrow> 'a \<Rightarrow> nat" where
  "index_of [] x = 0"
| "index_of (y # ys) x = (if y = x then 0 else Suc (index_of ys x))"

definition floor_for_critical :: "string \<Rightarrow> score_entry list \<Rightarrow> string" where
  "floor_for_critical level breakdown =
     (if level \<notin> set BAND_ORDER then level
      else if \<not> list_ex (\<lambda>e. e_severity e = ''CRITICAL'') breakdown then level
      else if index_of BAND_ORDER level \<ge> index_of BAND_ORDER CRITICAL_BAND_FLOOR then level
      else CRITICAL_BAND_FLOOR)"

definition META_ESCALATORS :: "string list" where "META_ESCALATORS = [''M002'', ''M003'']"

text \<open>A string, a list through \<^verbatim>\<open>str\<close>, or nothing that licenses.\<close>

fun declared_licensors :: "rule_decl \<Rightarrow> string list" where
  "declared_licensors r =
     (case rd_escalates r of Some (VStr s) \<Rightarrow> [s] | Some (VStrs ss) \<Rightarrow> ss | _ \<Rightarrow> [])"

definition licensors_fired :: "rule_decl list option \<Rightarrow> string list \<Rightarrow> bool" where
  "licensors_fired rules fired =
     (case rules of None \<Rightarrow> False
      | Some rs \<Rightarrow> list_ex (\<lambda>r. rd_id r \<in> set fired \<and>
                       list_ex (\<lambda>lic. lic \<in> set fired) (declared_licensors r)) rs)"

definition escalate_for_meta :: "rule_decl list option \<Rightarrow> string \<Rightarrow> score_entry list \<Rightarrow> string" where
  "escalate_for_meta rules level breakdown =
     (if level \<notin> set BAND_ORDER then level
      else (let fired = map e_rule_id breakdown in
            if \<not> (list_ex (\<lambda>r. r \<in> set META_ESCALATORS) fired \<or> licensors_fired rules fired)
            then level
            else BAND_ORDER ! (min (index_of BAND_ORDER level + 1) (length BAND_ORDER - 1))))"

section \<open>The score\<close>

record scoring_config =
  cf_severity_weights :: "int dict"
  cf_bucket_weights :: "int dict"
  cf_novelty_weights :: "int dict"

type_synonym ledger = "(string \<times> anergy_entry) list"

text \<open>
  The declared weight of a rule: its \<^verbatim>\<open>weight_override\<close> when that is an integer, otherwise the
  weight of its severity.
\<close>

definition rule_weight :: "scoring_config \<Rightarrow> finding \<Rightarrow> int" where
  "rule_weight cfg f =
     (let by_severity = dict_get (cf_severity_weights cfg) (f_severity f) 0 in
      case f_weight_override f of
        None \<Rightarrow> by_severity
      | Some v \<Rightarrow> (case py_int v of Some w \<Rightarrow> w | None \<Rightarrow> by_severity))"

definition rule_entry :: "scoring_config \<Rightarrow> ledger \<Rightarrow> finding \<Rightarrow> score_entry" where
  "rule_entry cfg ledger f =
     (let params = (case f_params f of Some p \<Rightarrow> p | None \<Rightarrow> []);
          evidence = (case f_evidence f of Some e \<Rightarrow> e | None \<Rightarrow> params);
          reason = f_name f @ '': '' @ (case f_match f of Some m \<Rightarrow> m | None \<Rightarrow> []);
          base_entry = \<lparr>e_rule_id = f_rule_id f, e_severity = f_severity f, e_weight = 0,
            e_reason = reason, e_params = params,
            e_template = (case f_template f of Some t \<Rightarrow> t | None \<Rightarrow> []),
            e_evidence = evidence, e_file = (case f_file f of Some p \<Rightarrow> p | None \<Rightarrow> []),
            e_line = f_line f, e_licensed_by = [],
            e_techniques = (case f_techniques f of Some ts \<Rightarrow> ts | None \<Rightarrow> [])\<rparr>
      in if f_severity f = ''FATAL'' then base_entry
         else (case ledger_entry ledger (f_rule_id f) of
             Some a \<Rightarrow>
               if an_status a = ANERGIC
               then base_entry\<lparr>e_weight := 0,
                 e_reason := reason @ '' (anergic: weight 0 pending signal)'',
                 e_evidence := dict_set (dict_set evidence ''anergic'' (VBool True))
                                 ''anergic_signal'' (VStr (an_signal a))\<rparr>
               else base_entry\<lparr>e_weight := rule_weight cfg f\<rparr>
           | None \<Rightarrow> base_entry\<lparr>e_weight := rule_weight cfg f\<rparr>))"

definition gap_entry :: "string \<Rightarrow> score_entry" where
  "gap_entry gap = default_entry\<lparr>e_rule_id := ''COVERAGE'', e_severity := ''INFO'',
     e_reason := ''Coverage gap: '' @ dict_get GAP_REASONS gap gap,
     e_params := [(''gap'', VStr gap)], e_evidence := [(''gap'', VStr gap)]\<rparr>"

text \<open>
  The loop over the source buckets: the declared forge URLs are collected, and among the others
  the first URL of the greatest positive modifier is kept.
\<close>

record bucket_scan =
  bs_forge :: "string list"
  bs_modifier :: int
  bs_worst :: "(string \<times> string) option"

fun scan_buckets :: "int dict \<Rightarrow> string dict \<Rightarrow> bucket_scan \<Rightarrow> bucket_scan" where
  "scan_buckets weights [] st = st"
| "scan_buckets weights ((url, bucket) # rest) st =
     (let modifier = dict_get weights bucket 0 in
      if bucket \<in> set DECLARED_BUCKETS
      then scan_buckets weights rest (st\<lparr>bs_forge := bs_forge st @ [url]\<rparr>)
      else if modifier > bs_modifier st
      then scan_buckets weights rest (st\<lparr>bs_modifier := modifier, bs_worst := Some (url, bucket)\<rparr>)
      else scan_buckets weights rest st)"

definition bucket_entries :: "scoring_config \<Rightarrow> string dict \<Rightarrow> score_entry list" where
  "bucket_entries cfg source_buckets =
     (let st = scan_buckets (cf_bucket_weights cfg) source_buckets
                 \<lparr>bs_forge = [], bs_modifier = 0, bs_worst = None\<rparr>
      in (case bs_worst st of None \<Rightarrow> []
          | Some (url, name) \<Rightarrow>
              [default_entry\<lparr>e_rule_id := ''SOURCE_BUCKET'',
                 e_severity := (if bs_modifier st \<le> 0 then ''INFO'' else ''MEDIUM''),
                 e_weight := bs_modifier st,
                 e_reason := ''Source URL classified as '' @ name @ '' ('' @ url @ '')''\<rparr>]) @
         (if bs_forge st = [] then []
          else (let count = [(''count'', VInt (int (length (bs_forge st))))] in
                [default_entry\<lparr>e_rule_id := P_TRUSTED_FORGE, e_severity := ''INFO'',
                   e_reason := declared_reason P_TRUSTED_FORGE,
                   e_params := count, e_evidence := count\<rparr>])))"

text \<open>The shipped \<^verbatim>\<open>[novelty_weights]\<close>, which stand in for a key the configuration lacks.\<close>

definition DEFAULT_NOVELTY_WEIGHTS :: "int dict" where
  "DEFAULT_NOVELTY_WEIGHTS = [(''url_first_in_package'', 5), (''url_first_globally'', 10),
     (''maintainer_first_in_package'', 15)]"

definition novelty_weight :: "scoring_config \<Rightarrow> string \<Rightarrow> int" where
  "novelty_weight cfg key =
     dict_get (cf_novelty_weights cfg) key (dict_get DEFAULT_NOVELTY_WEIGHTS key 0)"

definition novelty_entry :: "bool \<Rightarrow> int \<Rightarrow> string \<Rightarrow> string \<Rightarrow> dbl \<Rightarrow> score_entry list" where
  "novelty_entry seen raw_w severity what m =
     (let w = scaled_weight raw_w m in
      if seen \<and> w > 0
      then [default_entry\<lparr>e_rule_id := ''NOVELTY'', e_severity := severity, e_weight := w,
              e_reason := what @ '' (maturity='' @ show_2f m @ '')''\<rparr>]
      else [])"

definition where_text :: "string \<Rightarrow> string" where
  "where_text url = (if url = [] then [] else '': '' @ url)"

definition declared_entry :: "string \<Rightarrow> score_entry" where
  "declared_entry rid = default_entry\<lparr>e_rule_id := rid, e_severity := ''INFO'',
     e_reason := declared_reason rid\<rparr>"

definition declared_entries :: "string list \<Rightarrow> string \<Rightarrow> bool \<Rightarrow> score_entry list" where
  "declared_entries verification_evidence pinning_level prebuilt =
     (case map_of PINNED_LEVELS pinning_level of Some pin \<Rightarrow> [declared_entry pin] | None \<Rightarrow> []) @
     map declared_entry (List.map_filter (map_of EVIDENCE_IDS) verification_evidence) @
     (if prebuilt then [declared_entry P_PREBUILT] else [])"

text \<open>
  The run of \<^verbatim>\<open>calculate_score\<close>: the running sum \<^verbatim>\<open>base\<close> and the breakdown are two variables, and every part
  adds to the one and appends to the other on its own.
\<close>

type_synonym score_run = "int \<times> score_entry list"

definition applied_weight :: "scoring_config \<Rightarrow> ledger \<Rightarrow> finding \<Rightarrow> int" where
  "applied_weight cfg ledger f =
     (case ledger_entry ledger (f_rule_id f) of
        Some a \<Rightarrow> if an_status a = ANERGIC then 0 else rule_weight cfg f
      | None \<Rightarrow> rule_weight cfg f)"

definition score_rule :: "scoring_config \<Rightarrow> ledger \<Rightarrow> finding \<Rightarrow> score_run \<Rightarrow> score_run" where
  "score_rule cfg ledger f st =
     (case st of (base, bd) \<Rightarrow>
        if f_severity f = ''FATAL'' then (base, bd @ [rule_entry cfg ledger f])
        else (base + applied_weight cfg ledger f, bd @ [rule_entry cfg ledger f]))"

definition score_gap :: "string \<Rightarrow> score_run \<Rightarrow> score_run" where
  "score_gap gap st = (case st of (base, bd) \<Rightarrow> (base, bd @ [gap_entry gap]))"

definition score_buckets :: "scoring_config \<Rightarrow> string dict \<Rightarrow> score_run \<Rightarrow> score_run" where
  "score_buckets cfg source_buckets st =
     (let scan = scan_buckets (cf_bucket_weights cfg) source_buckets
                   \<lparr>bs_forge = [], bs_modifier = 0, bs_worst = None\<rparr>;
          (base, bd) = st
      in (if bs_worst scan = None then base else base + bs_modifier scan,
          bd @ bucket_entries cfg source_buckets))"

definition score_signal :: "bool \<Rightarrow> int \<Rightarrow> string \<Rightarrow> string \<Rightarrow> dbl \<Rightarrow> score_run \<Rightarrow> score_run" where
  "score_signal seen raw_w severity what m st =
     (case st of (base, bd) \<Rightarrow>
        (if seen \<and> scaled_weight raw_w m > 0 then base + scaled_weight raw_w m else base,
         bd @ novelty_entry seen raw_w severity what m))"

definition score_novelty :: "scoring_config \<Rightarrow> novelty_context \<Rightarrow> score_run \<Rightarrow> score_run" where
  "score_novelty cfg nov st =
     (let m = maturity (observation_count nov);
          raw_g = novelty_weight cfg ''url_first_globally'';
          st1 = score_signal (url_first_seen_globally nov) raw_g (if raw_g > 10 then ''HIGH'' else ''MEDIUM'')
            (''Source URL first seen globally'' @ where_text (url_first_seen_globally_url nov)) m st;
          st2 = score_signal (url_first_seen_in_this_package nov)
            (novelty_weight cfg ''url_first_in_package'') ''MEDIUM''
            (''Source URL first seen in this package''
               @ where_text (url_first_seen_in_this_package_url nov)) m st1
      in score_signal (maintainer_first_seen_for_this_package nov)
           (novelty_weight cfg ''maintainer_first_in_package'') ''HIGH''
           ''Maintainer first seen for this package'' m st2)"

definition score_declared :: "string list \<Rightarrow> string \<Rightarrow> bool \<Rightarrow> score_run \<Rightarrow> score_run" where
  "score_declared evidence pinning prebuilt st =
     (case st of (base, bd) \<Rightarrow> (base, bd @ declared_entries evidence pinning prebuilt))"

definition score_run_of ::
  "scoring_config \<Rightarrow> ledger \<Rightarrow> finding list \<Rightarrow> string dict \<Rightarrow> novelty_context \<Rightarrow>
   string list \<Rightarrow> string \<Rightarrow> string list \<Rightarrow> bool \<Rightarrow> score_run" where
  "score_run_of cfg ledger triggered buckets nov evidence pinning gaps prebuilt =
     score_declared evidence pinning prebuilt
       (score_novelty cfg nov
         (score_buckets cfg buckets
           (fold score_gap gaps
             (fold (score_rule cfg ledger) triggered (0, [])))))"

definition strong_entry :: "score_entry \<Rightarrow> bool" where
  "strong_entry e \<longleftrightarrow> e_severity e \<in> {''HIGH'', ''CRITICAL'', ''FATAL''}"

text \<open>The cold-start downgrade.\<close>

definition cold_start_band :: "string \<Rightarrow> novelty_context \<Rightarrow> score_entry list \<Rightarrow> string" where
  "cold_start_band level nov breakdown =
     (if level = ''Medium'' \<and> below_half (maturity (observation_count nov))
        \<and> \<not> list_ex strong_entry breakdown then ''Inconclusive'' else level)"

definition band_of ::
  "rule_decl list option \<Rightarrow> int \<Rightarrow> novelty_context \<Rightarrow> string list \<Rightarrow> score_entry list \<Rightarrow> string" where
  "band_of rules final nov gaps breakdown =
     fail_closed
       (escalate_for_meta rules
         (cold_start_band (floor_for_critical (risk_level final) breakdown) nov breakdown)
         breakdown)
       gaps breakdown"

text \<open>
  \<^verbatim>\<open>_annotate_licensed\<close>: of several rules with one id the dictionary keeps the last.
\<close>

definition annotate_licensed :: "rule_decl list option \<Rightarrow> score_entry list \<Rightarrow> score_entry list" where
  "annotate_licensed rules breakdown =
     (case rules of None \<Rightarrow> breakdown
      | Some rs \<Rightarrow>
          (let fired = map e_rule_id breakdown; by_id = map (\<lambda>r. (rd_id r, r)) (rev rs) in
           map (\<lambda>entry.
             case map_of by_id (e_rule_id entry) of
               None \<Rightarrow> entry
             | Some r \<Rightarrow>
                 (let hits = filter (\<lambda>lic. lic \<in> set fired) (declared_licensors r)
                  in if hits = [] then entry else entry\<lparr>e_licensed_by := hits\<rparr>)) breakdown))"

definition calculate_score ::
  "scoring_config \<Rightarrow> ledger \<Rightarrow> rule_decl list option \<Rightarrow> finding list \<Rightarrow> string dict \<Rightarrow>
   novelty_context \<Rightarrow> string list \<Rightarrow> string \<Rightarrow> string list \<Rightarrow> bool \<Rightarrow>
   int \<times> score_entry list \<times> string" where
  "calculate_score cfg ledger rules triggered buckets nov evidence pinning gaps prebuilt =
     (let (base, breakdown) = score_run_of cfg ledger triggered buckets nov evidence pinning gaps prebuilt;
          final = max 0 (min 100 base);
          level = band_of rules final nov gaps breakdown
      in (final, annotate_licensed rules breakdown, level))"

section \<open>Stored rows\<close>

text \<open>
  A stored analysis row: \<open>sr_fact\<close> is \<open>None\<close> when \<^verbatim>\<open>fact_json\<close> is absent or empty,
  \<open>Some None\<close> when it does not decode, and otherwise the fields \<^verbatim>\<open>risk\<close> and
  \<^verbatim>\<open>coverage_gaps\<close> of the decoded object (an absent one is empty).
\<close>

record stored_row =
  sr_fact :: "(string \<times> string list) option option"
  sr_final_score :: "int option"

definition stored_band :: "stored_row option \<Rightarrow> int option \<Rightarrow> string \<times> bool" where
  "stored_band row score =
     (case row of
        None \<Rightarrow> ([], True)
      | Some r \<Rightarrow>
          (let derived = (risk_level (case score of Some s \<Rightarrow> s
                 | None \<Rightarrow> (case sr_final_score r of Some s \<Rightarrow> s | None \<Rightarrow> 0)), True)
           in case sr_fact r of
                None \<Rightarrow> derived
              | Some decoded \<Rightarrow>
                  (let (band, gaps) = (case decoded of Some bg \<Rightarrow> bg | None \<Rightarrow> ([], []))
                   in if band = ''Inconclusive''
                      then (if gaps \<noteq> [] then (inconclusive_label gaps None, False)
                            else (''Inconclusive (cold start)'', True))
                      else if band \<noteq> [] then (qualified_band band gaps, gaps = [])
                      else derived)))"

section \<open>Lemmas on the score\<close>

text \<open>The entries the parts append, and the sum of their weights.\<close>

definition novelty_entries :: "scoring_config \<Rightarrow> novelty_context \<Rightarrow> score_entry list" where
  "novelty_entries cfg nov =
     (let m = maturity (observation_count nov);
          raw_g = novelty_weight cfg ''url_first_globally''
      in novelty_entry (url_first_seen_globally nov) raw_g (if raw_g > 10 then ''HIGH'' else ''MEDIUM'')
           (''Source URL first seen globally'' @ where_text (url_first_seen_globally_url nov)) m @
         novelty_entry (url_first_seen_in_this_package nov)
           (novelty_weight cfg ''url_first_in_package'') ''MEDIUM''
           (''Source URL first seen in this package''
              @ where_text (url_first_seen_in_this_package_url nov)) m @
         novelty_entry (maintainer_first_seen_for_this_package nov)
           (novelty_weight cfg ''maintainer_first_in_package'') ''HIGH''
           ''Maintainer first seen for this package'' m)"

definition score_breakdown ::
  "scoring_config \<Rightarrow> ledger \<Rightarrow> finding list \<Rightarrow> string dict \<Rightarrow> novelty_context \<Rightarrow>
   string list \<Rightarrow> string \<Rightarrow> string list \<Rightarrow> bool \<Rightarrow> score_entry list" where
  "score_breakdown cfg ledger triggered buckets nov evidence pinning gaps prebuilt =
     map (rule_entry cfg ledger) triggered @ map gap_entry gaps @ bucket_entries cfg buckets @
     novelty_entries cfg nov @ declared_entries evidence pinning prebuilt"

definition total_weight :: "score_entry list \<Rightarrow> int" where
  "total_weight breakdown = sum_list (map e_weight breakdown)"

lemma total_weight_simps [simp]:
  "total_weight [] = 0" "total_weight (e # es) = e_weight e + total_weight es"
  "total_weight (xs @ ys) = total_weight xs + total_weight ys"
  by (simp_all add: total_weight_def)

lemma rule_entry_facts [simp]:
  "e_rule_id (rule_entry cfg ledger f) = f_rule_id f"
  "e_severity (rule_entry cfg ledger f) = f_severity f"
  by (simp_all add: rule_entry_def Let_def split: option.splits)

lemma rule_entry_weight:
  "e_weight (rule_entry cfg ledger f) =
     (if f_severity f = ''FATAL'' \<or> is_anergic ledger (f_rule_id f) then 0 else rule_weight cfg f)"
  by (simp add: rule_entry_def Let_def is_anergic_def split: option.splits)

lemma gap_entry_facts [simp]:
  "e_weight (gap_entry g) = 0" "e_severity (gap_entry g) = ''INFO''" "e_rule_id (gap_entry g) = ''COVERAGE''"
  by (simp_all add: gap_entry_def default_entry_def)

lemma declared_entry_facts [simp]:
  "e_weight (declared_entry r) = 0" "e_severity (declared_entry r) = ''INFO''"
  "e_rule_id (declared_entry r) = r"
  by (simp_all add: declared_entry_def default_entry_def)

lemma total_gap_entries [simp]: "total_weight (map gap_entry gaps) = 0"
  by (induction gaps) simp_all

lemma total_declared_map [simp]: "total_weight (map declared_entry rs) = 0"
  by (induction rs) simp_all

lemma total_declared_entries [simp]: "total_weight (declared_entries ev pin pre) = 0"
  by (simp add: declared_entries_def split: option.splits)

text \<open>Only the rules, the bucket prior and the novelty signals carry weight.\<close>

lemma total_breakdown:
  "total_weight (score_breakdown cfg ledger fs buckets nov ev pin gaps pre) =
     total_weight (map (rule_entry cfg ledger) fs) + total_weight (bucket_entries cfg buckets)
     + total_weight (novelty_entries cfg nov)"
  by (simp add: score_breakdown_def)

definition erase_licences :: "score_entry \<Rightarrow> score_entry" where
  "erase_licences e = e\<lparr>e_licensed_by := []\<rparr>"

lemma annotate_map:
  "\<exists>h. annotate_licensed rules bd = map (\<lambda>e. if h e = [] then e else e\<lparr>e_licensed_by := h e\<rparr>) bd \<and>
     (\<forall>e. set (h e) \<subseteq> e_rule_id ` set bd)"
proof (cases rules)
  case None
  then show ?thesis by (intro exI [of _ "\<lambda>_. []"]) (simp add: annotate_licensed_def)
next
  case (Some rs)
  let ?h = "\<lambda>e. case map_of (map (\<lambda>r. (rd_id r, r)) (rev rs)) (e_rule_id e) of
      None \<Rightarrow> [] | Some r \<Rightarrow> filter (\<lambda>lic. lic \<in> set (map e_rule_id bd)) (declared_licensors r)"
  show ?thesis
    by (rule exI [of _ ?h])
       (auto simp: annotate_licensed_def Some Let_def simp del: declared_licensors.simps
         split: option.splits)
qed

lemma annotate_keeps:
  "map e_weight (annotate_licensed rules bd) = map e_weight bd"
  "map e_severity (annotate_licensed rules bd) = map e_severity bd"
  "map e_rule_id (annotate_licensed rules bd) = map e_rule_id bd"
  "map erase_licences (annotate_licensed rules bd) = map erase_licences bd"
  using annotate_map [of rules bd] by (auto simp: erase_licences_def)

lemma annotate_strong: "list_ex strong_entry (annotate_licensed rules bd) = list_ex strong_entry bd"
proof -
  have "list_ex strong_entry es = list_ex (\<lambda>s. s \<in> {''HIGH'', ''CRITICAL'', ''FATAL''}) (map e_severity es)"
    for es by (simp add: list_ex_iff strong_entry_def)
  then show ?thesis by (simp only: annotate_keeps)
qed

section \<open>Lemmas on the band\<close>

lemma risk_level_band: "risk_level n \<in> set BAND_ORDER"
  by (simp add: risk_level_def BAND_ORDER_def)

definition has_critical :: "score_entry list \<Rightarrow> bool" where
  "has_critical bd = list_ex (\<lambda>e. e_severity e = ''CRITICAL'') bd"

definition escalates :: "rule_decl list option \<Rightarrow> score_entry list \<Rightarrow> bool" where
  "escalates rules bd \<longleftrightarrow>
     list_ex (\<lambda>r. r \<in> set META_ESCALATORS) (map e_rule_id bd) \<or> licensors_fired rules (map e_rule_id bd)"

lemma floor_band [band_simps]:
  "floor_for_critical ''Low'' bd = (if has_critical bd then ''High'' else ''Low'')"
  "floor_for_critical ''Medium'' bd = (if has_critical bd then ''High'' else ''Medium'')"
  "floor_for_critical ''High'' bd = ''High''"
  "floor_for_critical ''Critical'' bd = ''Critical''"
  by (simp_all add: floor_for_critical_def BAND_ORDER_def CRITICAL_BAND_FLOOR_def has_critical_def)

lemma escalate_band [band_simps]:
  "escalate_for_meta rules ''Low'' bd = (if escalates rules bd then ''Medium'' else ''Low'')"
  "escalate_for_meta rules ''Medium'' bd = (if escalates rules bd then ''High'' else ''Medium'')"
  "escalate_for_meta rules ''High'' bd = (if escalates rules bd then ''Critical'' else ''High'')"
  "escalate_for_meta rules ''Critical'' bd = ''Critical''"
  "escalate_for_meta rules ''Inconclusive'' bd = ''Inconclusive''"
  by (simp_all add: escalate_for_meta_def BAND_ORDER_def escalates_def Let_def min_def)

lemma fail_closed_band [band_simps]:
  "fail_closed ''Low'' gaps bd =
     (if gaps = [] \<or> list_ex strong_entry bd then ''Low'' else ''Inconclusive'')"
  "fail_closed ''Medium'' gaps bd =
     (if gaps = [] \<or> list_ex strong_entry bd then ''Medium'' else ''Inconclusive'')"
  "fail_closed ''High'' gaps bd = ''High''"
  "fail_closed ''Critical'' gaps bd = ''Critical''"
  "fail_closed ''Inconclusive'' gaps bd = ''Inconclusive''"
  by (auto simp: fail_closed_def strong_entry_def list_ex_iff)

lemma cold_band [band_simps]:
  "cold_start_band ''Low'' nov bd = ''Low''" "cold_start_band ''High'' nov bd = ''High''"
  "cold_start_band ''Critical'' nov bd = ''Critical''"
  "cold_start_band ''Medium'' nov bd =
     (if observation_count nov < 25 \<and> \<not> list_ex strong_entry bd then ''Inconclusive'' else ''Medium'')"
  by (simp_all add: cold_start_band_def below_half_maturity)

lemma critical_strong: "has_critical bd \<Longrightarrow> list_ex strong_entry bd"
  by (auto simp: has_critical_def strong_entry_def list_ex_iff)

lemma risk_level_cases [consumes 0, case_names Low Medium High Critical]:
  assumes "risk_level n = ''Low'' \<Longrightarrow> n \<le> 20 \<Longrightarrow> P" "risk_level n = ''Medium'' \<Longrightarrow> 20 < n \<Longrightarrow> n \<le> 50 \<Longrightarrow> P"
    "risk_level n = ''High'' \<Longrightarrow> 50 < n \<Longrightarrow> n \<le> 80 \<Longrightarrow> P" "risk_level n = ''Critical'' \<Longrightarrow> 80 < n \<Longrightarrow> P"
  shows P
  using assms by (cases "n \<le> 20"; cases "n \<le> 50"; cases "n \<le> 80")
    (simp_all add: risk_level_def FLAG_THRESHOLD_def)

text \<open>How the band follows the number, for any breakdown.\<close>

lemma band_index [band_simps]:
  "index_of BAND_ORDER ''Low'' = 0" "index_of BAND_ORDER ''Medium'' = 1"
  "index_of BAND_ORDER ''High'' = 2" "index_of BAND_ORDER ''Critical'' = 3"
  by (simp_all add: BAND_ORDER_def)

lemma in_band_order [band_simps]:
  "''Low'' \<in> set BAND_ORDER" "''Medium'' \<in> set BAND_ORDER" "''High'' \<in> set BAND_ORDER"
  "''Critical'' \<in> set BAND_ORDER" "''Inconclusive'' \<notin> set BAND_ORDER"
  by (simp_all add: BAND_ORDER_def)

definition lift_bound :: "rule_decl list option \<Rightarrow> score_entry list \<Rightarrow> int \<Rightarrow> nat" where
  "lift_bound rules bd n = index_of BAND_ORDER (risk_level n) + (if escalates rules bd then 1 else 0)
     + (if has_critical bd \<and> n \<le> 50 then (if n \<le> 20 then 2 else 1) else 0)"

definition follows :: "rule_decl list option \<Rightarrow> novelty_context \<Rightarrow> string list \<Rightarrow> score_entry list \<Rightarrow>
    int \<Rightarrow> string \<Rightarrow> bool" where
  "follows rules nov gaps bd n level =
     (if level = ''Inconclusive''
      then n \<le> 50 \<and> \<not> list_ex strong_entry bd \<and> (gaps \<noteq> [] \<or> observation_count nov < 25)
      else level \<in> set BAND_ORDER \<and>
        index_of BAND_ORDER (risk_level n) \<le> index_of BAND_ORDER level \<and>
        index_of BAND_ORDER level \<le> lift_bound rules bd n)"

lemma band_of_follows: "follows rules nov gaps bd n (band_of rules n nov gaps bd)"
proof -
  let ?c = "has_critical bd" and ?e = "escalates rules bd" and ?s = "list_ex strong_entry bd"
  note cs = critical_strong [of bd]
  show ?thesis
  proof (cases rule: risk_level_cases [of n])
    case Low
    then have "band_of rules n nov gaps bd =
        (if ?c then (if ?e then ''Critical'' else ''High'')
         else if gaps \<noteq> [] \<and> \<not> ?s then ''Inconclusive'' else if ?e then ''Medium'' else ''Low'')"
      by (cases ?c; cases ?e) (simp_all add: band_of_def band_simps)
    with Low cs show ?thesis by (simp add: follows_def lift_bound_def band_simps)
  next
    case Medium
    then have "band_of rules n nov gaps bd =
        (if ?c then (if ?e then ''Critical'' else ''High'')
         else if observation_count nov < 25 \<and> \<not> ?s then ''Inconclusive''
         else if ?e then ''High'' else if gaps \<noteq> [] \<and> \<not> ?s then ''Inconclusive'' else ''Medium'')"
      by (cases ?c; cases ?e; cases "observation_count nov < 25 \<and> \<not> ?s") (simp_all add: band_of_def band_simps)
    with Medium cs show ?thesis by (simp add: follows_def lift_bound_def band_simps)
  next
    case High
    then have "band_of rules n nov gaps bd = (if ?e then ''Critical'' else ''High'')"
      by (simp add: band_of_def band_simps)
    with High show ?thesis by (simp add: follows_def lift_bound_def band_simps)
  next
    case Critical
    then have "band_of rules n nov gaps bd = ''Critical''"
      by (simp add: band_of_def band_simps)
    with Critical show ?thesis by (simp add: follows_def lift_bound_def band_simps)
  qed
qed

text \<open>The declared forge buckets aside, the scan keeps the greatest modifier.\<close>

definition undeclared_modifiers :: "int dict \<Rightarrow> string dict \<Rightarrow> int list" where
  "undeclared_modifiers weights buckets =
     map (\<lambda>(url, bucket). dict_get weights bucket 0)
       (filter (\<lambda>(url, bucket). bucket \<notin> set DECLARED_BUCKETS) buckets)"

lemma scan_buckets_modifier:
  "bs_modifier (scan_buckets weights buckets st) =
     foldr max (undeclared_modifiers weights buckets) (bs_modifier st)"
proof (induction weights buckets st rule: scan_buckets.induct)
  case (2 weights url bucket rest st)
  have swap: "foldr max xs (max a b) = max a (foldr max xs b)" for xs and a b :: int
    by (induction xs) (simp_all add: max.left_commute)
  let ?m = "dict_get weights bucket 0"
  consider (forge) "bucket \<in> set DECLARED_BUCKETS"
    | (greater) "bucket \<notin> set DECLARED_BUCKETS" "bs_modifier st < ?m"
    | (other) "bucket \<notin> set DECLARED_BUCKETS" "\<not> bs_modifier st < ?m" by blast
  then show ?case
  proof cases
    case forge
    with 2 show ?thesis by (simp add: undeclared_modifiers_def Let_def)
  next
    case greater
    then have "max ?m (bs_modifier st) = ?m" by simp
    with greater 2 swap [of "undeclared_modifiers weights rest" ?m "bs_modifier st"] show ?thesis
      by (simp add: undeclared_modifiers_def Let_def)
  next
    case other
    then have "max ?m (bs_modifier st) = bs_modifier st" by simp
    with other 2 swap [of "undeclared_modifiers weights rest" ?m "bs_modifier st"] show ?thesis
      by (simp add: undeclared_modifiers_def Let_def)
  qed
qed (simp add: undeclared_modifiers_def)

lemma scan_buckets_worst:
  "bs_worst st = None \<longleftrightarrow> bs_modifier st = 0 \<Longrightarrow> 0 \<le> bs_modifier st \<Longrightarrow>
     (bs_worst (scan_buckets weights buckets st) = None \<longleftrightarrow>
        bs_modifier (scan_buckets weights buckets st) = 0)"
  by (induction weights buckets st rule: scan_buckets.induct) (auto simp: Let_def)

text \<open>The provenance prior is the worst source, counted once.  However many URLs a change adds,
  the bucket entries weigh together the greatest positive weight among the added URLs that
  are not on a trusted forge, and nothing when there is none.\<close>

lemma bucket_prior_max:
  "total_weight (bucket_entries cfg buckets) =
     foldr max (undeclared_modifiers (cf_bucket_weights cfg) buckets) 0"
proof -
  let ?st = "scan_buckets (cf_bucket_weights cfg) buckets \<lparr>bs_forge = [], bs_modifier = 0, bs_worst = None\<rparr>"
  have "total_weight (bucket_entries cfg buckets) = bs_modifier ?st"
    using scan_buckets_worst [of "\<lparr>bs_forge = [], bs_modifier = 0, bs_worst = None\<rparr>"
        "cf_bucket_weights cfg" buckets]
    by (auto simp: bucket_entries_def Let_def default_entry_def split: option.splits)
  then show ?thesis by (simp add: scan_buckets_modifier)
qed

text \<open>
  The running sum agrees with the weights of the entries after every part, although the two are kept
  apart.
\<close>

definition in_step :: "score_run \<Rightarrow> score_entry list \<Rightarrow> score_run" where
  "in_step st es = (fst st + total_weight es, snd st @ es)"

lemma in_step_append [simp]: "in_step (in_step st xs) ys = in_step st (xs @ ys)"
  by (simp add: in_step_def)

lemma score_rule_in_step: "score_rule cfg ledger f st = in_step st [rule_entry cfg ledger f]"
  by (cases st) (simp add: score_rule_def in_step_def rule_entry_weight applied_weight_def is_anergic_def
      split: option.splits)

lemma score_gap_in_step: "score_gap g st = in_step st [gap_entry g]"
  by (cases st) (simp add: score_gap_def in_step_def)

lemma fold_in_step:
  assumes "\<And>x st. step x st = in_step st [e x]"
  shows "fold step xs st = in_step st (map e xs)"
  by (induction xs arbitrary: st) (simp_all add: assms, simp add: in_step_def)

lemma score_buckets_in_step: "score_buckets cfg buckets st = in_step st (bucket_entries cfg buckets)"
  by (cases st) (auto simp: score_buckets_def in_step_def bucket_entries_def Let_def default_entry_def
      split: option.splits)

lemma score_signal_in_step: "score_signal seen w sev what m st = in_step st (novelty_entry seen w sev what m)"
  by (cases st) (simp add: score_signal_def in_step_def novelty_entry_def Let_def default_entry_def)

lemma score_novelty_in_step: "score_novelty cfg nov st = in_step st (novelty_entries cfg nov)"
  by (simp add: score_novelty_def novelty_entries_def Let_def score_signal_in_step)

lemma score_declared_in_step: "score_declared ev pin pre st = in_step st (declared_entries ev pin pre)"
  by (cases st) (simp add: score_declared_def in_step_def)

lemma score_run_exact:
  "score_run_of cfg ledger fs buckets nov ev pin gaps pre =
     (total_weight (score_breakdown cfg ledger fs buckets nov ev pin gaps pre),
      score_breakdown cfg ledger fs buckets nov ev pin gaps pre)"
  unfolding score_run_of_def score_buckets_in_step score_novelty_in_step score_declared_in_step
    fold_in_step [OF score_rule_in_step] fold_in_step [OF score_gap_in_step] in_step_append
  by (simp add: in_step_def score_breakdown_def)

lemma calculate_score_parts:
  "calculate_score cfg ledger rules fs buckets nov ev pin gaps pre =
     (let bd = score_breakdown cfg ledger fs buckets nov ev pin gaps pre;
          final = max 0 (min 100 (total_weight bd))
      in (final, annotate_licensed rules bd, band_of rules final nov gaps bd))"
  by (simp add: calculate_score_def score_run_exact Let_def)

text \<open>The parts build entries without licensors; only the annotation adds them.\<close>

lemma rule_entry_unlicensed: "e_licensed_by (rule_entry cfg ledger f) = []"
  unfolding rule_entry_def Let_def by (cases "ledger_entry ledger (f_rule_id f)") simp_all

lemma default_unlicensed: "e_licensed_by default_entry = []"
  by (simp add: default_entry_def)

lemma bucket_entries_unlicensed: "list_all (\<lambda>e. e_licensed_by e = []) (bucket_entries cfg buckets)"
  unfolding bucket_entries_def Let_def by (simp add: default_unlicensed split: option.split prod.split)

lemma novelty_entry_unlicensed: "list_all (\<lambda>e. e_licensed_by e = []) (novelty_entry seen w sev what m)"
  unfolding novelty_entry_def Let_def by (simp add: default_unlicensed)

lemma declared_entries_unlicensed: "list_all (\<lambda>e. e_licensed_by e = []) (declared_entries ev pin pre)"
  unfolding declared_entries_def declared_entry_def
  by (auto simp: default_unlicensed list_all_iff)

lemma breakdown_unlicensed:
  "list_all (\<lambda>e. e_licensed_by e = []) (score_breakdown cfg ledger fs buckets nov ev pin gaps pre)"
proof -
  have "list_all (\<lambda>e. e_licensed_by e = []) (map (rule_entry cfg ledger) fs)"
    by (simp add: list_all_iff rule_entry_unlicensed)
  moreover have "list_all (\<lambda>e. e_licensed_by e = []) (map gap_entry gaps)"
    by (simp add: list_all_iff gap_entry_def default_unlicensed)
  ultimately show ?thesis
    by (simp only: score_breakdown_def novelty_entries_def Let_def list_all_append bucket_entries_unlicensed
        novelty_entry_unlicensed declared_entries_unlicensed simp_thms)
qed

text \<open>The entries with a weight.\<close>

definition weighs :: "score_entry \<Rightarrow> bool" where "weighs e = (e_weight e \<noteq> 0)"

lemma weighing_annotated:
  "map erase_licences (filter weighs (annotate_licensed rules bd)) = map erase_licences (filter weighs bd)"
proof -
  obtain h where h: "annotate_licensed rules bd = map (\<lambda>e. if h e = [] then e else e\<lparr>e_licensed_by := h e\<rparr>) bd"
    using annotate_map [of rules bd] by blast
  have "map erase_licences (filter weighs (map (\<lambda>e. if h e = [] then e else e\<lparr>e_licensed_by := h e\<rparr>) es)) =
      map erase_licences (filter weighs es)" for es
    by (induction es) (simp_all add: weighs_def erase_licences_def)
  then show ?thesis by (simp only: h)
qed

lemma undeclared_modifiers_own:
  "undeclared_modifiers weights (filter (\<lambda>(url, bucket). bucket \<notin> set DECLARED_BUCKETS) buckets) =
   undeclared_modifiers weights buckets"
  by (simp add: undeclared_modifiers_def)

lemma scan_buckets_own:
  "bs_modifier st = bs_modifier st' \<Longrightarrow> bs_worst st = bs_worst st' \<Longrightarrow>
   bs_modifier (scan_buckets weights (filter (\<lambda>(url, bucket). bucket \<notin> set DECLARED_BUCKETS) buckets) st') =
     bs_modifier (scan_buckets weights buckets st) \<and>
   bs_worst (scan_buckets weights (filter (\<lambda>(url, bucket). bucket \<notin> set DECLARED_BUCKETS) buckets) st') =
     bs_worst (scan_buckets weights buckets st)"
  by (induction weights buckets st arbitrary: st' rule: scan_buckets.induct) (simp_all add: Let_def)

lemma bucket_entries_weighing:
  "filter weighs (bucket_entries cfg (filter (\<lambda>(url, bucket). bucket \<notin> set DECLARED_BUCKETS) buckets)) =
   filter weighs (bucket_entries cfg buckets)"
  unfolding bucket_entries_def
  using scan_buckets_own [of "\<lparr>bs_forge = [], bs_modifier = 0, bs_worst = None\<rparr>" _ "cf_bucket_weights cfg" buckets]
  by (simp add: Let_def weighs_def default_entry_def split: option.splits)

lemma breakdown_weighing:
  "filter weighs (score_breakdown cfg ledger fs buckets nov ev pin gaps pre) =
     filter weighs (map (rule_entry cfg ledger) fs) @ filter weighs (bucket_entries cfg buckets) @
     filter weighs (novelty_entries cfg nov)"
proof -
  have "filter weighs (map gap_entry gaps) = []" and "filter weighs (declared_entries ev pin pre) = []"
    by (auto simp: filter_empty_conv weighs_def declared_entries_def split: option.splits)
  then show ?thesis by (simp add: score_breakdown_def)
qed

section \<open>Properties\<close>

text \<open>C1: The score is the clamped sum of what is shown.  The final score lies between 0 and 100 and is
  the sum of the weights of the entries of the returned breakdown, cut to that interval; the
  breakdown is the one the parts build, except that entries may name licensors, and every
  licensor an entry names is itself the id of an entry of the breakdown.\<close>

theorem score_is_shown_sum:
  "case calculate_score cfg ledger rules fs buckets nov ev pin gaps pre of (final, bd, level) \<Rightarrow>
     0 \<le> final \<and> final \<le> 100 \<and> final = max 0 (min 100 (total_weight bd)) \<and>
     map erase_licences bd =
       map erase_licences (score_breakdown cfg ledger fs buckets nov ev pin gaps pre) \<and>
     list_all (\<lambda>e. list_all (\<lambda>lic. lic \<in> set (map e_rule_id bd)) (e_licensed_by e)) bd"
proof -
  let ?bd = "score_breakdown cfg ledger fs buckets nov ev pin gaps pre"
  let ?an = "annotate_licensed rules ?bd"
  have none: "e_licensed_by e = []" if "e \<in> set ?bd" for e
    using breakdown_unlicensed [of cfg ledger fs buckets nov ev pin gaps pre] that
    by (simp only: list_all_iff)
  have ids: "set (map e_rule_id ?an) = e_rule_id ` set ?bd"
    by (metis annotate_keeps(3) set_map)
  obtain h where h: "?an = map (\<lambda>e. if h e = [] then e else e\<lparr>e_licensed_by := h e\<rparr>) ?bd"
    "\<forall>e. set (h e) \<subseteq> e_rule_id ` set ?bd"
    using annotate_map [of rules ?bd] by blast
  have "set (e_licensed_by e) \<subseteq> e_rule_id ` set ?bd" if e: "e \<in> set ?an" for e
  proof -
    from e obtain d where d: "d \<in> set ?bd" "e = (if h d = [] then d else d\<lparr>e_licensed_by := h d\<rparr>)"
      unfolding h(1) set_map by (elim imageE)
    show ?thesis
    proof (cases "h d = []")
      case True
      with d none show ?thesis by simp
    next
      case False
      with d have "e_licensed_by e = h d" by simp
      with h(2) show ?thesis by simp
    qed
  qed
  then have "list_all (\<lambda>e. list_all (\<lambda>lic. lic \<in> set (map e_rule_id ?an)) (e_licensed_by e)) ?an"
    unfolding ids list_all_iff by blast
  then have "list_all (\<lambda>e. list_all (\<lambda>lic. lic \<in> set (map e_rule_id ?an)) (e_licensed_by e)) ?an" .
  moreover have "total_weight ?an = total_weight ?bd"
    by (simp add: total_weight_def annotate_keeps)
  ultimately show ?thesis
    using ids by (simp add: calculate_score_parts Let_def annotate_keeps del: set_map)
qed

text \<open>C5: What an attacker may declare for free, and what the run failed to read, never moves the
  score: neither the verification evidence, the pinning level, the coverage gaps and the prebuilt
  declaration nor the URLs on a declared forge change the final score or any entry with a weight.
  The score is the clamped sum of the weights of the findings, of the worst other source and of
  the novelty signals.\<close>

theorem declared_and_unread_never_score:
  "case calculate_score cfg ledger rules fs buckets nov ev pin gaps pre of (final, bd, level) \<Rightarrow>
   case calculate_score cfg ledger rules fs
          (filter (\<lambda>(url, bucket). bucket \<notin> set DECLARED_BUCKETS) buckets) nov ev' pin' gaps' pre' of
     (final', bd', level') \<Rightarrow>
       final = final' \<and>
       map erase_licences (filter (\<lambda>e. e_weight e \<noteq> 0) bd) = map erase_licences (filter (\<lambda>e. e_weight e \<noteq> 0) bd') \<and>
       final = max 0 (min 100
         (sum_list (map (\<lambda>f. if f_severity f = ''FATAL'' then 0 else applied_weight cfg ledger f) fs) +
          foldr max (undeclared_modifiers (cf_bucket_weights cfg) buckets) 0 +
          total_weight (novelty_entries cfg nov)))"
proof -
  let ?bd = "score_breakdown cfg ledger fs buckets nov ev pin gaps pre"
  let ?own = "filter (\<lambda>(url, bucket). bucket \<notin> set DECLARED_BUCKETS) buckets"
  let ?bd' = "score_breakdown cfg ledger fs ?own nov ev' pin' gaps' pre'"
  have "total_weight ?bd = total_weight ?bd'"
    by (simp add: total_breakdown bucket_prior_max undeclared_modifiers_own)
  moreover have "map erase_licences (filter weighs (annotate_licensed rules ?bd)) =
      map erase_licences (filter weighs (annotate_licensed rules ?bd'))"
    by (simp add: weighing_annotated breakdown_weighing bucket_entries_weighing)
  moreover have "total_weight (map (rule_entry cfg ledger) fs) =
      sum_list (map (\<lambda>f. if f_severity f = ''FATAL'' then 0 else applied_weight cfg ledger f) fs)"
    by (induction fs) (simp_all add: rule_entry_weight applied_weight_def is_anergic_def split: option.splits)
  moreover have "weighs = (\<lambda>e. e_weight e \<noteq> 0)" by (rule ext) (simp add: weighs_def)
  ultimately show ?thesis
    by (simp add: calculate_score_parts Let_def total_breakdown bucket_prior_max)
qed

text \<open>C2: Fail closed.  A run with coverage gaps never reads Low or Medium unless an entry of its
  breakdown is HIGH, CRITICAL or FATAL.\<close>

theorem incomplete_run_not_clean:
  assumes "gaps \<noteq> []" and "calculate_score cfg ledger rules fs buckets nov ev pin gaps pre = (final, bd, level)"
    and "\<not> list_ex strong_entry bd"
  shows "level \<in> {''Inconclusive'', ''High'', ''Critical''}"
proof -
  let ?bd = "score_breakdown cfg ledger fs buckets nov ev pin gaps pre"
  from assms(2) have lv: "level = band_of rules (max 0 (min 100 (total_weight ?bd))) nov gaps ?bd"
    and weak: "\<not> list_ex strong_entry ?bd"
    using assms(3) by (auto simp: calculate_score_parts Let_def annotate_strong)
  from weak critical_strong have "\<not> has_critical ?bd" by blast
  then show ?thesis unfolding lv band_of_def using assms(1) weak
    by (cases rule: risk_level_cases [of "max 0 (min 100 (total_weight ?bd))"])
       (simp_all add: band_simps)
qed

theorem incomplete_run_not_clean_witness:
  "snd (snd (calculate_score \<lparr>cf_severity_weights = [], cf_bucket_weights = [], cf_novelty_weights = []\<rparr>
     [] None [] [] default_novelty [] [] [DIFF_TRUNCATED] False)) \<in> {''Inconclusive'', ''High'', ''Critical''}"
proof -
  let ?r = "calculate_score \<lparr>cf_severity_weights = [], cf_bucket_weights = [], cf_novelty_weights = []\<rparr>
     [] None [] [] default_novelty [] [] [DIFF_TRUNCATED] False"
  have weak: "\<not> list_ex strong_entry (fst (snd ?r))"
    by (simp add: calculate_score_parts Let_def annotate_strong score_breakdown_def bucket_entries_def
        novelty_entries_def novelty_entry_def declared_entries_def PINNED_LEVELS_def default_novelty_def
        strong_entry_def List.map_filter_def)
  obtain final bd level where r: "?r = (final, bd, level)" by (cases ?r)
  with weak have "\<not> list_ex strong_entry bd" by simp
  from incomplete_run_not_clean [OF _ r this] show ?thesis by (simp add: r)
qed

text \<open>C4: A confirmed CRITICAL finding reads High or Critical, whatever the sum of the weights, the
  observation count, and the coverage of the run, and even when the ledger holds its rule at
  weight 0.\<close>

theorem critical_reads_high:
  assumes "f \<in> set fs" and "f_severity f = ''CRITICAL''"
  shows "snd (snd (calculate_score cfg ledger rules fs buckets nov ev pin gaps pre))
    \<in> {''High'', ''Critical''}"
proof -
  let ?bd = "score_breakdown cfg ledger fs buckets nov ev pin gaps pre"
  from assms have "has_critical ?bd"
    unfolding has_critical_def score_breakdown_def list_ex_iff
    by (intro bexI [of _ "rule_entry cfg ledger f"]) simp_all
  then show ?thesis
    by (cases rule: risk_level_cases [of "max 0 (min 100 (total_weight ?bd))"])
       (simp_all add: calculate_score_parts Let_def band_of_def band_simps)
qed

theorem critical_reads_high_witness:
  "snd (snd (calculate_score \<lparr>cf_severity_weights = [(''CRITICAL'', 40)], cf_bucket_weights = [],
     cf_novelty_weights = []\<rparr> [] None [bare_finding ''R001'' ''pipe'' ''CRITICAL'' ''x''] []
     default_novelty [] [] [] False)) \<in> {''High'', ''Critical''}"
  by (rule critical_reads_high [of "bare_finding ''R001'' ''pipe'' ''CRITICAL'' ''x''"])
     (simp_all add: bare_finding_def)

text \<open>C3: The band and the number.  The band is never below the band of the score; a licensed
  rule raises it by at most one step, after a CRITICAL finding lifted it to High at least;
  and Inconclusive is read only when no entry is strong and the run is
  incomplete or the package was observed fewer than 25 times.\<close>

theorem band_follows_score:
  "case calculate_score cfg ledger rules fs buckets nov ev pin gaps pre of (final, bd, level) \<Rightarrow>
     (if level = ''Inconclusive''
      then final \<le> 50 \<and> \<not> list_ex strong_entry bd \<and> (0 < length gaps \<or> observation_count nov < 25)
      else level \<in> set BAND_ORDER \<and>
        index_of BAND_ORDER (risk_level final) \<le> index_of BAND_ORDER level \<and>
        index_of BAND_ORDER level \<le> index_of BAND_ORDER (risk_level final)
          + (if escalates rules bd then 1 else 0)
          + (if has_critical bd \<and> final \<le> 50 then (if final \<le> 20 then 2 else 1) else 0))"
proof -
  let ?bd = "score_breakdown cfg ledger fs buckets nov ev pin gaps pre"
  let ?n = "max 0 (min 100 (total_weight ?bd))"
  have esc: "escalates rules (annotate_licensed rules ?bd) = escalates rules ?bd"
    unfolding escalates_def annotate_keeps ..
  have crit: "has_critical (annotate_licensed rules ?bd) = has_critical ?bd"
  proof -
    have "has_critical es = list_ex (\<lambda>s. s = ''CRITICAL'') (map e_severity es)" for es
      by (induction es) (simp_all add: has_critical_def)
    then show ?thesis by (simp only: annotate_keeps)
  qed
  show ?thesis
    using band_of_follows [of rules nov gaps ?bd ?n]
    unfolding calculate_score_parts Let_def prod.case esc crit annotate_strong
    unfolding follows_def lift_bound_def by (simp only: ac_simps length_greater_0_conv)
qed

text \<open>The weight of a rule.  A FATAL rule and a rule the ledger holds anergic weigh 0, whatever
  their declared weight; every other rule weighs what it declares; and its severity, which
  the band reads, is never changed by the ledger.\<close>

theorem rule_weights:
  "e_weight (rule_entry cfg ledger f) =
     (if f_severity f = ''FATAL'' \<or> is_anergic ledger (f_rule_id f) then 0 else rule_weight cfg f) \<and>
   e_severity (rule_entry cfg ledger f) = f_severity f \<and> e_rule_id (rule_entry cfg ledger f) = f_rule_id f"
  by (simp add: rule_entry_weight)

text \<open>The shipped novelty prior.  With the shipped weights the three novelty signals add exactly
  10, 5 and 15 points scaled by the observation count over 50 and rounded down: the binary floating
  point of the multiplier never loses a point, and a package not yet observed adds nothing.\<close>

theorem shipped_novelty_exact:
  "total_weight (novelty_entries (cfg\<lparr>cf_novelty_weights := DEFAULT_NOVELTY_WEIGHTS\<rparr>) nov) =
     (let n = max 0 (min 50 (observation_count nov)) in
      (if url_first_seen_globally nov then 10 * n div 50 else 0) +
      (if url_first_seen_in_this_package nov then 5 * n div 50 else 0) +
      (if maintainer_first_seen_for_this_package nov then 15 * n div 50 else 0))"
proof -
  have exact: "scaled_weight w (maturity n) = w * max 0 (min 50 n) div 50" if "w \<in> {5, 10, 15}" for w n
  proof -
    consider "n \<le> 0" | "0 < n" "n < 50" | "50 \<le> n" by linarith
    then show ?thesis
    proof cases
      case 1
      then show ?thesis using that
        by (auto simp: scaled_weight_def maturity_def dbl_mul_def dbl_trunc_def round53_def round_fine_def
            rnd_half_even_def rnd_tie_def scale_of.simps)
    next
      case 2
      have "list_all (weight_at w) ramp" using that weight_at_5 weight_at_10 weight_at_15 by blast
      with on_ramp [OF 2] have "weight_at w n" by (simp only: list_all_iff)
      with 2 show ?thesis by (simp add: weight_at_def)
    next
      case 3
      then show ?thesis using that weight_full by (auto simp: maturity_def MATURITY_THRESHOLD_def)
    qed
  qed
  have entry: "total_weight (novelty_entry seen w sev what (maturity n)) =
      (if seen then w * max 0 (min 50 n) div 50 else 0)" if "w \<in> {5, 10, 15}" for seen w sev what n
    using exact [OF that, of n] that
    by (auto simp: novelty_entry_def Let_def default_entry_def)
  show ?thesis
    by (simp add: novelty_entries_def Let_def novelty_weight_def DEFAULT_NOVELTY_WEIGHTS_def
        dict_get_def entry)
qed

text \<open>FATAL findings alone leave the score at 0 and the band Low.  No declared weight lifts them
  (the comments that describe a cap at 100, and the label Critical, do not hold); the finding is
  named in the label only.\<close>

theorem fatal_alone_reads_low:
  assumes "list_all (\<lambda>f. f_severity f = ''FATAL'' \<and> f_rule_id f \<notin> set META_ESCALATORS) fs"
  shows "calculate_score cfg ledger (Some []) fs [] default_novelty [] [] [] False =
      (0, map (rule_entry cfg ledger) fs, ''Low'')"
proof -
  let ?bd = "map (rule_entry cfg ledger) fs"
  have bd: "score_breakdown cfg ledger fs [] default_novelty [] [] [] False = ?bd"
    by (simp add: score_breakdown_def bucket_entries_def novelty_entries_def novelty_entry_def
        declared_entries_def PINNED_LEVELS_def default_novelty_def List.map_filter_def Let_def)
  have tot: "total_weight ?bd = 0"
    using assms by (induction fs) (simp_all add: rule_entry_weight)
  have crit: "\<not> has_critical ?bd" using assms by (auto simp: has_critical_def list_ex_iff list_all_iff)
  have esc: "\<not> escalates (Some []) ?bd"
    using assms by (auto simp: escalates_def licensors_fired_def list_ex_iff list_all_iff)
  show ?thesis
    using crit esc
    by (simp add: calculate_score_parts Let_def bd tot band_of_def risk_level_def FLAG_THRESHOLD_def
        band_simps annotate_licensed_def map_idI)
qed

theorem fatal_alone_reads_low_witness:
  "snd (snd (calculate_score \<lparr>cf_severity_weights = [(''FATAL'', 100)], cf_bucket_weights = [],
     cf_novelty_weights = []\<rparr> [] (Some []) [bare_finding ''R012'' ''note'' ''FATAL'' ''x''] []
     default_novelty [] [] [] False)) = ''Low''"
  using fatal_alone_reads_low [of "[bare_finding ''R012'' ''note'' ''FATAL'' ''x'']"]
  by (simp add: bare_finding_def META_ESCALATORS_def)

text \<open>What a stored row shows.  A row that stores a band is shown under the label the live verdict
  has, and as complete exactly when it stores no gap, provided no FATAL finding is
  named in that label and the band is not a cold-start Inconclusive, whose count the row does not
  have.\<close>

theorem stored_row_shows_verdict:
  assumes "pf_risk pf \<noteq> []"
    and "list_all (\<lambda>e. e_severity e \<noteq> ''FATAL'') (pf_score_breakdown pf)"
    and "pf_risk pf = ''Inconclusive'' \<Longrightarrow> pf_coverage_gaps pf \<noteq> []"
  shows "stored_band (Some \<lparr>sr_fact = Some (Some (pf_risk pf, pf_coverage_gaps pf)),
      sr_final_score = sc\<rparr>) override = (verdict_label pf, pf_coverage_gaps pf = [])"
proof -
  have "filter (\<lambda>e. e_severity e = ''FATAL'') (pf_score_breakdown pf) = []"
    using assms(2) by (simp add: filter_empty_conv list_all_iff)
  then have "fatal_label level (pf_score_breakdown pf) = level" for level
    by (simp add: fatal_label_def)
  with assms(1,3) show ?thesis
    by (auto simp: stored_band_def verdict_label_def verdict_level_def Let_def inconclusive_label_def)
qed

theorem stored_row_shows_verdict_witness:
  "stored_band (Some \<lparr>sr_fact = Some (Some (''High'', [DIFF_TRUNCATED])), sr_final_score = Some 60\<rparr>) None
     = (verdict_label (default_fact\<lparr>pf_risk := ''High'', pf_coverage_gaps := [DIFF_TRUNCATED]\<rparr>), False)"
  using stored_row_shows_verdict
    [of "default_fact\<lparr>pf_risk := ''High'', pf_coverage_gaps := [DIFF_TRUNCATED]\<rparr>" "Some 60" None]
  by (simp add: default_fact_def)

end
