(* ===== verification/Diff_Doc.thy ===== *)
theory Diff_Doc
  imports TS_Prelude
begin

text \<open>
  The typed reading of a unified diff (\<^verbatim>\<open>diffdoc.py\<close>), with \<^verbatim>\<open>split_lines\<close> of the tokenizer.  The
  parser is a state machine over the lines: the record \<open>parser\<close> holds the local variables of
  \<^verbatim>\<open>_parse_diff_lines_cached\<close>, and one function per kind of line updates it.  The document's
  projections follow.  The lemmas show that no line is lost or counted twice and that the line numbers
  are those of the hunk headers.
\<close>

section \<open>Splitting and presenting text\<close>

text \<open>\<^verbatim>\<open>text.replace("\r\n", "\n")\<close>.\<close>

fun collapse_crlf :: "string \<Rightarrow> string" where
  "collapse_crlf (c # d # s) =
     (if c = CR \<and> d = NL then NL # collapse_crlf s else c # collapse_crlf (d # s))"
| "collapse_crlf s = s"

definition split_lines :: "string \<Rightarrow> string list" where
  "split_lines text =
     (let ls = py_split NL (collapse_crlf text) in if last ls = [] then butlast ls else ls)"

definition as_added_diff :: "string \<Rightarrow> string \<Rightarrow> string" where
  "as_added_diff text path =
     (let ls = (if text = [] then [] else split_lines text) in
      if ls = [] then []
      else ''--- /dev/null'' @ [NL] @ ''+++ b/'' @ path @ [NL]
        @ ''@@ -0,0 +1,'' @ show_nat (length ls) @ '' @@'' @ [NL]
        @ concat (map (\<lambda>l. ''+'' @ l @ [NL]) ls))"

section \<open>The header grammar\<close>

definition take_digits :: "string \<Rightarrow> string" where "take_digits s = takeWhile is_digit s"
definition drop_digits :: "string \<Rightarrow> string" where "drop_digits s = dropWhile is_digit s"

definition after :: "string \<Rightarrow> string \<Rightarrow> string option" where
  "after p s = (if py_startswith s p then Some (drop (length p) s) else None)"

text \<open>One side of a hunk header: a start, and a count that may be left out.\<close>

definition header_range :: "string \<Rightarrow> (string \<times> string) option" where
  "header_range s =
     (if take_digits s = [] then None
      else (let r = drop_digits s in
            Some (take_digits s,
              (case after '','' r of
                 Some t \<Rightarrow> if take_digits t = [] then r else drop_digits t
               | None \<Rightarrow> r))))"

text \<open>\<^verbatim>\<open>_HUNK_HEADER_RE.match\<close>: the digits of the two starts.\<close>

definition hunk_header :: "string \<Rightarrow> (string \<times> string) option" where
  "hunk_header line =
     (case after ''@@ -'' line of None \<Rightarrow> None
      | Some s \<Rightarrow>
          (case header_range s of None \<Rightarrow> None
           | Some (old, t) \<Rightarrow>
               (case after '' +'' t of None \<Rightarrow> None
                | Some u \<Rightarrow>
                    (case header_range u of None \<Rightarrow> None
                     | Some (new, v) \<Rightarrow> (if py_startswith v '' @@'' then Some (old, new) else None)))))"

text \<open>\<^verbatim>\<open>s.split(sep, 1)\<close> at the first separator.\<close>

definition cut_at :: "string \<Rightarrow> string \<Rightarrow> (string \<times> string) option" where
  "cut_at sep s = map_option (\<lambda>i. (take i s, drop (i + length sep) s)) (py_find s sep)"

definition before :: "string \<Rightarrow> string \<Rightarrow> string" where
  "before sep s = (case cut_at sep s of Some (a, b) \<Rightarrow> a | None \<Rightarrow> s)"

definition declared_new_count :: "string \<Rightarrow> nat option" where
  "declared_new_count header =
     (case cut_at ''+'' header of None \<Rightarrow> None
      | Some (_, rest) \<Rightarrow>
          (let plus = before '' @@'' rest in
           case cut_at '','' plus of None \<Rightarrow> Some 1
           | Some (_, n) \<Rightarrow> (if n \<noteq> [] \<and> list_all is_digit n then digits_int n else None)))"

text \<open>The text that \<^verbatim>\<open>$\<close> closes: a final newline is not part of it.\<close>

definition dollar_body :: "string \<Rightarrow> string" where
  "dollar_body s = (if s \<noteq> [] \<and> last s = NL then butlast s else s)"

definition mode_line :: "string \<Rightarrow> string \<Rightarrow> string option" where
  "mode_line p line =
     (case after p line of None \<Rightarrow> None
      | Some s \<Rightarrow> (let b = dollar_body s in
           if length b = 6 \<and> list_all is_digit b then Some b else None))"

definition rename_line :: "string \<Rightarrow> string \<Rightarrow> string option" where
  "rename_line p line =
     (case after p line of None \<Rightarrow> None
      | Some s \<Rightarrow> (let b = dollar_body s in if b \<noteq> [] \<and> NL \<notin> set b then Some b else None))"

text \<open>The rightmost \<^verbatim>\<open> b/\<close> with something before and after it.\<close>

fun git_b_path :: "string \<Rightarrow> bool \<Rightarrow> string option" where
  "git_b_path [] seen = None"
| "git_b_path (c # s) seen =
     (case git_b_path s True of Some p \<Rightarrow> Some p
      | None \<Rightarrow> if seen \<and> py_startswith (c # s) '' b/'' \<and> length (c # s) > 3
                then Some (drop 3 (c # s)) else None)"

definition diff_git_path :: "string \<Rightarrow> string option" where
  "diff_git_path line =
     (case after ''diff --git '' line of None \<Rightarrow> None
      | Some s \<Rightarrow> (let b = dollar_body s in if NL \<in> set b then None else git_b_path b False))"

definition MAX_DIFF_PATH_BYTES :: nat where "MAX_DIFF_PATH_BYTES = 4096"
definition DEFAULT_FILE :: string where "DEFAULT_FILE = ''PKGBUILD''"

definition DIFF_PATH_PREFIXES :: "string list" where
  "DIFF_PATH_PREFIXES = [''a/'', ''b/'', ''c/'', ''i/'', ''w/'', ''o/'']"

definition strip_diff_path_prefix :: "string \<Rightarrow> string" where
  "strip_diff_path_prefix name =
     (if list_ex (py_startswith name) DIFF_PATH_PREFIXES then drop 2 name else name)"

definition header_path :: "string \<Rightarrow> string" where
  "header_path raw = take MAX_DIFF_PATH_BYTES (strip_diff_path_prefix (py_strip raw))"

definition file_status :: "string \<Rightarrow> string \<Rightarrow> string" where
  "file_status old_path new_path =
     (if old_path = ''/dev/null'' then ''added''
      else if new_path = ''/dev/null'' then ''removed'' else ''modified'')"

section \<open>The document\<close>

datatype side = Add | Remove | Ctx | Other

record diff_line =
  dl_index :: nat
  dl_side :: side
  dl_content :: string
  dl_raw :: string
  dl_file :: string
  dl_old_lineno :: "nat option"
  dl_new_lineno :: "nat option"
  dl_in_hunk :: bool
  dl_file_boundary :: bool
  dl_hunk_boundary :: bool

record diff_hunk =
  dh_old_start :: nat
  dh_new_start :: nat
  dh_lines :: "diff_line list"
  dh_expected_lines :: "nat option"
  dh_actual_lines :: nat

record diff_file =
  df_path :: string
  df_old_path :: string
  df_status :: string
  df_hunks :: "diff_hunk list"
  df_old_mode :: string
  df_new_mode :: string
  df_rename_from :: string
  df_rename_to :: string

record diff_doc =
  dd_files :: "diff_file list"
  dd_lines :: "diff_line list"

definition is_content :: "diff_line \<Rightarrow> bool" where "is_content l = (dl_side l \<noteq> Other)"

definition renamed :: "diff_file \<Rightarrow> bool" where
  "renamed f = (df_rename_from f \<noteq> [] \<or> df_rename_to f \<noteq> [])"

section \<open>The parser\<close>

record file_meta =
  fm_path :: string
  fm_old_path :: string
  fm_status :: string
  fm_old_mode :: string
  fm_new_mode :: string
  fm_rename_from :: string
  fm_rename_to :: string

record parser =
  p_out :: "diff_line list"
  p_meta :: "file_meta list"
  p_hunks :: "diff_hunk list list"
  p_current_file :: string
  p_pending_old_path :: string
  p_in_hunk :: bool
  p_old_lineno :: nat
  p_new_lineno :: nat
  p_hunk_old_start :: nat
  p_hunk_new_start :: nat
  p_hunk_lines :: "diff_line list"
  p_hunk_expected :: "nat option"
  p_file_boundary :: bool
  p_hunk_boundary :: bool
  p_old_mode :: string
  p_new_mode :: string
  p_rename_from :: string
  p_rename_to :: string
  p_section_path :: string
  p_new_file :: bool
  p_binary :: bool
  p_section_has_file :: bool

definition parser_start :: parser where
  "parser_start = \<lparr>p_out = [], p_meta = [], p_hunks = [], p_current_file = DEFAULT_FILE,
     p_pending_old_path = [], p_in_hunk = False, p_old_lineno = 0, p_new_lineno = 0,
     p_hunk_old_start = 0, p_hunk_new_start = 0, p_hunk_lines = [], p_hunk_expected = None,
     p_file_boundary = False, p_hunk_boundary = False, p_old_mode = [], p_new_mode = [],
     p_rename_from = [], p_rename_to = [], p_section_path = [], p_new_file = False,
     p_binary = False, p_section_has_file = False\<rparr>"

definition reset_pending_metadata :: "parser \<Rightarrow> parser" where
  "reset_pending_metadata st = st\<lparr>p_old_mode := [], p_new_mode := [], p_rename_from := [],
     p_rename_to := [], p_section_path := [], p_new_file := False, p_binary := False\<rparr>"

text \<open>\<^verbatim>\<open>file_hunks[-1].append(hunk)\<close>.\<close>

definition append_last :: "'a list list \<Rightarrow> 'a \<Rightarrow> 'a list list" where
  "append_last xss x = (if xss = [] then [] else butlast xss @ [last xss @ [x]])"

definition close_hunk :: "parser \<Rightarrow> parser" where
  "close_hunk st =
     (let st' =
        (if p_hunk_lines st \<noteq> [] \<or> p_hunk_expected st \<noteq> None
         then (let hunk = \<lparr>dh_old_start = p_hunk_old_start st, dh_new_start = p_hunk_new_start st,
                     dh_lines = p_hunk_lines st, dh_expected_lines = p_hunk_expected st,
                     dh_actual_lines = count_if (\<lambda>l. dl_side l \<noteq> Remove) (p_hunk_lines st)\<rparr>;
                   st1 = (if p_meta st = []
                     then st\<lparr>p_meta := [\<lparr>fm_path = p_current_file st,
                              fm_old_path = p_pending_old_path st,
                              fm_status = file_status (p_pending_old_path st) (p_current_file st),
                              fm_old_mode = [], fm_new_mode = [], fm_rename_from = [],
                              fm_rename_to = []\<rparr>],
                            p_hunks := p_hunks st @ [[]], p_section_has_file := True\<rparr>
                     else st)
               in st1\<lparr>p_hunks := append_last (p_hunks st1) hunk\<rparr>)
         else st)
      in st'\<lparr>p_hunk_lines := [], p_hunk_expected := None\<rparr>)"

definition has_pending_metadata :: "parser \<Rightarrow> bool" where
  "has_pending_metadata st = (p_old_mode st \<noteq> [] \<or> p_new_mode st \<noteq> [] \<or> p_rename_from st \<noteq> []
     \<or> p_rename_to st \<noteq> [] \<or> p_new_file st)"

text \<open>\<^verbatim>\<open>a or b or c or d\<close> on strings.\<close>

fun first_nonempty :: "string list \<Rightarrow> string" where
  "first_nonempty [] = []"
| "first_nonempty [x] = x"
| "first_nonempty (x # y # ys) = (if x \<noteq> [] then x else first_nonempty (y # ys))"

definition flush_rename_section :: "parser \<Rightarrow> parser" where
  "flush_rename_section st =
     (if p_binary st then st
      else if p_section_has_file st \<or> \<not> has_pending_metadata st then st
      else (let st1 = close_hunk st in
        if p_section_has_file st1 then st1
        else (let path = first_nonempty [p_rename_to st1, p_section_path st1, p_rename_from st1,
                    p_current_file st1];
                  old_path = first_nonempty [p_rename_from st1, path];
                  status = (if p_new_file st1 then ''added'' else file_status old_path path)
              in st1\<lparr>p_meta := p_meta st1 @ [\<lparr>fm_path = path, fm_old_path = old_path,
                     fm_status = status, fm_old_mode = p_old_mode st1,
                     fm_new_mode = p_new_mode st1, fm_rename_from = p_rename_from st1,
                     fm_rename_to = p_rename_to st1\<rparr>],
                   p_hunks := p_hunks st1 @ [[]], p_section_has_file := True\<rparr>)))"

text \<open>A \<^verbatim>\<open>diff --git\<close> line opens a section; it is then classified like any other line.\<close>

definition open_section :: "string \<Rightarrow> parser \<Rightarrow> parser" where
  "open_section line st =
     (if \<not> py_startswith line ''diff --git '' then st
      else (let st1 = (reset_pending_metadata (flush_rename_section st))\<lparr>p_section_has_file := False\<rparr>
            in case diff_git_path line of None \<Rightarrow> st1
               | Some p \<Rightarrow> st1\<lparr>p_section_path :=
                   take MAX_DIFF_PATH_BYTES (strip_diff_path_prefix (py_strip p))\<rparr>))"

text \<open>The document line of a header: outside any hunk, and without a boundary mark.\<close>

definition header_line :: "nat \<Rightarrow> string \<Rightarrow> parser \<Rightarrow> diff_line" where
  "header_line i line st = \<lparr>dl_index = i, dl_side = Other, dl_content = line, dl_raw = line,
     dl_file = p_current_file st, dl_old_lineno = None, dl_new_lineno = None, dl_in_hunk = False,
     dl_file_boundary = False, dl_hunk_boundary = False\<rparr>"

definition emit :: "diff_line \<Rightarrow> parser \<Rightarrow> parser" where
  "emit l st = st\<lparr>p_out := p_out st @ [l]\<rparr>"

definition on_new_file_header :: "nat \<Rightarrow> string \<Rightarrow> parser \<Rightarrow> parser" where
  "on_new_file_header i line st =
     (let st1 = close_hunk st;
          path = header_path (drop 4 line);
          st2 = st1\<lparr>p_current_file := path,
            p_meta := p_meta st1 @ [\<lparr>fm_path = path, fm_old_path = p_pending_old_path st1,
               fm_status = file_status (p_pending_old_path st1) path,
               fm_old_mode = p_old_mode st1, fm_new_mode = p_new_mode st1,
               fm_rename_from = p_rename_from st1, fm_rename_to = p_rename_to st1\<rparr>],
            p_hunks := p_hunks st1 @ [[]], p_section_has_file := True\<rparr>;
          st3 = reset_pending_metadata st2
      in (emit (header_line i line st3) st3)\<lparr>p_file_boundary := True\<rparr>)"

definition on_old_file_header :: "nat \<Rightarrow> string \<Rightarrow> parser \<Rightarrow> parser" where
  "on_old_file_header i line st =
     (let st1 = (close_hunk st)\<lparr>p_pending_old_path := py_strip (drop 4 line)\<rparr>
      in (emit (header_line i line st1) st1)\<lparr>p_file_boundary := True\<rparr>)"

definition on_hunk_header :: "nat \<Rightarrow> string \<Rightarrow> nat \<Rightarrow> nat \<Rightarrow> parser \<Rightarrow> parser" where
  "on_hunk_header i line old_start new_start st =
     (let st1 = (close_hunk st)\<lparr>p_hunk_old_start := old_start, p_hunk_new_start := new_start,
            p_old_lineno := old_start, p_new_lineno := new_start,
            p_hunk_expected := declared_new_count line, p_in_hunk := True\<rparr>
      in (emit (header_line i line st1) st1)\<lparr>p_hunk_boundary := True\<rparr>)"

text \<open>The values a structure line carries for the file it precedes.\<close>

definition read_metadata :: "string \<Rightarrow> parser \<Rightarrow> parser" where
  "read_metadata line st =
     (let st1 = (case mode_line ''old mode '' line of Some m \<Rightarrow> st\<lparr>p_old_mode := m\<rparr> | None \<Rightarrow> st);
          st2 = (case mode_line ''new mode '' line of Some m \<Rightarrow> st1\<lparr>p_new_mode := m\<rparr> | None \<Rightarrow> st1);
          st3 = (case mode_line ''new file mode '' line of
                   Some m \<Rightarrow> st2\<lparr>p_new_file := True, p_new_mode := m\<rparr> | None \<Rightarrow> st2);
          st4 = (if py_startswith line ''Binary files '' then st3\<lparr>p_binary := True\<rparr> else st3);
          st5 = (case rename_line ''rename from '' line of
                   Some p \<Rightarrow> st4\<lparr>p_rename_from := py_strip p\<rparr> | None \<Rightarrow> st4)
      in (case rename_line ''rename to '' line of
            Some p \<Rightarrow> st5\<lparr>p_rename_to := py_strip p\<rparr> | None \<Rightarrow> st5))"

definition on_structure :: "nat \<Rightarrow> string \<Rightarrow> parser \<Rightarrow> parser" where
  "on_structure i line st =
     (let st1 = read_metadata line st;
          entry = \<lparr>dl_index = i, dl_side = Other, dl_content = line, dl_raw = line,
            dl_file = p_current_file st1, dl_old_lineno = None, dl_new_lineno = None,
            dl_in_hunk = p_in_hunk st1, dl_file_boundary = p_file_boundary st1,
            dl_hunk_boundary = p_hunk_boundary st1\<rparr>
      in emit entry (st1\<lparr>p_file_boundary := False, p_hunk_boundary := False\<rparr>))"

definition on_content :: "nat \<Rightarrow> string \<Rightarrow> side \<Rightarrow> parser \<Rightarrow> parser" where
  "on_content i line sd st =
     (let old_no = (if p_in_hunk st \<and> sd \<noteq> Add then Some (p_old_lineno st) else None);
          new_no = (if p_in_hunk st then Some (p_new_lineno st) else None);
          entry = \<lparr>dl_index = i, dl_side = sd, dl_content = drop 1 line, dl_raw = line,
            dl_file = p_current_file st, dl_old_lineno = old_no, dl_new_lineno = new_no,
            dl_in_hunk = p_in_hunk st, dl_file_boundary = p_file_boundary st,
            dl_hunk_boundary = p_hunk_boundary st\<rparr>;
          st1 = st\<lparr>p_file_boundary := False, p_hunk_boundary := False,
            p_old_lineno := (if p_in_hunk st \<and> sd \<noteq> Add then p_old_lineno st + 1 else p_old_lineno st),
            p_new_lineno := (if p_in_hunk st \<and> sd \<noteq> Remove then p_new_lineno st + 1
                             else p_new_lineno st)\<rparr>;
          st2 = emit entry st1
      in if p_in_hunk st then st2\<lparr>p_hunk_lines := p_hunk_lines st2 @ [entry]\<rparr> else st2)"

definition content_side :: "string \<Rightarrow> side" where
  "content_side line =
     (if py_startswith line ''+'' then Add
      else if py_startswith line ''-'' then Remove
      else if py_startswith line '' '' then Ctx else Other)"

text \<open>One line; \<open>None\<close> when the start of a hunk has more digits than \<^verbatim>\<open>int\<close> reads.\<close>

definition parse_line :: "nat \<Rightarrow> string \<Rightarrow> parser \<Rightarrow> parser option" where
  "parse_line i line st =
     (let st1 = open_section line st in
      if py_startswith line ''+++ '' then Some (on_new_file_header i line st1)
      else if py_startswith line ''--- '' then Some (on_old_file_header i line st1)
      else (case hunk_header line of
              Some (old_digits, new_digits) \<Rightarrow>
                (case (digits_int old_digits, digits_int new_digits) of
                   (Some old_start, Some new_start) \<Rightarrow> Some (on_hunk_header i line old_start new_start st1)
                 | _ \<Rightarrow> None)
            | None \<Rightarrow>
                (if content_side line = Other then Some (on_structure i line st1)
                 else Some (on_content i line (content_side line) st1))))"

fun parse_from :: "nat \<Rightarrow> string list \<Rightarrow> parser \<Rightarrow> parser option" where
  "parse_from i [] st = Some st"
| "parse_from i (line # ls) st =
     (case parse_line i line st of None \<Rightarrow> None | Some st' \<Rightarrow> parse_from (Suc i) ls st')"

definition file_of :: "file_meta \<Rightarrow> diff_hunk list \<Rightarrow> diff_file" where
  "file_of m hs = \<lparr>df_path = fm_path m, df_old_path = fm_old_path m, df_status = fm_status m,
     df_hunks = hs, df_old_mode = fm_old_mode m, df_new_mode = fm_new_mode m,
     df_rename_from = fm_rename_from m, df_rename_to = fm_rename_to m\<rparr>"

definition assemble :: "parser \<Rightarrow> diff_doc" where
  "assemble st = \<lparr>dd_files = map (\<lambda>(m, hs). file_of m hs) (zip (p_meta st) (p_hunks st)),
     dd_lines = p_out st\<rparr>"

definition parse_diff_lines :: "string list \<Rightarrow> diff_doc option" where
  "parse_diff_lines ls =
     map_option (\<lambda>st. assemble (flush_rename_section (close_hunk st))) (parse_from 0 ls parser_start)"

definition parse_diff :: "string \<Rightarrow> diff_doc option" where
  "parse_diff diff_text = parse_diff_lines (split_lines diff_text)"

section \<open>Projections\<close>

definition post_side :: "diff_line \<Rightarrow> bool" where
  "post_side l = (dl_side l = Add \<or> dl_side l = Ctx)"

definition pre_side :: "diff_line \<Rightarrow> bool" where
  "pre_side l = (dl_side l = Remove \<or> dl_side l = Ctx)"

definition post_lines :: "diff_doc \<Rightarrow> string list" where
  "post_lines d = map dl_content (filter post_side (dd_lines d))"

definition pre_lines :: "diff_doc \<Rightarrow> string list" where
  "pre_lines d = map dl_content (filter pre_side (dd_lines d))"

definition or_zero :: "nat option \<Rightarrow> nat" where
  "or_zero n = (case n of Some k \<Rightarrow> k | None \<Rightarrow> 0)"

definition post_origins :: "diff_doc \<Rightarrow> (string \<times> nat \<times> side) list" where
  "post_origins d = map (\<lambda>l. (dl_file l, or_zero (dl_new_lineno l), dl_side l))
     (filter post_side (dd_lines d))"

definition pre_origins :: "diff_doc \<Rightarrow> (string \<times> nat \<times> side) list" where
  "pre_origins d = map (\<lambda>l. (dl_file l, or_zero (dl_old_lineno l), dl_side l))
     (filter pre_side (dd_lines d))"

definition line_map :: "diff_doc \<Rightarrow> (nat \<times> string \<times> nat option) list" where
  "line_map d = map (\<lambda>l. (dl_index l, dl_file l, dl_new_lineno l))
     (filter (\<lambda>l. dl_in_hunk l \<and> is_content l) (dd_lines d))"

definition added_lines :: "diff_doc \<Rightarrow> diff_line list" where
  "added_lines d = filter (\<lambda>l. dl_side l = Add) (dd_lines d)"

definition removed_lines :: "diff_doc \<Rightarrow> diff_line list" where
  "removed_lines d = filter (\<lambda>l. dl_side l = Remove) (dd_lines d)"

definition post_text :: "diff_doc \<Rightarrow> string" where "post_text d = py_join [NL] (post_lines d)"
definition pre_text :: "diff_doc \<Rightarrow> string" where "pre_text d = py_join [NL] (pre_lines d)"

definition cut_hunks :: "diff_doc \<Rightarrow> (string \<times> nat \<times> nat \<times> nat) list" where
  "cut_hunks d = concat (map (\<lambda>f. List.map_filter (\<lambda>h.
      case dh_expected_lines h of None \<Rightarrow> None
      | Some n \<Rightarrow> if dh_actual_lines h \<noteq> n
                 then Some (df_path f, dh_new_start h, n, dh_actual_lines h) else None)
     (df_hunks f)) (dd_files d))"

section \<open>One line in, one line out\<close>

named_theorems parser_simps

lemma close_hunk_out [parser_simps]:
  "p_out (close_hunk st) = p_out st" "p_in_hunk (close_hunk st) = p_in_hunk st"
  "p_current_file (close_hunk st) = p_current_file st" "p_hunk_lines (close_hunk st) = []"
  "p_hunk_expected (close_hunk st) = None"
  by (simp_all add: close_hunk_def Let_def)

lemma reset_out [parser_simps]:
  "p_out (reset_pending_metadata st) = p_out st" "p_meta (reset_pending_metadata st) = p_meta st"
  "p_hunks (reset_pending_metadata st) = p_hunks st"
  "p_in_hunk (reset_pending_metadata st) = p_in_hunk st"
  "p_hunk_lines (reset_pending_metadata st) = p_hunk_lines st"
  "p_hunk_expected (reset_pending_metadata st) = p_hunk_expected st"
  "p_hunk_new_start (reset_pending_metadata st) = p_hunk_new_start st"
  "p_hunk_old_start (reset_pending_metadata st) = p_hunk_old_start st"
  "p_new_lineno (reset_pending_metadata st) = p_new_lineno st"
  "p_old_lineno (reset_pending_metadata st) = p_old_lineno st"
  by (simp_all add: reset_pending_metadata_def)

lemma read_metadata_out [parser_simps]:
  "p_out (read_metadata line st) = p_out st" "p_meta (read_metadata line st) = p_meta st"
  "p_hunks (read_metadata line st) = p_hunks st" "p_in_hunk (read_metadata line st) = p_in_hunk st"
  "p_hunk_lines (read_metadata line st) = p_hunk_lines st"
  "p_hunk_expected (read_metadata line st) = p_hunk_expected st"
  "p_hunk_new_start (read_metadata line st) = p_hunk_new_start st"
  "p_hunk_old_start (read_metadata line st) = p_hunk_old_start st"
  "p_new_lineno (read_metadata line st) = p_new_lineno st"
  "p_old_lineno (read_metadata line st) = p_old_lineno st"
  by (simp_all add: read_metadata_def Let_def split: option.splits)

lemma flush_out [parser_simps]:
  "p_out (flush_rename_section st) = p_out st" "p_in_hunk (flush_rename_section st) = p_in_hunk st"
  by (simp_all add: flush_rename_section_def Let_def parser_simps)

lemma open_section_out [parser_simps]:
  "p_out (open_section line st) = p_out st" "p_in_hunk (open_section line st) = p_in_hunk st"
  by (simp_all add: open_section_def Let_def parser_simps split: option.splits)

definition faithful_line :: "diff_line \<Rightarrow> bool" where
  "faithful_line l = (case dl_side l of Other \<Rightarrow> dl_content l = dl_raw l
     | Add \<Rightarrow> dl_raw l = CHR ''+'' # dl_content l
     | Remove \<Rightarrow> dl_raw l = CHR ''-'' # dl_content l
     | Ctx \<Rightarrow> dl_raw l = SPC # dl_content l)"

lemma content_side_raw:
  "content_side line = Add \<Longrightarrow> line = CHR ''+'' # drop 1 line"
  "content_side line = Remove \<Longrightarrow> line = CHR ''-'' # drop 1 line"
  "content_side line = Ctx \<Longrightarrow> line = SPC # drop 1 line"
  by (cases line; auto simp: content_side_def split: if_splits)+

text \<open>Every line of the input becomes one line of the document.\<close>

lemma parse_line_emits:
  assumes "parse_line i line st = Some st'"
  shows "\<exists>l. p_out st' = p_out st @ [l] \<and> dl_raw l = line \<and> dl_index l = i \<and> faithful_line l"
proof -
  have content: "dl_raw l = line \<Longrightarrow> dl_content l = drop 1 line \<Longrightarrow> dl_side l = content_side line \<Longrightarrow>
      content_side line \<noteq> Other \<Longrightarrow> faithful_line l" for l
    using content_side_raw [of line] by (cases "content_side line") (simp_all add: faithful_line_def)
  show ?thesis
    using assms
    unfolding parse_line_def on_new_file_header_def on_old_file_header_def on_hunk_header_def
      on_structure_def on_content_def Let_def emit_def header_line_def
    by (auto simp: parser_simps content simp del: drop_Suc split: option.splits if_splits prod.splits)
       (simp_all add: faithful_line_def)
qed

text \<open>The lines the parser refuses, and nothing else makes it refuse.\<close>

definition hunk_starts_fit :: "string \<Rightarrow> bool" where
  "hunk_starts_fit line = (case hunk_header line of None \<Rightarrow> True
     | Some (old_digits, new_digits) \<Rightarrow> length old_digits \<le> 4300 \<and> length new_digits \<le> 4300)"

lemma header_not_file:
  assumes "hunk_header line = Some x"
  shows "\<not> py_startswith line ''+++ ''" "\<not> py_startswith line ''--- ''"
proof -
  have at: "py_startswith line ''@@ -''"
    using assms by (auto simp: hunk_header_def after_def split: if_splits)
  from at show "\<not> py_startswith line ''+++ ''" "\<not> py_startswith line ''--- ''"
    by (cases line; auto)+
qed

lemma parse_line_None: "parse_line i line st = None \<longleftrightarrow> \<not> hunk_starts_fit line"
  using header_not_file [of line]
  by (cases "hunk_header line")
     (auto simp: parse_line_def hunk_starts_fit_def digits_int_def Let_def split: prod.splits)

lemma parse_from_None: "parse_from i ls st = None \<longleftrightarrow> \<not> list_all hunk_starts_fit ls"
proof (induction i ls st rule: parse_from.induct)
  case (2 i line ls st)
  then show ?case using parse_line_None [of i line st] by (cases "parse_line i line st") auto
qed simp

lemma parse_from_lines:
  "parse_from i ls st = Some st' \<Longrightarrow>
   map dl_raw (p_out st') = map dl_raw (p_out st) @ ls \<and>
   map dl_index (p_out st') = map dl_index (p_out st) @ [i ..< i + length ls] \<and>
   (list_all faithful_line (p_out st) \<longrightarrow> list_all faithful_line (p_out st'))"
proof (induction i ls st rule: parse_from.induct)
  case (2 i line ls st)
  from "2.prems" obtain st1 where st1: "parse_line i line st = Some st1" "parse_from (Suc i) ls st1 = Some st'"
    by (auto split: option.splits)
  obtain l where l: "p_out st1 = p_out st @ [l]" "dl_raw l = line" "dl_index l = i" "faithful_line l"
    using parse_line_emits [OF st1(1)] by blast
  have "[i ..< i + length (line # ls)] = i # [Suc i ..< Suc i + length ls]"
    using upt_conv_Cons [of i "i + length (line # ls)"] by (simp del: upt_Suc)
  with "2.IH" [OF st1] l show ?case by simp
qed simp

section \<open>The hunk invariant\<close>

definition in_hunk_content :: "diff_line \<Rightarrow> bool" where
  "in_hunk_content l = (dl_in_hunk l \<and> is_content l)"

text \<open>Line numbers that run from a start, on both sides.\<close>

definition numbered :: "nat \<Rightarrow> nat \<Rightarrow> diff_line list \<Rightarrow> bool" where
  "numbered old_start new_start ls \<longleftrightarrow>
     map dl_new_lineno (filter post_side ls) =
       map Some [new_start ..< new_start + length (filter post_side ls)] \<and>
     map dl_old_lineno (filter pre_side ls) =
       map Some [old_start ..< old_start + length (filter pre_side ls)]"

definition good_hunk :: "diff_hunk \<Rightarrow> bool" where
  "good_hunk h \<longleftrightarrow> dh_actual_lines h = length (filter post_side (dh_lines h)) \<and>
     (dh_expected_lines h = None \<or> numbered (dh_old_start h) (dh_new_start h) (dh_lines h))"

definition open_numbered :: "parser \<Rightarrow> bool" where
  "open_numbered st \<longleftrightarrow> p_hunk_expected st = None \<or>
     (p_in_hunk st \<and> numbered (p_hunk_old_start st) (p_hunk_new_start st) (p_hunk_lines st) \<and>
      p_new_lineno st = p_hunk_new_start st + length (filter post_side (p_hunk_lines st)) \<and>
      p_old_lineno st = p_hunk_old_start st + length (filter pre_side (p_hunk_lines st)))"

definition hunk_inv :: "parser \<Rightarrow> bool" where
  "hunk_inv st \<longleftrightarrow> length (p_meta st) = length (p_hunks st) \<and>
     concat (map dh_lines (concat (p_hunks st))) @ p_hunk_lines st = filter in_hunk_content (p_out st) \<and>
     list_all good_hunk (concat (p_hunks st)) \<and> open_numbered st"

lemma concat_append_last: "xss \<noteq> [] \<Longrightarrow> concat (append_last xss x) = concat xss @ [x]"
  by (cases xss rule: rev_cases) (simp_all add: append_last_def)

lemma length_append_last: "xss \<noteq> [] \<Longrightarrow> length (append_last xss x) = length xss"
  by (cases xss rule: rev_cases) (simp_all add: append_last_def)

lemma post_side_content: "is_content l \<Longrightarrow> (dl_side l \<noteq> Remove) = post_side l"
  by (cases "dl_side l") (simp_all add: is_content_def post_side_def)

lemma close_hunk_inv: "hunk_inv st \<Longrightarrow> hunk_inv (close_hunk st)"
proof -
  assume inv: "hunk_inv st"
  let ?hunk = "\<lparr>dh_old_start = p_hunk_old_start st, dh_new_start = p_hunk_new_start st,
      dh_lines = p_hunk_lines st, dh_expected_lines = p_hunk_expected st,
      dh_actual_lines = count_if (\<lambda>l. dl_side l \<noteq> Remove) (p_hunk_lines st)\<rparr>"
  from inv have "set (p_hunk_lines st) \<subseteq> set (filter in_hunk_content (p_out st))"
    unfolding hunk_inv_def by (metis set_append Un_upper2)
  then have "filter (\<lambda>l. dl_side l \<noteq> Remove) (p_hunk_lines st) = filter post_side (p_hunk_lines st)"
    by (intro filter_cong refl post_side_content) (auto simp: in_hunk_content_def)
  with inv have good: "good_hunk ?hunk"
    by (auto simp: good_hunk_def hunk_inv_def open_numbered_def count_if_def)
  show ?thesis
  proof (cases "p_hunk_lines st \<noteq> [] \<or> p_hunk_expected st \<noteq> None")
    case False
    with inv show ?thesis by (simp add: close_hunk_def hunk_inv_def open_numbered_def)
  next
    case True
    show ?thesis
    proof (cases "p_meta st = []")
      case empty: True
      with inv have "p_hunks st = []" by (simp add: hunk_inv_def)
      with True inv empty good show ?thesis
        by (auto simp: close_hunk_def hunk_inv_def open_numbered_def append_last_def Let_def)
    next
      case False
      with inv have "p_hunks st \<noteq> []" by (auto simp: hunk_inv_def)
      with True inv False good show ?thesis
        by (auto simp: close_hunk_def hunk_inv_def open_numbered_def concat_append_last
            length_append_last Let_def)
    qed
  qed
qed

lemma flush_inv: "hunk_inv st \<Longrightarrow> hunk_inv (flush_rename_section st)"
  using close_hunk_inv [of st]
  by (auto simp: flush_rename_section_def hunk_inv_def open_numbered_def Let_def)

lemma open_section_inv: "hunk_inv st \<Longrightarrow> hunk_inv (open_section line st)"
  using flush_inv [of st]
  by (auto simp: open_section_def hunk_inv_def open_numbered_def Let_def parser_simps split: option.splits)

lemma numbered_snoc:
  assumes "numbered os ns ls"
    and "post_side l \<Longrightarrow> dl_new_lineno l = Some (ns + length (filter post_side ls))"
    and "pre_side l \<Longrightarrow> dl_old_lineno l = Some (os + length (filter pre_side ls))"
  shows "numbered os ns (ls @ [l])"
  using assms by (auto simp: numbered_def)

lemma parse_line_inv:
  assumes "parse_line i line st = Some st'" and inv: "hunk_inv st"
  shows "hunk_inv st'"
proof -
  let ?st = "open_section line st"
  have inv1: "hunk_inv ?st" by (rule open_section_inv [OF inv])
  note inv2 = close_hunk_inv [OF inv1]
  have header: "\<not> in_hunk_content (header_line i line s)" for s
    by (simp add: in_hunk_content_def header_line_def is_content_def)
  have new_file: "hunk_inv (on_new_file_header i line ?st)"
    using inv2 header
    by (simp add: on_new_file_header_def hunk_inv_def open_numbered_def emit_def Let_def parser_simps)
  have old_file: "hunk_inv (on_old_file_header i line ?st)"
    using inv2 header
    by (simp add: on_old_file_header_def hunk_inv_def open_numbered_def emit_def Let_def parser_simps)
  have hunk: "hunk_inv (on_hunk_header i line a b ?st)" for a b
    using inv2 header
    by (simp add: on_hunk_header_def hunk_inv_def open_numbered_def emit_def Let_def parser_simps numbered_def)
  have struc: "hunk_inv (on_structure i line ?st)"
    using inv1
    by (simp add: on_structure_def hunk_inv_def open_numbered_def emit_def Let_def parser_simps
        in_hunk_content_def is_content_def)
  have content: "hunk_inv (on_content i line sd ?st)" if "sd \<noteq> Other" for sd
    using inv1 that
    by (cases sd; cases "p_hunk_expected ?st = None"; cases "p_in_hunk ?st")
       (auto simp: on_content_def hunk_inv_def open_numbered_def emit_def Let_def
          in_hunk_content_def is_content_def post_side_def pre_side_def intro!: numbered_snoc)
  show ?thesis
    using assms(1) new_file old_file hunk struc content unfolding parse_line_def Let_def
    by (auto split: option.splits if_splits)
qed

lemma parse_from_inv: "parse_from i ls st = Some st' \<Longrightarrow> hunk_inv st \<Longrightarrow> hunk_inv st'"
proof (induction i ls st rule: parse_from.induct)
  case (2 i line ls st)
  from "2.prems"(1) obtain st1 where st1: "parse_line i line st = Some st1" "parse_from (Suc i) ls st1 = Some st'"
    by (auto split: option.splits)
  from "2.IH" [OF st1 parse_line_inv [OF st1(1) "2.prems"(2)]] show ?case .
qed simp

lemma parser_start_inv: "hunk_inv parser_start"
  by (simp add: hunk_inv_def parser_start_def open_numbered_def)

definition hunks_of :: "diff_doc \<Rightarrow> diff_hunk list" where
  "hunks_of d = concat (map df_hunks (dd_files d))"

lemma hunks_of_assemble: "length (p_meta st) = length (p_hunks st) \<Longrightarrow> hunks_of (assemble st) = concat (p_hunks st)"
  by (simp add: hunks_of_def assemble_def file_of_def comp_def case_prod_beta' flip: map_snd_zip_take)

text \<open>The state at the end: nothing is open any more.\<close>

definition closing :: "parser \<Rightarrow> parser" where
  "closing st = flush_rename_section (close_hunk st)"

lemma closing_inv:
  assumes "hunk_inv st"
  shows "hunk_inv (closing st)" "p_hunk_lines (closing st) = []"
proof -
  show "hunk_inv (closing st)"
    unfolding closing_def by (intro flush_inv close_hunk_inv assms)
  show "p_hunk_lines (closing st) = []"
    by (simp add: closing_def flush_rename_section_def Let_def parser_simps)
qed

lemma parsed:
  assumes "parse_diff_lines ls = Some d"
  obtains st where "parse_from 0 ls parser_start = Some st" "d = assemble (closing st)" "hunk_inv (closing st)"
    "p_hunk_lines (closing st) = []"
proof -
  from assms obtain st where st: "parse_from 0 ls parser_start = Some st" "d = assemble (closing st)"
    by (auto simp: parse_diff_lines_def closing_def)
  from closing_inv [OF parse_from_inv [OF st(1) parser_start_inv]] that [OF st] show thesis by blast
qed

lemma parse_refuses: "parse_diff_lines ls = None \<longleftrightarrow> \<not> list_all hunk_starts_fit ls"
  by (simp add: parse_diff_lines_def parse_from_None)

section \<open>Presenting a file as an addition\<close>

lemma collapse_crlf_id: "CR \<notin> set s \<Longrightarrow> collapse_crlf s = s"
  by (induction s rule: collapse_crlf.induct) auto

text \<open>Lines that a newline ends are read back, without a carriage return before the newline.\<close>

definition drop_cr :: "string \<Rightarrow> string" where
  "drop_cr l = (if l \<noteq> [] \<and> last l = CR then butlast l else l)"

lemma collapse_crlf_line:
  "NL \<notin> set l \<Longrightarrow> collapse_crlf (l @ NL # rest) = drop_cr l @ NL # collapse_crlf rest"
proof (induction l)
  case Nil
  then show ?case by (cases rest) (auto simp: drop_cr_def)
next
  case (Cons c l)
  show ?case
  proof (cases l)
    case Nil
    with Cons.prems show ?thesis by (cases rest) (auto simp: drop_cr_def)
  next
    case (Cons d m)
    with Cons.IH Cons.prems show ?thesis by (auto simp: drop_cr_def)
  qed
qed

lemma collapse_crlf_lines:
  "list_all (\<lambda>l. NL \<notin> set l) ls \<Longrightarrow>
     collapse_crlf (concat (map (\<lambda>l. l @ [NL]) ls)) = concat (map (\<lambda>l. drop_cr l @ [NL]) ls)"
  by (induction ls) (simp_all add: collapse_crlf_line)

lemma drop_cr_set: "NL \<notin> set l \<Longrightarrow> NL \<notin> set (drop_cr l)"
  by (auto simp: drop_cr_def dest: in_set_butlastD)

lemma split_terminated:
  "list_all (\<lambda>l. NL \<notin> set l) ls \<Longrightarrow>
     py_split NL (concat (map (\<lambda>l. drop_cr l @ [NL]) ls)) = map drop_cr ls @ [[]]"
  by (induction ls) (simp_all add: drop_cr_set py_split_append_sep)

lemma split_lines_terminated:
  "list_all (\<lambda>l. NL \<notin> set l) ls \<Longrightarrow> split_lines (concat (map (\<lambda>l. l @ [NL]) ls)) = map drop_cr ls"
  by (simp add: split_lines_def collapse_crlf_lines split_terminated Let_def)

lemma split_lines_no_nl: "l \<in> set (split_lines t) \<Longrightarrow> NL \<notin> set l"
  by (auto simp: split_lines_def Let_def dest!: in_set_butlastD dest: py_split_parts split: if_splits)

text \<open>The header that \<^verbatim>\<open>as_added_diff\<close> writes.\<close>

definition added_header :: "nat \<Rightarrow> string" where
  "added_header n = ''@@ -0,0 +1,'' @ show_nat n @ '' @@''"

lemma take_digits_show: "take_digits (show_nat n @ '' @@'') = show_nat n"
  "drop_digits (show_nat n @ '' @@'') = '' @@''"
  using show_nat_digits [of n]
  by (simp_all add: take_digits_def drop_digits_def list_all_iff takeWhile_append2 dropWhile_append2 is_digit_def)

lemma added_header_starts: "hunk_header (added_header n) = Some (''0'', ''1'')"
proof -
  let ?v = "show_nat n @ '' @@''"
  have "take_digits (''0,0 +1,'' @ ?v) = ''0''" "drop_digits (''0,0 +1,'' @ ?v) = '',0 +1,'' @ ?v"
    "take_digits (''0 +1,'' @ ?v) = ''0''" "drop_digits (''0 +1,'' @ ?v) = '' +1,'' @ ?v"
    by (simp_all add: take_digits_def drop_digits_def is_digit_def)
  then have old: "header_range (''0,0 +1,'' @ ?v) = Some (''0'', '' +1,'' @ ?v)"
    by (simp add: header_range_def Let_def after_def nat_of_digits_def digit_val_def)
  have "take_digits (''1,'' @ ?v) = ''1''" "drop_digits (''1,'' @ ?v) = '','' @ ?v"
    by (simp_all add: take_digits_def drop_digits_def is_digit_def)
  then have new: "header_range (''1,'' @ ?v) = Some (''1'', '' @@'')"
    using take_digits_show [of n] show_nat_digits [of n]
    by (simp add: header_range_def Let_def after_def nat_of_digits_def digit_val_def)
  have "after ''@@ -'' (added_header n) = Some (''0,0 +1,'' @ ?v)"
    "after '' +'' ('' +1,'' @ ?v) = Some (''1,'' @ ?v)"
    by (simp_all add: after_def added_header_def)
  with old new show ?thesis by (simp add: hunk_header_def del: append.simps)
qed

lemma show_nat_no_spc: "SPC \<notin> set (show_nat n)"
proof -
  have "\<not> is_digit SPC" by (simp add: is_digit_def)
  with show_nat_digits [of n] show ?thesis unfolding list_all_iff by blast
qed

lemma added_header_count: "declared_new_count (added_header n) = digits_int (show_nat n)"
proof -
  have find: "py_find (show_nat n @ '' @@'') '' @@'' = Some (length (show_nat n))"
    using py_find_skip [of SPC "show_nat n" "''@@''" "''@@''"] show_nat_no_spc [of n] by simp
  have "cut_at ''+'' (added_header n) = Some (''@@ -0,0 '', CHR ''1'' # CHR '','' # show_nat n @ '' @@'')"
    by (simp add: cut_at_def added_header_def)
  moreover have "before '' @@'' (CHR ''1'' # CHR '','' # show_nat n @ '' @@'') = CHR ''1'' # CHR '','' # show_nat n"
    by (simp add: before_def cut_at_def find)
  moreover have "cut_at '','' (CHR ''1'' # CHR '','' # show_nat n) = Some (''1'', show_nat n)"
    by (simp add: cut_at_def)
  ultimately show ?thesis
    using show_nat_digits [of n] by (simp add: declared_new_count_def Let_def)
qed

text \<open>An added line that does not look like a file header only extends the open hunk.\<close>

definition added_entry :: "nat \<Rightarrow> string \<Rightarrow> parser \<Rightarrow> diff_line" where
  "added_entry i l st = \<lparr>dl_index = i, dl_side = Add, dl_content = l, dl_raw = CHR ''+'' # l,
     dl_file = p_current_file st, dl_old_lineno = None, dl_new_lineno = Some (p_new_lineno st),
     dl_in_hunk = True, dl_file_boundary = p_file_boundary st, dl_hunk_boundary = p_hunk_boundary st\<rparr>"

lemma parse_added_line:
  assumes "p_in_hunk st" and "\<not> py_startswith l ''++ ''"
  shows "parse_line i (CHR ''+'' # l) st = Some (st\<lparr>p_out := p_out st @ [added_entry i l st],
     p_hunk_lines := p_hunk_lines st @ [added_entry i l st], p_new_lineno := p_new_lineno st + 1,
     p_file_boundary := False, p_hunk_boundary := False\<rparr>)"
  using assms
  by (simp add: parse_line_def open_section_def hunk_header_def after_def content_side_def on_content_def
      emit_def added_entry_def Let_def)

lemma parse_header_like:
  assumes "py_startswith l ''++ ''"
  shows "parse_line i (CHR ''+'' # l) st = Some (on_new_file_header i (CHR ''+'' # l) st)"
  using assms by (simp add: parse_line_def open_section_def Let_def)

lemma parse_added_lines:
  assumes "p_in_hunk st" and "list_all (\<lambda>l. \<not> py_startswith l ''++ '') ls"
  shows "\<exists>st' es. parse_from i (map ((#) (CHR ''+'')) ls) st = Some st' \<and> p_in_hunk st' \<and>
     p_hunk_lines st' = p_hunk_lines st @ es \<and> length es = length ls \<and> list_all (\<lambda>l. dl_side l = Add) es \<and>
     p_hunks st' = p_hunks st \<and> p_meta st' = p_meta st \<and> p_hunk_expected st' = p_hunk_expected st \<and>
     p_section_has_file st' = p_section_has_file st"
  using assms
proof (induction ls arbitrary: i st)
  case (Cons l ls)
  define st1 where "st1 = st\<lparr>p_out := p_out st @ [added_entry i l st],
     p_hunk_lines := p_hunk_lines st @ [added_entry i l st], p_new_lineno := p_new_lineno st + 1,
     p_file_boundary := False, p_hunk_boundary := False\<rparr>"
  have line: "parse_line i (CHR ''+'' # l) st = Some st1"
    using Cons.prems unfolding st1_def by (intro parse_added_line) simp_all
  have "p_in_hunk st1" "list_all (\<lambda>l. \<not> py_startswith l ''++ '') ls"
    using Cons.prems by (simp_all add: st1_def)
  from Cons.IH [OF this, of "Suc i"] obtain st' es where es:
    "parse_from (Suc i) (map ((#) (CHR ''+'')) ls) st1 = Some st'" "p_in_hunk st'"
    "p_hunk_lines st' = p_hunk_lines st1 @ es" "length es = length ls" "list_all (\<lambda>l. dl_side l = Add) es"
    "p_hunks st' = p_hunks st1" "p_meta st' = p_meta st1" "p_hunk_expected st' = p_hunk_expected st1"
    "p_section_has_file st' = p_section_has_file st1"
    by blast
  show ?case
    by (rule exI [of _ st'], rule exI [of _ "added_entry i l st # es"])
       (use es line in \<open>simp add: st1_def added_entry_def\<close>)
qed simp

lemma header_side: "dl_side (header_line i l st) = Other"
  by (simp add: header_line_def)

text \<open>Whatever the lines hold, those that do not look like a file header are the added ones, in order.\<close>

definition kept :: "string list \<Rightarrow> string list" where
  "kept ls = filter (\<lambda>l. \<not> py_startswith l ''++ '') ls"

lemma parse_any_added_lines:
  assumes "p_in_hunk st"
  shows "\<exists>st' es. parse_from i (map ((#) (CHR ''+'')) ls) st = Some st' \<and> p_out st' = p_out st @ es \<and>
     map dl_content (filter post_side es) = kept ls \<and> filter pre_side es = [] \<and>
     map dl_new_lineno (filter (\<lambda>l. dl_side l = Add) es) =
       map Some [p_new_lineno st ..< p_new_lineno st + length (kept ls)]"
  using assms
proof (induction ls arbitrary: i st)
  case (Cons l ls)
  obtain st1 x where step: "parse_line i (CHR ''+'' # l) st = Some st1" "p_in_hunk st1" "p_out st1 = p_out st @ [x]"
    "if py_startswith l ''++ '' then dl_side x = Other \<and> p_new_lineno st1 = p_new_lineno st
     else x = added_entry i l st \<and> p_new_lineno st1 = Suc (p_new_lineno st)"
  proof (cases "py_startswith l ''++ ''")
    case True
    have "p_new_lineno (close_hunk st) = p_new_lineno st" by (simp add: close_hunk_def Let_def)
    with True Cons.prems show ?thesis
      by (intro that [OF parse_header_like [OF True], where x = "last (p_out (on_new_file_header i (CHR ''+'' # l) st))"])
         (simp_all add: on_new_file_header_def Let_def emit_def header_side parser_simps)
  next
    case False
    with Cons.prems show ?thesis by (intro that [OF parse_added_line]) simp_all
  qed
  from Cons.IH [OF step(2), of "Suc i"] obtain st' es where es:
    "parse_from (Suc i) (map ((#) (CHR ''+'')) ls) st1 = Some st'" "p_out st' = p_out st1 @ es"
    "map dl_content (filter post_side es) = kept ls" "filter pre_side es = []"
    "map dl_new_lineno (filter (\<lambda>l. dl_side l = Add) es) =
       map Some [p_new_lineno st1 ..< p_new_lineno st1 + length (kept ls)]"
    by blast
  have num: "[p_new_lineno st ..< p_new_lineno st + Suc (length (kept ls))] =
      p_new_lineno st # [Suc (p_new_lineno st) ..< Suc (p_new_lineno st) + length (kept ls)]"
    using upt_conv_Cons [of "p_new_lineno st" "p_new_lineno st + Suc (length (kept ls))"] by (simp del: upt_Suc)
  have sides: "post_side x \<longleftrightarrow> \<not> py_startswith l ''++ ''" "\<not> pre_side x"
    "dl_side x = Add \<longleftrightarrow> \<not> py_startswith l ''++ ''"
    using step(4) by (auto simp: post_side_def pre_side_def added_entry_def split: if_splits)
  show ?case
    by (rule exI [of _ st'], rule exI [of _ "x # es"])
       (use es step sides num in \<open>auto simp: kept_def added_entry_def simp del: upt_Suc split: if_splits\<close>)
qed (simp add: kept_def)

lemma nl_not_digit: "\<not> is_digit NL"
  by (simp add: is_digit_def)

text \<open>A hunk that was closed stays in its file.\<close>

lemma append_last_mono: "set (concat xss) \<subseteq> set (concat (append_last xss x))"
proof (cases "xss = []")
  case False
  show ?thesis unfolding concat_append_last [OF False] by (simp only: set_append) blast
qed (simp add: append_last_def)

lemma close_hunk_mono: "set (concat (p_hunks st)) \<subseteq> set (concat (p_hunks (close_hunk st)))"
proof -
  have "set (concat xss) \<subseteq> set (concat (append_last (xss @ [[]]) x))" for xss :: "diff_hunk list list" and x
    using append_last_mono [of "xss @ [[]]" x] by simp
  then show ?thesis using append_last_mono [of "p_hunks st"] by (simp add: close_hunk_def Let_def)
qed

lemma flush_mono: "set (concat (p_hunks st)) \<subseteq> set (concat (p_hunks (flush_rename_section st)))"
  using close_hunk_mono [of st] by (simp add: flush_rename_section_def Let_def)

lemma open_section_mono: "set (concat (p_hunks st)) \<subseteq> set (concat (p_hunks (open_section line st)))"
  using flush_mono [of st] by (simp add: open_section_def Let_def parser_simps split: option.split)

lemma handler_hunks:
  "p_hunks (on_new_file_header i line st) = p_hunks (close_hunk st) @ [[]]"
  "p_hunks (on_old_file_header i line st) = p_hunks (close_hunk st)"
  "p_hunks (on_hunk_header i line a b st) = p_hunks (close_hunk st)"
  "p_hunks (on_structure i line st) = p_hunks st" "p_hunks (on_content i line sd st) = p_hunks st"
  by (simp_all add: on_new_file_header_def on_old_file_header_def on_hunk_header_def on_structure_def
      on_content_def emit_def Let_def parser_simps)

lemma parse_line_mono:
  assumes "parse_line i line st = Some st'"
  shows "set (concat (p_hunks st)) \<subseteq> set (concat (p_hunks st'))"
proof -
  let ?st = "open_section line st"
  have "concat (p_hunks st') = concat (p_hunks ?st) \<or> concat (p_hunks st') = concat (p_hunks (close_hunk ?st))"
    using assms by (auto simp: parse_line_def Let_def handler_hunks split: option.splits if_splits)
  then show ?thesis
    using open_section_mono [of st line] close_hunk_mono [of ?st] by (metis subset_trans)
qed

lemma parse_from_mono:
  "parse_from i ls st = Some st' \<Longrightarrow> set (concat (p_hunks st)) \<subseteq> set (concat (p_hunks st'))"
proof (induction i ls st rule: parse_from.induct)
  case (2 i line ls st)
  from "2.prems" obtain st1 where st1: "parse_line i line st = Some st1" "parse_from (Suc i) ls st1 = Some st'"
    by (auto split: option.splits)
  from parse_line_mono [OF st1(1)] "2.IH" [OF st1] show ?case by blast
qed simp

lemma parse_from_append:
  "parse_from i (xs @ ys) st = Option.bind (parse_from i xs st) (parse_from (i + length xs) ys)"
  by (induction xs arbitrary: i st) (auto split: option.splits)

lemma no_cut_hunks: "cut_hunks d = [] \<longleftrightarrow>
    list_all (\<lambda>h. dh_expected_lines h = None \<or> dh_expected_lines h = Some (dh_actual_lines h)) (hunks_of d)"
proof -
  have none: "List.map_filter g hs = [] \<longleftrightarrow> (\<forall>h \<in> set hs. g h = None)" for g :: "diff_hunk \<Rightarrow> (string \<times> nat \<times> nat \<times> nat) option" and hs
    by (induction hs) (auto simp: List.map_filter_simps split: option.splits)
  have cut: "(case dh_expected_lines h of None \<Rightarrow> None
      | Some n \<Rightarrow> if dh_actual_lines h \<noteq> n then Some (p, dh_new_start h, n, dh_actual_lines h) else None) = None \<longleftrightarrow>
      dh_expected_lines h = None \<or> dh_expected_lines h = Some (dh_actual_lines h)" for h and p :: string
    by (cases "dh_expected_lines h") auto
  show ?thesis
    by (simp add: cut_hunks_def hunks_of_def list_all_iff none cut)
qed

text \<open>The document of an added file.\<close>

definition added_start :: "nat \<Rightarrow> string \<Rightarrow> parser" where
  "added_start n path = on_hunk_header 2 (added_header n) 0 1
     (on_new_file_header 1 (''+++ b/'' @ path) (on_old_file_header 0 ''--- /dev/null'' parser_start))"

lemma added_headers:
  "parse_from 0 ([''--- /dev/null'', ''+++ b/'' @ path, added_header n] @ rest) parser_start =
     parse_from 3 rest (added_start n path)"
proof -
  have hdr: "\<not> py_startswith (added_header n) ''diff --git ''" "\<not> py_startswith (added_header n) ''+++ ''"
    "\<not> py_startswith (added_header n) ''--- ''"
    by (simp_all add: added_header_def)
  have "digits_int ''0'' = Some 0" "digits_int ''1'' = Some 1"
    by (simp_all add: digits_int_def nat_of_digits_def digit_val_def)
  then have "parse_line 2 (added_header n) st = Some (on_hunk_header 2 (added_header n) 0 1 st)" for st
    by (simp add: parse_line_def Let_def open_section_def hdr added_header_starts)
  moreover have "parse_line 1 (''+++ b/'' @ path) st = Some (on_new_file_header 1 (''+++ b/'' @ path) st)" for st
    by (simp add: parse_line_def Let_def open_section_def)
  moreover have "parse_line 0 ''--- /dev/null'' st = Some (on_old_file_header 0 ''--- /dev/null'' st)" for st
    by (simp add: parse_line_def Let_def open_section_def)
  ultimately show ?thesis by (simp add: added_start_def numeral_2_eq_2 numeral_3_eq_3)
qed

lemma added_start_facts:
  "p_in_hunk (added_start n path)" "p_hunk_lines (added_start n path) = []" "p_hunks (added_start n path) = [[]]"
  "length (p_meta (added_start n path)) = 1" "p_hunk_expected (added_start n path) = digits_int (show_nat n)"
  "p_new_lineno (added_start n path) = 1" "p_section_has_file (added_start n path)"
  "list_all (\<lambda>l. dl_side l = Other) (p_out (added_start n path))" "hunk_inv (added_start n path)"
proof -
  have "parse_from 0 [''--- /dev/null'', ''+++ b/'' @ path, added_header n] parser_start = Some (added_start n path)"
    using added_headers [of path n "[]"] by simp
  from parse_from_inv [OF this parser_start_inv] show "hunk_inv (added_start n path)" .
qed (simp_all add: added_start_def on_hunk_header_def on_new_file_header_def on_old_file_header_def close_hunk_def
        parser_start_def reset_pending_metadata_def emit_def header_line_def Let_def added_header_count)

text \<open>Every hunk is whole exactly when no line was taken for a header.\<close>

lemma added_hunks_whole:
  assumes "parse_from 3 (map ((#) (CHR ''+'')) ls) (added_start (length ls) path) = Some fin"
    and fit: "length (show_nat (length ls)) \<le> 4300"
  shows "cut_hunks (assemble (closing fin)) = [] \<longleftrightarrow> kept ls = ls"
proof -
  let ?st0 = "added_start (length ls) path"
  have expected: "p_hunk_expected ?st0 = Some (length ls)"
    using fit by (simp add: added_start_facts digits_int_def nat_of_show_nat)
  have inv: "hunk_inv (closing fin)"
    by (rule closing_inv) (rule parse_from_inv [OF assms(1) added_start_facts(9)])
  then have hunks: "hunks_of (assemble (closing fin)) = concat (p_hunks (closing fin))"
    by (simp add: hunks_of_assemble hunk_inv_def)
  have counted: "count_if (\<lambda>l. dl_side l \<noteq> Remove) es = length es" if "list_all (\<lambda>l. dl_side l = Add) es" for es
    using that by (simp add: count_if_def list_all_iff filter_id_conv cong: filter_cong)
  show ?thesis
  proof (cases "list_all (\<lambda>l. \<not> py_startswith l ''++ '') ls")
    case True
    obtain es where es: "p_hunk_lines fin = es" "length es = length ls" "list_all (\<lambda>l. dl_side l = Add) es"
      "p_hunks fin = [[]]" "p_meta fin \<noteq> []" "p_hunk_expected fin = Some (length ls)" "p_section_has_file fin"
      using parse_added_lines [OF added_start_facts(1) True, of 3 "length ls" path] assms(1)
        added_start_facts [of "length ls" path] expected by fastforce
    have "p_section_has_file (close_hunk fin)" using es by (simp add: close_hunk_def Let_def)
    then have "closing fin = close_hunk fin" by (simp add: closing_def flush_rename_section_def)
    then have "concat (p_hunks (closing fin)) = [\<lparr>dh_old_start = p_hunk_old_start fin,
        dh_new_start = p_hunk_new_start fin, dh_lines = es, dh_expected_lines = Some (length ls),
        dh_actual_lines = length ls\<rparr>]"
      using es by (simp add: close_hunk_def Let_def append_last_def counted)
    moreover have "kept ls = ls" using True by (simp add: kept_def filter_id_conv list_all_iff)
    ultimately show ?thesis by (simp add: no_cut_hunks hunks)
  next
    case False
    then obtain pre l post where ls: "ls = pre @ l # post" "list_all (\<lambda>l. \<not> py_startswith l ''++ '') pre"
      "py_startswith l ''++ ''"
      using split_list_first_prop [of ls "\<lambda>l. py_startswith l ''++ ''"] by (auto simp: list_all_iff)
    obtain st1 es where st1: "parse_from 3 (map ((#) (CHR ''+'')) pre) ?st0 = Some st1"
      "p_hunk_lines st1 = es" "length es = length pre" "list_all (\<lambda>l. dl_side l = Add) es"
      "p_hunks st1 = [[]]" "p_meta st1 \<noteq> []" "p_hunk_expected st1 = Some (length ls)"
      using parse_added_lines [OF added_start_facts(1) ls(2), of 3 "length ls" path]
        added_start_facts [of "length ls" path] expected by fastforce
    let ?st2 = "on_new_file_header (3 + length pre) (CHR ''+'' # l) st1"
    let ?h = "\<lparr>dh_old_start = p_hunk_old_start st1, dh_new_start = p_hunk_new_start st1, dh_lines = es,
      dh_expected_lines = Some (length ls), dh_actual_lines = length pre\<rparr>"
    have rest: "parse_from (Suc (3 + length pre)) (map ((#) (CHR ''+'')) post) ?st2 = Some fin"
    proof -
      have "parse_from 3 (map ((#) (CHR ''+'')) pre @ map ((#) (CHR ''+'')) (l # post)) ?st0 = Some fin"
        using assms(1) by (simp only: ls(1) [symmetric] map_append [symmetric])
      then show ?thesis by (simp add: parse_from_append st1(1) parse_header_like [OF ls(3)])
    qed
    have "?h \<in> set (concat (p_hunks ?st2))"
      using st1 by (simp add: on_new_file_header_def Let_def emit_def parser_simps close_hunk_def append_last_def counted)
    then have "?h \<in> set (concat (p_hunks (closing fin)))"
      using parse_from_mono [OF rest] close_hunk_mono [of fin] flush_mono [of "close_hunk fin"]
      unfolding closing_def by blast
    then have "cut_hunks (assemble (closing fin)) \<noteq> []"
    proof -
      assume "?h \<in> set (concat (p_hunks (closing fin)))"
      moreover have "\<not> (dh_expected_lines ?h = None \<or> dh_expected_lines ?h = Some (dh_actual_lines ?h))"
        by (simp add: ls(1))
      ultimately show ?thesis unfolding no_cut_hunks hunks list_all_iff by blast
    qed
    moreover have "kept ls \<noteq> ls" using False by (auto simp: kept_def filter_id_conv list_all_iff)
    ultimately show ?thesis by blast
  qed
qed

section \<open>Properties\<close>

text \<open>C6: The parser drops no line.  Of a text it accepts, every line is one line of the document, headers
  included, in order, under its index, and the document holds its text unchanged: the raw line, and as
  content the line without its one-character prefix, or the whole line for headers, structure and
  junk.  It refuses a text exactly when a hunk header starts at a number of more than 4300 digits.\<close>

theorem parse_keeps_every_line:
  "case parse_diff_lines ls of
     None \<Rightarrow> \<not> list_all hunk_starts_fit ls
   | Some d \<Rightarrow> list_all hunk_starts_fit ls \<and> map dl_raw (dd_lines d) = ls \<and>
       map dl_index (dd_lines d) = [0 ..< length ls] \<and> list_all faithful_line (dd_lines d)"
proof (cases "parse_diff_lines ls")
  case None
  with parse_refuses [of ls] show ?thesis by simp
next
  case (Some d)
  with parse_refuses [of ls] have "list_all hunk_starts_fit ls" by simp
  moreover obtain st where "parse_from 0 ls parser_start = Some st" "d = assemble (closing st)"
    using parsed [OF Some] by metis
  ultimately show ?thesis
    using parse_from_lines [of 0 ls parser_start st] Some
    by (simp add: closing_def assemble_def parser_simps parser_start_def)
qed

text \<open>C7: Every content line inside a hunk belongs to exactly one hunk of exactly one file.  The hunks of
  the files of the document, in order, hold together exactly the in-hunk content lines of the
  document, in order, whatever headers, renames and junk stand between them.\<close>

theorem hunks_partition_content:
  "case parse_diff_lines ls of
     None \<Rightarrow> \<not> list_all hunk_starts_fit ls
   | Some d \<Rightarrow> concat (map dh_lines (hunks_of d)) =
       filter (\<lambda>l. dl_in_hunk l \<and> is_content l) (dd_lines d)"
proof (cases "parse_diff_lines ls")
  case None
  with parse_refuses [of ls] show ?thesis by simp
next
  case (Some d)
  obtain st where st: "d = assemble (closing st)" "hunk_inv (closing st)" "p_hunk_lines (closing st) = []"
    using parsed [OF Some] by metis
  have "in_hunk_content = (\<lambda>l. dl_in_hunk l \<and> is_content l)"
    by (simp add: fun_eq_iff in_hunk_content_def)
  with st(2,3) show ?thesis
    by (simp add: Some st(1) hunks_of_assemble hunk_inv_def) (simp add: assemble_def)
qed

text \<open>C8: Line numbers.  In every hunk that an \<^verbatim>\<open>@@\<close> header opened, the lines of the new file are
  numbered consecutively from the header's new start and the lines of the old file from its old
  start, and the recorded count is the number of lines of the new file the hunk holds.\<close>

theorem hunk_lines_numbered:
  "case parse_diff_lines ls of
     None \<Rightarrow> \<not> list_all hunk_starts_fit ls
   | Some d \<Rightarrow> list_all (\<lambda>h. dh_actual_lines h = length (filter post_side (dh_lines h)) \<and>
       (dh_expected_lines h = None \<or>
          map dl_new_lineno (filter post_side (dh_lines h)) =
            map Some [dh_new_start h ..< dh_new_start h + length (filter post_side (dh_lines h))] \<and>
          map dl_old_lineno (filter pre_side (dh_lines h)) =
            map Some [dh_old_start h ..< dh_old_start h + length (filter pre_side (dh_lines h))]))
     (hunks_of d)"
proof (cases "parse_diff_lines ls")
  case None
  with parse_refuses [of ls] show ?thesis by simp
next
  case (Some d)
  obtain st where st: "d = assemble (closing st)" "hunk_inv (closing st)"
    using parsed [OF Some] by metis
  then have "hunks_of d = concat (p_hunks (closing st))"
    by (simp add: hunks_of_assemble hunk_inv_def)
  with st(2) Some show ?thesis
    by (simp only: hunk_inv_def option.case) (simp add: good_hunk_def numbered_def list_all_iff)
qed

text \<open>C10: A file presented as an addition is parsed, and reads back as its lines, a carriage return at
  their end left out, except those that start with two plus signs and a space: these the parser takes
  for file headers.  The lines kept are numbered from 1 on without gaps, nothing is in the pre-diff file, and
  a cut hunk is reported exactly when a line was lost.\<close>

theorem added_diff_roundtrip:
  assumes "NL \<notin> set path" and "length (show_nat (length (split_lines t))) \<le> 4300"
  shows "\<exists>d. parse_diff (as_added_diff t path) = Some d \<and>
    (let ls = map drop_cr (split_lines t); read = filter (\<lambda>l. \<not> py_startswith l ''++ '') ls in
       post_lines d = read \<and> pre_lines d = [] \<and>
       map dl_new_lineno (added_lines d) = map Some [1 ..< Suc (length read)] \<and>
       (cut_hunks d = [] \<longleftrightarrow> read = ls))"
proof (cases "split_lines t = []")
  case True
  then have "as_added_diff t path = []" by (simp add: as_added_diff_def Let_def)
  moreover have "split_lines [] = []" by (simp add: split_lines_def)
  ultimately show ?thesis using True
    by (simp add: parse_diff_def parse_diff_lines_def parser_start_def close_hunk_def assemble_def
        flush_rename_section_def has_pending_metadata_def post_lines_def pre_lines_def added_lines_def
        cut_hunks_def Let_def)
next
  case False
  define ls where "ls = map drop_cr (split_lines t)"
  define n where "n = length ls"
  define hdr where "hdr = [''--- /dev/null'', ''+++ b/'' @ path, added_header n]"
  have len: "n = length (split_lines t)" by (simp add: n_def ls_def)
  have "t \<noteq> []" using False by (auto simp: split_lines_def)
  then have txt': "as_added_diff t path =
      concat (map (\<lambda>l. l @ [NL]) (hdr @ map ((#) (CHR ''+'')) (split_lines t)))"
    using False by (simp add: as_added_diff_def Let_def hdr_def added_header_def len comp_def)
  have "NL \<notin> set (show_nat n)" using show_nat_digits [of n] nl_not_digit unfolding list_all_iff by blast
  then have "list_all (\<lambda>l. NL \<notin> set l) (hdr @ map ((#) (CHR ''+'')) (split_lines t))"
    using assms(1) split_lines_no_nl [of _ t] by (auto simp: list_all_iff hdr_def added_header_def)
  from split_lines_terminated [OF this]
  have split: "split_lines (as_added_diff t path) =
      [''--- /dev/null'', ''+++ b/'' @ drop_cr path, added_header n] @ map ((#) (CHR ''+'')) ls"
    unfolding txt' by (simp add: hdr_def ls_def drop_cr_def added_header_def comp_def)
  obtain fin es where fin: "parse_from 3 (map ((#) (CHR ''+'')) ls) (added_start n (drop_cr path)) = Some fin"
    "p_out fin = p_out (added_start n (drop_cr path)) @ es" "map dl_content (filter post_side es) = kept ls"
    "filter pre_side es = []"
    "map dl_new_lineno (filter (\<lambda>l. dl_side l = Add) es) = map Some [1 ..< 1 + length (kept ls)]"
    using parse_any_added_lines [OF added_start_facts(1), of 3 ls n "drop_cr path"] added_start_facts(6) by auto
  let ?d = "assemble (closing fin)"
  have d: "parse_diff (as_added_diff t path) = Some ?d"
    unfolding parse_diff_def split parse_diff_lines_def added_headers fin(1) by (simp add: closing_def)
  have so: "filter post_side (p_out (added_start n (drop_cr path))) = []"
    "filter pre_side (p_out (added_start n (drop_cr path))) = []"
    "filter (\<lambda>l. dl_side l = Add) (p_out (added_start n (drop_cr path))) = []"
    using added_start_facts(8) [of n "drop_cr path"]
    by (auto simp: list_all_iff filter_empty_conv post_side_def pre_side_def)
  have out: "dd_lines ?d = p_out fin" by (simp add: closing_def assemble_def parser_simps)
  have "cut_hunks ?d = [] \<longleftrightarrow> kept ls = ls"
    using added_hunks_whole [of ls "drop_cr path" fin] fin(1) assms(2) by (simp add: n_def ls_def)
  with d fin so show ?thesis
    by (intro exI [of _ ?d])
       (simp add: post_lines_def pre_lines_def added_lines_def out Let_def kept_def ls_def del: upt_Suc)
qed

theorem added_diff_roundtrip_witness:
  "map_option post_lines (parse_diff (as_added_diff (''pkgname=x'' @ [NL] @ ''pkgver=1'') ''PKGBUILD''))
     = Some [''pkgname=x'', ''pkgver=1'']"
proof -
  have "length (show_nat (length (split_lines (''pkgname=x'' @ [NL] @ ''pkgver=1'')))) \<le> 4300"
    by (simp add: split_lines_def Let_def show_nat.simps)
  from added_diff_roundtrip [OF _ this, of "''PKGBUILD''"] show ?thesis
    by (auto simp: split_lines_def Let_def drop_cr_def)
qed

text \<open>A recipe line that starts with two plus signs and a space is no line of the recipe it was read from: it
  names a file, to which the lines after it are attributed, numbered one too low.\<close>

lemma plus_line_lost:
  "map_option (\<lambda>d. (post_lines d, post_origins d, cut_hunks d))
     (parse_diff (as_added_diff (''a=1'' @ [NL] @ ''++ x'' @ [NL] @ ''b=2'') ''PKGBUILD'')) =
   Some ([''a=1'', ''b=2''], [(''PKGBUILD'', 1, Add), (''x'', 2, Add)], [(''PKGBUILD'', 1, 3, 1)])"
  by code_simp

text \<open>The parser is not total: a hunk header may start at a number it does not read.\<close>

lemma overlong_hunk_start_refused:
  "parse_diff_lines [''@@ -'' @ replicate 4301 (CHR ''1'') @ '' +1 @@''] = None"
proof -
  let ?ds = "replicate 4301 (CHR ''1'')"
  have t: "take_digits (?ds @ '' +1 @@'') = ?ds" "drop_digits (?ds @ '' +1 @@'') = '' +1 @@''"
    by (simp_all add: take_digits_def drop_digits_def is_digit_def takeWhile_append dropWhile_append
        takeWhile_replicate dropWhile_replicate)
  have u: "take_digits (''1 @@'') = ''1''" "drop_digits (''1 @@'') = '' @@''"
    by (simp_all add: take_digits_def drop_digits_def is_digit_def)
  have "hunk_header (''@@ -'' @ ?ds @ '' +1 @@'') = Some (?ds, ''1'')"
    using t u by (simp add: hunk_header_def header_range_def after_def Let_def)
  then show ?thesis unfolding parse_refuses by (simp add: hunk_starts_fit_def)
qed

end
