(* ===== verification/Heredoc.thy ===== *)
theory Heredoc
  imports TS_Prelude
begin

text \<open>
  The heredoc opener parser shared by the tokenizer and the line lexer (\<^verbatim>\<open>_heredoc.py\<close>).  Loops over
  an index are recursive functions on the index; the lemmas give the progress facts that the callers'
  loops terminate by.
\<close>

text \<open>\<^verbatim>\<open>s.count(p)\<close>: non-overlapping occurrences of a non-empty pattern.\<close>

function py_count :: "'a list \<Rightarrow> 'a list \<Rightarrow> nat" where
  "py_count p s =
     (if p = [] \<or> length s < length p then 0
      else if py_startswith s p then 1 + py_count p (drop (length p) s)
      else py_count p (tl s))"
  by auto
termination
proof (relation "measure (\<lambda>(p, s). length s)")
  fix p s :: "'a list"
  assume "\<not> (p = [] \<or> length s < length p)"
  then show "((p, tl s), p, s) \<in> measure (\<lambda>(p, s). length s)"
    and "((p, drop (length p) s), p, s) \<in> measure (\<lambda>(p, s). length s)"
    by (cases p; cases s; simp)+
qed simp

declare py_count.simps [simp del]

definition inside_arithmetic :: "string \<Rightarrow> nat \<Rightarrow> bool" where
  "inside_arithmetic line i =
     (let pre = take i line in
      py_count ''$(('' pre > py_count ''))'' pre \<or> py_count ''(('' pre > py_count ''))'' pre)"

definition WORD_BREAKS :: string where "WORD_BREAKS = '' '' @ [TAB] @ '';|&<>()''"

text \<open>
  The loop of \<^verbatim>\<open>_delimiter_word\<close>: \<open>quote\<close> is the open quote character, \<open>out\<close> the word so far; the
  result is the word, the index behind it and the quote left open.
\<close>

function delimiter_loop ::
  "string \<Rightarrow> nat \<Rightarrow> char option \<Rightarrow> string \<Rightarrow> string \<times> nat \<times> char option" where
  "delimiter_loop line i quote out =
     (if length line \<le> i then (out, i, quote)
      else (let c = line ! i in
        case quote of
          Some q \<Rightarrow>
            (if c = BSL \<and> q = DQ \<and> i + 1 < length line
             then delimiter_loop line (i + 2) quote (out @ [line ! (i + 1)])
             else if c = q then delimiter_loop line (i + 1) None out
             else delimiter_loop line (i + 1) quote (out @ [c]))
        | None \<Rightarrow>
            (if c = SQ \<or> c = DQ then delimiter_loop line (i + 1) (Some c) out
             else if c = BSL \<and> i + 1 < length line
             then delimiter_loop line (i + 2) None (out @ [line ! (i + 1)])
             else if c \<in> set WORD_BREAKS then (out, i, None)
             else delimiter_loop line (i + 1) None (out @ [c]))))"
  by auto
termination by (relation "measure (\<lambda>(line, i, quote, out). length line - i)") auto

declare delimiter_loop.simps [simp del]

definition delimiter_word :: "string \<Rightarrow> nat \<Rightarrow> (string \<times> nat) option" where
  "delimiter_word line start =
     (case delimiter_loop line start None [] of
        (out, i, quote) \<Rightarrow> if quote \<noteq> None \<or> out = [] then None else Some (out, i))"

function skip_blanks :: "string \<Rightarrow> nat \<Rightarrow> nat" where
  "skip_blanks line i =
     (if i < length line \<and> (line ! i = SPC \<or> line ! i = TAB) then skip_blanks line (i + 1) else i)"
  by auto
termination by (relation "measure (\<lambda>(line, i). length line - i)") auto

declare skip_blanks.simps [simp del]

definition char_is :: "string \<Rightarrow> nat \<Rightarrow> char \<Rightarrow> bool" where
  "char_is line i c = (i < length line \<and> line ! i = c)"

definition parse_opener :: "string \<Rightarrow> nat \<Rightarrow> (string \<times> bool \<times> nat) option" where
  "parse_opener line i =
     (if \<not> (char_is line i (CHR ''<'') \<and> char_is line (i + 1) (CHR ''<'')) then None
      else if char_is line (i + 2) (CHR ''<'') then None
      else (let strip_tabs = char_is line (i + 2) (CHR ''-'');
                stop = skip_blanks line (if strip_tabs then i + 3 else i + 2)
            in if length line \<le> stop \<or> inside_arithmetic line i then None
               else (case delimiter_word line stop of
                       None \<Rightarrow> None
                     | Some (delimiter, close) \<Rightarrow> Some (delimiter, strip_tabs, close))))"

lemma delimiter_loop_range:
  "delimiter_loop line i quote out = (w, j, q) \<Longrightarrow> i \<le> length line \<Longrightarrow> i \<le> j \<and> j \<le> length line"
proof (induction line i quote out arbitrary: w j q rule: delimiter_loop.induct)
  case (1 line i quote out)
  show ?case
  proof (cases "length line \<le> i")
    case True
    with "1.prems" show ?thesis by (simp add: delimiter_loop.simps)
  next
    case False
    then show ?thesis
      using "1.prems"(1) "1.IH"(1) [OF False refl] "1.IH"(2) [OF False refl] "1.IH"(3) [OF False refl]
        "1.IH"(4) [OF False refl] "1.IH"(5) [OF False refl] "1.IH"(6) [OF False refl]
      by (subst (asm) delimiter_loop.simps)
         (force simp: Let_def split: option.splits if_splits)
  qed
qed

lemma skip_blanks_ge: "i \<le> skip_blanks line i"
proof (induction line i rule: skip_blanks.induct)
  case (1 line i)
  then show ?case by (subst skip_blanks.simps) auto
qed

lemma parse_opener_range: "parse_opener line i = Some (d, t, j) \<Longrightarrow> i + 2 \<le> j \<and> j \<le> length line"
proof -
  assume a: "parse_opener line i = Some (d, t, j)"
  define s where "s = (if char_is line (i + 2) (CHR ''-'') then i + 3 else i + 2)"
  have "\<exists>w q. delimiter_loop line (skip_blanks line s) None [] = (w, j, q) \<and> skip_blanks line s < length line"
    using a by (cases "char_is line (i + 2) (CHR ''-'')")
      (auto simp: parse_opener_def delimiter_word_def Let_def s_def split: if_splits option.splits prod.splits)
  then obtain w q where w: "delimiter_loop line (skip_blanks line s) None [] = (w, j, q)"
    and lt: "skip_blanks line s < length line" by blast
  have "i + 2 \<le> s" by (simp add: s_def)
  with skip_blanks_ge [of s line] delimiter_loop_range [OF w] lt show ?thesis by simp
qed

end
