(* ===== verification/Line_Lex.thy ===== *)
theory Line_Lex
  imports Heredoc
begin

text \<open>
  The bounded lexical scan of recipe lines (\<^verbatim>\<open>line_lex.py\<close>): which characters of a line are code, the
  quote context at line boundaries, the heredocs a line opens, the comment stripper, and which lines
  of a diff are heredoc data.  \<open>scan_step\<close> is one turn of the loop of \<^verbatim>\<open>_scan\<close>, per frame on top of
  the stack; the head of the list is the top.  The lemmas show that blanking keeps every position.
\<close>

section \<open>Quote frames\<close>

datatype quote_frame = Single | Ansi | Double | Backtick | Subst

record lexed_line =
  lx_text :: string
  lx_code :: string
  lx_brace_delta :: int
  lx_opens_brace :: bool
  lx_closes_line :: bool
  lx_heredoc_body :: bool
  lx_heredoc_openers :: "(string \<times> bool) list"
  lx_quote_before :: "quote_frame list"
  lx_quote_after :: "quote_frame list"
  lx_quoted_data :: bool
  lx_truncated :: bool

definition MAX_TOKENIZER_LINE :: nat where "MAX_TOKENIZER_LINE = 65536"

definition diff_boundary :: "string \<Rightarrow> bool" where
  "diff_boundary line \<longleftrightarrow>
     list_ex (py_startswith line) [''diff --git '', ''@@ '', ''--- '', ''+++ ''] \<or>
     line = ''---'' \<or> line = ''+++''"

definition opens_a_comment :: "string \<Rightarrow> nat \<Rightarrow> bool" where
  "opens_a_comment line i \<longleftrightarrow> char_is line i (CHR ''#'') \<and>
     (i = 0 \<or> py_isspace (line ! (i - 1)) \<or> line ! (i - 1) \<in> set '';|&('' \<or>
      (i = 1 \<and> line ! 0 \<in> set ''+-''))"

section \<open>Comments\<close>

text \<open>The open quote of \<^verbatim>\<open>strip_comment_stateful\<close>.\<close>

datatype open_quote = NoQuote | AnsiQuote | CharQuote char

text \<open>The loop: the index of the comment, if one starts, and the quote at the end.\<close>

function comment_loop :: "string \<Rightarrow> nat \<Rightarrow> open_quote \<Rightarrow> nat option \<times> open_quote" where
  "comment_loop line i quote =
     (if length line \<le> i then (None, quote)
      else (let c = line ! i in
        case quote of
          AnsiQuote \<Rightarrow>
            (if c = BSL \<and> i + 1 < length line then comment_loop line (i + 2) AnsiQuote
             else comment_loop line (i + 1) (if c = SQ then NoQuote else AnsiQuote))
        | CharQuote q \<Rightarrow>
            (if c = BSL \<and> q = DQ then comment_loop line (i + 2) quote
             else comment_loop line (i + 1) (if c = q then NoQuote else quote))
        | NoQuote \<Rightarrow>
            (if c = CHR ''$'' \<and> char_is line (i + 1) SQ then comment_loop line (i + 2) AnsiQuote
             else if c = SQ \<or> c = DQ then comment_loop line (i + 1) (CharQuote c)
             else if opens_a_comment line i then (Some i, NoQuote)
             else comment_loop line (i + 1) NoQuote)))"
  by auto
termination by (relation "measure (\<lambda>(line, i, quote). length line - i)") auto

declare comment_loop.simps [simp del]

definition strip_comment_stateful :: "string \<Rightarrow> open_quote \<Rightarrow> string \<times> open_quote" where
  "strip_comment_stateful line quote =
     (if quote = NoQuote \<and> CHR ''#'' \<notin> set line \<and> SQ \<notin> set line \<and> DQ \<notin> set line
      then (line, quote)
      else (case comment_loop line 0 quote of
              (Some i, q) \<Rightarrow> (take i line, q)
            | (None, q) \<Rightarrow> (line, q)))"

definition strip_comment :: "string \<Rightarrow> string" where
  "strip_comment line = fst (strip_comment_stateful line NoQuote)"

section \<open>The scan\<close>

text \<open>
  What one turn does: stop with a blanked tail, or emit text, go on at an index with a stack, and
  report quoted data or an opened heredoc.
\<close>

datatype scan_action =
    Stop string
  | Go string nat "quote_frame list" bool "(string \<times> bool) option"

definition blank :: "nat \<Rightarrow> string" where "blank k = replicate k SPC"

definition scan_single :: "string \<Rightarrow> nat \<Rightarrow> quote_frame list \<Rightarrow> scan_action" where
  "scan_single line i stack =
     Go (blank 1) (i + 1) (if line ! i = SQ then tl stack else stack) False None"

definition scan_ansi :: "string \<Rightarrow> nat \<Rightarrow> quote_frame list \<Rightarrow> scan_action" where
  "scan_ansi line i stack =
     (if line ! i = BSL \<and> i + 1 < length line then Go (blank 2) (i + 2) stack False None
      else Go (blank 1) (i + 1) (if line ! i = SQ then tl stack else stack) False None)"

definition scan_double :: "string \<Rightarrow> nat \<Rightarrow> quote_frame list \<Rightarrow> scan_action" where
  "scan_double line i stack =
     (let c = line ! i in
      if c = BSL \<and> i + 1 < length line then Go (blank 2) (i + 2) stack False None
      else if c = DQ then Go (blank 1) (i + 1) (tl stack) False None
      else if c = CHR ''$'' \<and> char_is line (i + 1) (CHR ''('')
      then Go ''$('' (i + 2) (Subst # stack) False None
      else if c = BTK then Go [BTK] (i + 1) (Backtick # stack) True None
      else Go (blank 1) (i + 1) stack False None)"

text \<open>The branches that code inside backticks and inside \<^verbatim>\<open>$(\<close> share.\<close>

definition scan_nested :: "string \<Rightarrow> nat \<Rightarrow> quote_frame list \<Rightarrow> scan_action option" where
  "scan_nested line i stack =
     (let c = line ! i in
      if c = SQ then Some (Go (blank 1) (i + 1) (Single # stack) True None)
      else if c = DQ then Some (Go (blank 1) (i + 1) (Double # stack) True None)
      else if c = CHR ''$'' \<and> char_is line (i + 1) SQ
      then Some (Go (blank 2) (i + 2) (Ansi # stack) True None)
      else if c = CHR ''$'' \<and> char_is line (i + 1) (CHR ''('')
      then Some (Go ''$('' (i + 2) (Subst # stack) False None)
      else None)"

definition scan_backtick :: "string \<Rightarrow> nat \<Rightarrow> quote_frame list \<Rightarrow> scan_action" where
  "scan_backtick line i stack =
     (let c = line ! i in
      if c = BSL \<and> i + 1 < length line then Go (blank 2) (i + 2) stack False None
      else if c = BTK then Go [BTK] (i + 1) (tl stack) False None
      else (case scan_nested line i stack of Some a \<Rightarrow> a
        | None \<Rightarrow> if opens_a_comment line i then Stop (blank (length line - i))
                  else Go [c] (i + 1) stack False None))"

definition scan_subst :: "string \<Rightarrow> nat \<Rightarrow> quote_frame list \<Rightarrow> scan_action" where
  "scan_subst line i stack =
     (let c = line ! i in
      if c = BSL \<and> i + 1 < length line then Go (blank 2) (i + 2) stack False None
      else if c = CHR '')'' then Go '')'' (i + 1) (tl stack) False None
      else (case scan_nested line i stack of Some a \<Rightarrow> a
        | None \<Rightarrow> if c = BTK then Go [BTK] (i + 1) (Backtick # stack) True None
                  else if opens_a_comment line i then Stop (blank (length line - i))
                  else Go [c] (i + 1) stack False None))"

definition scan_code :: "string \<Rightarrow> nat \<Rightarrow> quote_frame list \<Rightarrow> scan_action" where
  "scan_code line i stack =
     (let c = line ! i in
      if c = BSL \<and> i + 1 < length line then Go (blank 2) (i + 2) stack False None
      else (case scan_nested line i stack of Some a \<Rightarrow> a
        | None \<Rightarrow>
            if c = BTK then Go [BTK] (i + 1) (Backtick # stack) True None
            else if opens_a_comment line i then Stop (blank (length line - i))
            else if char_is line i (CHR ''<'') \<and> char_is line (i + 1) (CHR ''<'')
              \<and> char_is line (i + 2) (CHR ''<'') then Go ''<<<'' (i + 3) stack False None
            else (case (if c = CHR ''<'' \<and> char_is line (i + 1) (CHR ''<'')
                        then parse_opener line i else None) of
                    Some (delimiter, strip_tabs, stop) \<Rightarrow>
                      Go (blank (stop - i)) stop stack False (Some (delimiter, strip_tabs))
                  | None \<Rightarrow> Go [c] (i + 1) stack False None)))"

definition scan_step :: "string \<Rightarrow> nat \<Rightarrow> quote_frame list \<Rightarrow> scan_action" where
  "scan_step line i stack =
     (case stack of
        [] \<Rightarrow> scan_code line i stack
      | Single # _ \<Rightarrow> scan_single line i stack
      | Ansi # _ \<Rightarrow> scan_ansi line i stack
      | Double # _ \<Rightarrow> scan_double line i stack
      | Backtick # _ \<Rightarrow> scan_backtick line i stack
      | Subst # _ \<Rightarrow> scan_subst line i stack)"

text \<open>What was emitted stands over the characters it replaces: each one is kept or blanked.\<close>

definition over :: "string \<Rightarrow> nat \<Rightarrow> string \<Rightarrow> bool" where
  "over line i out \<longleftrightarrow> i + length out \<le> length line \<and>
     (\<forall>k < length out. out ! k = line ! (i + k) \<or> out ! k = SPC)"

definition good_action :: "string \<Rightarrow> nat \<Rightarrow> scan_action \<Rightarrow> bool" where
  "good_action line i a =
     (case a of Stop out \<Rightarrow> over line i out \<and> i + length out = length line
      | Go out j stack q op \<Rightarrow> over line i out \<and> j = i + length out \<and> out \<noteq> [])"

lemma over_blank: "i + k \<le> length line \<Longrightarrow> over line i (blank k)"
  by (simp add: over_def blank_def)

lemma over_one: "i < length line \<Longrightarrow> over line i [line ! i]"
  by (simp add: over_def)

lemma over_chars:
  "char_is line i a \<Longrightarrow> over line i [a]"
  "char_is line i a \<Longrightarrow> char_is line (i + 1) b \<Longrightarrow> over line i [a, b]"
  "char_is line i a \<Longrightarrow> char_is line (i + 1) b \<Longrightarrow> char_is line (i + 2) c \<Longrightarrow> over line i [a, b, c]"
  by (auto simp: over_def char_is_def less_Suc_eq nth_Cons split: nat.splits)

lemma length_blank [simp]: "length (blank k) = k"
  by (simp add: blank_def)

lemma blank_nonempty [simp]: "blank k = [] \<longleftrightarrow> k = 0"
  by (simp add: blank_def)

lemma good_go_one: "i < length line \<Longrightarrow> good_action line i (Go [line ! i] (i + 1) st q op)"
  by (simp add: good_action_def over_one)

lemma good_go_blank: "i + k \<le> length line \<Longrightarrow> 0 < k \<Longrightarrow> good_action line i (Go (blank k) (i + k) st q op)"
  by (simp add: good_action_def over_blank)

lemma good_stop: "i \<le> length line \<Longrightarrow> good_action line i (Stop (blank (length line - i)))"
  by (simp add: good_action_def over_blank)

lemma go_blank_1: "i < length line \<Longrightarrow> good_action line i (Go (blank 1) (i + 1) st q op)"
  by (rule good_go_blank) simp_all

lemma go_blank_2: "i + 1 < length line \<Longrightarrow> good_action line i (Go (blank 2) (i + 2) st q op)"
  by (rule good_go_blank) simp_all

lemma go_char: "char_is line i c \<Longrightarrow> good_action line i (Go [c] (i + 1) st q op)"
  by (simp add: good_action_def over_chars)

lemma go_dollar:
  "char_is line i (CHR ''$'') \<Longrightarrow> char_is line (i + 1) (CHR ''('') \<Longrightarrow>
     good_action line i (Go ''$('' (i + 2) st q op)"
  using over_chars(2) [of line i "CHR ''$''" "CHR ''(''"] by (simp add: good_action_def)

lemma go_three:
  "char_is line i c \<Longrightarrow> char_is line (i + 1) c \<Longrightarrow> char_is line (i + 2) c \<Longrightarrow>
     good_action line i (Go [c, c, c] (i + 3) st q op)"
  using over_chars(3) [of line i c c c] by (simp add: good_action_def)

lemmas good_gos = go_blank_1 go_blank_2 go_char go_dollar go_three good_go_one good_stop

lemma good_simple:
  assumes "i < length line"
  shows "good_action line i (scan_single line i stack)" "good_action line i (scan_ansi line i stack)"
    "good_action line i (scan_double line i stack)"
  using assms good_gos [where i = i and line = line]
  by (auto simp: scan_single_def scan_ansi_def scan_double_def Let_def char_is_def)

lemma good_nested: "i < length line \<Longrightarrow> scan_nested line i stack = Some a \<Longrightarrow> good_action line i a"
  using good_gos [where i = i and line = line] by (auto simp: scan_nested_def Let_def char_is_def split: if_splits)

lemma good_backtick: "i < length line \<Longrightarrow> good_action line i (scan_backtick line i stack)"
  using good_gos [where i = i and line = line]
  by (auto simp: scan_backtick_def Let_def char_is_def intro: good_nested split: option.splits)

lemma good_subst: "i < length line \<Longrightarrow> good_action line i (scan_subst line i stack)"
  using good_gos [where i = i and line = line]
  by (auto simp: scan_subst_def Let_def char_is_def intro: good_nested split: option.splits)

lemma good_opener:
  "parse_opener line i = Some (d, t, j) \<Longrightarrow> good_action line i (Go (blank (j - i)) j st q op)"
  using parse_opener_range [of line i d t j] good_go_blank [of i "j - i" line st q op] by simp

lemma good_code: "i < length line \<Longrightarrow> good_action line i (scan_code line i stack)"
  using good_gos [where i = i and line = line]
  by (auto simp: scan_code_def Let_def char_is_def intro: good_nested good_opener split: option.splits)

lemma good_step: "i < length line \<Longrightarrow> good_action line i (scan_step line i stack)"
  using good_simple good_backtick good_subst good_code
  by (auto simp: scan_step_def split: list.splits quote_frame.splits)

text \<open>The loop: code, stack, opened heredocs and the quoted flag.\<close>

function scan_loop ::
  "string \<Rightarrow> nat \<Rightarrow> quote_frame list \<Rightarrow> bool \<Rightarrow> string \<times> quote_frame list \<times> (string \<times> bool) list \<times> bool" where
  "scan_loop line i stack quoted =
     (if length line \<le> i then ([], stack, [], quoted)
      else (case scan_step line i stack of
          Stop out \<Rightarrow> (out, stack, [], quoted)
        | Go out j stack' q opener \<Rightarrow>
            (case scan_loop line j stack' (quoted \<or> q) of (code, after, openers, quoted') \<Rightarrow>
               (out @ code, after, (case opener of Some d \<Rightarrow> d # openers | None \<Rightarrow> openers), quoted'))))"
  by auto
termination
proof (relation "measure (\<lambda>(line, i, stack, quoted). length line - i)")
  fix line i and stack :: "quote_frame list" and quoted :: bool and out j stack' q opener
  assume i: "\<not> length line \<le> i" and go: "scan_step line i stack = Go out j stack' q opener"
  from good_step [of i line stack] i go have "i < j" by (auto simp: good_action_def)
  with i show "((line, j, stack', quoted \<or> q), line, i, stack, quoted)
      \<in> measure (\<lambda>(line, i, stack, quoted). length line - i)" by simp
qed simp

declare scan_loop.simps [simp del]

definition scan :: "string \<Rightarrow> quote_frame list \<Rightarrow> string \<times> quote_frame list \<times> (string \<times> bool) list \<times> bool" where
  "scan line state = scan_loop line 0 state (state \<noteq> [])"

definition advance_quote_state :: "string \<Rightarrow> quote_frame list \<Rightarrow> quote_frame list" where
  "advance_quote_state line state = fst (snd (scan line state))"

section \<open>Lexing lines\<close>

definition LEXICAL_CHARS :: string where
  "LEXICAL_CHARS = ''{}#'' @ [SQ, DQ, BSL, BTK] @ ''<''"

definition heredoc_line :: "string \<Rightarrow> quote_frame list \<Rightarrow> lexed_line" where
  "heredoc_line line state = \<lparr>lx_text = line, lx_code = blank (length line), lx_brace_delta = 0,
     lx_opens_brace = False, lx_closes_line = False, lx_heredoc_body = True, lx_heredoc_openers = [],
     lx_quote_before = state, lx_quote_after = state, lx_quoted_data = True, lx_truncated = False\<rparr>"

definition plain_lexed :: "string \<Rightarrow> quote_frame list \<Rightarrow> bool \<Rightarrow> lexed_line" where
  "plain_lexed line state truncated = \<lparr>lx_text = line, lx_code = line, lx_brace_delta = 0,
     lx_opens_brace = False, lx_closes_line = False, lx_heredoc_body = False, lx_heredoc_openers = [],
     lx_quote_before = state, lx_quote_after = (if truncated then [] else state),
     lx_quoted_data = False, lx_truncated = truncated\<rparr>"

text \<open>
  One line that is not heredoc data: the lexed line, the state and the openers that follow it.  The
  fast path of the code leaves the state as it is.
\<close>

definition lex_code_line ::
  "string \<Rightarrow> quote_frame list \<Rightarrow> lexed_line \<times> quote_frame list \<times> (string \<times> bool) list" where
  "lex_code_line line state =
     (let truncated = (length line > MAX_TOKENIZER_LINE);
          scan_line = (if truncated then take MAX_TOKENIZER_LINE line else line)
      in if state = [] \<and> \<not> list_ex (\<lambda>c. c \<in> set line) LEXICAL_CHARS
         then (plain_lexed line state truncated, state, [])
         else (case scan scan_line state of (code0, after0, openers0, quoted0) \<Rightarrow>
           (let code = (if truncated then code0 @ drop MAX_TOKENIZER_LINE line else code0);
                after = (if truncated then [] else after0);
                openers = (if truncated then [] else openers0);
                quoted = (if truncated then False else quoted0)
            in (\<lparr>lx_text = line, lx_code = code,
                 lx_brace_delta = int (count_list code (CHR ''{'')) - int (count_list code (CHR ''}'')),
                 lx_opens_brace = (CHR ''{'' \<in> set code),
                 lx_closes_line = py_endswith (py_rstrip code) ''}'',
                 lx_heredoc_body = False, lx_heredoc_openers = openers, lx_quote_before = state,
                 lx_quote_after = after, lx_quoted_data = quoted, lx_truncated = truncated\<rparr>,
                after, openers))))"

text \<open>The line that is compared with a heredoc delimiter: without the prefix of a diff line.\<close>

definition heredoc_probe :: "bool \<Rightarrow> string \<Rightarrow> bool \<Rightarrow> string" where
  "heredoc_probe diff_lines line strip_tabs =
     (let p = (if take 1 line = [] \<or> hd line \<in> set ''+-'' \<or> (diff_lines \<and> hd line = SPC)
               then drop 1 line else line)
      in if strip_tabs then py_lstrip_of (\<lambda>c. c = TAB) p else p)"

fun lex_from ::
  "bool \<Rightarrow> bool \<Rightarrow> string list \<Rightarrow> quote_frame list \<Rightarrow> (string \<times> bool) list \<Rightarrow> lexed_line list" where
  "lex_from fragment diff_lines [] state delims = []"
| "lex_from fragment diff_lines (line # ls) state delims =
     (let state1 = (if fragment then [] else state);
          delims1 = (if fragment \<and> delims \<noteq> [] \<and> diff_boundary line then [] else delims)
      in case delims1 of
           (delimiter, strip_tabs) # rest \<Rightarrow>
             heredoc_line line state1 #
               lex_from fragment diff_lines ls state1
                 (if heredoc_probe diff_lines line strip_tabs = delimiter then rest else delims1)
         | [] \<Rightarrow>
             (case lex_code_line line state1 of (lexed, after, openers) \<Rightarrow>
                lexed # lex_from fragment diff_lines ls after openers))"

definition lex_lines :: "string list \<Rightarrow> bool \<Rightarrow> lexed_line list" where
  "lex_lines ls fragment = lex_from fragment (list_ex diff_boundary ls) ls [] []"

section \<open>Heredoc data in a diff\<close>

text \<open>
  \<open>is_data\<close> is the classification of an opener line by its destination, which the code decides by
  regular expressions over the configured interpreters.
\<close>

definition other_side :: "char \<Rightarrow> string \<Rightarrow> bool" where
  "other_side skip line \<longleftrightarrow> py_startswith line [skip] \<and> \<not> py_startswith line [skip, skip, skip]"

definition side_view :: "char \<Rightarrow> string list \<Rightarrow> string list" where
  "side_view skip ls = map (\<lambda>l. if other_side skip l then [] else l) ls"

text \<open>
  The queue holds a delimiter and a flag; the flag is \<^verbatim>\<open>is_data\<close> when it is appended and is read as
  \<^verbatim>\<open>strip_tabs\<close> when a line is compared with the delimiter.
\<close>

fun body_loop ::
  "(string \<Rightarrow> bool) \<Rightarrow> char \<Rightarrow> nat \<Rightarrow> (string \<times> lexed_line) list \<Rightarrow> (string \<times> bool) list \<Rightarrow> nat list" where
  "body_loop is_data skip i [] delims = []"
| "body_loop is_data skip i ((line, lexed) # rest) delims =
     (if other_side skip line then body_loop is_data skip (i + 1) rest delims
      else (let content = (if line \<noteq> [] \<and> hd line \<in> set ''+-'' then drop 1 line else line);
                delims1 = (if diff_boundary line then [] else delims)
            in case delims1 of
                 (delimiter, flag) # others \<Rightarrow>
                   (if (if flag then py_lstrip_of (\<lambda>c. c = TAB) content else content) = delimiter
                    then body_loop is_data skip (i + 1) rest others
                    else (if flag then [i] else []) @ body_loop is_data skip (i + 1) rest delims1)
               | [] \<Rightarrow> body_loop is_data skip (i + 1) rest
                   (map (\<lambda>(d, t). (d, is_data content)) (lx_heredoc_openers lexed))))"

definition body_indices_of :: "(string \<Rightarrow> bool) \<Rightarrow> char \<Rightarrow> string list \<Rightarrow> nat list" where
  "body_indices_of is_data skip ls =
     body_loop is_data skip 0 (zip ls (lex_lines (side_view skip ls) True)) []"

definition heredoc_body_indices :: "(string \<Rightarrow> bool) \<Rightarrow> string list \<Rightarrow> nat set" where
  "heredoc_body_indices is_data ls =
     set (body_indices_of is_data (CHR ''-'') ls) \<union> set (body_indices_of is_data (CHR ''+'') ls)"

section \<open>Lemmas\<close>

definition blanked :: "string \<Rightarrow> string \<Rightarrow> bool" where
  "blanked code line = list_all2 (\<lambda>c d. c = d \<or> c = SPC) code line"

lemma over_blanked: "over line i out \<Longrightarrow> blanked out (take (length out) (drop i line))"
  by (auto simp: over_def blanked_def list_all2_conv_all_nth add.commute)

lemma blanked_append:
  "blanked out (take (length out) (drop i line)) \<Longrightarrow> blanked code (drop (i + length out) line) \<Longrightarrow>
     blanked (out @ code) (drop i line)"
proof -
  assume a: "blanked out (take (length out) (drop i line))" and b: "blanked code (drop (i + length out) line)"
  have "take (length out) (drop i line) @ drop (length out) (drop i line) = drop i line"
    by (rule append_take_drop_id)
  then have split: "drop i line = take (length out) (drop i line) @ drop (i + length out) line"
    by (simp add: add.commute)
  show ?thesis
    unfolding blanked_def by (subst split) (rule list_all2_appendI [OF a [unfolded blanked_def] b [unfolded blanked_def]])
qed

lemma blanked_refl [simp]: "blanked line line"
  by (simp add: blanked_def list_all2_refl)

lemma blanked_length: "blanked code line \<Longrightarrow> length code = length line"
  by (simp add: blanked_def list_all2_lengthD)

lemma scan_loop_blanked:
  "scan_loop line i stack quoted = (code, after, openers, quoted') \<Longrightarrow> i \<le> length line \<Longrightarrow>
     blanked code (drop i line)"
proof (induction line i stack quoted arbitrary: code after openers quoted' rule: scan_loop.induct)
  case (1 line i stack quoted)
  show ?case
  proof (cases "length line \<le> i")
    case True
    with "1.prems" show ?thesis by (simp add: scan_loop.simps blanked_def)
  next
    case False
    then have i: "i < length line" by simp
    note good = good_step [OF i, of stack]
    show ?thesis
    proof (cases "scan_step line i stack")
      case (Stop out)
      with "1.prems" False have "code = out" by (simp add: scan_loop.simps)
      moreover from Stop good have "over line i out" "i + length out = length line"
        by (simp_all add: good_action_def)
      ultimately show ?thesis using over_blanked [of line i out] by simp
    next
      case (Go out j stack' q opener)
      obtain c a os q' where rec: "scan_loop line j stack' (quoted \<or> q) = (c, a, os, q')"
        by (metis prod_cases4)
      from Go good have o: "over line i out" "j = i + length out" by (simp_all add: good_action_def)
      then have j: "j \<le> length line" by (simp add: over_def)
      from "1.prems"(1) False Go rec have code: "code = out @ c" by (simp add: scan_loop.simps)
      from "1.IH" [OF False Go rec j] o over_blanked [OF o(1)] show ?thesis
        unfolding code by (intro blanked_append) simp_all
    qed
  qed
qed

lemma scan_blanked: "scan line state = (code, after, openers, quoted) \<Longrightarrow> blanked code line"
  using scan_loop_blanked [of line 0 state] by (force simp: scan_def)

lemma blanked_blank: "blanked (blank (length line)) line"
  by (simp add: blanked_def blank_def list_all2_conv_all_nth)

lemma blanked_tail:
  "blanked code (take m line) \<Longrightarrow> blanked (code @ drop m line) line"
proof -
  assume a: "blanked code (take m line)"
  have "list_all2 (\<lambda>c d. c = d \<or> c = SPC) (code @ drop m line) (take m line @ drop m line)"
    using a blanked_refl [of "drop m line"] unfolding blanked_def by (rule list_all2_appendI)
  then show ?thesis by (simp add: blanked_def)
qed

lemma lex_code_line_facts:
  "lex_code_line line state = (lexed, after, openers) \<Longrightarrow>
     lx_text lexed = line \<and> blanked (lx_code lexed) line \<and> lx_quote_before lexed = state \<and>
     \<not> lx_heredoc_body lexed \<and> lx_heredoc_openers lexed = openers"
  by (auto simp: lex_code_line_def plain_lexed_def Let_def intro: blanked_tail
      split: if_splits prod.splits dest!: scan_blanked)

lemma lex_from_text: "map lx_text (lex_from fragment dl ls state delims) = ls"
  by (induction fragment dl ls state delims rule: lex_from.induct)
     (auto simp: Let_def heredoc_line_def dest: lex_code_line_facts split: list.splits prod.splits)

text \<open>The line facts that hold of every lexed line.\<close>

definition sound_lexed :: "lexed_line \<Rightarrow> bool" where
  "sound_lexed l \<longleftrightarrow> blanked (lx_code l) (lx_text l) \<and>
     (if lx_heredoc_body l then lx_code l = blank (length (lx_text l)) \<and> lx_heredoc_openers l = [] else True)"

lemma heredoc_line_sound: "sound_lexed (heredoc_line line state)"
  by (simp add: sound_lexed_def heredoc_line_def blanked_blank)

lemma lex_from_sound: "list_all sound_lexed (lex_from fragment dl ls state delims)"
proof (induction fragment dl ls state delims rule: lex_from.induct)
  case (2 fragment dl line ls state delims)
  have "sound_lexed l" if "lex_code_line line st = (l, a, os)" for l a os st
    using lex_code_line_facts [OF that] by (simp add: sound_lexed_def)
  with 2 show ?case by (auto simp: Let_def heredoc_line_sound split: list.splits prod.splits)
qed simp

lemma lex_from_fragment: "list_all (\<lambda>l. lx_quote_before l = []) (lex_from True dl ls state delims)"
proof (induction "True" dl ls state delims rule: lex_from.induct)
  case (2 dl line ls state delims)
  then show ?case
    by (auto simp: Let_def heredoc_line_def dest: lex_code_line_facts split: list.splits prod.splits)
qed simp

lemma lex_code_line_after: "lex_code_line line state = (l, after, os) \<Longrightarrow> lx_quote_after l = after"
  by (auto simp: lex_code_line_def plain_lexed_def Let_def split: if_splits prod.splits)

text \<open>Without fragments, each line starts in the quote context the previous one ended in.\<close>

lemma lex_from_chain:
  "map lx_quote_before (lex_from False dl ls state delims) @
     [last (state # map lx_quote_after (lex_from False dl ls state delims))] =
   state # map lx_quote_after (lex_from False dl ls state delims)"
proof (induction ls arbitrary: state delims)
  case (Cons line ls)
  show ?case
  proof (cases delims)
    case Nil
    obtain l after os where l: "lex_code_line line state = (l, after, os)" by (metis prod_cases3)
    have "lx_quote_before l = state" "lx_quote_after l = after"
      using lex_code_line_facts [OF l] lex_code_line_after [OF l] by simp_all
    with Cons.IH [of after os] Nil l show ?thesis by simp
  next
    case (Cons d ds)
    obtain del t where d: "d = (del, t)" by (cases d)
    with Cons Cons.IH [of state delims] Cons.IH [of state ds] show ?thesis
      by (auto simp: heredoc_line_def split: if_splits)
  qed
qed simp

text \<open>The loop over a line without lexical characters and substitutions.\<close>

lemma scan_code_inert:
  assumes "i < length line" and "\<not> list_ex (\<lambda>c. c \<in> set line) LEXICAL_CHARS"
    and "\<not> (char_is line i (CHR ''$'') \<and> char_is line (i + 1) (CHR ''(''))"
  shows "scan_code line i [] = Go [line ! i] (i + 1) [] False None"
proof -
  have "line ! j \<notin> set LEXICAL_CHARS" if "j < length line" for j
    using that assms(2) nth_mem [of j line] by (auto simp: list_ex_iff)
  then have "char_is line j c \<Longrightarrow> c \<notin> set LEXICAL_CHARS" for j c
    by (auto simp: char_is_def)
  with assms(1,3) show ?thesis
    by (auto simp: scan_code_def scan_nested_def Let_def opens_a_comment_def LEXICAL_CHARS_def char_is_def)
qed

definition opens_substitution :: "string \<Rightarrow> bool" where
  "opens_substitution line \<longleftrightarrow> py_in ''$('' line"

lemma all_le_Suc: "(\<forall>i \<le> Suc n. P i) \<longleftrightarrow> P 0 \<and> (\<forall>i \<le> n. P (Suc i))"
proof
  assume r: "P 0 \<and> (\<forall>i \<le> n. P (Suc i))"
  show "\<forall>i \<le> Suc n. P i"
  proof (intro allI impI)
    fix i assume "i \<le> Suc n"
    with r show "P i" by (cases i) auto
  qed
qed auto

lemma py_find_None: "py_find s p = None \<longleftrightarrow> (\<forall>i \<le> length s. \<not> py_startswith (drop i s) p)"
proof (induction s)
  case Nil
  then show ?case by (cases p) auto
next
  case (Cons x xs)
  then show ?case by (simp add: all_le_Suc)
qed

lemma no_substitution:
  assumes "\<not> opens_substitution line"
  shows "\<not> (char_is line i (CHR ''$'') \<and> char_is line (i + 1) (CHR ''(''))"
proof
  assume "char_is line i (CHR ''$'') \<and> char_is line (i + 1) (CHR ''('')"
  then have "drop i line = CHR ''$'' # CHR ''('' # drop (i + 2) line"
    by (simp add: char_is_def) (metis Cons_nth_drop_Suc Suc_lessD add_2_eq_Suc')
  then have "py_startswith (drop i line) ''$(''" by simp
  moreover have "i \<le> length line" using \<open>drop i line = _\<close> by (cases "i \<le> length line") auto
  ultimately show False using assms py_find_None [of line "''$(''"]
    by (auto simp: opens_substitution_def py_in_def)
qed

lemma scan_loop_inert:
  assumes "\<not> list_ex (\<lambda>c. c \<in> set line) LEXICAL_CHARS" and "\<not> opens_substitution line"
  shows "i \<le> length line \<Longrightarrow> scan_loop line i [] False = (drop i line, [], [], False)"
proof (induction "length line - i" arbitrary: i)
  case 0
  then show ?case by (simp add: scan_loop.simps)
next
  case (Suc n)
  then have i: "i < length line" by simp
  from Suc i have "scan_loop line (i + 1) [] False = (drop (i + 1) line, [], [], False)" by simp
  with scan_code_inert [OF i assms(1) no_substitution [OF assms(2)]] i show ?case
    by (simp add: scan_loop.simps [of line i] scan_step_def Cons_nth_drop_Suc)
qed

lemma comment_loop_inert:
  assumes "CHR ''#'' \<notin> set line" "SQ \<notin> set line" "DQ \<notin> set line"
  shows "i \<le> length line \<Longrightarrow> comment_loop line i NoQuote = (None, NoQuote)"
proof (induction "length line - i" arbitrary: i)
  case 0
  then show ?case by (simp add: comment_loop.simps)
next
  case (Suc n)
  then have i: "i < length line" by simp
  then have mem: "line ! i \<in> set line" by simp
  have "\<not> opens_a_comment line i" using assms mem by (auto simp: opens_a_comment_def char_is_def)
  moreover have "\<not> char_is line (i + 1) SQ" using assms nth_mem by (fastforce simp: char_is_def)
  moreover have "line ! i \<noteq> SQ" "line ! i \<noteq> DQ" using assms mem by auto
  moreover have "comment_loop line (i + 1) NoQuote = (None, NoQuote)" using Suc i by simp
  ultimately show ?case using i by (simp add: comment_loop.simps [of line i])
qed

section \<open>Properties\<close>

text \<open>C13: Blanking keeps positions.  Lexing returns one lexed line per line, with its text; the code of a
  line is the line with some characters replaced by spaces, never moved, added or dropped; a line
  inside a heredoc body has no code and opens nothing; and in a fragment every line starts outside
  any quote.\<close>

theorem lexing_keeps_positions:
  "map lx_text (lex_lines ls fragment) = ls \<and>
   list_all (\<lambda>l. list_all2 (\<lambda>c d. c = d \<or> c = SPC) (lx_code l) (lx_text l) \<and>
     (if lx_heredoc_body l then lx_code l = blank (length (lx_text l)) \<and> lx_heredoc_openers l = []
      else True)) (lex_lines ls fragment) \<and>
   list_all (\<lambda>l. lx_quote_before l = []) (lex_lines ls True)"
proof -
  have "list_all sound_lexed (lex_lines ls fragment)"
    by (simp add: lex_lines_def lex_from_sound)
  then show ?thesis
    by (simp only: lex_lines_def lex_from_text lex_from_fragment sound_lexed_def [abs_def] blanked_def)
qed

text \<open>Quote context is threaded.  When a whole file is lexed, the first line starts outside any
  quote and every later line starts in exactly the quote context the line before it ended in,
  also across heredoc bodies and truncated lines.\<close>

theorem quote_context_threaded:
  "map lx_quote_before (lex_lines ls False) @ [last ([] # map lx_quote_after (lex_lines ls False))] =
   [] # map lx_quote_after (lex_lines ls False)"
  unfolding lex_lines_def by (rule lex_from_chain)

text \<open>Heredoc bodies are read in the order of their openers.  With the heredocs \<open>(d, t)\<close> and then
  \<open>rest\<close> open, the lines up to the first one that ends \<open>d\<close> are its body, the terminator included,
  the lines after it are read with exactly \<open>rest\<close> open, and the quote context is the one before.\<close>

theorem heredoc_bodies_in_order:
  assumes "list_all (\<lambda>l. heredoc_probe dl l t \<noteq> d) body" and "heredoc_probe dl stop t = d"
  shows "lex_from False dl (body @ stop # others) state ((d, t) # rest) =
    map (\<lambda>l. heredoc_line l state) (body @ [stop]) @ lex_from False dl others state rest"
  using assms by (induction body) simp_all

theorem heredoc_bodies_in_order_witness:
  "lex_from False False [''a'', ''A'', ''b'', ''B''] [] [(''A'', False), (''B'', False)] =
     [heredoc_line ''a'' [], heredoc_line ''A'' [], heredoc_line ''b'' [], heredoc_line ''B'' []]"
  using heredoc_bodies_in_order [of False False "''A''" "[''a'']" "''A''" "[''b'', ''B'']" "[]"
      "[(''B'', False)]"]
  by (simp add: heredoc_probe_def)

text \<open>The fast paths.  On a line without braces, quotes, comments, backslashes, backticks and angle
  brackets that opens no command substitution, the scan that the fast path skips would change
  nothing; and on a line without quotes and hashes the comment stripper's loop, which its own fast
  path skips, would cut nothing.\<close>

theorem fast_paths_exact:
  assumes "\<not> list_ex (\<lambda>c. c \<in> set line) LEXICAL_CHARS" and "\<not> opens_substitution line"
  shows "scan line [] = (line, [], [], False) \<and>
    strip_comment_stateful line NoQuote = (line, NoQuote) \<and>
    comment_loop line 0 NoQuote = (None, NoQuote)"
proof -
  from assms(1) have "CHR ''#'' \<notin> set line" "SQ \<notin> set line" "DQ \<notin> set line"
    by (simp_all add: LEXICAL_CHARS_def)
  with comment_loop_inert [of line 0] scan_loop_inert [OF assms, of 0] show ?thesis
    by (simp add: scan_def strip_comment_stateful_def)
qed

theorem fast_paths_exact_witness:
  "scan ''make install'' [] = (''make install'', [], [], False)"
  using fast_paths_exact [of "''make install''"]
  by (simp add: LEXICAL_CHARS_def opens_substitution_def py_in_def)

lemmas scan_eval =
  scan_def scan_loop.simps scan_step_def scan_code_def scan_nested_def scan_subst_def scan_single_def
  scan_double_def scan_ansi_def scan_backtick_def char_is_def opens_a_comment_def py_isspace_def
  parse_opener_def skip_blanks.simps delimiter_word_def delimiter_loop.simps inside_arithmetic_def
  py_count.simps WORD_BREAKS_def blank_def Let_def

text \<open>The fast path loses an open command substitution.  A line whose only lexical event is an opening
  \<^verbatim>\<open>$(\<close> is scanned into the substitution context, but lexed with an unchanged context; so two
  lines of one file are lexed differently according to whether an inert hash stands before the
  substitution.\<close>

theorem fast_path_drops_substitution:
  "advance_quote_state ''x=$(cat'' [] = [Subst] \<and>
   map lx_quote_after (lex_lines [''x=$(cat''] False) = [[]] \<and>
   map lx_quote_after (lex_lines [''x=y#$(cat''] False) = [[Subst]]"
  by (simp add: advance_quote_state_def scan_eval lex_lines_def lex_code_line_def plain_lexed_def
      MAX_TOKENIZER_LINE_def LEXICAL_CHARS_def)

text \<open>The comment stripper and the lexer disagree about what is quoted.  After a backslash-escaped
  double quote outside quotes the lexer is outside any quote and blanks the comment; the
  stripper takes the escaped quote as an opening one, keeps the comment, and carries an open
  quote into the next line.\<close>

theorem stripper_disagrees_on_escapes:
  "advance_quote_state (''echo '' @ [BSL, DQ] @ '' # note'') [] = [] \<and>
   fst (scan (''echo '' @ [BSL, DQ] @ '' # note'') []) = ''echo          '' \<and>
   strip_comment_stateful (''echo '' @ [BSL, DQ] @ '' # note'') NoQuote =
     (''echo '' @ [BSL, DQ] @ '' # note'', CharQuote DQ)"
  by (simp add: advance_quote_state_def scan_eval strip_comment_stateful_def comment_loop.simps
      numeral_2_eq_2)

text \<open>A heredoc whose terminator is a context line of the diff never ends for the rule families.  In this
  hunk the lexer ends the heredoc at the unchanged terminator and lexes the added command as code;
  \<^verbatim>\<open>_heredoc_body_indices\<close> compares the context line with its leading space, stays inside the
  heredoc and reports the added command as data, for every classification that takes the opener
  for data.\<close>

theorem context_terminator_missed:
  assumes "is_data '' cat > f <<EOF''"
  shows "map lx_heredoc_body (lex_lines [''@@ -1,3 +1,4 @@'', '' cat > f <<EOF'', '' text'', '' EOF'',
      ''+curl evil''] True) = [False, False, True, True, False] \<and>
    4 \<in> heredoc_body_indices is_data [''@@ -1,3 +1,4 @@'', '' cat > f <<EOF'', '' text'', '' EOF'',
      ''+curl evil'']"
  using assms
  by (simp add: lex_lines_def lex_code_line_def plain_lexed_def heredoc_line_def heredoc_probe_def
      heredoc_body_indices_def body_indices_of_def side_view_def other_side_def diff_boundary_def
      MAX_TOKENIZER_LINE_def LEXICAL_CHARS_def py_lstrip_of_def scan_eval)

theorem context_terminator_missed_witness:
  "4 \<in> heredoc_body_indices (\<lambda>_. True) [''@@ -1,3 +1,4 @@'', '' cat > f <<EOF'', '' text'', '' EOF'',
      ''+curl evil'']"
  using context_terminator_missed [of "\<lambda>_. True"] by simp

end
