(* ===== verification/Dep_Graph.thy ===== *)
theory Dep_Graph
  imports Score_Schema
begin

text \<open>
  The corpus dependency graph and its rules H046, H057, H060 and H061 (\<^verbatim>\<open>full_aur/graph.py\<close>, with
  \<^verbatim>\<open>normalize_dependency\<close> of \<^verbatim>\<open>deps.py\<close>).  A set of names is a list without repetitions in insertion
  order, where the code iterates over a Python set in no fixed order; the properties speak of membership
  only.  The thresholds and the finding templates are arguments.  The locale \<open>hop_distances\<close> is the
  contract of a bounded search, which the searches in both directions of the graph provide.
\<close>

section \<open>Edges\<close>

record meta_entry =
  me_provides :: "string list"
  me_depends :: "string list"
  me_make_depends :: "string list"
  me_check_depends :: "string list"
  me_maintainer :: string

text \<open>
  \<^verbatim>\<open>raw.split(":", 1)[0]\<close> and the constraint that starts at the first comparison sign (a dependency
  entry holds no newline).
\<close>

definition cut_constraint :: "string \<Rightarrow> string" where
  "cut_constraint name = takeWhile (\<lambda>c. c \<notin> set ''<>='') name"

definition normalize_dependency :: "string \<Rightarrow> string" where
  "normalize_dependency raw =
     py_lower (strip_quotes (py_strip (cut_constraint (takeWhile (\<lambda>c. c \<noteq> CHR '':'') raw))))"

text \<open>The providers of an alias: the packages that provide it under another name.\<close>

definition providers_of :: "meta_entry dict \<Rightarrow> string \<Rightarrow> string list" where
  "providers_of meta alias =
     map fst (filter (\<lambda>(name, e). alias \<noteq> name \<and>
        alias \<in> set (map normalize_dependency (me_provides e))) meta)"

definition unique_provider :: "meta_entry dict \<Rightarrow> string \<Rightarrow> string option" where
  "unique_provider meta alias =
     (if alias = [] then None
      else (case providers_of meta alias of [name] \<Rightarrow> Some name | _ \<Rightarrow> None))"

definition dep_target :: "meta_entry dict \<Rightarrow> string \<Rightarrow> string option" where
  "dep_target meta dep =
     (let n = normalize_dependency dep in
      if map_of meta n \<noteq> None then Some n else unique_provider meta n)"

definition all_deps :: "meta_entry \<Rightarrow> string list" where
  "all_deps e = me_depends e @ me_make_depends e @ me_check_depends e"

definition targets_of :: "meta_entry dict \<Rightarrow> string \<Rightarrow> meta_entry \<Rightarrow> string list" where
  "targets_of meta name e =
     uniq_first (filter (\<lambda>t. t \<noteq> [] \<and> t \<noteq> name) (List.map_filter (dep_target meta) (all_deps e)))"

definition dependency_edges :: "meta_entry dict \<Rightarrow> string list dict" where
  "dependency_edges meta =
     filter (\<lambda>(name, deps). deps \<noteq> []) (map (\<lambda>(name, e). (name, targets_of meta name e)) meta)"

definition succs :: "string list dict \<Rightarrow> string \<Rightarrow> string list" where
  "succs edges n = dict_get edges n []"

definition reverse_edges :: "string list dict \<Rightarrow> string \<Rightarrow> string list" where
  "reverse_edges edges dep = map fst (filter (\<lambda>(name, deps). dep \<in> set deps) edges)"

section \<open>The bounded search\<close>

text \<open>
  One successor \<open>dep\<close> met at distance \<open>d\<close>: a new one is recorded and joins the next frontier.  The
  state is the closure, as a dictionary in insertion order, and the next frontier.
\<close>

definition visit :: "'n \<Rightarrow> nat \<Rightarrow> 'n \<Rightarrow> ('n \<times> nat) list \<times> 'n list \<Rightarrow> ('n \<times> nat) list \<times> 'n list" where
  "visit name d dep st =
     (case st of (closure, nxt) \<Rightarrow>
        if dep \<notin> fst ` set closure \<and> dep \<noteq> name then (closure @ [(dep, d)], nxt @ [dep]) else st)"

fun search :: "('n \<Rightarrow> 'n list) \<Rightarrow> 'n \<Rightarrow> nat \<Rightarrow> nat \<Rightarrow> 'n list \<Rightarrow> ('n \<times> nat) list \<Rightarrow> ('n \<times> nat) list" where
  "search sx name 0 distance frontier closure = closure"
| "search sx name (Suc left) distance frontier closure =
     (if frontier = [] then closure
      else (case fold (\<lambda>node st. fold (visit name (Suc distance)) (sx node) st) frontier (closure, []) of
              (closure', nxt) \<Rightarrow> search sx name left (Suc distance) nxt closure'))"

definition transitive_closure :: "('n \<Rightarrow> 'n list) \<Rightarrow> 'n \<Rightarrow> nat \<Rightarrow> ('n \<times> nat) list" where
  "transitive_closure sx name depth = search sx name depth 0 [name] []"

definition CLOSURE_DEPTH :: nat where "CLOSURE_DEPTH = 3"

section \<open>The rules\<close>

definition cluster ::
  "string dict \<Rightarrow> string \<Rightarrow> string \<Rightarrow> string \<Rightarrow> string list \<Rightarrow> string \<Rightarrow> py_value dict \<Rightarrow> finding" where
  "cluster templates rule name match members severity extra =
     stamp templates ((bare_finding rule name severity ''dependency'')\<lparr>f_match := Some match,
       f_params := Some ([(''members'', VStrs members), (''member_count'', VInt (int (length members)))] @ extra)\<rparr>)
       None"

type_synonym transitions = "(string \<times> string) dict"

definition transition_kind :: "string \<times> string \<Rightarrow> string option" where
  "transition_kind t =
     (case t of (old_m, new_m) \<Rightarrow>
        if new_m \<noteq> [] \<and> old_m \<noteq> new_m then Some ''adopted''
        else if new_m = [] \<and> old_m \<noteq> [] then Some ''orphaned'' else None)"

definition not_removed :: "string dict \<Rightarrow> string \<Rightarrow> bool" where
  "not_removed changes name = (map_of changes name \<noteq> Some ''removed'')"

definition orphan_dependency_findings ::
  "string dict \<Rightarrow> string dict \<Rightarrow> string list dict \<Rightarrow> transitions \<Rightarrow> finding list" where
  "orphan_dependency_findings templates changes edges transitions =
     concat (map (\<lambda>(dep, t).
       case transition_kind t of None \<Rightarrow> []
       | Some kind \<Rightarrow>
           map (\<lambda>dependent. cluster templates ''H046'' ''Orphan/Adoption Dependency''
                 (dependent @ '' depends on '' @ dep @ '', '' @ kind @ '' this cycle'') [dependent] ''MEDIUM''
                 [(''dep'', VStr dep), (''maintainer'', VStr (snd t))])
             (filter (not_removed changes) (sort (reverse_edges edges dep))))
       (sort_key fst transitions))"

definition transitive_exposure_findings ::
  "string dict \<Rightarrow> nat \<Rightarrow> string dict \<Rightarrow> string list dict \<Rightarrow> transitions \<Rightarrow> finding list" where
  "transitive_exposure_findings templates min_hops changes edges transitions =
     concat (map (\<lambda>(adopted, (old_m, new_m)).
       if old_m \<noteq> [] \<or> new_m = [] then []
       else map (\<lambda>(dependent, hops). cluster templates ''H057'' ''Transitive Exposure''
                  (dependent @ '' transitively depends on '' @ adopted @ '', adopted this cycle'')
                  [dependent] ''INFO'' [(''dep'', VStr adopted), (''distance'', VInt (int hops))])
              (filter (\<lambda>(dependent, hops). \<not> hops < min_hops \<and> not_removed changes dependent)
                 (sort_key fst (transitive_closure (reverse_edges edges) adopted CLOSURE_DEPTH))))
       (sort_key fst transitions))"

definition is_orphan :: "meta_entry dict \<Rightarrow> string \<Rightarrow> bool" where
  "is_orphan meta name =
     (case map_of meta name of None \<Rightarrow> True | Some e \<Rightarrow> me_maintainer e = [])"

definition transitive_orphan_findings ::
  "string dict \<Rightarrow> nat \<Rightarrow> string dict \<Rightarrow> meta_entry dict \<Rightarrow> string list dict \<Rightarrow> finding list" where
  "transitive_orphan_findings templates min_hops changes meta edges =
     concat (map (\<lambda>(name, status).
       if status = ''removed'' then []
       else (case List.find (\<lambda>(dep, distance). \<not> distance < min_hops \<and> is_orphan meta dep)
                    (transitive_closure (succs edges) name CLOSURE_DEPTH) of
               None \<Rightarrow> []
             | Some (dep, distance) \<Rightarrow>
                 [cluster templates ''H060'' ''Transitive Orphan Risk''
                    (name @ '' transitively depends on orphaned '' @ dep) [name] ''INFO''
                    [(''dep'', VStr dep), (''distance'', VInt (int distance))]])) changes)"

text \<open>In-degrees, in the order the dependencies are first met.\<close>

definition indegrees :: "string list dict \<Rightarrow> (string \<times> nat) list" where
  "indegrees edges =
     (let deps = concat (map snd edges) in map (\<lambda>d. (d, count_list deps d)) (uniq_first deps))"

definition hubs_of :: "nat \<Rightarrow> string list dict \<Rightarrow> (string \<times> nat) list" where
  "hubs_of min_dependents edges =
     takeWhile (\<lambda>(hub, count). \<not> count < min_dependents)
       (sort_key (\<lambda>kv. - int (snd kv)) (indegrees edges))"

definition centrality_findings :: "string dict \<Rightarrow> nat \<Rightarrow> string list dict \<Rightarrow> finding list" where
  "centrality_findings templates min_dependents edges =
     map (\<lambda>(hub, count). cluster templates ''H061'' ''Dependency Centrality''
            (hub @ '' is depended on by '' @ show_nat count @ '' AUR packages'') [hub] ''INFO''
            [(''dependents'', VInt (int count))])
       (hubs_of min_dependents edges)"

text \<open>Without an earlier snapshot there is no baseline and the sweep is silent.\<close>

definition run_graph_sweep ::
  "string dict \<Rightarrow> nat \<Rightarrow> nat \<Rightarrow> nat \<Rightarrow> meta_entry dict \<Rightarrow> meta_entry dict option \<Rightarrow>
   string dict \<Rightarrow> transitions \<Rightarrow> string list dict option \<Rightarrow> finding list" where
  "run_graph_sweep templates hops57 hops60 hubs new_meta old_meta changes transitions edges =
     (if old_meta = None then []
      else (let graph = (case edges of Some g \<Rightarrow> g | None \<Rightarrow> dependency_edges new_meta) in
        orphan_dependency_findings templates changes graph transitions @
        transitive_exposure_findings templates hops57 changes graph transitions @
        transitive_orphan_findings templates hops60 changes new_meta graph @
        centrality_findings templates hubs graph))"

section \<open>Hop distances\<close>

definition hop :: "('n \<Rightarrow> 'n list) \<Rightarrow> ('n \<times> 'n) set" where
  "hop sx = {(x, y). y \<in> set (sx x)}"

text \<open>The least number of hops from \<open>a\<close> to \<open>b\<close>.\<close>

definition least_hops :: "('n \<Rightarrow> 'n list) \<Rightarrow> 'n \<Rightarrow> 'n \<Rightarrow> nat \<Rightarrow> bool" where
  "least_hops sx a b d \<longleftrightarrow> (a, b) \<in> hop sx ^^ d \<and> (\<forall>k < d. (a, b) \<notin> hop sx ^^ k)"

lemma least_hops_unique: "least_hops sx a b d \<Longrightarrow> least_hops sx a b e \<Longrightarrow> d = e"
  by (meson least_hops_def linorder_neqE_nat)

lemma least_hops_0: "least_hops sx a b 0 \<longleftrightarrow> a = b"
  by (auto simp: least_hops_def)

lemma least_hops_1: "least_hops sx a b (Suc 0) \<longleftrightarrow> b \<in> set (sx a) \<and> a \<noteq> b"
  by (auto simp: least_hops_def hop_def)

text \<open>A node at a distance has a predecessor at the distance before; a successor is at most one further.\<close>

lemma least_hops_pred:
  assumes "least_hops sx a b (Suc d)"
  obtains c where "least_hops sx a c d" "b \<in> set (sx c)"
proof -
  from assms obtain c where c: "(a, c) \<in> hop sx ^^ d" "(c, b) \<in> hop sx"
    by (auto simp: least_hops_def)
  have "(a, c) \<notin> hop sx ^^ k" if "k < d" for k
  proof
    assume "(a, c) \<in> hop sx ^^ k"
    with c(2) have "(a, b) \<in> hop sx ^^ Suc k" by auto
    with assms that show False by (auto simp: least_hops_def simp del: relpow.simps)
  qed
  with c that show ?thesis by (auto simp: least_hops_def hop_def)
qed

lemma hops_least: "(a, b) \<in> hop sx ^^ d \<Longrightarrow> \<exists>e \<le> d. least_hops sx a b e"
proof -
  assume a: "(a, b) \<in> hop sx ^^ d"
  let ?e = "LEAST k. (a, b) \<in> hop sx ^^ k"
  from a have "(a, b) \<in> hop sx ^^ ?e" "?e \<le> d" by (auto intro: LeastI Least_le)
  moreover have "(a, b) \<notin> hop sx ^^ k" if "k < ?e" for k using that not_less_Least by blast
  ultimately show ?thesis by (auto simp: least_hops_def)
qed

lemma least_hops_succ:
  assumes "least_hops sx a c d" and "b \<in> set (sx c)"
  shows "\<exists>e \<le> Suc d. least_hops sx a b e"
proof (rule hops_least)
  from assms show "(a, b) \<in> hop sx ^^ Suc d" by (auto simp: least_hops_def hop_def)
qed

section \<open>The search computes hop distances\<close>

text \<open>What one pass over a list of successors adds.\<close>

lemma visit_new:
  "x \<notin> fst ` set closure \<Longrightarrow> x \<noteq> name \<Longrightarrow> visit name d x (closure, nxt) = (closure @ [(x, d)], nxt @ [x])"
  by (simp add: visit_def)

lemma visit_old:
  "\<not> (x \<notin> fst ` set closure \<and> x \<noteq> name) \<Longrightarrow> visit name d x (closure, nxt) = (closure, nxt)"
  by (auto simp: visit_def)

lemma fold_visit:
  "\<exists>new. fold (visit name d) ds (closure, nxt) = (closure @ map (\<lambda>x. (x, d)) new, nxt @ new) \<and>
     distinct new \<and> set new = {x \<in> set ds. x \<notin> fst ` set closure \<and> x \<noteq> name}"
proof (induction ds arbitrary: closure nxt)
  case (Cons x xs)
  show ?case
  proof (cases "x \<notin> fst ` set closure \<and> x \<noteq> name")
    case True
    obtain new where new: "fold (visit name d) xs (closure @ [(x, d)], nxt @ [x]) =
        ((closure @ [(x, d)]) @ map (\<lambda>x. (x, d)) new, (nxt @ [x]) @ new)" "distinct new"
      "set new = {y \<in> set xs. y \<notin> fst ` set (closure @ [(x, d)]) \<and> y \<noteq> name}"
      using Cons by blast
    show ?thesis
      by (rule exI [of _ "x # new"]) (use True new in \<open>auto simp: visit_new\<close>)
  next
    case False
    note same = visit_old [OF False, of d nxt]
    obtain new where new: "fold (visit name d) xs (closure, nxt) =
        (closure @ map (\<lambda>x. (x, d)) new, nxt @ new)" "distinct new"
      "set new = {y \<in> set xs. y \<notin> fst ` set closure \<and> y \<noteq> name}"
      using Cons by blast
    show ?thesis
      by (rule exI [of _ new]) (use False new in \<open>auto simp: same\<close>)
  qed
qed simp

lemma fold_concat: "fold (\<lambda>x st. fold f (g x) st) xs st = fold f (concat (map g xs)) st"
  by (induction xs arbitrary: st) simp_all

text \<open>The state of the search after \<open>distance\<close> rounds.\<close>

definition searched :: "('n \<Rightarrow> 'n list) \<Rightarrow> 'n \<Rightarrow> nat \<Rightarrow> 'n list \<Rightarrow> ('n \<times> nat) list \<Rightarrow> bool" where
  "searched sx name distance frontier closure \<longleftrightarrow>
     distinct (map fst closure) \<and>
     (\<forall>b d. (b, d) \<in> set closure \<longleftrightarrow> b \<noteq> name \<and> d \<le> distance \<and> least_hops sx name b d) \<and>
     (\<forall>b. b \<in> set frontier \<longleftrightarrow> least_hops sx name b distance)"

lemma searched_start: "searched sx name 0 [name] []"
  by (auto simp: searched_def least_hops_0)

lemma searched_step:
  assumes s: "searched sx name distance frontier closure"
    and f: "fold (\<lambda>node st. fold (visit name (Suc distance)) (sx node) st) frontier (closure, []) = (closure', nxt)"
  shows "searched sx name (Suc distance) nxt closure'"
proof -
  obtain new where new: "closure' = closure @ map (\<lambda>x. (x, Suc distance)) new" "nxt = new" "distinct new"
    "set new = {x \<in> set (concat (map sx frontier)). x \<notin> fst ` set closure \<and> x \<noteq> name}"
    using fold_visit [of name "Suc distance" "concat (map sx frontier)" closure "[]"] f
    unfolding fold_concat by auto
  have near: "b \<in> fst ` set closure \<longleftrightarrow> b \<noteq> name \<and> (\<exists>d \<le> distance. least_hops sx name b d)" for b
  proof -
    have "(\<exists>d. (b, d) \<in> set closure) \<longleftrightarrow> b \<noteq> name \<and> (\<exists>d \<le> distance. least_hops sx name b d)"
      using s unfolding searched_def by blast
    then show ?thesis by (simp add: image_iff Bex_def)
  qed
  have new_iff: "b \<in> set new \<longleftrightarrow> least_hops sx name b (Suc distance)" for b
  proof
    assume "b \<in> set new"
    then obtain c where c: "c \<in> set frontier" "b \<in> set (sx c)" "b \<notin> fst ` set closure" "b \<noteq> name"
      by (auto simp: new(4))
    from c(1) s have "least_hops sx name c distance" by (simp add: searched_def)
    from least_hops_succ [OF this c(2)] obtain e where e: "e \<le> Suc distance" "least_hops sx name b e" by blast
    with c(3,4) near [of b] have "\<not> e \<le> distance" by blast
    with e show "least_hops sx name b (Suc distance)" by (simp add: le_Suc_eq)
  next
    assume b: "least_hops sx name b (Suc distance)"
    from least_hops_pred [OF b] obtain c where c: "least_hops sx name c distance" "b \<in> set (sx c)" .
    from c(1) s have "c \<in> set frontier" by (simp add: searched_def)
    moreover have "b \<noteq> name" using least_hops_unique [OF b, of 0] by (auto simp: least_hops_0)
    moreover have "b \<notin> fst ` set closure"
    proof
      assume "b \<in> fst ` set closure"
      then obtain d where "d \<le> distance" "least_hops sx name b d" using near [of b] by blast
      with least_hops_unique [OF b] have "Suc distance = d" by blast
      with \<open>d \<le> distance\<close> show False by simp
    qed
    ultimately show "b \<in> set new" using c(2) by (auto simp: new(4))
  qed
  have "name \<notin> set new" "set new \<inter> fst ` set closure = {}" by (auto simp: new(4))
  moreover have "(b, d) \<in> set closure' \<longleftrightarrow> b \<noteq> name \<and> d \<le> Suc distance \<and> least_hops sx name b d" for b d
    using s new_iff [of b] \<open>name \<notin> set new\<close> unfolding searched_def new(1) by (auto simp: le_Suc_eq)
  ultimately show ?thesis
    using s new new_iff unfolding searched_def by (auto simp: comp_def)
qed

lemma searched_search:
  "searched sx name distance frontier closure \<Longrightarrow>
     distinct (map fst (search sx name left distance frontier closure)) \<and>
     (\<forall>b d. (b, d) \<in> set (search sx name left distance frontier closure) \<longleftrightarrow>
        b \<noteq> name \<and> d \<le> distance + left \<and> least_hops sx name b d)"
proof (induction sx name left distance frontier closure rule: search.induct)
  case (1 sx name distance frontier closure)
  then show ?case by (simp add: searched_def)
next
  case (2 sx name left distance frontier closure)
  show ?case
  proof (cases "frontier = []")
    case True
    have none: "\<not> least_hops sx name b (distance + k)" for b k
    proof (induction k arbitrary: b)
      case 0
      then show ?case using "2.prems" True by (simp add: searched_def)
    next
      case (Suc k)
      then show ?case by (metis add_Suc_right least_hops_pred)
    qed
    have "d \<le> distance" if "least_hops sx name b d" for b d
      using none [of b "d - distance"] that by (cases "d \<le> distance") auto
    then have "d \<le> distance + Suc left \<longleftrightarrow> d \<le> distance" if "least_hops sx name b d" for b d
      using that trans_le_add1 by blast
    then show ?thesis using "2.prems" True unfolding searched_def by simp blast
  next
    case False
    let ?st = "fold (\<lambda>node st. fold (visit name (Suc distance)) (sx node) st) frontier (closure, [])"
    obtain closure' nxt where f: "?st = (closure', nxt)" by (cases ?st)
    from "2.IH" [OF False f [symmetric] searched_step [OF "2.prems" f]] False f show ?thesis by simp
  qed
qed

lemma closure_search:
  "distinct (map fst (transitive_closure sx a n))"
  "(b, d) \<in> set (transitive_closure sx a n) \<longleftrightarrow> b \<noteq> a \<and> d \<le> n \<and> least_hops sx a b d"
  using searched_search [OF searched_start, of sx a n] unfolding transitive_closure_def by auto

section \<open>The contract of a bounded search\<close>

locale hop_distances =
  fixes sx :: "'n \<Rightarrow> 'n list" and depth :: nat and closure :: "'n \<Rightarrow> ('n \<times> nat) list"
  assumes distinct_nodes: "distinct (map fst (closure a))"
    and reached: "(b, d) \<in> set (closure a) \<longleftrightarrow> b \<noteq> a \<and> d \<le> depth \<and> least_hops sx a b d"
begin

lemma positive: "(b, d) \<in> set (closure a) \<Longrightarrow> 0 < d"
  by (cases d) (auto simp: reached least_hops_0)

lemma near_iff: "(b, Suc 0) \<in> set (closure a) \<longleftrightarrow> b \<noteq> a \<and> Suc 0 \<le> depth \<and> b \<in> set (sx a)"
  by (auto simp: reached least_hops_1)

lemma far_not_direct:
  assumes "(b, d) \<in> set (closure a)" and "2 \<le> d"
  shows "b \<notin> set (sx a)"
proof
  assume "b \<in> set (sx a)"
  moreover from assms have "b \<noteq> a" "least_hops sx a b d" by (simp_all add: reached)
  ultimately have "d = Suc 0" using least_hops_unique [of sx a b d "Suc 0"] by (simp add: least_hops_1)
  with assms show False by simp
qed

text \<open>The closure is connected: a node two or more hops away hangs on one a hop nearer.\<close>

lemma on_path:
  assumes "(b, Suc d) \<in> set (closure a)" and "0 < d"
  obtains c where "(c, d) \<in> set (closure a)" "b \<in> set (sx c)"
proof -
  from assms have b: "least_hops sx a b (Suc d)" "Suc d \<le> depth" by (simp_all add: reached)
  from least_hops_pred [OF b(1)] obtain c where c: "least_hops sx a c d" "b \<in> set (sx c)" .
  moreover have "c \<noteq> a"
  proof
    assume "c = a"
    with c(1) have "d = 0" using least_hops_unique [of sx a a d 0] by (simp add: least_hops_0)
    with assms show False by simp
  qed
  ultimately show ?thesis using that b by (simp add: reached)
qed

end

text \<open>A search along the edges beside a search against them.\<close>

locale two_way_distances =
  fwd: hop_distances sx depth closure + bwd: hop_distances px depth rclosure
  for sx px :: "'n \<Rightarrow> 'n list" and depth :: nat and closure rclosure :: "'n \<Rightarrow> ('n \<times> nat) list"
begin

lemma mirrored:
  assumes "\<And>x y. y \<in> set (sx x) \<longleftrightarrow> x \<in> set (px y)"
  shows "(b, d) \<in> set (closure a) \<longleftrightarrow> (a, d) \<in> set (rclosure b)"
proof -
  have conv: "hop px = (hop sx)\<inverse>" using assms by (auto simp: hop_def)
  have "(hop sx)\<inverse> ^^ k = (hop sx ^^ k)\<inverse>" for k
    by (induction k) (simp_all add: relpow_commute converse_relcomp [symmetric])
  then have "least_hops px b a d \<longleftrightarrow> least_hops sx a b d" by (simp add: least_hops_def conv)
  then show ?thesis by (auto simp: fwd.reached bwd.reached)
qed

end

interpretation along: hop_distances "succs edges" CLOSURE_DEPTH
  "\<lambda>a. transitive_closure (succs edges) a CLOSURE_DEPTH" for edges
  by unfold_locales (simp_all add: closure_search)

interpretation against: hop_distances "reverse_edges edges" CLOSURE_DEPTH
  "\<lambda>a. transitive_closure (reverse_edges edges) a CLOSURE_DEPTH" for edges
  by unfold_locales (simp_all add: closure_search)

interpretation both_ways: two_way_distances "succs edges" "reverse_edges edges" CLOSURE_DEPTH
  "\<lambda>a. transitive_closure (succs edges) a CLOSURE_DEPTH"
  "\<lambda>a. transitive_closure (reverse_edges edges) a CLOSURE_DEPTH" for edges ..

section \<open>The graph's shape\<close>

lemma edges_distinct: "distinct (map fst meta) \<Longrightarrow> distinct (map fst (dependency_edges meta))"
  unfolding dependency_edges_def
  by (rule distinct_map_filter) (simp add: comp_def case_prod_beta)

lemma reverse_iff:
  assumes "distinct (map fst edges)"
  shows "b \<in> set (succs edges a) \<longleftrightarrow> a \<in> set (reverse_edges edges b)"
proof -
  have "a \<in> set (reverse_edges edges b) \<longleftrightarrow> (\<exists>ts. (a, ts) \<in> set edges \<and> b \<in> set ts)"
    by (force simp: reverse_edges_def)
  also have "\<dots> \<longleftrightarrow> (\<exists>ts. map_of edges a = Some ts \<and> b \<in> set ts)"
    by (simp add: map_of_eq_Some_iff [OF assms])
  finally show ?thesis by (cases "map_of edges a") (simp_all add: succs_def dict_get_def)
qed

lemma edge_targets:
  assumes "(a, ts) \<in> set (dependency_edges meta)" and "t \<in> set ts"
  shows "distinct ts \<and> t \<noteq> a \<and> t \<in> fst ` set meta"
proof -
  from assms(1) obtain e where e: "(a, e) \<in> set meta" "ts = targets_of meta a e"
    by (auto simp: dependency_edges_def)
  with assms(2) obtain dep where t: "t \<noteq> a" "dep_target meta dep = Some t"
    by (auto simp: targets_of_def List.map_filter_def)
  have "t \<in> fst ` set meta"
  proof (cases "map_of meta (normalize_dependency dep) = None")
    case True
    with t have u: "unique_provider meta (normalize_dependency dep) = Some t"
      by (simp add: dep_target_def Let_def)
    obtain n where "providers_of meta (normalize_dependency dep) = [n]" "n = t"
      using u by (auto simp: unique_provider_def split: if_splits list.splits)
    then have "t \<in> set (providers_of meta (normalize_dependency dep))" by simp
    then show ?thesis by (force simp: providers_of_def)
  next
    case False
    with t have "map_of meta t \<noteq> None" by (simp add: dep_target_def Let_def)
    then show ?thesis by (simp add: map_of_eq_None_iff)
  qed
  with e t show ?thesis by (simp add: targets_of_def)
qed

lemma indegree_is_dependents:
  "(\<And>n ts. (n, ts) \<in> set edges \<Longrightarrow> distinct ts) \<Longrightarrow>
     count_list (concat (map snd edges)) d = length (reverse_edges edges d)"
proof (induction edges)
  case (Cons e es)
  obtain n ts where e: "e = (n, ts)" by (cases e)
  with Cons.prems have "distinct ts" by auto
  then have "count_list ts d = (if d \<in> set ts then 1 else 0)" by (induction ts) auto
  moreover have "count_list (concat (map snd es)) d = length (reverse_edges es d)"
    using Cons by auto
  ultimately show ?case by (auto simp: e reverse_edges_def count_list_append)
qed (simp add: reverse_edges_def)

lemma takeWhile_sorted_key:
  fixes f :: "'a \<Rightarrow> int"
  assumes "\<And>x y. f x \<le> f y \<Longrightarrow> P y \<Longrightarrow> P x"
  shows "sorted (map f xs) \<Longrightarrow> takeWhile P xs = filter P xs"
proof (induction xs)
  case (Cons x xs)
  show ?case
  proof (cases "P x")
    case False
    then have "filter P (x # xs) = []" using Cons.prems assms by (auto simp: filter_empty_conv)
    with False show ?thesis by simp
  qed (use Cons in simp)
qed simp

definition finding_param :: "finding \<Rightarrow> string \<Rightarrow> py_value option" where
  "finding_param f k = (case f_params f of None \<Rightarrow> None | Some p \<Rightarrow> map_of p k)"

lemma cluster_param:
  "finding_param (cluster ts rule n mt members sev extra) k =
     (if k = ''members'' then Some (VStrs members)
      else if k = ''member_count'' then Some (VInt (int (length members))) else map_of extra k)"
  by (simp add: finding_param_def cluster_def stamp_keeps)

section \<open>The rules' reach\<close>

text \<open>C37: the search records exactly the nodes other than its start that are within the depth, each
  once and at its least number of hops.\<close>

theorem closure_exact:
  "distinct (map fst (transitive_closure sx a n)) \<and>
   set (transitive_closure sx a n) = {(b, d). b \<noteq> a \<and> d \<le> n \<and> least_hops sx a b d}"
  by (auto simp: closure_search)

text \<open>One finding of the rule H057.\<close>

definition exposure :: "string dict \<Rightarrow> string \<Rightarrow> string \<Rightarrow> nat \<Rightarrow> finding" where
  "exposure templates adopted dependent hops =
     cluster templates ''H057'' ''Transitive Exposure''
       (dependent @ '' transitively depends on '' @ adopted @ '', adopted this cycle'')
       [dependent] ''INFO'' [(''dep'', VStr adopted), (''distance'', VInt (int hops))]"

text \<open>H057 reports exactly the packages still present whose least distance to a package
  adopted from an orphan lies between the threshold and the search depth.\<close>

theorem exposure_exact:
  "set (transitive_exposure_findings templates min_hops changes edges transitions) =
   {exposure templates adopted dependent hops | adopted dependent hops new_m.
      (adopted, ([], new_m)) \<in> set transitions \<and> new_m \<noteq> [] \<and> dependent \<noteq> adopted \<and>
      min_hops \<le> hops \<and> hops \<le> CLOSURE_DEPTH \<and>
      least_hops (reverse_edges edges) adopted dependent hops \<and> not_removed changes dependent}"
    (is "?L = ?R")
proof -
  have "?L = {exposure templates adopted dependent hops | adopted dependent hops old_m new_m.
      (adopted, (old_m, new_m)) \<in> set transitions \<and> \<not> (old_m \<noteq> [] \<or> new_m = []) \<and>
      (dependent, hops) \<in> set (transitive_closure (reverse_edges edges) adopted CLOSURE_DEPTH) \<and>
      \<not> hops < min_hops \<and> not_removed changes dependent}"
    unfolding transitive_exposure_findings_def exposure_def by (force split: if_splits)
  also have "\<dots> = ?R" by (auto simp: against.reached not_less)
  finally show ?thesis .
qed

lemma cluster_match: "f_match (cluster ts rule n mt members sev extra) = Some mt"
  by (simp add: cluster_def stamp_keeps)

lemma exposure_param:
  "finding_param (exposure ts adopted dependent hops) ''members'' = Some (VStrs [dependent])"
  "finding_param (exposure ts adopted dependent hops) ''dep'' = Some (VStr adopted)"
  by (simp_all add: exposure_def cluster_param)

lemma orphan_dependency_shape:
  assumes "g \<in> set (orphan_dependency_findings ts changes edges transitions)"
  obtains dep dependent where "dependent \<in> set (reverse_edges edges dep)"
    "finding_param g ''members'' = Some (VStrs [dependent])" "finding_param g ''dep'' = Some (VStr dep)"
proof -
  from assms obtain dep t kind dependent where "dependent \<in> set (reverse_edges edges dep)"
    "g = cluster ts ''H046'' ''Orphan/Adoption Dependency''
           (dependent @ '' depends on '' @ dep @ '', '' @ kind @ '' this cycle'') [dependent] ''MEDIUM''
           [(''dep'', VStr dep), (''maintainer'', VStr (snd t))]"
    by (auto simp: orphan_dependency_findings_def split: option.splits)
  then show ?thesis by (intro that [of dependent dep]) (simp_all add: cluster_param)
qed

lemma exposure_far:
  assumes "f \<in> set (transitive_exposure_findings ts min_hops changes edges transitions)"
  obtains adopted dependent hops where "f = exposure ts adopted dependent hops" "min_hops \<le> hops"
    "(dependent, hops) \<in> set (transitive_closure (reverse_edges edges) adopted CLOSURE_DEPTH)"
  using assms
  by (auto simp: transitive_exposure_findings_def exposure_def not_less split: if_splits)

text \<open>with a threshold of two hops or more, the transitive rule H057 never repeats for a
  package and a dependency what the direct rule H046 reports for them.\<close>

theorem lanes_disjoint:
  assumes "2 \<le> min_hops"
    and "f \<in> set (transitive_exposure_findings ts min_hops changes edges transitions)"
    and "g \<in> set (orphan_dependency_findings ts changes edges transitions)"
  shows "finding_param f ''members'' \<noteq> finding_param g ''members'' \<or>
         finding_param f ''dep'' \<noteq> finding_param g ''dep''"
proof -
  from assms(2) obtain adopted dependent hops where f: "f = exposure ts adopted dependent hops"
    "min_hops \<le> hops" "(dependent, hops) \<in> set (transitive_closure (reverse_edges edges) adopted CLOSURE_DEPTH)"
    by (rule exposure_far)
  with assms(1) have "dependent \<notin> set (reverse_edges edges adopted)"
    using against.far_not_direct [of dependent hops edges adopted] by simp
  moreover from assms(3) obtain dep dependent' where "dependent' \<in> set (reverse_edges edges dep)"
    "finding_param g ''members'' = Some (VStrs [dependent'])" "finding_param g ''dep'' = Some (VStr dep)"
    by (rule orphan_dependency_shape)
  ultimately show ?thesis by (auto simp: f(1) exposure_param)
qed

text \<open>each package that is not removed and has an orphan within reach, no nearer than the
  threshold, gets exactly one H060, in the order of the changes, and no other package gets one.\<close>

theorem orphan_risk_exact:
  "map (\<lambda>f. finding_param f ''members'')
     (transitive_orphan_findings ts min_hops changes meta edges) =
   map (\<lambda>c. Some (VStrs [fst c]))
     (filter (\<lambda>c. snd c \<noteq> ''removed'' \<and>
        (\<exists>dep d. dep \<noteq> fst c \<and> min_hops \<le> d \<and> d \<le> CLOSURE_DEPTH \<and>
          least_hops (succs edges) (fst c) dep d \<and> is_orphan meta dep)) changes)"
proof (induction changes)
  case (Cons c cs)
  obtain name status where c: "c = (name, status)" by (cases c)
  let ?P = "\<lambda>(dep, distance). \<not> distance < min_hops \<and> is_orphan meta dep"
  let ?cl = "transitive_closure (succs edges) name CLOSURE_DEPTH"
  have risk: "(\<exists>x \<in> set ?cl. ?P x) \<longleftrightarrow> (\<exists>dep d. dep \<noteq> name \<and> min_hops \<le> d \<and> d \<le> CLOSURE_DEPTH \<and>
          least_hops (succs edges) name dep d \<and> is_orphan meta dep)"
    by (auto simp: along.reached not_less Bex_def)
  show ?case
  proof (cases "List.find ?P ?cl")
    case None
    then have "\<not> (\<exists>x \<in> set ?cl. ?P x)" by (auto simp: find_None_iff)
    with None Cons show ?thesis unfolding risk
      by (auto simp: c transitive_orphan_findings_def)
  next
    case (Some x)
    then have "List.find ?P ?cl \<noteq> None" by simp
    then have "\<exists>x \<in> set ?cl. ?P x" by (auto simp: find_None_iff)
    with Some Cons show ?thesis unfolding risk
      by (cases x) (auto simp: c transitive_orphan_findings_def cluster_param)
  qed
qed (simp add: transitive_orphan_findings_def)

text \<open>the search against the edges is the mirror of the search along them, on the graph
  of any snapshot: H057 and H060 measure the same distances.\<close>

theorem distances_mirrored:
  assumes "distinct (map fst meta)"
  shows "(b, d) \<in> set (transitive_closure (succs (dependency_edges meta)) a CLOSURE_DEPTH) \<longleftrightarrow>
    (a, d) \<in> set (transitive_closure (reverse_edges (dependency_edges meta)) b CLOSURE_DEPTH)"
  by (rule both_ways.mirrored) (rule reverse_iff [OF edges_distinct [OF assms]])

text \<open>H061 names, by falling number of dependents, exactly the dependencies that at least
  the threshold's number of packages depend on, whatever stands where the code stops reading.\<close>

theorem hubs_exact:
  "sorted (rev (map snd (hubs_of n (dependency_edges meta)))) \<and>
   set (hubs_of n (dependency_edges meta)) =
     {(hub, k). k = length (reverse_edges (dependency_edges meta) hub) \<and> 0 < k \<and> n \<le> k} \<and>
   map (\<lambda>f. (f_match f, finding_param f ''members'', finding_param f ''dependents''))
     (centrality_findings ts n (dependency_edges meta)) =
   map (\<lambda>(hub, k). (Some (hub @ '' is depended on by '' @ show_nat k @ '' AUR packages''),
       Some (VStrs [hub]), Some (VInt (int k)))) (hubs_of n (dependency_edges meta))"
proof (intro conjI)
  let ?E = "dependency_edges meta"
  let ?key = "\<lambda>kv :: string \<times> nat. - int (snd kv)"
  let ?I = "sort_key ?key (indegrees ?E)"
  have hubs: "hubs_of n ?E = filter (\<lambda>(hub, count). \<not> count < n) ?I"
    unfolding hubs_of_def by (rule takeWhile_sorted_key [where f = ?key]) auto
  have "sorted (map ?key (hubs_of n ?E))" unfolding hubs by (rule sorted_filter) simp
  then show "sorted (rev (map snd (hubs_of n ?E)))"
    by (simp add: sorted_wrt_rev sorted_wrt_map)
  have "count_list (concat (map snd ?E)) d = length (reverse_edges ?E d)" for d
    by (rule indegree_is_dependents) (auto simp: dependency_edges_def targets_of_def)
  then have "set ?I = (\<lambda>d. (d, length (reverse_edges ?E d))) ` set (concat (map snd ?E))"
    by (simp add: indegrees_def Let_def)
  moreover have "d \<in> set (concat (map snd ?E)) \<longleftrightarrow> 0 < length (reverse_edges ?E d)" for d
    by (force simp: reverse_edges_def length_greater_0_conv filter_empty_conv)
  ultimately show "set (hubs_of n ?E) = {(hub, k). k = length (reverse_edges ?E hub) \<and> 0 < k \<and> n \<le> k}"
    unfolding hubs by (auto simp: not_less)
  show "map (\<lambda>f. (f_match f, finding_param f ''members'', finding_param f ''dependents''))
      (centrality_findings ts n ?E) =
    map (\<lambda>(hub, k). (Some (hub @ '' is depended on by '' @ show_nat k @ '' AUR packages''),
      Some (VStrs [hub]), Some (VInt (int k)))) (hubs_of n ?E)"
    by (auto simp: centrality_findings_def cluster_param cluster_match)
qed

section \<open>A small corpus\<close>

definition entry :: "string list \<Rightarrow> string \<Rightarrow> meta_entry" where
  "entry deps who = \<lparr>me_provides = [], me_depends = deps, me_make_depends = [],
     me_check_depends = [], me_maintainer = who\<rparr>"

definition small_corpus :: "meta_entry dict" where
  "small_corpus = [(''app'', entry [''lib>=2''] ''ann''), (''lib'', entry [''core'', ''glibc''] ''bob''),
     (''core'', entry [] ''eve'')]"

lemma small_edges: "dependency_edges small_corpus = [(''app'', [''lib'']), (''lib'', [''core''])]"
  by code_simp

lemma distances_mirrored_witness:
  "(''app'', 2) \<in> set (transitive_closure (reverse_edges (dependency_edges small_corpus)) ''core'' CLOSURE_DEPTH)"
proof -
  have "distinct (map fst small_corpus)" by (simp add: small_corpus_def)
  from distances_mirrored [OF this, of "''core''" 2 "''app''"] show ?thesis
    unfolding small_edges by code_simp
qed

lemma lanes_disjoint_witness:
  "\<exists>f g. f \<in> set (transitive_exposure_findings [] 2 [] (dependency_edges small_corpus) [(''core'', ([], ''eve''))]) \<and>
     g \<in> set (orphan_dependency_findings [] [] (dependency_edges small_corpus) [(''core'', ([], ''eve''))]) \<and>
     (finding_param f ''members'' \<noteq> finding_param g ''members'' \<or>
      finding_param f ''dep'' \<noteq> finding_param g ''dep'')"
proof -
  let ?f = "exposure [] ''core'' ''app'' 2"
  let ?g = "cluster [] ''H046'' ''Orphan/Adoption Dependency'' ''lib depends on core, adopted this cycle''
      [''lib''] ''MEDIUM'' [(''dep'', VStr ''core''), (''maintainer'', VStr ''eve'')]"
  have "transitive_exposure_findings [] 2 [] (dependency_edges small_corpus) [(''core'', ([], ''eve''))] = [?f]"
    unfolding small_edges by code_simp
  then have f: "?f \<in> set (transitive_exposure_findings [] 2 [] (dependency_edges small_corpus) [(''core'', ([], ''eve''))])"
    by simp
  have "orphan_dependency_findings [] [] (dependency_edges small_corpus) [(''core'', ([], ''eve''))] = [?g]"
    unfolding small_edges by code_simp
  then have g: "?g \<in> set (orphan_dependency_findings [] [] (dependency_edges small_corpus) [(''core'', ([], ''eve''))])"
    by simp
  from lanes_disjoint [OF order_refl f g] f g show ?thesis by blast
qed

end
