(* ===== verification/Meta_Rules.thy ===== *)
theory Meta_Rules
  imports Layers
begin

text \<open>
  The rules over other rules' findings (\<^verbatim>\<open>analysis/meta.py\<close>): the contradictions M001, the weak-layer
  span M002, the unowned composition M003, the tool-health notes M004 to M006, and the alert-volume
  boundary W010, with the filter of \<^verbatim>\<open>reporting.finding_rows\<close> whose set of shown findings W010 is meant
  to count.  The thresholds and the template vocabulary are arguments.
\<close>

section \<open>Contradicted claims\<close>

definition CONTRADICTIONS :: "(string \<times> string \<times> string) list" where
  "CONTRADICTIONS = [
     (''P001'', ''H091'', ''the recipe declares checksums (P001) while H091 reports the checksum '' @
        ''arrays do not cover every source''),
     (''P002'', ''H024'', ''the recipe declares GPG verification (P002) while H024 reports the '' @
        ''verification removed''),
     (''P005'', ''H101'', ''a source is pinned to a commit (P005) while H101 reports the pinning '' @
        ''lost''),
     (''P007'', ''H099'', ''a source is hosted on a trusted forge (P007) while H099 reports the '' @
        ''host swapped under a kept local name''),
     (''P009'', ''H066'', ''the recipe declares a prebuilt deliverable (P009) while H066 reports '' @
        ''an ELF binary committed to the repository outside source=()'')]"

definition meta_finding :: "string \<Rightarrow> string \<Rightarrow> string \<Rightarrow> string \<Rightarrow> py_value dict \<Rightarrow> finding" where
  "meta_finding rid name severity match params =
     (bare_finding rid name severity ''meta'')\<lparr>f_match := Some match, f_params := Some params\<rparr>"

text \<open>\<open>claims\<close> is \<open>None\<close> for a caller without a ledger: then every claim counts as declared.\<close>

definition claim_contradictions ::
  "string dict \<Rightarrow> finding list \<Rightarrow> string list option \<Rightarrow> finding list" where
  "claim_contradictions templates triggered claims =
     map (\<lambda>(claim, rid, message).
         stamp templates (meta_finding ''M001'' ''Claim Contradicted By Structure'' ''HIGH'' message
           [(''claim'', VStr claim), (''contradicted_by'', VStr rid)]) None)
       (filter (\<lambda>(claim, rid, message). rid \<in> set (map f_rule_id triggered) \<and>
            (case claims of None \<Rightarrow> True | Some cs \<Rightarrow> claim \<in> set cs))
         CONTRADICTIONS)"

section \<open>Tool health\<close>

definition cofire_absence :: "finding list \<Rightarrow> (string \<times> string) list \<Rightarrow> string list" where
  "cofire_absence triggered pairs =
     (let ids = map f_rule_id triggered in
      map (\<lambda>(precursor, expected). precursor @ '' fired without expected co-fire '' @ expected)
        (filter (\<lambda>(precursor, expected). precursor \<in> set ids \<and> expected \<notin> set ids) pairs))"

text \<open>\<^verbatim>\<open>_as_list\<close>: a bare string is one value, and what cannot be iterated is none.\<close>

fun as_list :: "py_value option \<Rightarrow> string list" where
  "as_list (Some (VStr s)) = [s]"
| "as_list (Some (VStrs ss)) = ss"
| "as_list (Some (VCounts cs)) = map fst cs"
| "as_list _ = []"

text \<open>The declared licensors of a rule id; of two declarations of an id the later one counts.\<close>

definition licensors_of :: "rule_decl list \<Rightarrow> string \<Rightarrow> string list" where
  "licensors_of rules rid =
     (case map_of (map (\<lambda>r. (rd_id r, r)) (rev rules)) rid of
        None \<Rightarrow> [] | Some r \<Rightarrow> as_list (rd_escalates r))"

definition licensor_absent :: "finding list \<Rightarrow> rule_decl list \<Rightarrow> finding list" where
  "licensor_absent triggered rules =
     (let fired = map f_rule_id triggered in
      map (\<lambda>f. let licensors = py_join '', '' (licensors_of rules (f_rule_id f)) in
             meta_finding ''M005'' ''Licensor Absent On Licensed Shape'' ''INFO''
               (f_rule_id f @ '' fired without its licensor(s): '' @ licensors)
               [(''rule'', VStr (f_rule_id f)), (''licensors'', VStr licensors)])
        (filter (\<lambda>f. let licensors = licensors_of rules (f_rule_id f) in
             licensors \<noteq> [] \<and> list_all (\<lambda>l. l \<notin> set fired) licensors) triggered))"

definition m_tool_health ::
  "finding list \<Rightarrow> (string \<times> string) list \<Rightarrow> rule_decl list \<Rightarrow> finding list" where
  "m_tool_health triggered pairs rules =
     map (\<lambda>note. meta_finding ''M004'' ''Expected Co-fire Absent'' ''INFO'' note
            [(''detail'', VStr note)]) (cofire_absence triggered pairs)
     @ licensor_absent triggered rules"

record pressure =
  pr_source :: string
  pr_campaign_id :: string
  pr_count :: int
  pr_span :: int
  pr_min_interval :: int

definition campaign_reactivation_notes :: "pressure list \<Rightarrow> finding list" where
  "campaign_reactivation_notes ps =
     map (\<lambda>p. let source = (if pr_source p = [] then ''campaign'' else pr_source p) in
       meta_finding ''M006'' ''Campaign Re-armed Too Often'' ''INFO''
         (source @ '' campaign '' @ pr_campaign_id p @ '' re-armed '' @ show_int (pr_count p) @
          '' time(s) over '' @ show_int (pr_span p) @ '' observation(s), below the '' @
          show_int (pr_min_interval p) @ ''-observation interval'')
         [(''campaign_id'', VStr (pr_campaign_id p)), (''source'', VStr source),
          (''count'', VInt (pr_count p)), (''span'', VInt (pr_span p)),
          (''min_interval'', VInt (pr_min_interval p))]) ps"

section \<open>Confluence\<close>

definition fired_layers :: "finding list \<Rightarrow> layer list" where
  "fired_layers triggered =
     remdups (List.map_filter (\<lambda>f. layer_of (f_rule_id f) []) (filter (\<lambda>f. f_rule_id f \<noteq> []) triggered))"

definition weak_layer_span :: "string dict \<Rightarrow> int \<Rightarrow> finding list \<Rightarrow> finding list" where
  "weak_layer_span templates min_layers triggered =
     (let layers = fired_layers triggered;
          n = length layers;
          named = py_join '', '' (sort (map layer_value layers))
      in if list_ex (\<lambda>f. strong_severity (f_severity f)) triggered then []
         else if int n < min_layers then []
         else [stamp templates ((meta_finding ''M002'' ''Weak Signal Across Layers'' ''MEDIUM''
                 (show_nat n @ '' distinct layers fired with no strong signal: '' @ named)
                 [(''layers'', VInt (int n)), (''which'', VStr named)])
                 \<lparr>f_weight_override := Some (VInt 0)\<rparr>) None])"

definition CLUSTER_OWNERS :: "string list" where
  "CLUSTER_OWNERS = [''H098'', ''X007'', ''H027'']"

definition families :: "finding list \<Rightarrow> string list" where
  "families triggered =
     remdups (filter (\<lambda>c. c \<noteq> [] \<and> c \<notin> {''meta'', ''unverifiable''}) (List.map_filter f_category triggered))"

definition composition_not_owned :: "string dict \<Rightarrow> finding list \<Rightarrow> finding list" where
  "composition_not_owned templates triggered =
     (let fams = families triggered; n = length fams; named = py_join '', '' (sort fams) in
      if list_ex (\<lambda>f. f_rule_id f \<in> set CLUSTER_OWNERS) triggered then []
      else if n < 2 then []
      else [stamp templates ((meta_finding ''M003'' ''Composition Not Owned Elsewhere'' ''MEDIUM''
              (show_nat n @ '' capability families co-occurred with no cluster rule: '' @ named)
              [(''families'', VInt (int n)), (''which'', VStr named)])
              \<lparr>f_weight_override := Some (VInt 0)\<rparr>) None])"

definition m_series_findings ::
  "string dict \<Rightarrow> int \<Rightarrow> finding list \<Rightarrow> string list option \<Rightarrow> finding list" where
  "m_series_findings templates min_layers triggered claims =
     claim_contradictions templates triggered claims
     @ weak_layer_span templates min_layers triggered
     @ composition_not_owned templates triggered"

section \<open>Alert volume\<close>

definition ALWAYS_SHOWN :: "string list" where "ALWAYS_SHOWN = [''H043'', ''H065'']"

text \<open>
  \<^verbatim>\<open>int(weight or 0)\<close> for a weight of the configuration or of a rule: \<open>None\<close> where \<^verbatim>\<open>int\<close> raises.
  A text is an optional sign and digits (the underscores Python also takes are not,
  and neither is its refusal of more than 4300 digits).
\<close>

definition int_of_text :: "string \<Rightarrow> int option" where
  "int_of_text t =
     (case py_strip t of
        [] \<Rightarrow> None
      | c # ds \<Rightarrow>
          (let body = (if c = CHR ''-'' \<or> c = CHR ''+'' then ds else c # ds) in
           if body = [] \<or> \<not> list_all is_digit body then None
           else Some (if c = CHR ''-'' then - int (nat_of_digits body) else int (nat_of_digits body))))"

fun int_or_zero :: "py_value \<Rightarrow> int option" where
  "int_or_zero (VInt i) = Some i"
| "int_or_zero (VBool b) = Some (if b then 1 else 0)"
| "int_or_zero VNone = Some 0"
| "int_or_zero (VStr s) = (if s = [] then Some 0 else int_of_text s)"
| "int_or_zero (VStrs xs) = (if xs = [] then Some 0 else None)"
| "int_or_zero (VCounts cs) = (if cs = [] then Some 0 else None)"

definition renders :: "int dict \<Rightarrow> finding \<Rightarrow> bool" where
  "renders weights f =
     (if py_startswith (f_rule_id f) ''W'' \<or> f_rule_id f \<in> set ALWAYS_SHOWN then True
      else if f_severity f \<in> {''FATAL'', ''CRITICAL''} then True
      else (case int_or_zero (case f_weight_override f of Some v \<Rightarrow> v
                   | None \<Rightarrow> VInt (dict_get weights (f_severity f) 0)) of
              Some w \<Rightarrow> 0 < w | None \<Rightarrow> False))"

text \<open>The counts by severity, in the order the severities are first met; an empty one counts as INFO.\<close>

definition shown_severity :: "finding \<Rightarrow> string" where
  "shown_severity f = (if f_severity f = [] then ''INFO'' else f_severity f)"

fun count_severities :: "finding list \<Rightarrow> nat dict \<Rightarrow> nat dict" where
  "count_severities [] acc = acc"
| "count_severities (f # fs) acc =
     count_severities fs (dict_set acc (shown_severity f) (dict_get acc (shown_severity f) 0 + 1))"

definition alert_volume_finding :: "string dict \<Rightarrow> int \<Rightarrow> int dict \<Rightarrow> finding list \<Rightarrow> finding option" where
  "alert_volume_finding templates cap weights triggered =
     (let rendered = filter (renders weights) triggered; n = length rendered in
      if cap \<le> 0 then None
      else if int n \<le> cap then None
      else (let shown = nat cap; grouped = n - shown in
        Some (stamp templates ((bare_finding ''W010'' ''Alert Volume Capped'' ''INFO'' ''unverifiable'')
          \<lparr>f_match := Some (show_nat n @ '' findings; the terminal shows the first '' @ show_nat shown @
              '' and groups '' @ show_nat grouped @ '' more''),
            f_params := Some [(''rendered'', VInt (int n)), (''shown'', VInt (int shown)),
              (''grouped'', VInt (int grouped)),
              (''by_severity'', VCounts (count_severities (drop shown rendered) []))]\<rparr>) None)))"

section \<open>What the report shows\<close>

definition ALWAYS_SHOWN_ANNOTATIONS :: "string list" where
  "ALWAYS_SHOWN_ANNOTATIONS = [''H043'', ''H065'', ''U001'', ''U002'', ''U006'', ''U009'', ''U012'']"

definition present_before :: "score_entry \<Rightarrow> bool" where
  "present_before e = (case map_of (e_params e) ''present_before'' of Some v \<Rightarrow> truthy v | None \<Rightarrow> False)"

definition shown_row :: "score_entry \<Rightarrow> bool" where
  "shown_row e = (0 < e_weight e \<or> e_severity e \<in> {''FATAL'', ''CRITICAL''} \<or>
     e_rule_id e \<in> set ALWAYS_SHOWN_ANNOTATIONS \<or> py_startswith (e_rule_id e) ''W'' \<or> present_before e)"

section \<open>Counting by severity\<close>

lemma dict_get_set: "dict_get (dict_set d k v) k' w = (if k' = k then v else dict_get d k' w)"
  by (simp add: dict_get_def)

lemma sum_dict_set: "sum_list (map snd (dict_set d k (dict_get d k 0 + 1))) = Suc (sum_list (map snd d))"
  by (induction d) (auto simp: dict_get_def)

lemma count_severities_get:
  "dict_get (count_severities fs acc) s 0 = dict_get acc s 0 + length (filter (\<lambda>f. shown_severity f = s) fs)"
  by (induction fs acc rule: count_severities.induct) (auto simp: dict_get_set)

lemma count_severities_sum:
  "sum_list (map snd (count_severities fs acc)) = sum_list (map snd acc) + length fs"
  by (induction fs acc rule: count_severities.induct) (simp_all add: sum_dict_set [simplified])

lemma set_fired_layers:
  "set (fired_layers triggered) =
     {l. \<exists>f \<in> set triggered. f_rule_id f \<noteq> [] \<and> layer_of (f_rule_id f) [] = Some l}"
  by (force simp: fired_layers_def List.map_filter_def)

section \<open>Properties\<close>

text \<open>Capping never drops a finding silently.  W010 is raised exactly when more findings render than
  the positive cap; the shown and the grouped numbers then add up to the rendered findings, and the
  counts by severity give for every severity the number of grouped findings of it, and together all.\<close>

theorem volume_accounts_for_all:
  "case alert_volume_finding templates cap weights triggered of
     None \<Rightarrow> cap \<le> 0 \<or> int (length (filter (renders weights) triggered)) \<le> cap
   | Some f \<Rightarrow>
       0 < cap \<and> f_severity f = ''INFO'' \<and>
       (let rendered = filter (renders weights) triggered; hidden = drop (nat cap) rendered in
        \<exists>counts. f_params f = Some [(''rendered'', VInt (int (length rendered))), (''shown'', VInt cap),
            (''grouped'', VInt (int (length hidden))), (''by_severity'', VCounts counts)] \<and>
          cap + int (length hidden) = int (length rendered) \<and> hidden \<noteq> [] \<and>
          sum_list (map snd counts) = length hidden \<and>
          (\<forall>s. dict_get counts s 0 = length (filter (\<lambda>f. shown_severity f = s) hidden)))"
proof (cases "cap \<le> 0 \<or> int (length (filter (renders weights) triggered)) \<le> cap")
  case True
  then show ?thesis by (auto simp: alert_volume_finding_def Let_def)
next
  case False
  let ?hidden = "drop (nat cap) (filter (renders weights) triggered)"
  have "sum_list (map snd (count_severities ?hidden [])) = length ?hidden"
    by (simp only: count_severities_sum) simp
  moreover have "dict_get (count_severities ?hidden []) s 0 = length (filter (\<lambda>f. shown_severity f = s) ?hidden)"
    for s by (simp only: count_severities_get) (simp add: dict_get_def)
  moreover have "cap + int (length (filter (renders weights) triggered) - nat cap) =
      int (length (filter (renders weights) triggered))"
    "\<not> length (filter (renders weights) triggered) \<le> nat cap"
    using False by linarith+
  ultimately show ?thesis using False
    by (simp add: alert_volume_finding_def Let_def stamp_keeps bare_finding_def)
qed

text \<open>M002 is raised exactly when no finding is strong and the findings fall into at least the
  threshold of distinct layers, and it never carries a weight.\<close>

theorem weak_span_exact:
  "(weak_layer_span templates min_layers triggered \<noteq> [] \<longleftrightarrow>
      \<not> list_ex (\<lambda>f. strong_severity (f_severity f)) triggered \<and>
      min_layers \<le> int (card {l. \<exists>f \<in> set triggered. f_rule_id f \<noteq> [] \<and> layer_of (f_rule_id f) [] = Some l})) \<and>
   list_all (\<lambda>m. f_weight_override m = Some (VInt 0) \<and> f_severity m = ''MEDIUM'' \<and> f_rule_id m = ''M002'')
     (weak_layer_span templates min_layers triggered)"
proof -
  have "card (set (fired_layers triggered)) = length (fired_layers triggered)"
    by (rule distinct_card) (simp add: fired_layers_def)
  then show ?thesis unfolding set_fired_layers [symmetric]
    by (simp add: weak_layer_span_def Let_def stamp_keeps meta_finding_def bare_finding_def not_less)
qed

text \<open>The report shows five upstream ledgers that the alert volume does not count, although the two
  sets of always-shown rules are meant to be the same.\<close>

lemma ledgers_shown_but_uncounted:
  "filter (\<lambda>rid. shown_row (default_entry\<lparr>e_rule_id := rid, e_severity := ''INFO''\<rparr>) \<and>
       \<not> renders [(''INFO'', 0)] (bare_finding rid name ''INFO'' ''upstream'')) ALWAYS_SHOWN_ANNOTATIONS =
   [''U001'', ''U002'', ''U006'', ''U009'', ''U012'']"
  by (simp add: shown_row_def renders_def ALWAYS_SHOWN_ANNOTATIONS_def ALWAYS_SHOWN_def default_entry_def
      bare_finding_def present_before_def dict_get_def)

end
