(* ===== verification/Outbox.thy ===== *)
theory Outbox
  imports TS_Prelude
begin

text \<open>
  The durable delivery queue for alert documents (\<^verbatim>\<open>db/_outbox.py\<close>).  The table is the list of its rows
  in the order of their ids, which SQLite's \<^verbatim>\<open>AUTOINCREMENT\<close> hands out.  Moments are whole seconds
  (\<^typ>\<open>int\<close>): the stored ISO texts are written by the queue itself with one time zone, so they parse back
  and compare as the moments do.  The payload is the stored JSON text.
\<close>

section \<open>Rows\<close>

record row =
  r_id :: nat
  r_created :: int
  r_payload :: string
  r_webhook_id :: string
  r_webhook_timestamp :: int
  r_attempts :: nat
  r_next :: "int option"
  r_ntfy :: bool
  r_feed :: bool
  r_parked :: "int option"
  r_error :: string

text \<open>The table with the next id.\<close>

record outbox =
  ob_rows :: "row list"
  ob_next :: nat

definition empty_outbox :: outbox where "empty_outbox = \<lparr>ob_rows = [], ob_next = 1\<rparr>"

definition MAX_ATTEMPTS :: nat where "MAX_ATTEMPTS = 10"
definition MAX_AGE :: int where "MAX_AGE = 24 * 60 * 60"
definition BACKOFF_BASE :: int where "BACKOFF_BASE = 30"
definition BACKOFF_MAX :: int where "BACKOFF_MAX = 6 * 60 * 60"

lemmas outbox_limits = MAX_ATTEMPTS_def MAX_AGE_def BACKOFF_BASE_def BACKOFF_MAX_def

section \<open>Operations\<close>

definition enqueue :: "string \<Rightarrow> string \<Rightarrow> int \<Rightarrow> int \<Rightarrow> outbox \<Rightarrow> nat \<times> outbox" where
  "enqueue payload webhook_id webhook_timestamp now ob =
     (ob_next ob,
      \<lparr>ob_rows = ob_rows ob @ [\<lparr>r_id = ob_next ob, r_created = now, r_payload = payload,
         r_webhook_id = webhook_id, r_webhook_timestamp = webhook_timestamp, r_attempts = 0,
         r_next = None, r_ntfy = False, r_feed = False, r_parked = None, r_error = []\<rparr>],
       ob_next = Suc (ob_next ob)\<rparr>)"

definition due :: "int \<Rightarrow> row \<Rightarrow> bool" where
  "due now r \<longleftrightarrow> r_parked r = None \<and> (case r_next r of None \<Rightarrow> True | Some t \<Rightarrow> t \<le> now) \<and>
     (\<not> r_ntfy r \<or> \<not> r_feed r)"

definition pending :: "int \<Rightarrow> nat \<Rightarrow> outbox \<Rightarrow> row list" where
  "pending now limit ob = take limit (filter (due now) (ob_rows ob))"

definition update_row :: "nat \<Rightarrow> (row \<Rightarrow> row) \<Rightarrow> outbox \<Rightarrow> outbox" where
  "update_row i f ob = ob\<lparr>ob_rows := map (\<lambda>r. if r_id r = i then f r else r) (ob_rows ob)\<rparr>"

text \<open>An unknown sink raises.\<close>

datatype outbox_error = UnknownSink string

definition finish :: "row \<Rightarrow> row" where
  "finish r = (if r_ntfy r \<and> r_feed r then r\<lparr>r_next := None\<rparr> else r)"

definition mark_sink :: "nat \<Rightarrow> string \<Rightarrow> outbox \<Rightarrow> outbox_error + outbox" where
  "mark_sink i sink ob =
     (if sink = ''ntfy'' then Inr (update_row i (\<lambda>r. finish (r\<lparr>r_ntfy := True\<rparr>)) ob)
      else if sink = ''feed'' then Inr (update_row i (\<lambda>r. finish (r\<lparr>r_feed := True\<rparr>)) ob)
      else Inl (UnknownSink sink))"

definition backoff :: "nat \<Rightarrow> int" where
  "backoff attempts = min (BACKOFF_BASE * 2 ^ (attempts - 1)) BACKOFF_MAX"

definition parks :: "int \<Rightarrow> row \<Rightarrow> bool" where
  "parks now r \<longleftrightarrow> now - r_created r \<ge> MAX_AGE \<or> r_attempts r + 1 \<ge> MAX_ATTEMPTS"

definition fail_row :: "string \<Rightarrow> int \<Rightarrow> row \<Rightarrow> row" where
  "fail_row err now r =
     (if parks now r
      then r\<lparr>r_attempts := r_attempts r + 1, r_parked := Some now, r_error := take 1000 err\<rparr>
      else r\<lparr>r_attempts := r_attempts r + 1, r_next := Some (now + backoff (r_attempts r + 1)),
             r_error := take 1000 err\<rparr>)"

definition row_of :: "outbox \<Rightarrow> nat \<Rightarrow> row option" where
  "row_of ob i = List.find (\<lambda>r. r_id r = i) (ob_rows ob)"

definition mark_attempt :: "nat \<Rightarrow> string \<Rightarrow> int \<Rightarrow> outbox \<Rightarrow> bool \<times> outbox" where
  "mark_attempt i err now ob =
     (case row_of ob i of
        None \<Rightarrow> (False, ob)
      | Some r \<Rightarrow> (parks now r, update_row i (fail_row err now) ob))"

record stats =
  st_pending :: nat
  st_parked :: nat
  st_oldest :: int

definition waiting :: "row \<Rightarrow> bool" where
  "waiting r \<longleftrightarrow> r_parked r = None \<and> \<not> (r_ntfy r \<and> r_feed r)"

definition outbox_stats :: "int \<Rightarrow> outbox \<Rightarrow> stats" where
  "outbox_stats now ob =
     (let w = filter waiting (ob_rows ob) in
      \<lparr>st_pending = length w,
       st_parked = length (filter (\<lambda>r. r_parked r \<noteq> None) (ob_rows ob)),
       st_oldest = (if w = [] then 0 else now - Min (set (map r_created w)))\<rparr>)"

section \<open>Delivery\<close>

text \<open>
  The configured sinks, and the answers of the network: whether a POST of this row to the sink raises
  no exception.
\<close>

record sinks =
  sk_ntfy :: bool
  sk_feed :: bool
  sk_post_ntfy :: "row \<Rightarrow> bool"
  sk_post_feed :: "row \<Rightarrow> bool"

text \<open>A sink that is not configured, or skipped, counts as done: \<open>(ok, configured)\<close> of one sink.\<close>

definition post_sink :: "bool \<Rightarrow> bool \<Rightarrow> bool \<Rightarrow> bool \<times> bool" where
  "post_sink configured skip accepted =
     (if configured \<and> \<not> skip then (accepted, True) else (True, False))"

text \<open>
  The POSTs a turn makes: the row, the sink, the document sent, and whether it was accepted.  None is made
  to a sink that is skipped or not configured.
\<close>

type_synonym post = "nat \<times> string \<times> string \<times> bool"

definition posts_to :: "bool \<Rightarrow> bool \<Rightarrow> bool \<Rightarrow> string \<Rightarrow> row \<Rightarrow> post list" where
  "posts_to configured skip accepted sink r =
     (if configured \<and> \<not> skip then [(r_id r, sink, r_payload r, accepted)] else [])"

text \<open>The rows a flush reads, and one row's turn (\<^verbatim>\<open>flush_outbox\<close> in \<^verbatim>\<open>notify.py\<close>).\<close>

definition FLUSH_LIMIT :: nat where "FLUSH_LIMIT = 20"

definition row_posts :: "sinks \<Rightarrow> row \<Rightarrow> post list" where
  "row_posts sk r = posts_to (sk_ntfy sk) (r_ntfy r) (sk_post_ntfy sk r) ''ntfy'' r @
     posts_to (sk_feed sk) (r_feed r) (sk_post_feed sk r) ''feed'' r"

definition flush_row :: "sinks \<Rightarrow> int \<Rightarrow> row \<Rightarrow> bool \<times> outbox \<times> post list \<Rightarrow> bool \<times> outbox \<times> post list" where
  "flush_row sk now r st =
     (case st of (delivered, ob, posts) \<Rightarrow>
       (case post_sink (sk_ntfy sk) (r_ntfy r) (sk_post_ntfy sk r) of (ntfy_ok, ntfy_configured) \<Rightarrow>
       (case post_sink (sk_feed sk) (r_feed r) (sk_post_feed sk r) of (feed_ok, feed_configured) \<Rightarrow>
         (let ob1 = (if ntfy_ok then (case mark_sink (r_id r) ''ntfy'' ob of Inr o' \<Rightarrow> o' | Inl e \<Rightarrow> ob) else ob);
              ob2 = (if feed_ok then (case mark_sink (r_id r) ''feed'' ob1 of Inr o' \<Rightarrow> o' | Inl e \<Rightarrow> ob1) else ob1);
              sent = posts @ row_posts sk r
          in if ntfy_configured \<and> ntfy_ok \<or> feed_configured \<and> feed_ok then (True, ob2, sent)
             else (delivered, snd (mark_attempt (r_id r) ''alert delivery failed'' now ob2), sent)))))"

definition flush_run :: "sinks \<Rightarrow> int \<Rightarrow> outbox \<Rightarrow> bool \<times> outbox \<times> post list" where
  "flush_run sk now ob = fold (flush_row sk now) (pending now FLUSH_LIMIT ob) (False, ob, [])"

text \<open>What a flush returns with the queue after it, and the POSTs it made.\<close>

definition flush :: "sinks \<Rightarrow> int \<Rightarrow> outbox \<Rightarrow> bool \<times> outbox" where
  "flush sk now ob = (case flush_run sk now ob of (delivered, ob', posts) \<Rightarrow> (delivered, ob'))"

definition flush_posts :: "sinks \<Rightarrow> int \<Rightarrow> outbox \<Rightarrow> post list" where
  "flush_posts sk now ob = snd (snd (flush_run sk now ob))"

section \<open>The queue as a transition system\<close>

text \<open>The clock only runs forward; between flushes documents join the queue.\<close>

inductive reachable :: "int \<Rightarrow> outbox \<Rightarrow> bool" where
  start: "reachable now empty_outbox"
| enqueue: "reachable t ob \<Longrightarrow> t \<le> now \<Longrightarrow> reachable now (snd (enqueue payload wid ts now ob))"
| flush: "reachable t ob \<Longrightarrow> t \<le> now \<Longrightarrow> reachable now (snd (flush sk now ob))"

inductive_cases reachableE: "reachable now ob"

section \<open>One row's turn\<close>

definition mark_ntfy :: "row \<Rightarrow> row" where "mark_ntfy r = finish (r\<lparr>r_ntfy := True\<rparr>)"
definition mark_feed :: "row \<Rightarrow> row" where "mark_feed r = finish (r\<lparr>r_feed := True\<rparr>)"

text \<open>What a flush does to the row it reads.\<close>

definition process :: "sinks \<Rightarrow> int \<Rightarrow> row \<Rightarrow> row" where
  "process sk now r =
     (let n = post_sink (sk_ntfy sk) (r_ntfy r) (sk_post_ntfy sk r);
          f = post_sink (sk_feed sk) (r_feed r) (sk_post_feed sk r);
          r1 = (if fst n then mark_ntfy r else r);
          r2 = (if fst f then mark_feed r1 else r1)
      in if snd n \<and> fst n \<or> snd f \<and> fst f then r2 else fail_row ''alert delivery failed'' now r2)"

lemma row_simps [simp]:
  "r_id (finish r) = r_id r" "r_attempts (finish r) = r_attempts r" "r_created (finish r) = r_created r"
  "r_parked (finish r) = r_parked r" "r_ntfy (finish r) = r_ntfy r" "r_feed (finish r) = r_feed r"
  "r_payload (finish r) = r_payload r"
  "r_id (mark_ntfy r) = r_id r" "r_attempts (mark_ntfy r) = r_attempts r"
  "r_created (mark_ntfy r) = r_created r" "r_parked (mark_ntfy r) = r_parked r"
  "r_ntfy (mark_ntfy r)" "r_feed (mark_ntfy r) = r_feed r" "r_payload (mark_ntfy r) = r_payload r"
  "r_id (mark_feed r) = r_id r" "r_attempts (mark_feed r) = r_attempts r"
  "r_created (mark_feed r) = r_created r" "r_parked (mark_feed r) = r_parked r"
  "r_ntfy (mark_feed r) = r_ntfy r" "r_feed (mark_feed r)" "r_payload (mark_feed r) = r_payload r"
  "r_id (fail_row e now r) = r_id r" "r_created (fail_row e now r) = r_created r"
  "r_attempts (fail_row e now r) = Suc (r_attempts r)" "r_ntfy (fail_row e now r) = r_ntfy r"
  "r_feed (fail_row e now r) = r_feed r" "r_payload (fail_row e now r) = r_payload r"
  "r_parked (fail_row e now r) = (if parks now r then Some now else r_parked r)"
  by (simp_all add: finish_def mark_ntfy_def mark_feed_def fail_row_def)

lemma process_keeps [simp]:
  "r_id (process sk now r) = r_id r" "r_created (process sk now r) = r_created r"
  "r_payload (process sk now r) = r_payload r"
  by (simp_all add: process_def Let_def)

lemma update_row_update:
  "(\<And>r. r_id (f r) = r_id r) \<Longrightarrow> update_row i g (update_row i f ob) = update_row i (g \<circ> f) ob"
  by (simp add: update_row_def comp_def)

lemma update_row_id [simp]: "update_row i (\<lambda>r. r) ob = ob"
  by (simp add: update_row_def)

lemma update_row_cong:
  "(\<And>r. r \<in> set (ob_rows ob) \<Longrightarrow> r_id r = i \<Longrightarrow> f r = g r) \<Longrightarrow> update_row i f ob = update_row i g ob"
  by (simp add: update_row_def)

lemma mark_sink_update:
  "mark_sink i ''ntfy'' ob = Inr (update_row i mark_ntfy ob)"
  "mark_sink i ''feed'' ob = Inr (update_row i mark_feed ob)"
  by (simp_all add: mark_sink_def mark_ntfy_def [abs_def] mark_feed_def [abs_def])

lemma mark_attempt_update: "snd (mark_attempt i err now ob) = update_row i (fail_row err now) ob"
  by (auto simp: mark_attempt_def row_of_def update_row_def find_None_iff map_idI split: option.splits)

lemma flush_row_process:
  assumes "distinct (map r_id (ob_rows ob))" and "r \<in> set (ob_rows ob)"
  shows "snd (flush_row sk now r (d, ob, ps)) = (update_row (r_id r) (process sk now) ob, ps @ row_posts sk r)"
proof -
  have only: "x = r" if "x \<in> set (ob_rows ob)" "r_id x = r_id r" for x
    using assms that by (auto simp: distinct_map inj_on_def)
  have pr: "update_row (r_id r) (process sk now) ob = update_row (r_id r) (\<lambda>x.
     (let n = post_sink (sk_ntfy sk) (r_ntfy r) (sk_post_ntfy sk r);
          f = post_sink (sk_feed sk) (r_feed r) (sk_post_feed sk r);
          r1 = (if fst n then mark_ntfy x else x);
          r2 = (if fst f then mark_feed r1 else r1)
      in if snd n \<and> fst n \<or> snd f \<and> fst f then r2 else fail_row ''alert delivery failed'' now r2)) ob"
    by (rule update_row_cong) (auto simp: process_def dest: only)
  show ?thesis unfolding pr
    by (cases "post_sink (sk_ntfy sk) (r_ntfy r) (sk_post_ntfy sk r)";
        cases "post_sink (sk_feed sk) (r_feed r) (sk_post_feed sk r)")
       (simp add: flush_row_def mark_sink_update mark_attempt_update update_row_update comp_def Let_def)
qed

section \<open>A flush turns each row it reads once\<close>

definition turned :: "sinks \<Rightarrow> int \<Rightarrow> nat set \<Rightarrow> row \<Rightarrow> row" where
  "turned sk now ids r = (if r_id r \<in> ids then process sk now r else r)"

lemma turned_keeps [simp]:
  "r_id (turned sk now ids r) = r_id r" "r_created (turned sk now ids r) = r_created r"
  "r_payload (turned sk now ids r) = r_payload r"
  by (simp_all add: turned_def)

lemma fold_flush_row:
  "distinct (map r_id (ob_rows ob)) \<Longrightarrow> distinct (map r_id rs) \<Longrightarrow> set rs \<subseteq> set (ob_rows ob) \<Longrightarrow>
     snd (fold (flush_row sk now) rs (d, ob, ps)) =
       (ob\<lparr>ob_rows := map (turned sk now (r_id ` set rs)) (ob_rows ob)\<rparr>, ps @ concat (map (row_posts sk) rs))"
proof (induction rs arbitrary: d ob ps)
  case Nil
  then show ?case by (simp add: turned_def [abs_def])
next
  case (Cons r rs)
  obtain d' ob' ps' where f: "flush_row sk now r (d, ob, ps) = (d', ob', ps')"
    by (cases "flush_row sk now r (d, ob, ps)")
  have ob': "ob' = update_row (r_id r) (process sk now) ob" and ps': "ps' = ps @ row_posts sk r"
    using flush_row_process [of ob r sk now d ps] Cons.prems f by simp_all
  have "map r_id (ob_rows ob') = map r_id (ob_rows ob)" by (simp add: ob' update_row_def)
  moreover have "set rs \<subseteq> set (ob_rows ob')"
  proof
    fix x assume x: "x \<in> set rs"
    have "r_id r \<notin> r_id ` set rs" using Cons.prems by simp
    with x have "r_id x \<noteq> r_id r" by (metis image_eqI)
    moreover have "x \<in> set (ob_rows ob)" using x Cons.prems by auto
    ultimately show "x \<in> set (ob_rows ob')" by (force simp: ob' update_row_def)
  qed
  ultimately have "snd (fold (flush_row sk now) rs (d', ob', ps')) =
      (ob'\<lparr>ob_rows := map (turned sk now (r_id ` set rs)) (ob_rows ob')\<rparr>, ps' @ concat (map (row_posts sk) rs))"
    using Cons.prems by (intro Cons.IH) simp_all
  moreover have "r_id r \<notin> r_id ` set rs" using Cons.prems by simp
  ultimately show ?case
    by (auto simp: f ob' ps' update_row_def turned_def)
qed

definition read_ids :: "int \<Rightarrow> outbox \<Rightarrow> nat set" where
  "read_ids now ob = r_id ` set (pending now FLUSH_LIMIT ob)"

lemma pending_rows: "set (pending now n ob) \<subseteq> {r \<in> set (ob_rows ob). due now r}"
  using set_take_subset [of n "filter (due now) (ob_rows ob)"] by (auto simp: pending_def)

lemma flush_rows:
  assumes "distinct (map r_id (ob_rows ob))"
  shows "snd (flush sk now ob) = ob\<lparr>ob_rows := map (turned sk now (read_ids now ob)) (ob_rows ob)\<rparr>"
    and "flush_posts sk now ob = concat (map (row_posts sk) (pending now FLUSH_LIMIT ob))"
proof -
  have "distinct (map r_id (filter (due now) (ob_rows ob)))" using assms by (rule distinct_map_filter)
  then have "distinct (map r_id (pending now FLUSH_LIMIT ob))"
    unfolding pending_def take_map [symmetric] by (rule distinct_take)
  then have "snd (flush_run sk now ob) = (ob\<lparr>ob_rows := map (turned sk now (read_ids now ob)) (ob_rows ob)\<rparr>,
      concat (map (row_posts sk) (pending now FLUSH_LIMIT ob)))"
    unfolding flush_run_def read_ids_def using pending_rows [of now FLUSH_LIMIT ob] assms
    by (subst fold_flush_row) auto
  then show "snd (flush sk now ob) = ob\<lparr>ob_rows := map (turned sk now (read_ids now ob)) (ob_rows ob)\<rparr>"
    and "flush_posts sk now ob = concat (map (row_posts sk) (pending now FLUSH_LIMIT ob))"
    by (auto simp: flush_def flush_posts_def split: prod.split)
qed

lemma read_due:
  assumes "distinct (map r_id (ob_rows ob))" and "r \<in> set (ob_rows ob)" and "r_id r \<in> read_ids now ob"
  shows "due now r"
proof -
  from assms(3) obtain x where "x \<in> set (pending now FLUSH_LIMIT ob)" "r_id x = r_id r"
    by (auto simp: read_ids_def)
  with pending_rows [of now FLUSH_LIMIT ob] have x: "x \<in> set (ob_rows ob)" "due now x" by auto
  with assms \<open>r_id x = r_id r\<close> have "x = r" by (auto simp: distinct_map inj_on_def)
  with x show ?thesis by simp
qed

section \<open>The work left in the queue\<close>

definition effort :: "row \<Rightarrow> nat" where
  "effort r = (if waiting r
     then (MAX_ATTEMPTS - r_attempts r) + (if r_ntfy r then 0 else 1) + (if r_feed r then 0 else 1)
     else 0)"

lemma effort_0 [simp]: "effort r = 0 \<longleftrightarrow> \<not> waiting r"
  by (auto simp: effort_def waiting_def)

lemma effort_le: "effort r \<le> 12"
  by (auto simp: effort_def MAX_ATTEMPTS_def)

lemma due_waiting: "due now r \<Longrightarrow> waiting r"
  by (auto simp: due_def waiting_def)

lemma fail_row_effort:
  assumes "r_ntfy r \<longrightarrow> r_ntfy x" "r_feed r \<longrightarrow> r_feed x" "r_attempts x = r_attempts r" and "waiting r"
  shows "effort (fail_row e now x) < effort r"
proof (cases "parks now x")
  case True
  then have "\<not> waiting (fail_row e now x)" by (simp add: waiting_def)
  with assms(4) show ?thesis by (metis effort_0 gr0I)
next
  case False
  then have "r_attempts r + 1 < MAX_ATTEMPTS" using assms(3) by (simp add: parks_def)
  moreover from assms(4) have "effort r = (MAX_ATTEMPTS - r_attempts r) +
      (if r_ntfy r then 0 else 1) + (if r_feed r then 0 else 1)" by (simp add: effort_def)
  ultimately show ?thesis using assms(1-3) by (auto simp: effort_def)
qed

lemma process_effort:
  assumes "waiting r"
  shows "effort (process sk now r) < effort r"
proof -
  let ?n = "post_sink (sk_ntfy sk) (r_ntfy r) (sk_post_ntfy sk r)"
  let ?f = "post_sink (sk_feed sk) (r_feed r) (sk_post_feed sk r)"
  define r2 where "r2 = (let r1 = (if fst ?n then mark_ntfy r else r) in if fst ?f then mark_feed r1 else r1)"
  have r2: "r_attempts r2 = r_attempts r" "r_parked r2 = r_parked r"
    "r_ntfy r2 \<longleftrightarrow> r_ntfy r \<or> fst ?n" "r_feed r2 \<longleftrightarrow> r_feed r \<or> fst ?f"
    by (simp_all add: r2_def Let_def)
  have pr: "process sk now r = (if snd ?n \<and> fst ?n \<or> snd ?f \<and> fst ?f then r2
      else fail_row ''alert delivery failed'' now r2)"
    by (simp add: process_def r2_def Let_def)
  show ?thesis
  proof (cases "snd ?n \<and> fst ?n \<or> snd ?f \<and> fst ?f")
    case True
    then have "\<not> r_ntfy r \<and> fst ?n \<or> \<not> r_feed r \<and> fst ?f"
      by (auto simp: post_sink_def split: if_splits)
    with assms True show ?thesis unfolding pr by (auto simp: effort_def waiting_def r2)
  next
    case False
    then have "process sk now r = fail_row ''alert delivery failed'' now r2" unfolding pr by (rule if_not_P)
    then show ?thesis using fail_row_effort [of r r2] assms by (simp add: r2)
  qed
qed

definition total_effort :: "outbox \<Rightarrow> nat" where
  "total_effort ob = sum_list (map effort (ob_rows ob))"

lemma flush_effort:
  assumes "distinct (map r_id (ob_rows ob))" and "r \<in> set (ob_rows ob)" and "due now r"
  shows "total_effort (snd (flush sk now ob)) < total_effort ob"
proof -
  let ?T = "turned sk now (read_ids now ob)"
  have le: "effort (?T x) \<le> effort x" if "x \<in> set (ob_rows ob)" for x
    using read_due [OF assms(1) that, of now] process_effort [of x sk now] due_waiting [of now x]
    by (cases "r_id x \<in> read_ids now ob") (simp_all add: turned_def less_imp_le)
  have "pending now FLUSH_LIMIT ob \<noteq> []"
    using assms(2,3) by (auto simp: pending_def FLUSH_LIMIT_def filter_empty_conv)
  then obtain x where "x \<in> set (pending now FLUSH_LIMIT ob)" by (meson list.set_sel(1))
  then have x: "x \<in> set (ob_rows ob)" "due now x" "r_id x \<in> read_ids now ob"
    using pending_rows [of now FLUSH_LIMIT ob] by (auto simp: read_ids_def)
  then have lt: "effort (?T x) < effort x"
    using process_effort due_waiting by (simp add: turned_def)
  have "sum_list (map (\<lambda>y. effort (?T y)) xs) < sum_list (map effort xs)"
    if "x \<in> set xs" "set xs \<subseteq> set (ob_rows ob)" for xs
    using that
  proof (induction xs)
    case (Cons y ys)
    have "sum_list (map (\<lambda>y. effort (?T y)) ys) \<le> sum_list (map effort ys)"
      using Cons.prems le by (intro sum_list_mono) auto
    moreover have "effort (?T y) \<le> effort y" using Cons.prems le by simp
    ultimately show ?case
      using Cons lt by (cases "y = x") auto
  qed simp
  from this [of "ob_rows ob"] x(1) show ?thesis
    by (simp add: total_effort_def flush_rows [OF assms(1)] comp_def)
qed

section \<open>The invariant of the queue\<close>

definition sound_row :: "int \<Rightarrow> nat \<Rightarrow> row \<Rightarrow> bool" where
  "sound_row now n r \<longleftrightarrow> r_id r < n \<and> r_created r \<le> now \<and>
     (case r_next r of None \<Rightarrow> True | Some t \<Rightarrow> t \<le> now + BACKOFF_MAX) \<and>
     (if r_parked r = None then r_attempts r < MAX_ATTEMPTS
      else r_attempts r = MAX_ATTEMPTS \<or>
        r_attempts r < MAX_ATTEMPTS \<and> MAX_AGE \<le> the (r_parked r) - r_created r)"

definition sound_queue :: "int \<Rightarrow> outbox \<Rightarrow> bool" where
  "sound_queue now ob \<longleftrightarrow> distinct (map r_id (ob_rows ob)) \<and> list_all (sound_row now (ob_next ob)) (ob_rows ob)"

lemma sound_row_later: "sound_row t n r \<Longrightarrow> t \<le> now \<Longrightarrow> n \<le> m \<Longrightarrow> sound_row now m r"
  by (auto simp: sound_row_def split: option.splits)

lemma backoff_le: "backoff k \<le> BACKOFF_MAX"
  by (simp add: backoff_def)

lemma mark_sound:
  "sound_row now n r \<Longrightarrow> sound_row now n (mark_ntfy r)" "sound_row now n r \<Longrightarrow> sound_row now n (mark_feed r)"
  by (auto simp: sound_row_def mark_ntfy_def mark_feed_def finish_def split: option.splits)

lemma fail_sound:
  assumes "sound_row now n r" and "r_parked r = None"
  shows "sound_row now n (fail_row e now r)"
proof (cases "parks now r")
  case True
  with assms show ?thesis by (auto simp: sound_row_def fail_row_def parks_def split: option.splits)
next
  case False
  with assms backoff_le show ?thesis by (simp add: sound_row_def fail_row_def parks_def)
qed

lemma process_sound:
  "sound_row now n r \<Longrightarrow> r_parked r = None \<Longrightarrow> sound_row now n (process sk now r)"
  by (simp add: process_def Let_def mark_sound fail_sound)

lemma flush_sound:
  assumes "sound_queue t ob" and "t \<le> now"
  shows "sound_queue now (snd (flush sk now ob))"
proof -
  from assms have d: "distinct (map r_id (ob_rows ob))"
    and s: "\<And>r. r \<in> set (ob_rows ob) \<Longrightarrow> sound_row now (ob_next ob) r"
    by (auto simp: sound_queue_def list_all_iff intro: sound_row_later)
  have "sound_row now (ob_next ob) (turned sk now (read_ids now ob) r)" if "r \<in> set (ob_rows ob)" for r
    using s [OF that] read_due [OF d that, of now]
    by (cases "r_id r \<in> read_ids now ob") (simp_all add: turned_def process_sound due_def)
  with d show ?thesis by (simp add: sound_queue_def flush_rows list_all_iff comp_def)
qed

lemma reachable_sound: "reachable now ob \<Longrightarrow> sound_queue now ob"
proof (induction rule: reachable.induct)
  case (start now)
  then show ?case by (simp add: sound_queue_def empty_outbox_def)
next
  case (enqueue t ob now payload wid ts)
  then have d: "distinct (map r_id (ob_rows ob))" and s: "\<forall>r \<in> set (ob_rows ob). sound_row t (ob_next ob) r"
    by (auto simp: sound_queue_def list_all_iff)
  from s have "ob_next ob \<notin> r_id ` set (ob_rows ob)" by (auto simp: sound_row_def)
  moreover have "sound_row now (Suc (ob_next ob)) r" if "r \<in> set (ob_rows ob)" for r
  proof -
    from s that have "sound_row t (ob_next ob) r" by blast
    then show ?thesis using enqueue.hyps(2) by (rule sound_row_later) simp
  qed
  then have "list_all (sound_row now (Suc (ob_next ob))) (ob_rows ob)" by (simp add: list_all_iff)
  ultimately show ?case using d
    by (simp add: sound_queue_def enqueue_def) (simp add: sound_row_def MAX_ATTEMPTS_def)
next
  case (flush t ob now sk)
  then show ?case using flush_sound by blast
qed

section \<open>What stands behind a mark\<close>

text \<open>
  A history of the queue: with every flush the POSTs it made, and the rows it read without a mark while the
  sink was not configured.
\<close>

definition unconfigured_reads :: "sinks \<Rightarrow> int \<Rightarrow> outbox \<Rightarrow> (nat \<times> string) list" where
  "unconfigured_reads sk now ob =
     (if sk_ntfy sk then [] else map (\<lambda>r. (r_id r, ''ntfy'')) (pending now FLUSH_LIMIT ob)) @
     (if sk_feed sk then [] else map (\<lambda>r. (r_id r, ''feed'')) (pending now FLUSH_LIMIT ob))"

inductive queue_history :: "int \<Rightarrow> outbox \<Rightarrow> post list \<Rightarrow> (nat \<times> string) list \<Rightarrow> bool" where
  start: "queue_history now empty_outbox [] []"
| enqueue: "queue_history t ob posts idle \<Longrightarrow> t \<le> now \<Longrightarrow>
    queue_history now (snd (enqueue payload wid ts now ob)) posts idle"
| flush: "queue_history t ob posts idle \<Longrightarrow> t \<le> now \<Longrightarrow>
    queue_history now (snd (flush sk now ob)) (posts @ flush_posts sk now ob) (idle @ unconfigured_reads sk now ob)"

lemma queue_history_reachable: "queue_history now ob posts idle \<Longrightarrow> reachable now ob"
  by (induction rule: queue_history.induct) (auto intro: reachable.intros)

text \<open>A mark stands for an accepted POST of the stored document, or for a read while the sink was off.\<close>

definition backed :: "post list \<Rightarrow> (nat \<times> string) list \<Rightarrow> row \<Rightarrow> bool" where
  "backed posts idle r \<longleftrightarrow>
     (r_ntfy r \<longrightarrow> (r_id r, ''ntfy'', r_payload r, True) \<in> set posts \<or> (r_id r, ''ntfy'') \<in> set idle) \<and>
     (r_feed r \<longrightarrow> (r_id r, ''feed'', r_payload r, True) \<in> set posts \<or> (r_id r, ''feed'') \<in> set idle)"

lemma backed_more: "backed posts idle r \<Longrightarrow> backed (posts @ posts') (idle @ idle') r"
  by (auto simp: backed_def)

lemma process_marks:
  "r_ntfy (process sk now r) \<longleftrightarrow> r_ntfy r \<or> fst (post_sink (sk_ntfy sk) (r_ntfy r) (sk_post_ntfy sk r))"
  "r_feed (process sk now r) \<longleftrightarrow> r_feed r \<or> fst (post_sink (sk_feed sk) (r_feed r) (sk_post_feed sk r))"
  by (auto simp: process_def Let_def)

lemma process_backed:
  assumes "backed posts idle r" and "r \<in> set (pending now FLUSH_LIMIT ob)"
  shows "backed (posts @ concat (map (row_posts sk) (pending now FLUSH_LIMIT ob))) (idle @ unconfigured_reads sk now ob)
    (process sk now r)"
proof -
  let ?posts = "concat (map (row_posts sk) (pending now FLUSH_LIMIT ob))" and ?idle = "unconfigured_reads sk now ob"
  have posts: "set (row_posts sk r) \<subseteq> set ?posts" using assms(2) by auto
  have ntfy: "(r_id r, ''ntfy'', r_payload r, True) \<in> set ?posts \<or> (r_id r, ''ntfy'') \<in> set ?idle"
    if "\<not> r_ntfy r" "fst (post_sink (sk_ntfy sk) (r_ntfy r) (sk_post_ntfy sk r))"
  proof (cases "sk_ntfy sk")
    case True
    with that have "(r_id r, ''ntfy'', r_payload r, True) \<in> set (row_posts sk r)"
      by (simp add: post_sink_def row_posts_def posts_to_def)
    with posts show ?thesis by blast
  next
    case False
    with assms(2) show ?thesis by (simp add: unconfigured_reads_def)
  qed
  have feed: "(r_id r, ''feed'', r_payload r, True) \<in> set ?posts \<or> (r_id r, ''feed'') \<in> set ?idle"
    if "\<not> r_feed r" "fst (post_sink (sk_feed sk) (r_feed r) (sk_post_feed sk r))"
  proof (cases "sk_feed sk")
    case True
    with that have "(r_id r, ''feed'', r_payload r, True) \<in> set (row_posts sk r)"
      by (simp add: post_sink_def row_posts_def posts_to_def)
    with posts show ?thesis by blast
  next
    case False
    with assms(2) show ?thesis by (simp add: unconfigured_reads_def)
  qed
  show ?thesis
    using assms(1) ntfy feed unfolding backed_def process_marks process_keeps set_append by blast
qed

lemma queue_history_backed: "queue_history now ob posts idle \<Longrightarrow> list_all (backed posts idle) (ob_rows ob)"
proof (induction rule: queue_history.induct)
  case (start now)
  then show ?case by (simp add: empty_outbox_def)
next
  case (enqueue t ob posts idle now payload wid ts)
  then show ?case by (simp add: enqueue_def) (simp add: backed_def)
next
  case (flush t ob posts idle now sk)
  have d: "distinct (map r_id (ob_rows ob))"
    using reachable_sound [OF queue_history_reachable [OF flush.hyps(1)]] by (simp add: sound_queue_def)
  have "backed (posts @ flush_posts sk now ob) (idle @ unconfigured_reads sk now ob)
      (turned sk now (read_ids now ob) r)" if r: "r \<in> set (ob_rows ob)" for r
  proof (cases "r_id r \<in> read_ids now ob")
    case True
    then obtain x where x: "x \<in> set (pending now FLUSH_LIMIT ob)" "r_id x = r_id r"
      by (auto simp: read_ids_def)
    with pending_rows [of now FLUSH_LIMIT ob] r d have "x = r" by (auto simp: distinct_map inj_on_def)
    with x flush.IH r True process_backed show ?thesis
      by (simp add: turned_def flush_rows(2) [OF d] list_all_iff)
  next
    case False
    with flush.IH r backed_more show ?thesis by (simp add: turned_def list_all_iff)
  qed
  then show ?case by (simp add: flush_rows(1) [OF d] list_all_iff)
qed

section \<open>Properties\<close>

text \<open>C23: No document is lost.  In every reachable queue a row is marked at a sink only when a POST of its
  document to this sink was accepted, or a flush read the row while this sink was not configured; and it
  either has both sinks marked, or is parked after exactly ten failed attempts or at an age of at least a
  day, or still waits with fewer than ten attempts and is due again within six hours.\<close>

theorem rows_accounted_for:
  assumes "queue_history now ob posts idle"
  shows "list_all (\<lambda>r.
      (if r_ntfy r then (r_id r, ''ntfy'', r_payload r, True) \<in> set posts \<or> (r_id r, ''ntfy'') \<in> set idle else True) \<and>
      (if r_feed r then (r_id r, ''feed'', r_payload r, True) \<in> set posts \<or> (r_id r, ''feed'') \<in> set idle else True) \<and>
      (r_ntfy r \<and> r_feed r \<or>
      (case r_parked r of
         Some p \<Rightarrow> r_attempts r = MAX_ATTEMPTS \<or> MAX_AGE \<le> p - r_created r
       | None \<Rightarrow> r_attempts r < MAX_ATTEMPTS \<and> due (now + BACKOFF_MAX) r))) (ob_rows ob)"
proof -
  have "r_ntfy r \<and> r_feed r \<or> (case r_parked r of
         Some p \<Rightarrow> r_attempts r = MAX_ATTEMPTS \<or> MAX_AGE \<le> p - r_created r
       | None \<Rightarrow> r_attempts r < MAX_ATTEMPTS \<and> due (now + BACKOFF_MAX) r)"
    if "sound_row now (ob_next ob) r" for r
    using that by (auto simp: sound_row_def due_def split: option.splits)
  with reachable_sound [OF queue_history_reachable [OF assms]] queue_history_backed [OF assms] show ?thesis
    by (auto simp: sound_queue_def list_all_iff backed_def)
qed

fun flushes :: "(int \<times> sinks) list \<Rightarrow> outbox \<Rightarrow> outbox" where
  "flushes [] ob = ob"
| "flushes ((now, sk) # fs) ob = flushes fs (snd (flush sk now ob))"

text \<open>Flushes at least six hours apart.\<close>

fun spaced :: "int \<Rightarrow> (int \<times> sinks) list \<Rightarrow> bool" where
  "spaced t [] = True"
| "spaced t ((now, sk) # fs) = (t + BACKOFF_MAX \<le> now \<and> spaced now fs)"

lemma flushes_drain:
  "sound_queue t ob \<Longrightarrow> spaced t fs \<Longrightarrow> total_effort ob \<le> length fs \<Longrightarrow>
     total_effort (flushes fs ob) = 0"
proof (induction fs arbitrary: t ob)
  case (Cons f fs)
  obtain now sk where f: "f = (now, sk)" by (cases f)
  have now: "t \<le> now" "t + BACKOFF_MAX \<le> now" using Cons.prems f by (simp_all add: BACKOFF_MAX_def)
  let ?ob = "snd (flush sk now ob)"
  have "total_effort ?ob \<le> length fs"
  proof (cases "\<exists>r \<in> set (ob_rows ob). waiting r")
    case True
    then obtain r where r: "r \<in> set (ob_rows ob)" "waiting r" by blast
    with Cons.prems(1) have "sound_row t (ob_next ob) r" by (simp add: sound_queue_def list_all_iff)
    with r(2) now have "due now r" by (auto simp: sound_row_def due_def waiting_def split: option.splits)
    with flush_effort [of ob r now sk] Cons.prems r show ?thesis by (simp add: sound_queue_def)
  next
    case False
    then have "filter (due now) (ob_rows ob) = []" using due_waiting by (auto simp: filter_empty_conv)
    then have "pending now FLUSH_LIMIT ob = []" by (simp add: pending_def)
    then have "?ob = ob" by (simp add: flush_def flush_run_def)
    moreover from False have "total_effort ob = 0" by (auto simp: total_effort_def)
    ultimately show ?thesis by simp
  qed
  with Cons.IH [OF flush_sound [OF Cons.prems(1) now(1)]] Cons.prems f show ?case by simp
qed (simp add: total_effort_def)

text \<open>C18: The queue drains.  Whatever the sinks answer, after twelve flushes for each stored row, six
  hours apart, no document waits any more: each is marked at both sinks or parked.\<close>

theorem queue_drains:
  assumes "reachable t ob" and "spaced t fs" and "12 * length (ob_rows ob) \<le> length fs"
  shows "filter waiting (ob_rows (flushes fs ob)) = []"
proof -
  have "sum_list (map effort rs) \<le> 12 * length rs" for rs
    using effort_le by (induction rs) (auto intro: add_mono)
  then have "total_effort ob \<le> length fs"
    using assms(3) le_trans unfolding total_effort_def by blast
  with flushes_drain [OF reachable_sound [OF assms(1)] assms(2)] have "total_effort (flushes fs ob) = 0" by simp
  then show ?thesis by (simp add: total_effort_def filter_empty_conv)
qed

text \<open>One document, a webhook that answers and a feed that never does.\<close>

definition half_dead :: sinks where
  "half_dead = \<lparr>sk_ntfy = True, sk_feed = True, sk_post_ntfy = (\<lambda>r. True), sk_post_feed = (\<lambda>r. False)\<rparr>"

definition one_document :: outbox where
  "one_document = snd (enqueue ''{}'' ''id'' 0 0 empty_outbox)"

lemma one_document_reachable: "reachable 0 one_document"
  unfolding one_document_def by (rule reachable.enqueue [OF reachable.start order_refl])

lemma one_document_history: "queue_history 0 one_document [] []"
  unfolding one_document_def by (rule queue_history.enqueue [OF queue_history.start order_refl])

lemma rows_accounted_for_witness:
  "\<exists>r. ob_rows (snd (flush half_dead 60 one_document)) = [r] \<and> r_ntfy r \<and>
     (r_id r, ''ntfy'', ''{}'', True) \<in> set (flush_posts half_dead 60 one_document)"
proof -
  let ?ob = "snd (flush half_dead 60 one_document)"
  have run: "?ob = \<lparr>ob_rows = [\<lparr>r_id = 1, r_created = 0, r_payload = ''{}'', r_webhook_id = ''id'',
      r_webhook_timestamp = 0, r_attempts = 0, r_next = None, r_ntfy = True, r_feed = False, r_parked = None,
      r_error = []\<rparr>], ob_next = 2\<rparr>" and idle: "unconfigured_reads half_dead 60 one_document = []"
    by code_simp+
  have "queue_history 60 ?ob ([] @ flush_posts half_dead 60 one_document) ([] @ unconfigured_reads half_dead 60 one_document)"
    by (rule queue_history.flush [OF one_document_history]) simp
  from rows_accounted_for [OF this] show ?thesis unfolding run idle by simp
qed

lemma queue_drains_witness:
  "filter waiting (ob_rows (flushes (map (\<lambda>k. (k * BACKOFF_MAX, half_dead))
     [1, 2, 3, 4, 5, 6, 7, 8, 9, 10, 11, 12]) one_document)) = []"
proof (rule queue_drains [OF one_document_reachable])
  show "spaced 0 (map (\<lambda>k. (k * BACKOFF_MAX, half_dead)) [1, 2, 3, 4, 5, 6, 7, 8, 9, 10, 11, 12])"
    by (simp add: BACKOFF_MAX_def)
  show "12 * length (ob_rows one_document) \<le>
      length (map (\<lambda>k. (k * BACKOFF_MAX, half_dead)) [1 :: int, 2, 3, 4, 5, 6, 7, 8, 9, 10, 11, 12])"
    by (simp add: one_document_def enqueue_def empty_outbox_def)
qed

text \<open>A flush while no sink is configured records a document as received by both sinks.\<close>

lemma unconfigured_flush_settles:
  "\<not> sk_ntfy sk \<Longrightarrow> \<not> sk_feed sk \<Longrightarrow> r_ntfy (process sk now r) \<and> r_feed (process sk now r)"
  by (simp add: process_def post_sink_def)

end
