(* ===== verification/Frames.thy ===== *)
theory Frames
  imports TS_Prelude "HOL-Library.Word"
begin

text \<open>
  Bounded reads (\<^verbatim>\<open>bounded_io.py\<close>) and the length-prefixed frames between the analysis and its sandboxed
  workers (\<^verbatim>\<open>sandbox/protocol.py\<close>).  A byte is an \<open>8 word\<close>.  A stream is any state with a read
  operation that returns the bytes it read and the state after it; the locale \<open>byte_source\<close> is its
  contract, which a file and a pipe provide, and the readers are correct for every such source, however
  it splits its bytes.  The JSON text of a response is an argument: the chunks the encoder yields.
\<close>

section \<open>Streams and refusals\<close>

type_synonym byte = "8 word"
type_synonym 's reader = "'s \<Rightarrow> nat \<Rightarrow> byte list \<times> 's"

datatype io_error = TooLarge nat | TimedOut | ShortRead nat nat | FrameTooLarge nat nat

definition CHUNK_BYTES :: nat where "CHUNK_BYTES = 1048576"
definition MAX_FRAME_BYTES :: nat where "MAX_FRAME_BYTES = 6 * (5 * 1024 * 1024) + 1024 * 1024"
definition MAX_RESPONSE_BYTES :: nat where "MAX_RESPONSE_BYTES = 32 * 1024 * 1024"

section \<open>Bounded reads\<close>

text \<open>
  \<^verbatim>\<open>read_capped\<close> with the bytes read so far: the loop ends because every round that goes on
  has added a byte and stayed within the limit.
\<close>

function capped_loop :: "'s reader \<Rightarrow> nat \<Rightarrow> 's \<Rightarrow> byte list \<Rightarrow> io_error + byte list" where
  "capped_loop read limit s out =
     (if fst (read s CHUNK_BYTES) = [] then Inr out
      else if length (out @ fst (read s CHUNK_BYTES)) > limit then Inl (TooLarge limit)
      else capped_loop read limit (snd (read s CHUNK_BYTES)) (out @ fst (read s CHUNK_BYTES)))"
  by pat_completeness auto
termination
  by (relation "measure (\<lambda>(read, limit, s, out). Suc limit - length out)") (auto simp: neq_Nil_conv)

declare capped_loop.simps [simp del]

definition read_capped :: "'s reader \<Rightarrow> nat \<Rightarrow> 's \<Rightarrow> io_error + byte list" where
  "read_capped read limit s = capped_loop read limit s []"

text \<open>
  The same under a total deadline.  \<open>clock i\<close> is the time the loop reads before its \<open>i\<close>-th read;
  lowering the socket timeout does not change which bytes arrive.
\<close>

function deadline_loop ::
  "'s reader \<Rightarrow> (nat \<Rightarrow> int) \<Rightarrow> int \<Rightarrow> nat \<Rightarrow> nat \<Rightarrow> 's \<Rightarrow> byte list \<Rightarrow> io_error + byte list" where
  "deadline_loop read clock deadline limit i s out =
     (if deadline - clock i \<le> 0 then Inl TimedOut
      else if fst (read s CHUNK_BYTES) = [] then Inr out
      else if length (out @ fst (read s CHUNK_BYTES)) > limit then Inl (TooLarge limit)
      else deadline_loop read clock deadline limit (Suc i) (snd (read s CHUNK_BYTES))
             (out @ fst (read s CHUNK_BYTES)))"
  by pat_completeness auto
termination
  by (relation "measure (\<lambda>(read, clock, deadline, limit, i, s, out). Suc limit - length out)")
     (auto simp: neq_Nil_conv)

declare deadline_loop.simps [simp del]

definition read_capped_with_deadline ::
  "'s reader \<Rightarrow> (nat \<Rightarrow> int) \<Rightarrow> int \<Rightarrow> nat \<Rightarrow> 's \<Rightarrow> io_error + byte list" where
  "read_capped_with_deadline read clock seconds limit s =
     deadline_loop read clock (clock 0 + seconds) limit 1 s []"

text \<open>A file: the size that \<^verbatim>\<open>stat\<close> declares, when it answers, and what is read afterwards.\<close>

definition file_read :: "byte list reader" where
  "file_read s n = (take n s, drop n s)"

definition read_file_capped :: "nat \<Rightarrow> nat option \<Rightarrow> byte list \<Rightarrow> io_error + byte list" where
  "read_file_capped limit declared content =
     (case declared of
        Some n \<Rightarrow> if n > limit then Inl (TooLarge limit) else read_capped file_read limit content
      | None \<Rightarrow> read_capped file_read limit content)"

section \<open>Frames\<close>

text \<open>\<^verbatim>\<open>struct.Struct(">I")\<close>: four bytes, the most significant first; a larger number raises.\<close>

definition pack_header :: "nat \<Rightarrow> byte list option" where
  "pack_header n =
     (if n < 2 ^ 32
      then Some [word_of_nat (n div 2 ^ 24), word_of_nat (n div 2 ^ 16), word_of_nat (n div 2 ^ 8), word_of_nat n]
      else None)"

definition unpack_header :: "byte list \<Rightarrow> nat" where
  "unpack_header bs = foldl (\<lambda>n b. n * 256 + unat b) 0 bs"

definition frame :: "byte list \<Rightarrow> byte list option" where
  "frame body = (case pack_header (length body) of None \<Rightarrow> None | Some h \<Rightarrow> Some (h @ body))"

text \<open>\<^verbatim>\<open>read_exact\<close> with the bytes read so far.\<close>

function exact_loop :: "'s reader \<Rightarrow> nat \<Rightarrow> 's \<Rightarrow> byte list \<Rightarrow> io_error + byte list \<times> 's" where
  "exact_loop read n s out =
     (if n \<le> length out then Inr (out, s)
      else if fst (read s (n - length out)) = [] then Inl (ShortRead n (length out))
      else exact_loop read n (snd (read s (n - length out))) (out @ fst (read s (n - length out))))"
  by pat_completeness auto
termination
  by (relation "measure (\<lambda>(read, n, s, out). n - length out)") (auto simp: neq_Nil_conv)

declare exact_loop.simps [simp del]

definition read_exact :: "'s reader \<Rightarrow> nat \<Rightarrow> 's \<Rightarrow> io_error + byte list \<times> 's" where
  "read_exact read n s = exact_loop read n s []"

definition read_frame :: "'s reader \<Rightarrow> nat \<Rightarrow> 's \<Rightarrow> io_error + byte list \<times> 's" where
  "read_frame read limit s =
     (case read_exact read 4 s of
        Inl e \<Rightarrow> Inl e
      | Inr (header, s') \<Rightarrow>
          (if unpack_header header > limit then Inl (FrameTooLarge (unpack_header header) limit)
           else read_exact read (unpack_header header) s'))"

section \<open>Responses\<close>

definition bytes_of :: "string \<Rightarrow> byte list" where
  "bytes_of t = map (\<lambda>c. word_of_nat (of_char c)) t"

definition response_too_large :: "byte list" where
  "response_too_large = bytes_of (''{'' @ [DQ] @ ''error'' @ [DQ] @ '':'' @ [DQ] @
     ''response exceeds the response byte cap'' @ [DQ] @ ''}'')"

definition response_not_serialised :: "string \<Rightarrow> byte list" where
  "response_not_serialised exc = bytes_of (''{'' @ [DQ] @ ''error'' @ [DQ] @ '':'' @ [DQ] @
     ''response could not be serialised: '' @ exc @ [DQ] @ ''}'')"

text \<open>
  The encoder yields chunks and may raise between two of them; the class name of the exception is
  what the refusal says.
\<close>

datatype encoding = Chunk "byte list" encoding | Finished | Raised string

fun encode_loop :: "nat \<Rightarrow> encoding \<Rightarrow> byte list \<Rightarrow> byte list" where
  "encode_loop cap Finished out = out"
| "encode_loop cap (Raised exc) out = response_not_serialised exc"
| "encode_loop cap (Chunk c rest) out =
     (if length (out @ c) > cap then response_too_large else encode_loop cap rest (out @ c))"

text \<open>\<open>None\<close> for a cap that is not a positive integer, which raises.\<close>

definition encode_response :: "int option \<Rightarrow> encoding \<Rightarrow> byte list option" where
  "encode_response max_bytes chunks =
     (let cap = (case max_bytes of None \<Rightarrow> int MAX_RESPONSE_BYTES
                 | Some m \<Rightarrow> min m (int MAX_RESPONSE_BYTES))
      in if cap < 1 then None else Some (encode_loop (nat cap) chunks []))"

definition encode :: "encoding \<Rightarrow> byte list option" where
  "encode chunks = (case encode_response None chunks of None \<Rightarrow> None | Some body \<Rightarrow> frame body)"

section \<open>Writing\<close>

text \<open>
  One round of \<^verbatim>\<open>write_frame\<close>: the time it reads, what \<^verbatim>\<open>select\<close> answers and what
  \<^verbatim>\<open>os.write\<close> does.
\<close>

datatype write_answer = Blocked | WriteFailed | Wrote nat
datatype select_answer = SelectFailed | NotWritable | Writable write_answer

datatype write_result = Written | WriteTimedOut | WriteError | NoProgress | StillWriting

text \<open>The rounds the outside world grants; the result comes with the bytes that went out.\<close>

fun write_loop :: "int \<Rightarrow> byte list \<Rightarrow> (int \<times> select_answer) list \<Rightarrow> byte list \<times> write_result" where
  "write_loop deadline [] rounds = ([], Written)"
| "write_loop deadline (b # bs) [] = ([], StillWriting)"
| "write_loop deadline (b # bs) ((now, sel) # rounds) =
     (if deadline - now \<le> 0 then ([], WriteTimedOut)
      else (case sel of
          SelectFailed \<Rightarrow> ([], WriteError)
        | NotWritable \<Rightarrow> ([], WriteTimedOut)
        | Writable Blocked \<Rightarrow> write_loop deadline (b # bs) rounds
        | Writable WriteFailed \<Rightarrow> ([], WriteError)
        | Writable (Wrote n) \<Rightarrow>
            (if n = 0 then ([], NoProgress)
             else (case write_loop deadline (drop n (b # bs)) rounds of
                     (sent, r) \<Rightarrow> (take n (b # bs) @ sent, r)))))"

definition write_frame :: "byte list \<Rightarrow> int \<Rightarrow> (int \<times> select_answer) list \<Rightarrow> (byte list \<times> write_result) option" where
  "write_frame body deadline rounds =
     (case frame body of None \<Rightarrow> None | Some payload \<Rightarrow> Some (write_loop deadline payload rounds))"

section \<open>The contract of a byte source\<close>

text \<open>
  A read hands out the next bytes of the stream, at most as many as asked for, and none only at the
  end or when none were asked for.
\<close>

locale byte_source =
  fixes read :: "'s reader" and content :: "'s \<Rightarrow> byte list"
  assumes in_order: "fst (read s n) @ content (snd (read s n)) = content s"
    and at_most: "length (fst (read s n)) \<le> n"
    and progress: "fst (read s n) = [] \<Longrightarrow> n = 0 \<or> content s = []"
begin

lemma split_off: "out @ fst (read s n) @ content (snd (read s n)) = out @ content s"
  by (simp add: in_order)

lemma no_more: "fst (read s (Suc n)) = [] \<Longrightarrow> content s = []"
  using progress by blast

lemma capped_loop_exact:
  "length out \<le> limit \<Longrightarrow> capped_loop read limit s out =
     (if length (out @ content s) \<le> limit then Inr (out @ content s) else Inl (TooLarge limit))"
proof (induction "Suc limit - length out" arbitrary: s out rule: less_induct)
  case less
  let ?c = "fst (read s CHUNK_BYTES)" and ?s = "snd (read s CHUNK_BYTES)"
  consider (fin) "?c = []" | (over) "?c \<noteq> []" "length (out @ ?c) > limit"
    | (more) "?c \<noteq> []" "length (out @ ?c) \<le> limit" by linarith
  then show ?case
  proof cases
    case fin
    then have "content s = []" using progress [of s CHUNK_BYTES] by (simp add: CHUNK_BYTES_def)
    with fin less.prems show ?thesis by (simp add: capped_loop.simps)
  next
    case over
    then have "length (out @ content s) > limit" by (simp flip: split_off [of out s CHUNK_BYTES])
    with over show ?thesis by (simp add: capped_loop.simps [of read limit s out])
  next
    case more
    then have "length out < length (out @ ?c)" by simp
    then have "capped_loop read limit ?s (out @ ?c) =
        (if length ((out @ ?c) @ content ?s) \<le> limit then Inr ((out @ ?c) @ content ?s) else Inl (TooLarge limit))"
      using more(2) less.prems by (intro less.hyps) linarith+
    with more show ?thesis
      by (simp add: capped_loop.simps [of read limit s out] split_off [unfolded append_assoc [symmetric]] in_order)
  qed
qed

text \<open>A capped read returns the whole stream or refuses; it never returns a part.\<close>

lemma capped_exact:
  "read_capped read limit s =
     (if length (content s) \<le> limit then Inr (content s) else Inl (TooLarge limit))"
  by (simp add: read_capped_def capped_loop_exact)

lemma deadline_loop_exact:
  "length out \<le> limit \<Longrightarrow> deadline_loop read clock deadline limit i s out \<in>
     {Inl TimedOut, if length (out @ content s) \<le> limit then Inr (out @ content s) else Inl (TooLarge limit)}"
proof (induction "Suc limit - length out" arbitrary: s out i rule: less_induct)
  case less
  let ?c = "fst (read s CHUNK_BYTES)" and ?s = "snd (read s CHUNK_BYTES)"
  consider (late) "deadline - clock i \<le> 0" | (fin) "0 < deadline - clock i" "?c = []"
    | (over) "0 < deadline - clock i" "?c \<noteq> []" "length (out @ ?c) > limit"
    | (more) "0 < deadline - clock i" "?c \<noteq> []" "length (out @ ?c) \<le> limit" by linarith
  then show ?case
  proof cases
    case late
    then show ?thesis by (simp add: deadline_loop.simps [of read clock deadline limit i s out])
  next
    case fin
    then have "content s = []" using progress [of s CHUNK_BYTES] by (simp add: CHUNK_BYTES_def)
    with fin less.prems show ?thesis by (simp add: deadline_loop.simps [of read clock deadline limit i s out])
  next
    case over
    then have "length (out @ content s) > limit" by (simp flip: split_off [of out s CHUNK_BYTES])
    with over show ?thesis by (simp add: deadline_loop.simps [of read clock deadline limit i s out])
  next
    case more
    then have "length out < length (out @ ?c)" by simp
    then have "deadline_loop read clock deadline limit (Suc i) ?s (out @ ?c) \<in> {Inl TimedOut,
        if length ((out @ ?c) @ content ?s) \<le> limit then Inr ((out @ ?c) @ content ?s) else Inl (TooLarge limit)}"
      using more(3) less.prems by (intro less.hyps) linarith+
    moreover have "(out @ ?c) @ content ?s = out @ content s" by (simp add: in_order)
    moreover have "deadline_loop read clock deadline limit i s out =
        deadline_loop read clock deadline limit (Suc i) ?s (out @ ?c)"
      using more by (simp add: deadline_loop.simps [of read clock deadline limit i s out])
    ultimately show ?thesis by (simp only:)
  qed
qed

lemma exact_loop_exact:
  "length out \<le> n \<Longrightarrow>
     (if n \<le> length (out @ content s)
      then \<exists>s'. exact_loop read n s out = Inr (take n (out @ content s), s') \<and>
             content s' = drop (n - length out) (content s)
      else \<exists>k < n. exact_loop read n s out = Inl (ShortRead n k))"
proof (induction "n - length out" arbitrary: s out rule: less_induct)
  case less
  let ?c = "fst (read s (n - length out))" and ?s = "snd (read s (n - length out))"
  consider (fin) "n \<le> length out" | (eof) "length out < n" "?c = []" | (more) "length out < n" "?c \<noteq> []"
    by linarith
  then show ?case
  proof cases
    case fin
    with less.prems show ?thesis by (simp add: exact_loop.simps)
  next
    case eof
    then have "content s = []" using progress [of s "n - length out"] by simp
    with eof show ?thesis by (simp add: exact_loop.simps [of read n s out])
  next
    case more
    have c: "length (out @ ?c) \<le> n" using at_most [of s "n - length out"] more by simp
    moreover from more have "length out < length (out @ ?c)" by simp
    ultimately have ih: "if n \<le> length ((out @ ?c) @ content ?s)
      then \<exists>s'. exact_loop read n ?s (out @ ?c) = Inr (take n ((out @ ?c) @ content ?s), s') \<and>
             content s' = drop (n - length (out @ ?c)) (content ?s)
      else \<exists>k < n. exact_loop read n ?s (out @ ?c) = Inl (ShortRead n k)"
      using more by (intro less.hyps) linarith+
    have d: "drop (n - length (out @ ?c)) (content ?s) = drop (n - length out) (content s)"
      using c by (simp flip: in_order [of s "n - length out"])
    have e: "(out @ ?c) @ content ?s = out @ content s" by (simp add: in_order)
    have step: "exact_loop read n s out = exact_loop read n ?s (out @ ?c)"
      using more by (simp add: exact_loop.simps [of read n s out])
    show ?thesis using ih unfolding d e step .
  qed
qed

lemma read_exact_content:
  assumes "n \<le> length (content s)"
  obtains s' where "read_exact read n s = Inr (take n (content s), s')" "content s' = drop n (content s)"
  using exact_loop_exact [of "[]" n s] assms that by (auto simp: read_exact_def)

lemma read_exact_short:
  assumes "length (content s) < n"
  obtains k where "read_exact read n s = Inl (ShortRead n k)" "k < n"
  using exact_loop_exact [of "[]" n s] assms that by (auto simp: read_exact_def)

text \<open>A deadline adds one refusal and never shortens what is returned.\<close>

lemma deadline_exact:
  "read_capped_with_deadline read clock seconds limit s \<in>
     {Inl TimedOut, if length (content s) \<le> limit then Inr (content s) else Inl (TooLarge limit)}"
  using deadline_loop_exact [of "[]" limit clock "clock 0 + seconds" 1 s, OF list.size(3) [THEN eq_imp_le, THEN order_trans, OF le0]]
  unfolding read_capped_with_deadline_def append_Nil by blast

text \<open>What a frame reader returns is the framed part of the stream, within the limit.\<close>

lemma read_frame_sound:
  assumes "read_frame read limit s = Inr (body, s')"
  shows "length body \<le> limit \<and> content s = take 4 (content s) @ body @ content s' \<and>
    unpack_header (take 4 (content s)) = length body"
proof -
  have four: "4 \<le> length (content s)"
  proof (rule ccontr)
    assume "\<not> 4 \<le> length (content s)"
    then have "length (content s) < 4" by simp
    then obtain k where "read_exact read 4 s = Inl (ShortRead 4 k)" by (rule read_exact_short)
    with assms show False by (simp add: read_frame_def)
  qed
  obtain t where t: "read_exact read 4 s = Inr (take 4 (content s), t)" "content t = drop 4 (content s)"
    using read_exact_content [OF four] .
  let ?n = "unpack_header (take 4 (content s))"
  from assms t have le: "?n \<le> limit" and body: "read_exact read ?n t = Inr (body, s')"
    by (simp_all add: read_frame_def split: if_splits)
  have n: "?n \<le> length (content t)"
  proof (rule ccontr)
    assume "\<not> ?n \<le> length (content t)"
    then have "length (content t) < ?n" by simp
    then obtain k where "read_exact read ?n t = Inl (ShortRead ?n k)" by (rule read_exact_short)
    with body show False by simp
  qed
  obtain u where "read_exact read ?n t = Inr (take ?n (content t), u)" "content u = drop ?n (content t)"
    using read_exact_content [OF n] .
  with body have "body = take ?n (content t)" "content s' = drop ?n (content t)" by simp_all
  moreover have "content s = take 4 (content s) @ content t" by (simp add: t(2))
  ultimately show ?thesis using le n by (metis append_take_drop_id length_take min.absorb2)
qed

lemma read_frame_frame:
  assumes "content s = h @ body @ rest" and "length h = 4" and "unpack_header h = length body"
    and "length body \<le> limit"
  obtains s' where "read_frame read limit s = Inr (body, s')" "content s' = rest"
proof -
  have "4 \<le> length (content s)" using assms by simp
  then obtain t where t: "read_exact read 4 s = Inr (take 4 (content s), t)" "content t = drop 4 (content s)"
    by (rule read_exact_content)
  with assms have t': "read_exact read 4 s = Inr (h, t)" "content t = body @ rest" by simp_all
  then have "length body \<le> length (content t)" by simp
  then obtain u where "read_exact read (length body) t = Inr (take (length body) (content t), u)"
    "content u = drop (length body) (content t)" by (rule read_exact_content)
  with t' assms that show ?thesis by (simp add: read_frame_def)
qed

lemma read_frame_refused:
  assumes "content s = h @ rest" and "length h = 4" and "limit < unpack_header h"
  shows "read_frame read limit s = Inl (FrameTooLarge (unpack_header h) limit)"
proof -
  have "4 \<le> length (content s)" using assms by simp
  then obtain t where "read_exact read 4 s = Inr (take 4 (content s), t)" by (rule read_exact_content)
  with assms show ?thesis by (simp add: read_frame_def)
qed

end

section \<open>Files and pipes are byte sources\<close>

text \<open>A pipe hands out the segments the writer's calls left in it, each possibly in several reads.\<close>

fun pipe_read :: "byte list list reader" where
  "pipe_read [] n = ([], [])"
| "pipe_read (seg # segs) n = (if seg = [] then pipe_read segs n else (take n seg, drop n seg # segs))"

interpretation file_src: byte_source file_read "\<lambda>s. s"
  by unfold_locales (auto simp: file_read_def)

lemma pipe_contract:
  "fst (pipe_read s n) @ concat (snd (pipe_read s n)) = concat s"
  "length (fst (pipe_read s n)) \<le> n"
  "fst (pipe_read s n) = [] \<Longrightarrow> n = 0 \<or> concat s = []"
  by (induction s n rule: pipe_read.induct) (auto split: if_splits)

interpretation pipe_src: byte_source pipe_read concat
  by unfold_locales (rule pipe_contract | erule pipe_contract)+

section \<open>Headers\<close>

lemma unpack_pack:
  assumes "n < 2 ^ 32"
  shows "unpack_header [word_of_nat (n div 2 ^ 24), word_of_nat (n div 2 ^ 16), word_of_nat (n div 2 ^ 8), word_of_nat n] = n"
proof -
  have b: "unat (word_of_nat k :: byte) = k mod 256" for k
    by (simp add: unat_of_nat)
  have "((n div 16777216 mod 256 * 256 + n div 65536 mod 256) * 256 + n div 256 mod 256) * 256 + n mod 256 = n"
  proof -
    have "n div 65536 = n div 256 div 256" "n div 16777216 = n div 65536 div 256"
      by (simp_all flip: div_mult2_eq)
    moreover have "n div 16777216 < 256" using assms by simp
    ultimately show ?thesis by simp
  qed
  moreover have "n div 16777216 mod 256 = n div 16777216" using assms by simp
  ultimately show ?thesis by (simp add: unpack_header_def b)
qed

lemma frame_parts:
  assumes "frame body = Some f"
  obtains h where "f = h @ body" "length h = 4" "unpack_header h = length body" "length body < 2 ^ 32"
proof -
  from assms have lt: "length body < 2 ^ 32"
    by (simp add: frame_def pack_header_def split: if_splits)
  let ?h = "[word_of_nat (length body div 2 ^ 24), word_of_nat (length body div 2 ^ 16),
    word_of_nat (length body div 2 ^ 8), word_of_nat (length body)] :: byte list"
  have "f = ?h @ body" using assms lt by (simp add: frame_def pack_header_def)
  moreover have "length ?h = 4" by simp
  ultimately show ?thesis using unpack_pack [OF lt] lt by (rule that)
qed

section \<open>Properties\<close>

text \<open>C25: A frame survives any splitting of the pipe.  However a written frame and whatever follows it
  are cut into segments, the reader returns exactly the framed body and leaves exactly what follows; a
  frame longer than the limit is refused by its header alone.\<close>

theorem frame_roundtrip:
  assumes "frame body = Some f" and "concat segments = f @ rest"
  shows "if length body \<le> limit
    then \<exists>left. read_frame pipe_read limit segments = Inr (body, left) \<and> concat left = rest
    else read_frame pipe_read limit segments = Inl (FrameTooLarge (length body) limit)"
proof -
  from assms(1) obtain h where h: "f = h @ body" "length h = 4" "unpack_header h = length body"
    by (rule frame_parts)
  show ?thesis
  proof (cases "length body \<le> limit")
    case True
    have "concat segments = h @ body @ rest" using assms(2) h(1) by simp
    from pipe_src.read_frame_frame [OF this h(2,3) True] True show ?thesis by auto
  next
    case False
    have "concat segments = h @ (body @ rest)" using assms(2) h(1) by simp
    from pipe_src.read_frame_refused [OF this h(2), of limit] False h(3) show ?thesis by simp
  qed
qed

theorem frame_roundtrip_witness:
  "\<exists>left. read_frame pipe_read 5 [[0, 0], [0], [], [2, 7], [9, 1]] = Inr ([7, 9], left) \<and> concat left = [1]"
  using frame_roundtrip [of "[7, 9]" "[0, 0, 0, 2, 7, 9]" "[[0, 0], [0], [], [2, 7], [9, 1]]" "[1]" 5]
  by (simp add: frame_def pack_header_def)

text \<open>A bounded file read is all or nothing.  It returns the whole content, or refuses because
  the declared or the actual size is over the limit; a read under a deadline may time out instead, and
  never returns a part either.\<close>

theorem whole_or_refused:
  "read_file_capped limit declared content =
     (if length content \<le> limit \<and> (case declared of None \<Rightarrow> True | Some n \<Rightarrow> n \<le> limit)
      then Inr content else Inl (TooLarge limit)) \<and>
   read_capped_with_deadline file_read clock seconds limit content \<in>
     {Inl TimedOut, if length content \<le> limit then Inr content else Inl (TooLarge limit)}"
  using file_src.deadline_exact [of clock seconds limit content]
  by (auto simp: read_file_capped_def file_src.capped_exact split: option.splits)

lemma write_loop_prefix:
  "write_loop deadline payload rounds = (sent, r) \<Longrightarrow>
     (\<exists>rest. payload = sent @ rest) \<and> (r = Written \<longleftrightarrow> sent = payload)"
proof (induction deadline payload rounds arbitrary: sent r rule: write_loop.induct)
  case (3 deadline b bs now sel rounds)
  consider (wrote) n where "0 < deadline - now" "sel = Writable (Wrote n)" "n \<noteq> 0"
    | (blocked) "0 < deadline - now" "sel = Writable Blocked"
    | (other) "sent = []" "r \<noteq> Written"
    using "3.prems" by (auto split: select_answer.splits write_answer.splits if_splits prod.splits)
  then show ?case
  proof cases
    case wrote
    obtain sn r' where m: "write_loop deadline (drop n (b # bs)) rounds = (sn, r')" by (meson surj_pair)
    with wrote "3.prems" have s: "sent = take n (b # bs) @ sn" "r = r'" by simp_all
    from "3.IH"(2) [OF _ wrote(2) refl wrote(3) m] wrote(1)
    have "(\<exists>rest. drop n (b # bs) = sn @ rest) \<and> (r' = Written \<longleftrightarrow> sn = drop n (b # bs))" by simp
    then show ?thesis unfolding s by (metis append_assoc append_take_drop_id same_append_eq)
  next
    case blocked
    with "3.prems" "3.IH"(1) show ?thesis by simp
  qed simp
qed auto

text \<open>A writer never sends anything but a prefix of its frame, and reports success exactly when
  the whole frame is out, whatever the descriptor and the clock do.\<close>

theorem writer_sends_prefix:
  "case write_frame body deadline rounds of
     None \<Rightarrow> 2 ^ 32 \<le> length body
   | Some (sent, result) \<Rightarrow>
       (\<exists>f rest. frame body = Some f \<and> f = sent @ rest \<and> (result = Written \<longleftrightarrow> rest = []))"
proof (cases "frame body")
  case None
  then show ?thesis by (simp add: write_frame_def frame_def pack_header_def split: if_splits)
next
  case (Some f)
  obtain sent r where w: "write_loop deadline f rounds = (sent, r)" by (meson surj_pair)
  from write_loop_prefix [OF w] obtain rest where "f = sent @ rest" "r = Written \<longleftrightarrow> sent = f" by blast
  with Some w show ?thesis by (auto simp: write_frame_def)
qed

text \<open>What the encoder yields, when it does not raise.\<close>

fun yielded :: "encoding \<Rightarrow> byte list option" where
  "yielded Finished = Some []"
| "yielded (Raised exc) = None"
| "yielded (Chunk c rest) = (case yielded rest of None \<Rightarrow> None | Some bs \<Rightarrow> Some (c @ bs))"

lemma encode_loop_cases:
  "length out \<le> cap \<Longrightarrow> encode_loop cap chunks out = response_too_large \<or>
     (\<exists>exc. encode_loop cap chunks out = response_not_serialised exc) \<or>
     (\<exists>bs. yielded chunks = Some bs \<and> encode_loop cap chunks out = out @ bs \<and> length (out @ bs) \<le> cap)"
  by (induction cap chunks out rule: encode_loop.induct) (force split: option.splits)+

text \<open>A response body is the whole encoded text within the cap, or one of the two refusals.\<close>

lemma response_whole_or_refusal:
  "encode_response max_bytes chunks = Some body \<Longrightarrow>
     body = response_too_large \<or> (\<exists>exc. body = response_not_serialised exc) \<or>
     yielded chunks = Some body \<and> length body \<le> MAX_RESPONSE_BYTES"
proof -
  let ?cap = "nat (case max_bytes of None \<Rightarrow> int MAX_RESPONSE_BYTES | Some m \<Rightarrow> min m (int MAX_RESPONSE_BYTES))"
  assume "encode_response max_bytes chunks = Some body"
  then have "body = encode_loop ?cap chunks []"
    by (simp add: encode_response_def Let_def split: if_splits)
  moreover have "?cap \<le> MAX_RESPONSE_BYTES" by (cases max_bytes) (simp_all add: nat_le_iff)
  ultimately show ?thesis using encode_loop_cases [of "[]" ?cap chunks] by auto
qed

end
