(* ===== verification/Glob.thy ===== *)
theory Glob
  imports TS_Prelude
begin

text \<open>
  The table-driven glob matcher of \<^verbatim>\<open>expansion.py\<close>: the compilation of a pattern into tokens
  (\<^verbatim>\<open>_glob_tokens\<close>), the table pass for prefixes (\<^verbatim>\<open>_glob_prefix_ends\<close>), the leftmost-longest
  search (\<^verbatim>\<open>_glob_find\<close>) and the substitution (\<^verbatim>\<open>_glob_sub\<close>), with the step budget they share.
  The matcher's meaning is \<open>gmatch\<close>.  A table entry that the code initialises with the
  sentinel \<^verbatim>\<open>_MAX_GLOB_STEPS + 1\<close> is \<open>None\<close>: a start index never reaches the sentinel because the
  budget runs out first.
\<close>

section \<open>Bracket expressions\<close>

text \<open>
  What \<^verbatim>\<open>re.compile("[" + body + "]")\<close> accepts: ranges and single code points, and the categories of
  the escapes.
\<close>

datatype class_item = Range nat nat | Digit bool | Space bool | Word bool

definition item_matches :: "char \<Rightarrow> class_item \<Rightarrow> bool" where
  "item_matches c it =
     (case it of
        Range lo hi \<Rightarrow> lo \<le> of_char c \<and> of_char c \<le> hi
      | Digit b \<Rightarrow> is_digit c = b
      | Space b \<Rightarrow> py_isspace c = b
      | Word b \<Rightarrow> is_word c = b)"

definition hex_digit :: "char \<Rightarrow> bool" where
  "hex_digit c \<longleftrightarrow> is_digit c \<or> c \<in> set ''abcdefABCDEF''"

definition hex_val :: "char \<Rightarrow> nat" where
  "hex_val c = (if is_digit c then digit_val c else (of_char (lower_char c) :: nat) - 87)"

definition octal_digit :: "char \<Rightarrow> bool" where "octal_digit c \<longleftrightarrow> c \<in> set ''01234567''"

definition ascii_letter :: "char \<Rightarrow> bool" where
  "ascii_letter c = (let n = (of_char c :: nat) in 65 \<le> n \<and> n \<le> 90 \<or> 97 \<le> n \<and> n \<le> 122)"

definition point :: "char \<Rightarrow> class_item" where "point c = Range (of_char c) (of_char c)"

text \<open>A fixed number of hexadecimal digits.\<close>

definition hex_escape :: "nat \<Rightarrow> string \<Rightarrow> (class_item \<times> string) option" where
  "hex_escape k s =
     (let ds = takeWhile hex_digit (take k s); n = foldl (\<lambda>n d. 16 * n + hex_val d) 0 ds in
      if length ds = k \<and> n \<le> 1114111 then Some (Range n n, drop k s) else None)"

text \<open>The escape after a backslash, \<open>None\<close> where the compiler raises.\<close>

definition class_escape :: "string \<Rightarrow> (class_item \<times> string) option" where
  "class_escape s =
     (case s of
        [] \<Rightarrow> None
      | c # rest \<Rightarrow>
          (if c = CHR ''a'' then Some (Range 7 7, rest)
           else if c = CHR ''b'' then Some (Range 8 8, rest)
           else if c = CHR ''f'' then Some (Range 12 12, rest)
           else if c = CHR ''n'' then Some (Range 10 10, rest)
           else if c = CHR ''r'' then Some (Range 13 13, rest)
           else if c = CHR ''t'' then Some (Range 9 9, rest)
           else if c = CHR ''v'' then Some (Range 11 11, rest)
           else if c = CHR ''d'' then Some (Digit True, rest)
           else if c = CHR ''D'' then Some (Digit False, rest)
           else if c = CHR ''s'' then Some (Space True, rest)
           else if c = CHR ''S'' then Some (Space False, rest)
           else if c = CHR ''w'' then Some (Word True, rest)
           else if c = CHR ''W'' then Some (Word False, rest)
           else if c = CHR ''x'' then hex_escape 2 rest
           else if c = CHR ''u'' then hex_escape 4 rest
           else if c = CHR ''U'' then hex_escape 8 rest
           else if octal_digit c then
             (let ds = takeWhile octal_digit (take 3 s); n = foldl (\<lambda>n d. 8 * n + digit_val d) 0 ds in
              if n > 255 then None else Some (Range n n, drop (length ds) s))
           else if ascii_letter c \<or> is_digit c then None
           else Some (point c, rest)))"

definition class_atom :: "string \<Rightarrow> (class_item \<times> string) option" where
  "class_atom s =
     (case s of [] \<Rightarrow> None
      | c # rest \<Rightarrow> if c = BSL then class_escape rest else Some (point c, rest))"

text \<open>
  The body holds no closing bracket.  An atom, then perhaps a hyphen and a second atom: a hyphen
  before the closing bracket stands for itself, and a range of categories or backwards raises.
\<close>

function class_items :: "string \<Rightarrow> class_item list option" where
  "class_items s =
     (case class_atom s of
        None \<Rightarrow> None
      | Some (a, rest) \<Rightarrow>
          (if length s \<le> length rest then None
           else if rest = [] then Some [a]
           else if hd rest \<noteq> CHR ''-''
           then (case class_items rest of None \<Rightarrow> None | Some its \<Rightarrow> Some (a # its))
           else if tl rest = [] then Some [a, point (CHR ''-'')]
           else (case class_atom (tl rest) of
                   None \<Rightarrow> None
                 | Some (b, rest') \<Rightarrow>
                     (case (a, b) of
                        (Range lo x, Range hi y) \<Rightarrow>
                          (if hi < lo \<or> length (tl rest) \<le> length rest' then None
                           else if rest' = [] then Some [Range lo hi]
                           else (case class_items rest' of
                                   None \<Rightarrow> None | Some its \<Rightarrow> Some (Range lo hi # its)))
                      | _ \<Rightarrow> None))))"
  by pat_completeness auto
termination
proof (relation "measure length")
  show "wf (measure length :: (string \<times> string) set)" by simp
qed (auto simp: neq_Nil_conv)

declare class_items.simps [simp del]

section \<open>Tokens\<close>

datatype gtok = Lit char | Any | Star | Class bool "class_item list"

definition MAX_GLOB_PATTERN_LEN :: nat where "MAX_GLOB_PATTERN_LEN = 256"
definition MAX_GLOB_STEPS :: int where "MAX_GLOB_STEPS = 8000000"

text \<open>\<^verbatim>\<open>re.error\<close>, which every caller turns into "unresolved".\<close>

datatype glob_error = PatternTooLong | BadClass | OverBudget

definition compile_class :: "string \<Rightarrow> glob_error + gtok" where
  "compile_class body =
     (let negated = (body \<noteq> [] \<and> hd body \<in> {CHR ''!'', CHR ''^''}) in
      case class_items (if negated then tl body else body) of
        None \<Rightarrow> Inl BadClass | Some its \<Rightarrow> Inr (Class negated its))"

definition push :: "gtok \<Rightarrow> glob_error + gtok list \<Rightarrow> glob_error + gtok list" where
  "push t r = (case r of Inl e \<Rightarrow> Inl e | Inr ts \<Rightarrow> Inr (t # ts))"

text \<open>Adjacent stars are one star.\<close>

function tokens_of :: "string \<Rightarrow> glob_error + gtok list" where
  "tokens_of [] = Inr []"
| "tokens_of (c # s) =
     (if c = BSL \<and> s \<noteq> [] then push (Lit (hd s)) (tokens_of (tl s))
      else if c = CHR ''*'' then push Star (tokens_of (dropWhile (\<lambda>d. d = CHR ''*'') s))
      else if c = CHR ''?'' then push Any (tokens_of s)
      else if c = CHR ''['' then
        (case py_find s '']'' of
           None \<Rightarrow> push (Lit c) (tokens_of s)
         | Some k \<Rightarrow>
             (case compile_class (take k s) of
                Inl e \<Rightarrow> Inl e
              | Inr t \<Rightarrow> push t (tokens_of (drop (Suc k) s))))
      else push (Lit c) (tokens_of s))"
  by pat_completeness auto
termination
  by (relation "measure length") (auto simp: neq_Nil_conv le_imp_less_Suc length_dropWhile_le)

definition glob_tokens :: "string \<Rightarrow> glob_error + gtok list" where
  "glob_tokens pat = (if length pat > MAX_GLOB_PATTERN_LEN then Inl PatternTooLong else tokens_of pat)"

fun tok_matches :: "gtok \<Rightarrow> char \<Rightarrow> bool" where
  "tok_matches Any c = True"
| "tok_matches (Class negated its) c = (list_ex (item_matches c) its \<noteq> negated)"
| "tok_matches (Lit d) c = (c = d)"
| "tok_matches Star c = False"

section \<open>What a glob matches\<close>

fun gmatch :: "gtok list \<Rightarrow> string \<Rightarrow> bool" where
  "gmatch [] s = (s = [])"
| "gmatch (Star # ts) [] = gmatch ts []"
| "gmatch (Star # ts) (c # s) = (gmatch ts (c # s) \<or> gmatch (Star # ts) s)"
| "gmatch (t # ts) [] = False"
| "gmatch (t # ts) (c # s) = (tok_matches t c \<and> gmatch ts s)"

section \<open>The table\<close>

text \<open>
  The row of the table: for each number of tokens the least start from which these tokens match up to
  the current position.
\<close>

type_synonym glob_entry = "nat option"

fun min_entry :: "glob_entry \<Rightarrow> glob_entry \<Rightarrow> glob_entry" where
  "min_entry None y = y"
| "min_entry x None = x"
| "min_entry (Some x) (Some y) = Some (min x y)"

text \<open>The pass over the row that lets a star match nothing.\<close>

fun close_stars :: "gtok list \<Rightarrow> glob_entry list \<Rightarrow> glob_entry list" where
  "close_stars (t # ts) (x # y # row) = x # close_stars ts ((if t = Star then min_entry y x else y) # row)"
| "close_stars ts row = row"

text \<open>The entries after the first when the character \<open>c\<close> is read.\<close>

fun advance :: "char \<Rightarrow> gtok list \<Rightarrow> glob_entry list \<Rightarrow> glob_entry list" where
  "advance c (t # ts) (x # y # row) =
     min_entry (if t = Star then y else None) (if t = Star \<or> tok_matches t c then x else None)
       # advance c ts (y # row)"
| "advance c ts row = []"

definition first_row :: "gtok list \<Rightarrow> nat \<Rightarrow> glob_entry list" where
  "first_row ts start = close_stars ts (Some start # replicate (length ts) None)"

definition next_row :: "gtok list \<Rightarrow> glob_entry \<Rightarrow> char \<Rightarrow> glob_entry list \<Rightarrow> glob_entry list" where
  "next_row ts new c row = close_stars ts (new # advance c ts row)"

section \<open>Prefixes\<close>

text \<open>The positions after \<open>position\<close> where a match of a prefix ends; the budget is spent by the row.\<close>

fun prefix_scan :: "gtok list \<Rightarrow> string \<Rightarrow> nat \<Rightarrow> glob_entry list \<Rightarrow> int \<Rightarrow> glob_error + nat list \<times> int" where
  "prefix_scan ts [] position row budget = Inr ([], budget)"
| "prefix_scan ts (c # s) position row budget =
     (let left = budget - int (Suc (length ts)); row' = next_row ts None c row in
      if left < 0 then Inl OverBudget
      else (case prefix_scan ts s (Suc position) row' left of
              Inl e \<Rightarrow> Inl e
            | Inr (ends, b) \<Rightarrow> Inr ((if last row' \<noteq> None then Suc position # ends else ends), b)))"

definition glob_prefix_ends :: "gtok list \<Rightarrow> string \<Rightarrow> int \<Rightarrow> glob_error + nat list \<times> int" where
  "glob_prefix_ends ts s budget =
     (let row = first_row ts 0 in
      case prefix_scan ts s 0 row budget of
        Inl e \<Rightarrow> Inl e
      | Inr (ends, b) \<Rightarrow> Inr ((if last row \<noteq> None then 0 # ends else ends), b))"

section \<open>Search\<close>

definition star_free :: "gtok list \<Rightarrow> bool" where "star_free ts = (Star \<notin> set ts)"

text \<open>\<open>s\<close> is the text from \<open>position\<close> on; \<open>k\<close> positions are left to try.\<close>

fun fixed_scan :: "gtok list \<Rightarrow> nat \<Rightarrow> string \<Rightarrow> nat \<Rightarrow> int \<Rightarrow> glob_error + nat option \<times> int" where
  "fixed_scan ts 0 s position budget = Inr (None, budget)"
| "fixed_scan ts (Suc k) s position budget =
     (let left = budget - int (length ts) in
      if left < 0 then Inl OverBudget
      else if list_all2 tok_matches ts (take (length ts) s) then Inr (Some position, left)
      else fixed_scan ts k (tl s) (Suc position) left)"

definition glob_fixed_find :: "gtok list \<Rightarrow> string \<Rightarrow> nat \<Rightarrow> int \<Rightarrow> glob_error + nat option \<times> int" where
  "glob_fixed_find ts s start budget =
     (if ts = [] then Inr (if start \<le> length s then Some start else None, budget)
      else fixed_scan ts (Suc (length s) - length ts - start) (drop start s) start budget)"

fun better :: "(nat \<times> nat) option \<Rightarrow> nat \<times> nat \<Rightarrow> (nat \<times> nat) option" where
  "better None found = Some found"
| "better (Some (b, e)) (b', e') = (if b' < b \<or> b' = b \<and> e' > e then Some (b', e') else Some (b, e))"

definition update_best :: "(nat \<times> nat) option \<Rightarrow> glob_entry \<Rightarrow> nat \<Rightarrow> (nat \<times> nat) option" where
  "update_best best x position = (case x of None \<Rightarrow> best | Some b \<Rightarrow> better best (b, position))"

fun find_scan ::
  "gtok list \<Rightarrow> string \<Rightarrow> nat \<Rightarrow> glob_entry list \<Rightarrow> (nat \<times> nat) option \<Rightarrow> int \<Rightarrow>
   glob_error + (nat \<times> nat) option \<times> int" where
  "find_scan ts [] position row best budget = Inr (best, budget)"
| "find_scan ts (c # s) position row best budget =
     (let left = budget - int (Suc (length ts)); row' = next_row ts (Some (Suc position)) c row in
      if left < 0 then Inl OverBudget
      else find_scan ts s (Suc position) row' (update_best best (last row') (Suc position)) left)"

definition glob_find :: "gtok list \<Rightarrow> string \<Rightarrow> nat \<Rightarrow> int \<Rightarrow> glob_error + (nat \<times> nat) option \<times> int" where
  "glob_find ts s start budget =
     (if star_free ts
      then (case glob_fixed_find ts s start budget of
              Inl e \<Rightarrow> Inl e
            | Inr (None, b) \<Rightarrow> Inr (None, b)
            | Inr (Some i, b) \<Rightarrow> Inr (Some (i, i + length ts), b))
      else (let row = first_row ts start in
            find_scan ts (drop start s) start row (update_best None (last row) start) budget))"

section \<open>Substitution\<close>

text \<open>
  The loop over the matches.  \<open>done_to\<close> is \<^verbatim>\<open>last\<close>, \<open>remaining\<close> is \<^verbatim>\<open>None\<close> for "every match".  The loop
  need not end, so it is partial: \<open>None\<close> is "does not return".
\<close>

partial_function (option) fixed_subs ::
  "gtok list \<Rightarrow> string \<Rightarrow> string \<Rightarrow> nat \<Rightarrow> nat option \<Rightarrow> string \<Rightarrow> int \<Rightarrow> (glob_error + string \<times> int) option" where
  "fixed_subs ts s rep position remaining acc budget =
     (if remaining = Some 0 then Some (Inr (acc @ drop position s, budget))
      else (case glob_fixed_find ts s position budget of
          Inl e \<Rightarrow> Some (Inl e)
        | Inr (None, b) \<Rightarrow> Some (Inr (acc @ drop position s, b))
        | Inr (Some i, b) \<Rightarrow>
            fixed_subs ts s rep (i + length ts) (map_option (\<lambda>n. n - 1) remaining)
              (acc @ drop position (take i s) @ rep) b))"

partial_function (option) star_subs ::
  "gtok list \<Rightarrow> string \<Rightarrow> string \<Rightarrow> nat \<Rightarrow> nat \<Rightarrow> nat option \<Rightarrow> string \<Rightarrow> int \<Rightarrow>
   (glob_error + string \<times> int) option" where
  "star_subs ts s rep done_to position remaining acc budget =
     (if remaining = Some 0 then Some (Inr (acc @ drop done_to s, budget))
      else (case glob_find ts s position budget of
          Inl e \<Rightarrow> Some (Inl e)
        | Inr (None, b) \<Rightarrow> Some (Inr (acc @ drop done_to s, b))
        | Inr (Some (i, j), b) \<Rightarrow>
            (if j = i \<and> j < length s
             then star_subs ts s rep (Suc j) (Suc j) (map_option (\<lambda>n. n - 1) remaining)
                    (acc @ drop done_to (take i s) @ rep @ [s ! j]) b
             else star_subs ts s rep j j (map_option (\<lambda>n. n - 1) remaining)
                    (acc @ drop done_to (take i s) @ rep) b)))"

text \<open>\<open>first_only\<close> is \<^verbatim>\<open>count == 1\<close>; an empty pattern matches around every character.\<close>

definition glob_sub ::
  "gtok list \<Rightarrow> string \<Rightarrow> string \<Rightarrow> bool \<Rightarrow> int \<Rightarrow> (glob_error + string \<times> int) option" where
  "glob_sub ts s rep first_only budget =
     (if ts = []
      then Some (Inr (if first_only then rep @ s
                      else rep @ py_join rep (map (\<lambda>c. [c]) s) @ rep, budget))
      else if star_free ts then fixed_subs ts s rep 0 (if first_only then Some 1 else None) [] budget
      else star_subs ts s rep 0 0 (if first_only then Some 1 else None) [] budget)"

section \<open>Affixes\<close>

datatype affix = ShortPrefix | LongPrefix | ShortSuffix | LongSuffix

definition strip_affix :: "string \<Rightarrow> affix \<Rightarrow> string \<Rightarrow> int \<Rightarrow> glob_error + string \<times> int" where
  "strip_affix val ax pat budget =
     (case glob_tokens pat of
        Inl e \<Rightarrow> Inl e
      | Inr ts \<Rightarrow>
          (if ax = ShortPrefix \<or> ax = LongPrefix
           then (case glob_prefix_ends ts val budget of
                   Inl e \<Rightarrow> Inl e
                 | Inr (ends, b) \<Rightarrow>
                     Inr (if ends = [] then val
                          else drop (if ax = ShortPrefix then Min (set ends) else Max (set ends)) val, b))
           else (case glob_prefix_ends (rev ts) (rev val) budget of
                   Inl e \<Rightarrow> Inl e
                 | Inr (ends, b) \<Rightarrow>
                     Inr (if ends = [] then val
                          else take (length val - (if ax = ShortSuffix then Min (set ends) else Max (set ends))) val,
                          b))))"

section \<open>Laws of matching\<close>

lemma gmatch_tok:
  "t \<noteq> Star \<Longrightarrow> gmatch (t # ts) s \<longleftrightarrow> (case s of [] \<Rightarrow> False | c # s' \<Rightarrow> tok_matches t c \<and> gmatch ts s')"
  by (cases t; cases s) simp_all

lemma ex_le_Suc: "(\<exists>k \<le> Suc n. P k) \<longleftrightarrow> P 0 \<or> (\<exists>k \<le> n. P (Suc k))"
  by (simp only: less_Suc_eq_le [symmetric] Ex_less_Suc2)

lemma gmatch_star: "gmatch (Star # ts) s \<longleftrightarrow> (\<exists>k \<le> length s. gmatch ts (drop k s))"
proof (induction s)
  case (Cons c s)
  have "(\<exists>k \<le> length (c # s). gmatch ts (drop k (c # s))) \<longleftrightarrow>
      gmatch ts (c # s) \<or> (\<exists>k \<le> length s. gmatch ts (drop k s))"
    by (simp only: list.size(4) add_Suc_right add_0_right ex_le_Suc drop_0 drop_Suc_Cons)
  with Cons show ?case by simp
qed simp

lemma gmatch_append: "gmatch (ts @ us) s \<longleftrightarrow> (\<exists>k \<le> length s. gmatch ts (take k s) \<and> gmatch us (drop k s))"
proof (induction ts arbitrary: s)
  case Nil
  then show ?case by (auto intro: exI [of _ 0])
next
  case (Cons t ts)
  show ?case
  proof (cases "t = Star")
    case True
    have "gmatch ((t # ts) @ us) s \<longleftrightarrow>
        (\<exists>k \<le> length s. \<exists>m \<le> length s - k. gmatch ts (take m (drop k s)) \<and> gmatch us (drop (k + m) s))"
      by (simp add: True gmatch_star Cons.IH add.commute)
    also have "\<dots> \<longleftrightarrow> (\<exists>j \<le> length s. (\<exists>k \<le> j. gmatch ts (drop k (take j s))) \<and> gmatch us (drop j s))"
      (is "?L \<longleftrightarrow> ?R")
    proof
      assume ?L
      then obtain k m where "k \<le> length s" "m \<le> length s - k" "gmatch ts (take m (drop k s))"
        "gmatch us (drop (k + m) s)" by blast
      then show ?R by (intro exI [of _ "k + m"]) (auto simp: drop_take intro: exI [of _ k])
    next
      assume ?R
      then obtain j k where "j \<le> length s" "k \<le> j" "gmatch ts (drop k (take j s))" "gmatch us (drop j s)"
        by blast
      then show ?L by (intro exI [of _ k] conjI exI [of _ "j - k"]) (auto simp: drop_take)
    qed
    also have "\<dots> \<longleftrightarrow> (\<exists>j \<le> length s. gmatch (t # ts) (take j s) \<and> gmatch us (drop j s))"
    proof -
      have "gmatch (Star # ts) (take j s) \<longleftrightarrow> (\<exists>k \<le> j. gmatch ts (drop k (take j s)))" if "j \<le> length s" for j
        using that by (simp add: gmatch_star min_absorb2)
      then show ?thesis unfolding True by blast
    qed
    finally show ?thesis .
  next
    case False
    show ?thesis
    proof (cases s)
      case (Cons c s')
      have "(\<exists>k \<le> length s. gmatch (t # ts) (take k s) \<and> gmatch us (drop k s)) \<longleftrightarrow>
          (\<exists>k \<le> length s'. gmatch (t # ts) (take (Suc k) s) \<and> gmatch us (drop (Suc k) s))"
        (is "?L \<longleftrightarrow> ?R")
      proof
        assume ?L
        then obtain k where k: "k \<le> length s" "gmatch (t # ts) (take k s)" "gmatch us (drop k s)" by blast
        with False obtain m where "k = Suc m" by (cases k) (auto simp: gmatch_tok)
        with k Cons show ?R by auto
      next
        assume ?R
        then show ?L using Cons by (metis Suc_le_mono length_Cons)
      qed
      with Cons False Cons.IH show ?thesis by (simp add: gmatch_tok) blast
    qed (simp add: gmatch_tok False)
  qed
qed

lemma gmatch_snoc_star: "gmatch (ts @ [Star]) s \<longleftrightarrow> (\<exists>k \<le> length s. gmatch ts (take k s))"
proof -
  have "gmatch [Star] s" for s by (induction s) simp_all
  then show ?thesis by (simp add: gmatch_append)
qed

lemma gmatch_snoc_tok:
  assumes "t \<noteq> Star"
  shows "gmatch (ts @ [t]) (s @ [c]) \<longleftrightarrow> gmatch ts s \<and> tok_matches t c"
    and "\<not> gmatch (ts @ [t]) []"
proof -
  have one: "gmatch [t] u \<longleftrightarrow> (\<exists>d. u = [d] \<and> tok_matches t d)" for u
    using assms by (cases u) (auto simp: gmatch_tok)
  show "gmatch (ts @ [t]) (s @ [c]) \<longleftrightarrow> gmatch ts s \<and> tok_matches t c"
  proof
    assume "gmatch (ts @ [t]) (s @ [c])"
    then obtain k d where k: "k \<le> length (s @ [c])" "gmatch ts (take k (s @ [c]))" "drop k (s @ [c]) = [d]"
      "tok_matches t d" unfolding gmatch_append one by blast
    from arg_cong [OF k(3), of length] k(1) have "k = length s" by simp
    with k show "gmatch ts s \<and> tok_matches t c" by simp
  next
    assume "gmatch ts s \<and> tok_matches t c"
    then show "gmatch (ts @ [t]) (s @ [c])" unfolding gmatch_append one by (intro exI [of _ "length s"]) simp
  qed
  show "\<not> gmatch (ts @ [t]) []" unfolding gmatch_append one by simp
qed

section \<open>What a row of the table holds\<close>

text \<open>The admitted starts from which the tokens match up to position \<open>p\<close>, and the least of them.\<close>

definition starts :: "(nat \<Rightarrow> bool) \<Rightarrow> string \<Rightarrow> nat \<Rightarrow> gtok list \<Rightarrow> nat set" where
  "starts A w p ts = {i. A i \<and> i \<le> p \<and> gmatch ts (drop i (take p w))}"

definition least :: "nat set \<Rightarrow> glob_entry" where
  "least S = (if S = {} then None else Some (Min S))"

lemma finite_starts [simp]: "finite (starts A w p ts)"
  by (rule finite_subset [of _ "{..p}"]) (auto simp: starts_def)

lemma least_empty [simp]: "least {} = None"
  and least_single [simp]: "least {i} = Some i"
  by (simp_all add: least_def)

lemma least_Un: "finite S \<Longrightarrow> finite T \<Longrightarrow> least (S \<union> T) = min_entry (least S) (least T)"
  by (simp add: least_def Min_Un)

lemma least_Some:
  assumes "finite S"
  shows "least S = Some i \<longleftrightarrow> i \<in> S \<and> (\<forall>j \<in> S. i \<le> j)"
proof (cases "S = {}")
  case False
  have "Min S = i \<longleftrightarrow> i \<in> S \<and> (\<forall>j \<in> S. i \<le> j)"
    using Min_in [OF assms False] Min_le [OF assms] by (auto intro: order_antisym)
  with False show ?thesis by (simp add: least_def)
qed (simp add: least_def)

lemma least_None: "least S = None \<longleftrightarrow> S = {}"
  by (simp add: least_def)

fun rows :: "(nat \<Rightarrow> bool) \<Rightarrow> string \<Rightarrow> nat \<Rightarrow> gtok list \<Rightarrow> gtok list \<Rightarrow> glob_entry list" where
  "rows A w p pre [] = [least (starts A w p pre)]"
| "rows A w p pre (t # ts) = least (starts A w p pre) # rows A w p (pre @ [t]) ts"

text \<open>Entries that become right once stars are allowed to match nothing.\<close>

fun unclosed :: "(nat \<Rightarrow> bool) \<Rightarrow> string \<Rightarrow> nat \<Rightarrow> gtok list \<Rightarrow> gtok list \<Rightarrow> glob_entry list \<Rightarrow> bool" where
  "unclosed A w p pre [] row = (row = [])"
| "unclosed A w p pre (t # ts) row =
     (case row of [] \<Rightarrow> False
      | x # row' \<Rightarrow>
          (if t = Star then min_entry x (least (starts A w p pre)) else x) =
            least (starts A w p (pre @ [t])) \<and> unclosed A w p (pre @ [t]) ts row')"


lemma rows_not_Nil [simp]: "rows A w p pre ts \<noteq> []"
  by (cases ts) simp_all

lemma last_rows: "last (rows A w p pre ts) = least (starts A w p (pre @ ts))"
  by (induction ts arbitrary: pre) simp_all

lemma close_rows:
  "unclosed A w p pre ts row \<Longrightarrow> close_stars ts (least (starts A w p pre) # row) = rows A w p pre ts"
proof (induction ts arbitrary: pre row)
  case (Cons t ts)
  then obtain x row' where row: "row = x # row'"
    "(if t = Star then min_entry x (least (starts A w p pre)) else x) = least (starts A w p (pre @ [t]))"
    "unclosed A w p (pre @ [t]) ts row'" by (auto split: list.splits)
  with Cons.IH [OF row(3)] show ?case by simp
qed simp

text \<open>The first row.\<close>

lemma starts_at:
  assumes "A i" "\<And>j. A j \<Longrightarrow> i \<le> j"
  shows "starts A w i ts = (if gmatch ts [] then {i} else {})"
proof -
  have "A j \<and> j \<le> i \<longleftrightarrow> j = i" for j using assms order_antisym by blast
  then have "starts A w i ts = {j. j = i \<and> gmatch ts (drop j (take i w))}"
    unfolding starts_def conj_assoc [symmetric] by simp
  then show ?thesis by (cases "gmatch ts []") (simp_all cong: conj_cong)
qed

lemma first_row_rows:
  assumes "A i" "\<And>j. A j \<Longrightarrow> i \<le> j"
  shows "first_row ts i = rows A w i [] ts"
proof -
  note at = starts_at [of A i w, OF assms]
  have "unclosed A w i pre ts (replicate (length ts) None)" for pre
  proof (induction ts arbitrary: pre)
    case (Cons t ts)
    have "(if t = Star then min_entry None (least (starts A w i pre)) else None) = least (starts A w i (pre @ [t]))"
      using gmatch_snoc_star [of pre "[]"] gmatch_snoc_tok(2) [of t pre] by (auto simp: at)
    with Cons show ?case by simp
  qed simp
  from close_rows [OF this [of "[]"]] show ?thesis by (simp add: first_row_def at)
qed

text \<open>The next row.\<close>

lemma take_Suc_snoc: "p < length w \<Longrightarrow> i \<le> p \<Longrightarrow> drop i (take (Suc p) w) = drop i (take p w) @ [w ! p]"
  by (simp add: take_Suc_conv_app_nth)

lemma starts_star:
  assumes "p < length w"
  shows "starts A w (Suc p) (pre @ [Star]) =
    starts A w p (pre @ [Star]) \<union> starts A w p pre \<union> starts A w (Suc p) pre"
proof (intro set_eqI iffI)
  fix i
  assume "i \<in> starts A w (Suc p) (pre @ [Star])"
  then have i: "A i" "i \<le> Suc p" "gmatch (pre @ [Star]) (drop i (take (Suc p) w))" by (simp_all add: starts_def)
  from i(3) obtain k where k: "k \<le> Suc p - i" "gmatch pre (take k (drop i (take (Suc p) w)))"
    using assms unfolding gmatch_snoc_star by (auto simp: min_absorb2)
  show "i \<in> starts A w p (pre @ [Star]) \<union> starts A w p pre \<union> starts A w (Suc p) pre"
  proof (cases "k = Suc p - i")
    case True
    then have "take k (drop i (take (Suc p) w)) = drop i (take (Suc p) w)" by simp
    with k i show ?thesis by (simp add: starts_def)
  next
    case False
    with k have le: "i \<le> p" "k \<le> p - i" by auto
    then have "take k (drop i (take (Suc p) w)) = take k (drop i (take p w))"
      using assms by (simp add: take_Suc_snoc)
    with k le assms have "gmatch (pre @ [Star]) (drop i (take p w))"
      unfolding gmatch_snoc_star by (auto simp: min_absorb2)
    with i le show ?thesis by (simp add: starts_def)
  qed
next
  fix i
  assume "i \<in> starts A w p (pre @ [Star]) \<union> starts A w p pre \<union> starts A w (Suc p) pre"
  then consider "i \<in> starts A w p (pre @ [Star])" | "i \<in> starts A w p pre" | "i \<in> starts A w (Suc p) pre" by blast
  then show "i \<in> starts A w (Suc p) (pre @ [Star])"
  proof cases
    case 1
    then obtain k where "A i" "i \<le> p" "k \<le> p - i" "gmatch pre (take k (drop i (take p w)))"
      using assms unfolding starts_def gmatch_snoc_star by (auto simp: min_absorb2)
    with assms show ?thesis unfolding starts_def gmatch_snoc_star
      by (auto simp: take_Suc_snoc min_absorb2 intro!: exI [of _ k])
  next
    case 2
    with assms show ?thesis unfolding starts_def gmatch_snoc_star
      by (auto simp: take_Suc_snoc min_absorb2 intro!: exI [of _ "p - i"])
  next
    case 3
    with assms show ?thesis unfolding starts_def gmatch_snoc_star
      by (auto simp: min_absorb2 intro!: exI [of _ "Suc p - i"])
  qed
qed

lemma starts_tok:
  assumes "p < length w" and "t \<noteq> Star"
  shows "starts A w (Suc p) (pre @ [t]) = (if tok_matches t (w ! p) then starts A w p pre else {})"
proof -
  have "i \<in> starts A w (Suc p) (pre @ [t]) \<longleftrightarrow> tok_matches t (w ! p) \<and> i \<in> starts A w p pre" for i
  proof (cases "i \<le> p")
    case True
    then show ?thesis using assms gmatch_snoc_tok(1) [OF assms(2)] by (auto simp: starts_def take_Suc_snoc)
  next
    case False
    then have "drop i (take (Suc p) w) = []" by simp
    with False gmatch_snoc_tok(2) [OF assms(2)] show ?thesis by (simp add: starts_def)
  qed
  then show ?thesis by auto
qed

lemma rows_Cons: "\<exists>row. rows A w p pre ts = least (starts A w p pre) # row"
  by (cases ts) simp_all

lemma advance_unclosed:
  assumes "p < length w"
  shows "unclosed A w (Suc p) pre ts (advance (w ! p) ts (rows A w p pre ts))"
proof (induction ts arbitrary: pre)
  case (Cons t ts)
  let ?x = "least (starts A w p pre)" and ?y = "least (starts A w p (pre @ [t]))"
  obtain row where row: "rows A w p (pre @ [t]) ts = ?y # row" using rows_Cons by blast
  have "(let e = min_entry (if t = Star then ?y else None) (if t = Star \<or> tok_matches t (w ! p) then ?x else None)
      in (if t = Star then min_entry e (least (starts A w (Suc p) pre)) else e))
      = least (starts A w (Suc p) (pre @ [t]))"
  proof (cases "t = Star")
    case True
    then show ?thesis by (simp add: starts_star [OF assms] least_Un)
  next
    case False
    then show ?thesis by (simp add: starts_tok [OF assms])
  qed
  with Cons.IH [of "pre @ [t]"] row show ?case by (simp add: Let_def)
qed simp

lemma starts_Nil: "p \<le> length w \<Longrightarrow> starts A w p [] = (if A p then {p} else {})"
  by (auto simp: starts_def)

lemma next_row_rows:
  assumes "p < length w" and "new = (if A (Suc p) then Some (Suc p) else None)"
  shows "next_row ts new (w ! p) (rows A w p [] ts) = rows A w (Suc p) [] ts"
proof -
  have "new = least (starts A w (Suc p) [])" using assms by (simp add: starts_Nil)
  with close_rows [OF advance_unclosed [OF assms(1)]] show ?thesis by (simp add: next_row_def)
qed

section \<open>Prefixes, exactly\<close>

lemma prefix_scan_exact:
  assumes "0 \<le> budget" and "p \<le> length w"
  shows "prefix_scan ts (drop p w) p (rows (\<lambda>i. i = 0) w p [] ts) budget =
    (let cost = int ((length w - p) * Suc (length ts)) in
     if cost \<le> budget
     then Inr (filter (\<lambda>e. gmatch ts (take e w)) [Suc p ..< Suc (length w)], budget - cost)
     else Inl OverBudget)"
  using assms
proof (induction "length w - p" arbitrary: p budget)
  case 0
  then show ?case by simp
next
  case (Suc n)
  then have p: "p < length w" by simp
  let ?A = "\<lambda>i :: nat. i = 0"
  let ?left = "budget - int (Suc (length ts))"
  have row: "next_row ts None (w ! p) (rows ?A w p [] ts) = rows ?A w (Suc p) [] ts"
    by (rule next_row_rows [OF p]) simp
  have last: "last (rows ?A w (Suc p) [] ts) \<noteq> None \<longleftrightarrow> gmatch ts (take (Suc p) w)"
    by (auto simp: last_rows least_None starts_def)
  have split: "drop p w = w ! p # drop (Suc p) w" using p by (simp add: Cons_nth_drop_Suc)
  have cost: "int ((length w - p) * Suc (length ts)) =
      int (Suc (length ts)) + int ((length w - Suc p) * Suc (length ts))"
    using p by (simp add: Suc_diff_Suc [symmetric] del: Suc_diff_Suc)
  have upt: "[Suc p ..< Suc (length w)] = Suc p # [Suc (Suc p) ..< Suc (length w)]"
    using p by (simp add: upt_conv_Cons)
  show ?case
  proof (cases "?left < 0")
    case True
    then have "\<not> int ((length w - p) * Suc (length ts)) \<le> budget" unfolding cost by linarith
    with True show ?thesis unfolding split by (simp add: Let_def row)
  next
    case False
    have ih: "prefix_scan ts (drop (Suc p) w) (Suc p) (rows ?A w (Suc p) [] ts) ?left =
      (let cost = int ((length w - Suc p) * Suc (length ts)) in
       if cost \<le> ?left
       then Inr (filter (\<lambda>e. gmatch ts (take e w)) [Suc (Suc p) ..< Suc (length w)], ?left - cost)
       else Inl OverBudget)"
      using Suc.hyps(2) p False by (intro Suc.hyps(1)) simp_all
    have eq: "prefix_scan ts (drop p w) p (rows ?A w p [] ts) budget =
        (case prefix_scan ts (drop (Suc p) w) (Suc p) (rows ?A w (Suc p) [] ts) ?left of
           Inl e \<Rightarrow> Inl e
         | Inr (ends, b) \<Rightarrow> Inr (if gmatch ts (take (Suc p) w) then Suc p # ends else ends, b))"
      unfolding split using False by (simp only: prefix_scan.simps Let_def row last if_False)
    show ?thesis unfolding eq ih upt Let_def cost by simp
  qed
qed

text \<open>Where prefixes end, in ascending order, and what the budget must hold for the answer.\<close>

lemma glob_prefix_ends_exact:
  assumes "0 \<le> budget"
  shows "glob_prefix_ends ts w budget =
    (if int (length w * Suc (length ts)) \<le> budget
     then Inr (filter (\<lambda>e. gmatch ts (take e w)) [0 ..< Suc (length w)],
               budget - int (length w * Suc (length ts)))
     else Inl OverBudget)"
proof -
  have first: "first_row ts 0 = rows (\<lambda>i. i = 0) w 0 [] ts" by (rule first_row_rows) simp_all
  have last: "last (rows (\<lambda>i. i = 0) w 0 [] ts) \<noteq> None \<longleftrightarrow> gmatch ts (take 0 w)"
    by (auto simp: last_rows least_None starts_def)
  have upt: "[0 ..< Suc (length w)] = 0 # [Suc 0 ..< Suc (length w)]" by (rule upt_conv_Cons) simp
  have "prefix_scan ts w 0 (rows (\<lambda>i. i = 0) w 0 [] ts) budget =
    (if int (length w * Suc (length ts)) \<le> budget
     then Inr (filter (\<lambda>e. gmatch ts (take e w)) [Suc 0 ..< Suc (length w)],
               budget - int (length w * Suc (length ts)))
     else Inl OverBudget)"
    using prefix_scan_exact [OF assms le0, where w = w and ts = ts] by (simp only: drop_0 Let_def diff_zero)
  then show ?thesis unfolding glob_prefix_ends_def first Let_def last upt by simp
qed

section \<open>Leftmost, then longest\<close>

text \<open>A match that lies between \<open>start\<close> and \<open>p\<close>.\<close>

definition occurs :: "gtok list \<Rightarrow> string \<Rightarrow> nat \<Rightarrow> nat \<Rightarrow> nat \<Rightarrow> nat \<Rightarrow> bool" where
  "occurs ts w start p b e \<longleftrightarrow> start \<le> b \<and> b \<le> e \<and> e \<le> p \<and> gmatch ts (drop b (take e w))"

definition leftmost_longest :: "gtok list \<Rightarrow> string \<Rightarrow> nat \<Rightarrow> nat \<Rightarrow> (nat \<times> nat) option \<Rightarrow> bool" where
  "leftmost_longest ts w start p r =
     (case r of
        None \<Rightarrow> \<forall>b e. \<not> occurs ts w start p b e
      | Some (b, e) \<Rightarrow> occurs ts w start p b e \<and>
          (\<forall>b' e'. occurs ts w start p b' e' \<longrightarrow> b < b' \<or> b = b' \<and> e' \<le> e))"

lemma occurs_Suc:
  "occurs ts w start (Suc p) b e \<longleftrightarrow>
     occurs ts w start p b e \<or> e = Suc p \<and> b \<in> starts (\<lambda>i. start \<le> i) w (Suc p) ts"
  by (auto simp: occurs_def starts_def le_Suc_eq)

lemma update_best_occurs:
  assumes "leftmost_longest ts w start p best"
  shows "leftmost_longest ts w start (Suc p)
    (update_best best (least (starts (\<lambda>i. start \<le> i) w (Suc p) ts)) (Suc p))"
proof (cases "least (starts (\<lambda>i. start \<le> i) w (Suc p) ts)")
  case None
  then have same: "occurs ts w start (Suc p) = occurs ts w start p"
    by (intro ext) (simp add: occurs_Suc least_None)
  have keep: "update_best best None (Suc p) = best" by (simp add: update_best_def)
  show ?thesis using assms unfolding None keep leftmost_longest_def same .
next
  case (Some i)
  then have i: "i \<in> starts (\<lambda>i. start \<le> i) w (Suc p) ts"
    "\<And>j. j \<in> starts (\<lambda>i. start \<le> i) w (Suc p) ts \<Longrightarrow> i \<le> j"
    by (simp_all add: least_Some)
  have old: "e \<le> p" if "occurs ts w start p b e" for b e using that by (simp add: occurs_def)
  show ?thesis
  proof (cases best)
    case None
    with assms i Some show ?thesis
      by (auto simp: leftmost_longest_def occurs_Suc update_best_def le_less)
  next
    case (Some be)
    obtain b e where be: "be = (b, e)" by (cases be)
    with assms Some have b: "occurs ts w start p b e"
      "\<And>b' e'. occurs ts w start p b' e' \<Longrightarrow> b < b' \<or> b = b' \<and> e' \<le> e"
      by (auto simp: leftmost_longest_def)
    have eq: "update_best best (least (starts (\<lambda>i. start \<le> i) w (Suc p) ts)) (Suc p) =
        (if i \<le> b then Some (i, Suc p) else Some (b, e))"
      using old [OF b(1)] \<open>least _ = Some i\<close> Some be by (auto simp: update_best_def)
    show ?thesis
    proof (cases "i \<le> b")
      case True
      have "i < b' \<or> i = b' \<and> e' \<le> Suc p" if "occurs ts w start (Suc p) b' e'" for b' e'
        using that b(2) [of b' e'] i(2) [of b'] old [of b' e'] True unfolding occurs_Suc by force
      moreover have "occurs ts w start (Suc p) i (Suc p)" using i(1) by (simp add: occurs_Suc)
      ultimately show ?thesis using True unfolding eq by (simp add: leftmost_longest_def)
    next
      case False
      have "b < b' \<or> b = b' \<and> e' \<le> e" if "occurs ts w start (Suc p) b' e'" for b' e'
        using that b(2) [of b' e'] i(2) [of b'] False unfolding occurs_Suc by force
      moreover have "occurs ts w start (Suc p) b e" using b(1) by (simp add: occurs_Suc)
      ultimately show ?thesis using False unfolding eq by (simp add: leftmost_longest_def)
    qed
  qed
qed

lemma find_scan_exact:
  assumes "0 \<le> budget" and "start \<le> p" and "p \<le> length w" and "leftmost_longest ts w start p best"
  shows "let cost = int ((length w - p) * Suc (length ts)) in
    if cost \<le> budget
    then \<exists>r. find_scan ts (drop p w) p (rows (\<lambda>i. start \<le> i) w p [] ts) best budget = Inr (r, budget - cost) \<and>
           leftmost_longest ts w start (length w) r
    else find_scan ts (drop p w) p (rows (\<lambda>i. start \<le> i) w p [] ts) best budget = Inl OverBudget"
  using assms
proof (induction "length w - p" arbitrary: p budget best)
  case 0
  then show ?case by simp
next
  case (Suc n)
  then have p: "p < length w" by simp
  let ?A = "\<lambda>i :: nat. start \<le> i"
  let ?left = "budget - int (Suc (length ts))"
  let ?best = "update_best best (least (starts ?A w (Suc p) ts)) (Suc p)"
  have row: "next_row ts (Some (Suc p)) (w ! p) (rows ?A w p [] ts) = rows ?A w (Suc p) [] ts"
    using Suc.prems by (intro next_row_rows [OF p]) simp
  have last: "last (rows ?A w (Suc p) [] ts) = least (starts ?A w (Suc p) ts)" by (simp add: last_rows)
  have split: "drop p w = w ! p # drop (Suc p) w" using p by (simp add: Cons_nth_drop_Suc)
  have cost: "int ((length w - p) * Suc (length ts)) =
      int (Suc (length ts)) + int ((length w - Suc p) * Suc (length ts))"
    using p by (simp add: Suc_diff_Suc [symmetric] del: Suc_diff_Suc)
  show ?case
  proof (cases "?left < 0")
    case True
    then have "\<not> int ((length w - p) * Suc (length ts)) \<le> budget" unfolding cost by linarith
    with True show ?thesis unfolding split by (simp add: Let_def)
  next
    case False
    have eq: "find_scan ts (drop p w) p (rows ?A w p [] ts) best budget =
        find_scan ts (drop (Suc p) w) (Suc p) (rows ?A w (Suc p) [] ts) ?best ?left"
      unfolding split using False by (simp only: find_scan.simps Let_def row last if_False)
    have ih: "let cost = int ((length w - Suc p) * Suc (length ts)) in
      if cost \<le> ?left
      then \<exists>r. find_scan ts (drop (Suc p) w) (Suc p) (rows ?A w (Suc p) [] ts) ?best ?left = Inr (r, ?left - cost) \<and>
             leftmost_longest ts w start (length w) r
      else find_scan ts (drop (Suc p) w) (Suc p) (rows ?A w (Suc p) [] ts) ?best ?left = Inl OverBudget"
      using Suc.hyps(2) p False Suc.prems update_best_occurs by (intro Suc.hyps(1)) simp_all
    have sums: "(int ((length w - Suc p) * Suc (length ts)) \<le> ?left) =
        (int ((length w - p) * Suc (length ts)) \<le> budget)"
      "?left - int ((length w - Suc p) * Suc (length ts)) = budget - int ((length w - p) * Suc (length ts))"
      unfolding cost by linarith+
    show ?thesis using ih unfolding eq Let_def sums .
  qed
qed

section \<open>Patterns without a star\<close>

lemma gmatch_star_free: "star_free ts \<Longrightarrow> gmatch ts s \<longleftrightarrow> list_all2 tok_matches ts s"
proof (induction ts arbitrary: s)
  case (Cons t ts)
  then have t: "t \<noteq> Star" "star_free ts" by (auto simp: star_free_def)
  show ?case by (cases s) (simp_all add: gmatch_tok [OF t(1)] Cons.IH [OF t(2)])
qed simp

definition fits :: "gtok list \<Rightarrow> string \<Rightarrow> nat \<Rightarrow> bool" where
  "fits ts w b = list_all2 tok_matches ts (take (length ts) (drop b w))"

lemma fits_length: "fits ts w b \<Longrightarrow> ts \<noteq> [] \<Longrightarrow> b + length ts \<le> length w"
proof -
  assume "fits ts w b" "ts \<noteq> []"
  then have "length ts = length (take (length ts) (drop b w))" "0 < length ts"
    unfolding fits_def by (auto dest: list_all2_lengthD)
  then have "length ts \<le> length w - b" "0 < length ts" by (simp_all add: min_def split: if_splits)
  then show ?thesis by linarith
qed

lemma occurs_fits:
  assumes "star_free ts" and "ts \<noteq> []"
  shows "occurs ts w start (length w) b e \<longleftrightarrow> start \<le> b \<and> e = b + length ts \<and> fits ts w b"
proof
  assume o: "occurs ts w start (length w) b e"
  then have m: "list_all2 tok_matches ts (drop b (take e w))" and le: "start \<le> b" "b \<le> e" "e \<le> length w"
    using gmatch_star_free [OF assms(1)] by (simp_all add: occurs_def)
  from list_all2_lengthD [OF m] le have "e = b + length ts" by (simp add: min_absorb2)
  with m le show "start \<le> b \<and> e = b + length ts \<and> fits ts w b" by (simp add: fits_def drop_take)
next
  assume f: "start \<le> b \<and> e = b + length ts \<and> fits ts w b"
  with fits_length assms(2) have "b + length ts \<le> length w" by blast
  with f show "occurs ts w start (length w) b e"
    using gmatch_star_free [OF assms(1)] by (simp add: occurs_def fits_def drop_take)
qed

lemma fixed_scan_exact:
  assumes "ts \<noteq> []" and "0 \<le> budget" and "k = Suc (length w) - length ts - position"
    and "\<And>b. start \<le> b \<Longrightarrow> b < position \<Longrightarrow> \<not> fits ts w b" and "start \<le> position"
  shows "case fixed_scan ts k (drop position w) position budget of
      Inl e \<Rightarrow> e = OverBudget \<and> budget < int (k * length ts)
    | Inr (r, b) \<Rightarrow> 0 \<le> b \<and> b \<le> budget \<and>
        (case r of None \<Rightarrow> \<forall>i. start \<le> i \<longrightarrow> \<not> fits ts w i
         | Some i \<Rightarrow> start \<le> i \<and> fits ts w i \<and> (\<forall>j. start \<le> j \<and> fits ts w j \<longrightarrow> i \<le> j))"
  using assms
proof (induction k arbitrary: position budget)
  case 0
  have "\<not> fits ts w i" if "start \<le> i" for i
    using 0 that fits_length [of ts w i] by (cases "i < position") auto
  with 0 show ?case by simp
next
  case (Suc k)
  let ?left = "budget - int (length ts)"
  have tl: "tl (drop position w) = drop (Suc position) w" by (simp add: drop_Suc tl_drop)
  consider (over) "?left < 0" | (found) "0 \<le> ?left" "fits ts w position"
    | (on) "0 \<le> ?left" "\<not> fits ts w position" by linarith
  then show ?case
  proof cases
    case over
    then have "budget < int (length ts) + int k * int (length ts)"
      using mult_nonneg_nonneg [of "int k" "int (length ts)"] by linarith
    with over show ?thesis by (simp add: Let_def)
  next
    case found
    have "position \<le> j" if "start \<le> j" "fits ts w j" for j
      using Suc.prems(4) [OF that(1)] that(2) by (meson not_le)
    moreover have "fixed_scan ts (Suc k) (drop position w) position budget = Inr (Some position, ?left)"
      using found by (simp add: Let_def fits_def)
    ultimately show ?thesis using found Suc.prems(5) by simp
  next
    case on
    have "case fixed_scan ts k (drop (Suc position) w) (Suc position) ?left of
      Inl e \<Rightarrow> e = OverBudget \<and> ?left < int (k * length ts)
    | Inr (r, b) \<Rightarrow> 0 \<le> b \<and> b \<le> ?left \<and>
        (case r of None \<Rightarrow> \<forall>i. start \<le> i \<longrightarrow> \<not> fits ts w i
         | Some i \<Rightarrow> start \<le> i \<and> fits ts w i \<and> (\<forall>j. start \<le> j \<and> fits ts w j \<longrightarrow> i \<le> j))"
    proof (rule Suc.IH)
      show "k = Suc (length w) - length ts - Suc position" using Suc.prems(3) by simp
      show "\<not> fits ts w b" if "start \<le> b" "b < Suc position" for b
        using that Suc.prems(4) on(2) by (cases "b = position") auto
    qed (use Suc.prems on in simp_all)
    moreover have "fixed_scan ts (Suc k) (drop position w) position budget =
        fixed_scan ts k (drop (Suc position) w) (Suc position) ?left"
      using on by (simp add: Let_def fits_def tl)
    ultimately show ?thesis by (auto split: sum.splits option.splits)
  qed
qed

section \<open>The search, exactly\<close>

lemma glob_find_exact:
  assumes "start \<le> length w" and "0 \<le> budget"
  shows "case glob_find ts w start budget of
      Inl e \<Rightarrow> e = OverBudget \<and> budget < int ((length w - start) * Suc (length ts))
    | Inr (r, b) \<Rightarrow> leftmost_longest ts w start (length w) r \<and> 0 \<le> b \<and> b \<le> budget"
proof (cases "star_free ts")
  case False
  let ?A = "\<lambda>i :: nat. start \<le> i"
  have first: "first_row ts start = rows ?A w start [] ts" by (rule first_row_rows) simp_all
  have "leftmost_longest ts w start start (update_best None (last (rows ?A w start [] ts)) start)"
  proof (cases "gmatch ts []")
    case True
    then show ?thesis using starts_at [of ?A start w ts]
      by (auto simp: last_rows update_best_def leftmost_longest_def occurs_def)
  next
    case False
    then show ?thesis using starts_at [of ?A start w ts]
      by (auto simp: last_rows update_best_def leftmost_longest_def occurs_def)
  qed
  from find_scan_exact [OF assms(2) order_refl assms(1) this]
  have g: "let cost = int ((length w - start) * Suc (length ts)) in
    if cost \<le> budget
    then \<exists>r. glob_find ts w start budget = Inr (r, budget - cost) \<and> leftmost_longest ts w start (length w) r
    else glob_find ts w start budget = Inl OverBudget"
    unfolding glob_find_def Let_def first if_not_P [OF False] .
  define cost where "cost = (length w - start) * Suc (length ts)"
  from g show ?thesis unfolding cost_def [symmetric] by (auto simp: Let_def not_le split: if_splits)
next
  case True
  show ?thesis
  proof (cases "ts = []")
    case True
    have "leftmost_longest [] w start (length w) (Some (start, start))"
      using assms by (auto simp: leftmost_longest_def occurs_def)
    with True assms show ?thesis by (simp add: glob_find_def star_free_def glob_fixed_find_def)
  next
    case False
    let ?k = "Suc (length w) - length ts - start"
    have k: "?k * length ts \<le> (length w - start) * Suc (length ts)"
    proof (cases "?k = 0")
      case False
      with \<open>ts \<noteq> []\<close> have "?k \<le> length w - start" by (cases ts) auto
      then show ?thesis by (intro mult_le_mono) simp_all
    qed simp
    have "case glob_fixed_find ts w start budget of
      Inl e \<Rightarrow> e = OverBudget \<and> budget < int (?k * length ts)
    | Inr (r, b) \<Rightarrow> 0 \<le> b \<and> b \<le> budget \<and>
        (case r of None \<Rightarrow> \<forall>i. start \<le> i \<longrightarrow> \<not> fits ts w i
         | Some i \<Rightarrow> start \<le> i \<and> fits ts w i \<and> (\<forall>j. start \<le> j \<and> fits ts w j \<longrightarrow> i \<le> j))"
      using fixed_scan_exact [OF False assms(2) refl, where start = start and w = w and position = start] False by (simp add: glob_fixed_find_def)
    note scan = this
    show ?thesis
    proof (cases "glob_fixed_find ts w start budget")
      case (Inl e)
      with scan have "e = OverBudget" "budget < int (?k * length ts)" by simp_all
      moreover have "int (?k * length ts) \<le> int ((length w - start) * Suc (length ts))"
        using k by (simp only: of_nat_le_iff)
      ultimately have "e = OverBudget" "budget < int ((length w - start) * Suc (length ts))" by linarith+
      with Inl True show ?thesis by (simp only: glob_find_def if_True sum.case)
    next
      case (Inr rb)
      obtain r b where rb: "rb = (r, b)" by (cases rb)
      show ?thesis
        using scan Inr rb True
        by (cases r) (auto simp: glob_find_def leftmost_longest_def occurs_fits [OF True False] le_less)
    qed
  qed
qed

section \<open>When the substitution returns\<close>

lemma gmatch_empty: "gmatch ts [] \<longleftrightarrow> set ts \<subseteq> {Star}"
proof (induction ts)
  case (Cons t ts)
  then show ?case by (cases "t = Star") (simp_all add: gmatch_tok gmatch.simps(2))
qed simp

lemma gmatch_all_stars: "ts \<noteq> [] \<Longrightarrow> set ts \<subseteq> {Star} \<Longrightarrow> gmatch ts s"
proof (induction ts)
  case (Cons t ts)
  then have "t = Star" "gmatch ts []" by (simp_all add: gmatch_empty)
  then show ?case by (auto simp: gmatch_star intro!: exI [of _ "length s"])
qed simp

text \<open>A match found by the search.\<close>

lemma glob_find_found:
  assumes "glob_find ts w start budget = Inr (Some (i, j), b)" and "start \<le> length w" and "0 \<le> budget"
  shows "start \<le> i" "i \<le> j" "j \<le> length w" "gmatch ts (drop i (take j w))" "0 \<le> b" "b \<le> budget"
  using glob_find_exact [OF assms(2,3), where ts = ts] assms(1)
  by (auto simp: leftmost_longest_def occurs_def)

lemma glob_find_fixed:
  "star_free ts \<Longrightarrow> glob_find ts w start budget =
     (case glob_fixed_find ts w start budget of
        Inl e \<Rightarrow> Inl e
      | Inr (r, b) \<Rightarrow> Inr (map_option (\<lambda>i. (i, i + length ts)) r, b))"
  by (auto simp: glob_find_def split: sum.splits option.splits)

lemma fixed_subs_returns:
  assumes "star_free ts" and "ts \<noteq> []" and "position \<le> length w" and "0 \<le> budget"
  shows "fixed_subs ts w rep position remaining acc budget \<noteq> None"
  using assms(3,4)
proof (induction "length w - position" arbitrary: position remaining acc budget rule: less_induct)
  case less
  show ?case
  proof (cases "glob_fixed_find ts w position budget")
    case (Inl e)
    then show ?thesis by (simp add: fixed_subs.simps [of ts w rep position])
  next
    case (Inr rb)
    obtain r b where rb: "rb = (r, b)" by (cases rb)
    show ?thesis
    proof (cases r)
      case None
      with Inr rb show ?thesis by (simp add: fixed_subs.simps [of ts w rep position])
    next
      case (Some i)
      with Inr rb have f: "glob_find ts w position budget = Inr (Some (i, i + length ts), b)"
        using assms(1) by (simp add: glob_find_fixed)
      from glob_find_found [OF f less.prems] assms(2)
      have "length w - (i + length ts) < length w - position" "i + length ts \<le> length w" "0 \<le> b"
        by (cases ts; simp)+
      then have "fixed_subs ts w rep (i + length ts) m acc' b \<noteq> None" for m acc'
        by (intro less.hyps)
      with Inr rb Some show ?thesis by (simp add: fixed_subs.simps [of ts w rep position])
    qed
  qed
qed

lemma star_subs_returns:
  assumes "\<not> set ts \<subseteq> {Star}" and "position \<le> length w" and "0 \<le> budget"
  shows "star_subs ts w rep d position remaining acc budget \<noteq> None"
  using assms(2,3)
proof (induction "length w - position" arbitrary: d position remaining acc budget rule: less_induct)
  case less
  show ?case
  proof (cases "glob_find ts w position budget")
    case (Inl e)
    then show ?thesis by (simp add: star_subs.simps [of ts w rep d position])
  next
    case (Inr rb)
    obtain r b where rb: "rb = (r, b)" by (cases rb)
    show ?thesis
    proof (cases r)
      case None
      with Inr rb show ?thesis by (simp add: star_subs.simps [of ts w rep d position])
    next
      case (Some ij)
      obtain i j where ij: "ij = (i, j)" by (cases ij)
      with Inr rb Some have "glob_find ts w position budget = Inr (Some (i, j), b)" by simp
      note f = glob_find_found [OF this less.prems]
      have "i < j"
      proof (rule ccontr)
        assume "\<not> i < j"
        with f(2,4) assms(1) show False by (simp add: gmatch_empty)
      qed
      with f have "length w - j < length w - position" "j \<le> length w" "0 \<le> b" by simp_all
      then have "star_subs ts w rep j j m acc' b \<noteq> None" for m acc' by (intro less.hyps)
      with Inr rb Some ij \<open>i < j\<close> show ?thesis by (simp add: star_subs.simps [of ts w rep d position])
    qed
  qed
qed

lemma glob_find_at_end:
  assumes "ts \<noteq> []" and "set ts \<subseteq> {Star}" and "0 \<le> budget"
  shows "\<exists>b. glob_find ts w (length w) budget = Inr (Some (length w, length w), b) \<and> 0 \<le> b"
proof -
  have o: "occurs ts w (length w) (length w) (length w) (length w)"
    using gmatch_all_stars [OF assms(1,2)] by (simp add: occurs_def)
  obtain r b where r: "glob_find ts w (length w) budget = Inr (r, b)" "0 \<le> b"
    and l: "leftmost_longest ts w (length w) (length w) r"
    using glob_find_exact [OF order_refl assms(3), where ts = ts and w = w] assms(3)
    by (cases "glob_find ts w (length w) budget") auto
  from l o have "r = Some (length w, length w)"
    by (auto simp: leftmost_longest_def occurs_def split: option.splits)
  with r show ?thesis by simp
qed

text \<open>At the end of the text a pattern of stars matches the empty rest, for ever.\<close>

lemma star_subs_diverges:
  assumes "ts \<noteq> []" and "set ts \<subseteq> {Star}" and "0 \<le> budget"
  shows "star_subs ts w rep (length w) (length w) None acc budget = None"
proof (rule ccontr)
  assume "star_subs ts w rep (length w) (length w) None acc budget \<noteq> None"
  then obtain x where ret: "star_subs ts w rep (length w) (length w) None acc budget = Some x" by blast
  have "ts \<noteq> [] \<longrightarrow> set ts \<subseteq> {Star} \<longrightarrow> length w = length w \<longrightarrow> (None :: nat option) = None \<longrightarrow> 0 \<le> budget \<longrightarrow> False"
  proof (rule star_subs.raw_induct [where P = "\<lambda>ts w rep d p m acc budget x.
      ts \<noteq> [] \<longrightarrow> set ts \<subseteq> {Star} \<longrightarrow> p = length w \<longrightarrow> m = None \<longrightarrow> 0 \<le> budget \<longrightarrow> False", OF _ ret])
    fix f :: "gtok list \<Rightarrow> string \<Rightarrow> string \<Rightarrow> nat \<Rightarrow> nat \<Rightarrow> nat option \<Rightarrow> string \<Rightarrow> int \<Rightarrow>
        (glob_error + string \<times> int) option"
      and ts w rep d p m acc budget x
    assume IH: "\<And>ts w rep d p m acc budget x. f ts w rep d p m acc budget = Some x \<Longrightarrow>
        ts \<noteq> [] \<longrightarrow> set ts \<subseteq> {Star} \<longrightarrow> p = length w \<longrightarrow> m = None \<longrightarrow> 0 \<le> budget \<longrightarrow> False"
      and eq: "(if m = Some 0 then Some (Inr (acc @ drop d w, budget))
        else (case glob_find ts w p budget of
            Inl e \<Rightarrow> Some (Inl e)
          | Inr (None, b) \<Rightarrow> Some (Inr (acc @ drop d w, b))
          | Inr (Some (i, j), b) \<Rightarrow>
              (if j = i \<and> j < length w
               then f ts w rep (Suc j) (Suc j) (map_option (\<lambda>n. n - 1) m)
                      (acc @ drop d (take i w) @ rep @ [w ! j]) b
               else f ts w rep j j (map_option (\<lambda>n. n - 1) m) (acc @ drop d (take i w) @ rep) b))) = Some x"
    show "ts \<noteq> [] \<longrightarrow> set ts \<subseteq> {Star} \<longrightarrow> p = length w \<longrightarrow> m = None \<longrightarrow> 0 \<le> budget \<longrightarrow> False"
    proof (intro impI)
      assume a: "ts \<noteq> []" "set ts \<subseteq> {Star}" "p = length w" "m = None" "0 \<le> budget"
      from glob_find_at_end [OF a(1,2,5)] obtain b where b: "glob_find ts w p budget = Inr (Some (p, p), b)" "0 \<le> b"
        using a(3) by blast
      with eq a have "f ts w rep p p None (acc @ drop d (take p w) @ rep) b = Some x" by simp
      from IH [OF this] a b show False by blast
    qed
  qed
  with assms show False by blast
qed

lemma star_subs_none_left: "star_subs ts w rep d p (Some 0) acc budget = Some (Inr (acc @ drop d w, budget))"
  by (simp add: star_subs.simps)

lemma star_subs_first:
  "star_subs ts w rep 0 0 (Some 1) [] budget \<noteq> None"
  by (simp add: star_subs.simps [of ts w rep 0 0] star_subs_none_left split: sum.splits option.splits prod.splits)

lemma star_subs_all:
  assumes "ts \<noteq> []" and "set ts \<subseteq> {Star}" and "0 \<le> budget"
  shows "star_subs ts w rep 0 0 None [] budget = None \<longleftrightarrow> int (length w * Suc (length ts)) \<le> budget"
proof (cases "glob_find ts w 0 budget")
  case (Inl e)
  with glob_find_exact [OF le0 assms(3), of w ts] have "budget < int (length w * Suc (length ts))"
    by (simp only: sum.case diff_zero)
  then have "\<not> int (length w * Suc (length ts)) \<le> budget" by (simp only: not_le)
  with Inl show ?thesis by (simp add: star_subs.simps [of ts w rep 0 0])
next
  case (Inr rb)
  obtain r b where rb: "rb = (r, b)" by (cases rb)
  with glob_find_exact [OF le0 assms(3), of w ts] Inr
  have l: "leftmost_longest ts w 0 (length w) r" and b: "0 \<le> b" by simp_all
  have all: "occurs ts w 0 (length w) 0 (length w)"
    using gmatch_all_stars [OF assms(1,2)] by (simp add: occurs_def)
  obtain i j where r: "r = Some (i, j)" using l all by (cases r) (auto simp: leftmost_longest_def)
  with l all have "i = 0 \<and> length w \<le> j" by (auto simp: leftmost_longest_def)
  moreover from l r have "j \<le> length w" by (simp add: leftmost_longest_def occurs_def)
  ultimately have ij: "i = 0" "j = length w" by simp_all
  have "star_subs ts w rep 0 0 None [] budget = star_subs ts w rep (length w) (length w) None rep b"
    using Inr rb r ij by (simp add: star_subs.simps [of ts w rep 0 0])
  then have "star_subs ts w rep 0 0 None [] budget = None"
    using star_subs_diverges [OF assms(1,2) b] by simp
  moreover have "int (length w * Suc (length ts)) \<le> budget"
  proof (rule ccontr)
    assume low: "\<not> int (length w * Suc (length ts)) \<le> budget"
    have "\<not> star_free ts" using assms(1,2) by (cases ts) (auto simp: star_free_def)
    moreover have "first_row ts 0 = rows (\<lambda>i. 0 \<le> i) w 0 [] ts" by (rule first_row_rows) simp_all
    moreover have "leftmost_longest ts w 0 0 (update_best None (last (rows (\<lambda>i. 0 \<le> i) w 0 [] ts)) 0)"
      using gmatch_all_stars [OF assms(1,2), of "[]"] starts_at [of "\<lambda>i. 0 \<le> i" 0 w ts]
      by (auto simp: last_rows update_best_def leftmost_longest_def occurs_def)
    ultimately have "glob_find ts w 0 budget = Inl OverBudget"
      using find_scan_exact [OF assms(3) le0 le0, where w = w and ts = ts] low
      by (simp only: glob_find_def if_False Let_def drop_0 diff_zero)
    with Inr show False by simp
  qed
  ultimately show ?thesis by simp
qed

section \<open>Reversal\<close>

lemma gmatch_rev: "gmatch (rev ts) (rev s) = gmatch ts s"
proof (induction ts arbitrary: s)
  case (Cons t ts)
  show ?case
  proof (cases "t = Star")
    case True
    have "gmatch (rev (t # ts)) (rev s) \<longleftrightarrow> (\<exists>k \<le> length s. gmatch (rev ts) (take k (rev s)))"
      using True gmatch_snoc_star by simp
    also have "\<dots> \<longleftrightarrow> (\<exists>k \<le> length s. gmatch (rev ts) (rev (drop k s)))"
    proof
      assume "\<exists>k \<le> length s. gmatch (rev ts) (take k (rev s))"
      then obtain k where "k \<le> length s" "gmatch (rev ts) (take k (rev s))" by blast
      then show "\<exists>k \<le> length s. gmatch (rev ts) (rev (drop k s))"
        by (intro exI [of _ "length s - k"]) (simp add: take_rev)
    next
      assume "\<exists>k \<le> length s. gmatch (rev ts) (rev (drop k s))"
      then obtain k where "k \<le> length s" "gmatch (rev ts) (rev (drop k s))" by blast
      then show "\<exists>k \<le> length s. gmatch (rev ts) (take k (rev s))"
        by (intro exI [of _ "length s - k"]) (simp add: take_rev)
    qed
    finally show ?thesis by (simp add: Cons.IH True gmatch_star)
  next
    case False
    then show ?thesis using gmatch_snoc_tok [OF False, of "rev ts"]
      by (cases s) (simp_all add: gmatch_tok Cons.IH conj_commute)
  qed
qed simp

section \<open>Properties\<close>

text \<open>The substitution returns, except for one shape.  Replacing every match of a pattern that is
  only stars never ends once the budget admits the first match (each further match is empty, at the
  end of the text, and spends nothing); for every other pattern, and for a single replacement, it
  returns.\<close>

theorem glob_sub_returns:
  "glob_sub ts w rep first_only (int n) = None \<longleftrightarrow>
     \<not> first_only \<and> set ts = {Star} \<and> length w * Suc (length ts) \<le> n"
proof -
  consider (nil) "ts = []" | (fixed) "ts \<noteq> []" "star_free ts"
    | (mixed) "ts \<noteq> []" "\<not> star_free ts" "\<not> set ts \<subseteq> {Star}" | (stars) "ts \<noteq> []" "\<not> star_free ts" "set ts \<subseteq> {Star}"
    by blast
  then show ?thesis
  proof cases
    case nil
    then show ?thesis by (simp add: glob_sub_def)
  next
    case fixed
    then have "set ts \<noteq> {Star}" by (auto simp: star_free_def)
    with fixed fixed_subs_returns [OF fixed(2,1) le0, of "int n" w] show ?thesis by (simp add: glob_sub_def)
  next
    case mixed
    then have "set ts \<noteq> {Star}" by auto
    with mixed star_subs_returns [OF mixed(3) le0, of "int n" w] show ?thesis by (simp add: glob_sub_def)
  next
    case stars
    then have "set ts = {Star}" by (auto simp: star_free_def)
    moreover have "star_subs ts w rep 0 0 None [] (int n) = None \<longleftrightarrow> length w * Suc (length ts) \<le> n"
      using star_subs_all [OF stars(1,3), of "int n" w rep] by (simp only: of_nat_le_iff of_nat_0_le_iff simp_thms)
    ultimately show ?thesis using stars star_subs_first [of ts w rep] by (simp add: glob_sub_def)
  qed
qed

text \<open>C14: The search is exact.  With a start inside the text, \<open>glob_find\<close> returns the leftmost match of
  the pattern's declarative meaning, and among those the longest, or none when there is none; it fails
  only when the budget is below the size of the table.\<close>

theorem glob_find_leftmost_longest:
  assumes "start \<le> length w"
  shows "case glob_find ts w start (int n) of
      Inl e \<Rightarrow> e = OverBudget \<and> n < (length w - start) * Suc (length ts)
    | Inr (r, b) \<Rightarrow> leftmost_longest ts w start (length w) r \<and> 0 \<le> b \<and> b \<le> int n"
proof (cases "glob_find ts w start (int n)")
  case (Inl e)
  with glob_find_exact [OF assms, of "int n" ts] have "e = OverBudget"
    "int n < int ((length w - start) * Suc (length ts))" by (simp_all only: sum.case of_nat_0_le_iff)
  with Inl show ?thesis by (simp only: sum.case of_nat_less_iff)
next
  case (Inr rb)
  with glob_find_exact [OF assms, of "int n" ts] show ?thesis by simp
qed

theorem glob_find_leftmost_longest_witness:
  "leftmost_longest [Star, Lit (CHR ''b'')] ''ab-b-'' 1 5 (Some (1, 4))"
proof -
  have "glob_find [Star, Lit (CHR ''b'')] ''ab-b-'' 1 (int 100) = Inr (Some (1, 4), 88)" by code_simp
  with glob_find_leftmost_longest [where start = 1 and w = "''ab-b-''" and ts = "[Star, Lit (CHR ''b'')]" and n = 100]
  show ?thesis by (simp add: eval_nat_numeral)
qed

text \<open>The parts an affix operator may remove, by their length.\<close>

definition affix_lengths :: "affix \<Rightarrow> gtok list \<Rightarrow> string \<Rightarrow> nat set" where
  "affix_lengths ax ts val = {k. k \<le> length val \<and>
     gmatch ts (if ax = ShortPrefix \<or> ax = LongPrefix then take k val else drop (length val - k) val)}"

text \<open>The four affix operators remove exactly the shortest or the longest matching prefix or suffix,
  and nothing when none matches; a pattern that does not compile, or a budget below the size of the
  table, is an error.\<close>

theorem strip_affix_exact:
  "strip_affix val ax pat (int n) =
     (case glob_tokens pat of
        Inl e \<Rightarrow> Inl e
      | Inr ts \<Rightarrow>
          (if n < length val * Suc (length ts) then Inl OverBudget
           else (let K = affix_lengths ax ts val;
                     k = (if ax = ShortPrefix \<or> ax = ShortSuffix then Min K else Max K)
                 in Inr (if K = {} then val
                         else if ax = ShortPrefix \<or> ax = LongPrefix then drop k val
                         else take (length val - k) val,
                         int n - int (length val * Suc (length ts))))))"
proof (cases "glob_tokens pat")
  case (Inr ts)
  define cost where "cost = length val * Suc (length ts)"
  let ?pre = "filter (\<lambda>e. gmatch ts (take e val)) [0 ..< Suc (length val)]"
  let ?suf = "filter (\<lambda>e. gmatch (rev ts) (take e (rev val))) [0 ..< Suc (length val)]"
  have p: "glob_prefix_ends ts val (int n) =
      (if cost \<le> n then Inr (?pre, int n - int cost) else Inl OverBudget)"
    using glob_prefix_ends_exact [of "int n" ts val] unfolding cost_def of_nat_le_iff by simp
  have s: "glob_prefix_ends (rev ts) (rev val) (int n) =
      (if cost \<le> n then Inr (?suf, int n - int cost) else Inl OverBudget)"
    using glob_prefix_ends_exact [of "int n" "rev ts" "rev val"] unfolding cost_def of_nat_le_iff
    by simp
  have pre: "set ?pre = affix_lengths ax ts val" if "ax = ShortPrefix \<or> ax = LongPrefix"
    using that by (auto simp: affix_lengths_def simp del: upt_Suc)
  have suf: "set ?suf = affix_lengths ax ts val" if "\<not> (ax = ShortPrefix \<or> ax = LongPrefix)"
    using that by (auto simp: affix_lengths_def take_rev gmatch_rev simp del: upt_Suc)
  have empty: "xs = [] \<longleftrightarrow> set xs = {}" for xs :: "nat list" by simp
  show ?thesis
  proof (cases "cost \<le> n")
    case False
    then show ?thesis unfolding strip_affix_def Inr sum.case cost_def [symmetric] by (simp add: p s)
  next
    case True
    show ?thesis
    proof (cases "ax = ShortPrefix \<or> ax = LongPrefix")
      case pr: True
      show ?thesis unfolding strip_affix_def Inr sum.case if_P [OF pr] p if_P [OF True] prod.case empty pre [OF pr]
        cost_def [symmetric] Let_def using True pr by (cases ax) simp_all
    next
      case su: False
      show ?thesis unfolding strip_affix_def Inr sum.case if_not_P [OF su] s if_P [OF True] prod.case empty suf [OF su]
        cost_def [symmetric] Let_def using True su by (cases ax) simp_all
    qed
  qed
qed (simp add: strip_affix_def)

end
