(* ===== verification/Expansion.thy ===== *)
theory Expansion
  imports Glob
begin

text \<open>
  Bash parameter expansion (\<^verbatim>\<open>expansion.py\<close>): one innermost \<^verbatim>\<open>${...}\<close> body with all its operators
  (\<^verbatim>\<open>_expand_one\<close>), the resolve loop (\<^verbatim>\<open>resolve_expansions\<close>), the two variable tables, and the whole-text
  resolver (\<^verbatim>\<open>resolve_text\<close>).  A substitution need not return (see \<open>glob_sub_returns\<close>), and \<^verbatim>\<open>int\<close>
  raises a \<^verbatim>\<open>ValueError\<close> that nothing here catches on a number of more than 4300 digits; so everything above
  them is an option whose \<open>None\<close> is "gives no value" (\<open>expand_one_returns\<close> tells the two apart).  An expansion
  the code refuses is the inner \<open>None\<close>.  The compiled regular expressions are written out as scanners.
\<close>

definition MAX_EXPANSION_PASSES :: nat where "MAX_EXPANSION_PASSES = 16"
definition RESOLVE_MAX_DEPTH :: nat where "RESOLVE_MAX_DEPTH = 8"
definition MAX_VALUE_LEN :: nat where "MAX_VALUE_LEN = 8192"
definition MAX_LINE_LEN :: nat where "MAX_LINE_LEN = 65536"
definition MAX_TABLE_BYTES :: nat where "MAX_TABLE_BYTES = 1048576"
definition MAX_TEXT_LEN :: nat where "MAX_TEXT_LEN = 8388608"

section \<open>Pieces of a body\<close>

text \<open>\<open>(.*)$\<close>: the rest when it holds no newline, or up to a newline that ends it.\<close>

definition rest_of_line :: "string \<Rightarrow> string option" where
  "rest_of_line s =
     (if NL \<notin> set s then Some s
      else if last s = NL \<and> NL \<notin> set (butlast s) then Some (butlast s) else None)"

text \<open>\<open>$\<close> after a fixed text.\<close>

definition at_end :: "string \<Rightarrow> bool" where "at_end s = (s = [] \<or> s = [NL])"

text \<open>The operator a body has after its name: the first of the alternatives the code tries in order.\<close>

datatype operator =
    Element string
  | Replace bool string
  | CaseOp bool bool
  | Slice string "string option"
  | Affix affix string
  | DefaultIf char bool string
  | Substring string "string option"
  | UnsetSubstring string
  | Plain

definition element_op :: "string \<Rightarrow> operator option" where
  "element_op s =
     (case s of
        [] \<Rightarrow> None
      | c # r \<Rightarrow>
          (let idx = takeWhile (\<lambda>d. d \<noteq> CHR '']'') r; after = dropWhile (\<lambda>d. d \<noteq> CHR '']'') r in
           if c = CHR ''['' \<and> after \<noteq> [] \<and> at_end (tl after) \<and>
              (idx = ''*'' \<or> idx = ''@'' \<or> idx \<noteq> [] \<and> list_all is_digit idx)
           then Some (Element idx) else None))"

definition replace_op :: "string \<Rightarrow> operator option" where
  "replace_op s =
     (if py_startswith s ''//'' then map_option (Replace True) (rest_of_line (drop 2 s))
      else if py_startswith s ''/'' then map_option (Replace False) (rest_of_line (drop 1 s))
      else None)"

definition case_op :: "string \<Rightarrow> operator option" where
  "case_op s =
     (if py_startswith s '',,'' \<and> at_end (drop 2 s) then Some (CaseOp False True)
      else if py_startswith s '','' \<and> at_end (drop 1 s) then Some (CaseOp False False)
      else if py_startswith s ''^^'' \<and> at_end (drop 2 s) then Some (CaseOp True True)
      else if py_startswith s ''^'' \<and> at_end (drop 1 s) then Some (CaseOp True False)
      else None)"

text \<open>\<open>:(\d+)(?::(\d+))?$\<close>: the digits.\<close>

definition offset_length :: "string \<Rightarrow> (string \<times> string option) option" where
  "offset_length s =
     (if \<not> py_startswith s '':'' then None
      else (let off = takeWhile is_digit (drop 1 s); r = dropWhile is_digit (drop 1 s) in
        if off = [] then None
        else if at_end r then Some (off, None)
        else if \<not> py_startswith r '':'' then None
        else (let len = takeWhile is_digit (drop 1 r); r' = dropWhile is_digit (drop 1 r) in
          if len \<noteq> [] \<and> at_end r' then Some (off, Some len) else None)))"

definition slice_op :: "string \<Rightarrow> operator option" where
  "slice_op s =
     (if py_startswith s ''[*]'' \<or> py_startswith s ''[@]''
      then map_option (\<lambda>(off, len). Slice off len) (offset_length (drop 3 s)) else None)"

definition affix_op :: "string \<Rightarrow> operator option" where
  "affix_op s =
     (let op = (\<lambda>ax n. map_option (Affix ax) (rest_of_line (drop n s))) in
      if py_startswith s ''##'' then op LongPrefix 2
      else if py_startswith s ''#'' then op ShortPrefix 1
      else if py_startswith s ''%%'' then op LongSuffix 2
      else if py_startswith s ''%'' then op ShortSuffix 1 else None)"

text \<open>The colon operators and the ones without a colon; the flag says that a colon stands before.\<close>

definition default_op :: "string \<Rightarrow> operator option" where
  "default_op s =
     (case s of
        c # d # r \<Rightarrow>
          (if c = CHR '':'' \<and> d \<in> set ''-=+?'' then map_option (DefaultIf d True) (rest_of_line r)
           else if c \<in> set ''-+=?'' then map_option (DefaultIf c False) (rest_of_line (d # r)) else None)
      | [c] \<Rightarrow> if c \<in> set ''-+=?'' then Some (DefaultIf c False []) else None
      | [] \<Rightarrow> None)"

definition unset_substring_op :: "string \<Rightarrow> operator option" where
  "unset_substring_op s =
     (if py_startswith s ''::''
      then (let ds = takeWhile is_digit (drop 2 s) in
            if ds \<noteq> [] \<and> at_end (dropWhile is_digit (drop 2 s)) then Some (UnsetSubstring ds)
            else None)
      else None)"

definition substring_op :: "string \<Rightarrow> operator option" where
  "substring_op s = map_option (\<lambda>(off, len). Substring off len) (offset_length s)"

definition plain_op :: "string \<Rightarrow> operator option" where
  "plain_op s = (if s = [] then Some Plain else None)"

fun first_of :: "(string \<Rightarrow> operator option) list \<Rightarrow> string \<Rightarrow> operator option" where
  "first_of [] s = None"
| "first_of (f # fs) s = (case f s of Some x \<Rightarrow> Some x | None \<Rightarrow> first_of fs s)"

text \<open>A name of word characters and the operator after it.\<close>

definition parse_body :: "string \<Rightarrow> (string \<times> operator) option" where
  "parse_body body =
     (let name = takeWhile is_word body in
      if body \<noteq> [] \<and> (hd body = CHR ''!'' \<or> hd body = CHR ''#'') then None
      else if name = [] then None
      else map_option (\<lambda>op. (name, op))
        (first_of [element_op, replace_op, case_op, slice_op, affix_op, default_op, unset_substring_op,
           substring_op, plain_op] (dropWhile is_word body)))"

text \<open>\<^verbatim>\<open>_split_substitution\<close>: the first slash that no backslash escapes.\<close>

fun split_substitution :: "string \<Rightarrow> string \<times> string" where
  "split_substitution [] = ([], [])"
| "split_substitution (c # s) =
     (if c = BSL \<and> s \<noteq> [] \<and> hd s = CHR ''/''
      then (case split_substitution (tl s) of (pat, rep) \<Rightarrow> (CHR ''/'' # pat, rep))
      else if c = CHR ''/'' then ([], s)
      else (case split_substitution s of (pat, rep) \<Rightarrow> (c # pat, rep)))"

text \<open>The replacement is text: a backslash quotes the next character, unless that is a newline.\<close>

fun unescape :: "string \<Rightarrow> string" where
  "unescape (c # d # s) =
     (if c = BSL \<and> d \<noteq> NL then d # unescape s else c # unescape (d # s))"
| "unescape s = s"

section \<open>One expansion\<close>

type_synonym arrays = "string list dict"

definition join_words :: "string list \<Rightarrow> string" where "join_words ws = py_join '' '' ws"

text \<open>The value of a substitution, or a refusal; and the budget left.\<close>

definition replace_value ::
  "string \<Rightarrow> bool \<Rightarrow> string \<Rightarrow> int \<Rightarrow> (string option \<times> int) option" where
  "replace_value val every rest budget =
     (case split_substitution rest of (pat, rep) \<Rightarrow>
        (if length pat > MAX_GLOB_PATTERN_LEN \<or> length rep > MAX_VALUE_LEN then Some (None, budget)
         else if length val + (length val + 1) * length rep > MAX_LINE_LEN then Some (None, budget)
         else (case glob_tokens pat of
             Inl e \<Rightarrow> Some (None, budget)
           | Inr ts \<Rightarrow>
               (case glob_sub ts val (unescape rep) (\<not> every) budget of
                  None \<Rightarrow> None
                | Some (Inl e) \<Rightarrow> Some (None, budget)
                | Some (Inr (v, b)) \<Rightarrow> Some (Some v, b)))))"

text \<open>\<open>upper\<close> and \<open>all\<close> select \<^verbatim>\<open>^^\<close>, \<^verbatim>\<open>^\<close>, \<^verbatim>\<open>,,\<close> and \<^verbatim>\<open>,\<close>.\<close>

definition convert_case :: "bool \<Rightarrow> bool \<Rightarrow> string \<Rightarrow> string" where
  "convert_case upper every val =
     (let conv = (if upper then py_upper else py_lower) in
      if every then conv val else conv (take 1 val) @ drop 1 val)"

text \<open>The default operators: \<open>d\<close> is one of \<^verbatim>\<open>- = + ?\<close>.\<close>

definition default_value :: "char \<Rightarrow> bool \<Rightarrow> string \<Rightarrow> string option \<Rightarrow> string option" where
  "default_value d colon word val =
     (let present = (if colon then val \<noteq> None \<and> val \<noteq> Some [] else val \<noteq> None) in
      if d = CHR ''-'' \<or> d = CHR ''='' then (if present then val else Some word)
      else if d = CHR ''+'' then Some (if present then word else [])
      else (if present then val else None))"

text \<open>\<^verbatim>\<open>xs[int(off) : int(off) + int(length)]\<close>, and \<^verbatim>\<open>xs[int(off) :]\<close> without a length.\<close>

definition substring :: "string \<Rightarrow> string option \<Rightarrow> 'a list \<Rightarrow> 'a list option" where
  "substring off len xs =
     (case digits_int off of
        None \<Rightarrow> None
      | Some i \<Rightarrow> (case len of None \<Rightarrow> Some (drop i xs)
                | Some ds \<Rightarrow> map_option (\<lambda>n. take n (drop i xs)) (digits_int ds)))"

fun apply_operator ::
  "string dict \<Rightarrow> arrays \<Rightarrow> int \<Rightarrow> string \<Rightarrow> operator \<Rightarrow> (string option \<times> int) option" where
  "apply_operator vars arrays budget name (Element idx) =
     (case map_of arrays name of
        None \<Rightarrow> Some (None, budget)
      | Some arr \<Rightarrow>
          (if idx = ''*'' \<or> idx = ''@'' then Some (Some (join_words arr), budget)
           else map_option (\<lambda>i. (Some (if i < length arr then arr ! i else []), budget)) (digits_int idx)))"
| "apply_operator vars arrays budget name (Replace every rest) =
     (case map_of vars name of
        None \<Rightarrow> Some (None, budget) | Some val \<Rightarrow> replace_value val every rest budget)"
| "apply_operator vars arrays budget name (CaseOp upper every) =
     Some (map_option (convert_case upper every) (map_of vars name), budget)"
| "apply_operator vars arrays budget name (Slice off len) =
     (if digits_int off = None then None
      else (case map_of arrays name of
              None \<Rightarrow> Some (None, budget)
            | Some arr \<Rightarrow> map_option (\<lambda>ws. (Some (join_words ws), budget)) (substring off len arr)))"
| "apply_operator vars arrays budget name (Affix ax pat) =
     (case map_of vars name of
        None \<Rightarrow> Some (Some [], budget)
      | Some val \<Rightarrow>
          (case strip_affix val ax pat budget of
             Inl e \<Rightarrow> Some (None, budget) | Inr (v, b) \<Rightarrow> Some (Some v, b)))"
| "apply_operator vars arrays budget name (DefaultIf d colon word) =
     Some (default_value d colon word (map_of vars name), budget)"
| "apply_operator vars arrays budget name (UnsetSubstring n) =
     map_option (\<lambda>k. (map_option (take k) (map_of vars name), budget)) (digits_int n)"
| "apply_operator vars arrays budget name (Substring off len) =
     (case map_of vars name of
        None \<Rightarrow> Some (Some [], budget)
      | Some val \<Rightarrow> map_option (\<lambda>t. (Some t, budget)) (substring off len val))"
| "apply_operator vars arrays budget name Plain =
     Some (case map_of arrays name of
             Some arr \<Rightarrow> Some (if arr = [] then [] else hd arr)
           | None \<Rightarrow> map_of vars name, budget)"

definition expand_one_unbounded ::
  "string \<Rightarrow> string dict \<Rightarrow> arrays \<Rightarrow> int \<Rightarrow> (string option \<times> int) option" where
  "expand_one_unbounded body vars arrays budget =
     (case parse_body body of
        None \<Rightarrow> Some (None, budget) | Some (name, op) \<Rightarrow> apply_operator vars arrays budget name op)"

definition expand_one :: "string \<Rightarrow> string dict \<Rightarrow> arrays \<Rightarrow> int \<Rightarrow> (string option \<times> int) option" where
  "expand_one body vars arrays budget =
     (case expand_one_unbounded body vars arrays budget of
        None \<Rightarrow> None
      | Some (None, b) \<Rightarrow> Some (None, b)
      | Some (Some r, b) \<Rightarrow> Some (if length r > MAX_LINE_LEN then None else Some r, b))"

section \<open>The resolve loop\<close>

definition brace :: "char \<Rightarrow> bool" where "brace c = (c = CHR ''{'' \<or> c = CHR ''}'')"

text \<open>\<^verbatim>\<open>\$\{([^{}]*)\}\<close>, the leftmost: what stands before it, the body, and what follows.\<close>

fun innermost :: "string \<Rightarrow> (string \<times> string \<times> string) option" where
  "innermost [] = None"
| "innermost (c # s) =
     (let inner = tl s; body = takeWhile (\<lambda>d. \<not> brace d) inner; after = dropWhile (\<lambda>d. \<not> brace d) inner in
      if c = CHR ''$'' \<and> s \<noteq> [] \<and> hd s = CHR ''{'' \<and> after \<noteq> [] \<and> hd after = CHR ''}''
      then Some ([], body, tl after)
      else map_option (\<lambda>(pre, b, post). (c # pre, b, post)) (innermost s))"

definition open_expansion :: string where "open_expansion = ''${''"

fun resolve_loop ::
  "nat \<Rightarrow> string dict \<Rightarrow> arrays \<Rightarrow> nat \<Rightarrow> string \<Rightarrow> int \<Rightarrow> (string \<times> bool) option" where
  "resolve_loop 0 vars arrays limit t budget = Some (t, False)"
| "resolve_loop (Suc passes) vars arrays limit t budget =
     (case innermost t of
        None \<Rightarrow> Some (t, \<not> py_in open_expansion t)
      | Some (pre, body, post) \<Rightarrow>
          (case expand_one body vars arrays budget of
             None \<Rightarrow> None
           | Some (None, b) \<Rightarrow> Some (t, False)
           | Some (Some r, b) \<Rightarrow>
               (if length pre + length r + length post > limit then Some (t, False)
                else if pre @ r @ post = t then Some (t, \<not> py_in open_expansion t)
                else resolve_loop passes vars arrays limit (pre @ r @ post) b)))"

definition resolve_expansions ::
  "string \<Rightarrow> string dict \<Rightarrow> arrays \<Rightarrow> nat \<Rightarrow> (string \<times> bool) option" where
  "resolve_expansions t vars arrays limit =
     resolve_loop MAX_EXPANSION_PASSES vars arrays limit t MAX_GLOB_STEPS"

section \<open>Variable tables\<close>

definition name_start :: "char \<Rightarrow> bool" where "name_start c = (ascii_letter c \<or> c = CHR ''_'')"
definition name_char :: "char \<Rightarrow> bool" where "name_char c = (name_start c \<or> is_digit c)"

text \<open>A name, spaces, an equals sign; what follows it.\<close>

definition assignment :: "string \<Rightarrow> (string \<times> string) option" where
  "assignment s =
     (let t = dropWhile py_isspace s; name = takeWhile name_char t;
          r = dropWhile py_isspace (dropWhile name_char t) in
      if name \<noteq> [] \<and> name_start (hd name) \<and> r \<noteq> [] \<and> hd r = CHR ''='' then Some (name, tl r) else None)"

definition assigned_value :: "string \<Rightarrow> string" where
  "assigned_value s = strip_quotes (py_strip s)"

text \<open>
  One assignment enters a table: a value over the ceiling removes the name, and the total over the
  ceiling ends the reading (\<open>None\<close>).
\<close>

definition drop_key :: "string \<Rightarrow> 'v dict \<Rightarrow> 'v dict" where
  "drop_key k d = filter (\<lambda>(k', v). k' \<noteq> k) d"

definition enter :: "string \<Rightarrow> string \<Rightarrow> string dict \<Rightarrow> nat \<Rightarrow> (string dict \<times> nat) option" where
  "enter name val table tot =
     (if length val > MAX_VALUE_LEN then Some (drop_key name table, tot)
      else if tot + length val > MAX_TABLE_BYTES then None
      else Some (dict_set table name val, tot + length val))"

text \<open>A diff line (which holds no newline) with its prefix; an empty value is no assignment.\<close>

definition assign_line :: "string \<Rightarrow> (char \<times> string \<times> string) option" where
  "assign_line l =
     (case l of
        [] \<Rightarrow> None
      | c # s \<Rightarrow>
          (if c \<in> set ''+- '' then (case assignment s of
             None \<Rightarrow> None
           | Some (name, r) \<Rightarrow> if r = [] then None else Some (c, name, assigned_value r)) else None))"

fun variable_table_from :: "string list \<Rightarrow> char set \<Rightarrow> string dict \<Rightarrow> nat \<Rightarrow> string dict" where
  "variable_table_from [] marks table tot = table"
| "variable_table_from (l # ls) marks table tot =
     (case assign_line l of
        None \<Rightarrow> variable_table_from ls marks table tot
      | Some (c, name, val) \<Rightarrow>
          (if c \<notin> marks then variable_table_from ls marks table tot
           else (case enter name val table tot of
                   None \<Rightarrow> table | Some (table', tot') \<Rightarrow> variable_table_from ls marks table' tot')))"

definition variable_table :: "string list \<Rightarrow> char set \<Rightarrow> string dict" where
  "variable_table ls marks = variable_table_from ls marks [] 0"

text \<open>
  The whole-text table matches across lines: the space after the equals sign may span newlines, so an
  assignment of nothing takes the next line that is not blank as its value.  At the end of the text a
  blank that is no newline stands for an empty value.
\<close>

definition text_value :: "string \<Rightarrow> (string \<times> string) option" where
  "text_value s =
     (let r = dropWhile py_isspace s in
      if r \<noteq> [] then Some (assigned_value (takeWhile (\<lambda>c. c \<noteq> NL) r), dropWhile (\<lambda>c. c \<noteq> NL) r)
      else if list_ex (\<lambda>c. c \<noteq> NL) s then Some ([], []) else None)"

definition skip_line :: "string \<Rightarrow> string" where
  "skip_line s = tl (dropWhile (\<lambda>c. c \<noteq> NL) s)"

definition text_assignment :: "string \<Rightarrow> (string \<times> string \<times> string) option" where
  "text_assignment s =
     (case assignment s of
        None \<Rightarrow> None
      | Some (name, r) \<Rightarrow>
          (case text_value r of None \<Rightarrow> None | Some (val, post) \<Rightarrow> Some (name, val, post)))"

lemma assignment_shorter: "assignment s = Some (name, r) \<Longrightarrow> length r < length s"
proof -
  assume a: "assignment s = Some (name, r)"
  let ?t = "dropWhile py_isspace s" and ?u = "dropWhile py_isspace (dropWhile name_char (dropWhile py_isspace s))"
  from a have "r = tl ?u" "?u \<noteq> []" by (auto simp: assignment_def Let_def split: if_splits)
  then have "length r < length ?u" by (cases ?u) auto
  also have "\<dots> \<le> length s" by (meson length_dropWhile_le le_trans)
  finally show ?thesis .
qed

lemma text_assignment_shorter: "text_assignment s = Some (name, val, post) \<Longrightarrow> length post < length s"
proof -
  assume a: "text_assignment s = Some (name, val, post)"
  then obtain r where r: "assignment s = Some (name, r)" "text_value r = Some (val, post)"
    by (auto simp: text_assignment_def split: option.splits prod.splits)
  from r(2) have "length post \<le> length r"
    by (auto simp: text_value_def Let_def split: if_splits intro: le_trans [OF length_dropWhile_le length_dropWhile_le])
  with assignment_shorter [OF r(1)] show ?thesis by simp
qed

lemma skip_line_shorter: "s \<noteq> [] \<Longrightarrow> length (skip_line s) < length s"
proof -
  assume "s \<noteq> []"
  then have "0 < length s" by simp
  moreover have "length (skip_line s) \<le> length s - 1"
    unfolding skip_line_def length_tl by (rule diff_le_mono, rule length_dropWhile_le)
  ultimately show ?thesis by linarith
qed

function text_table_from :: "string \<Rightarrow> string dict \<Rightarrow> nat \<Rightarrow> string dict" where
  "text_table_from s table tot =
     (if s = [] then table
      else (case text_assignment s of
        None \<Rightarrow> text_table_from (skip_line s) table tot
      | Some (name, val, post) \<Rightarrow>
          (case enter name val table tot of
             None \<Rightarrow> table | Some (table', tot') \<Rightarrow> text_table_from post table' tot')))"
  by pat_completeness auto
termination
  by (relation "measure (\<lambda>(s, table, tot). length s)")
     (auto simp: skip_line_shorter text_assignment_shorter)

declare text_table_from.simps [simp del]

definition text_variable_table :: "string \<Rightarrow> string dict" where
  "text_variable_table s = text_table_from s [] 0"

section \<open>Whole texts\<close>

text \<open>Bare references \<^verbatim>\<open>$NAME\<close>: their names in order, and their substitution.\<close>

function bare_refs :: "string \<Rightarrow> string list" where
  "bare_refs [] = []"
| "bare_refs (c # s) =
     (if c = CHR ''$'' \<and> s \<noteq> [] \<and> name_start (hd s)
      then takeWhile name_char s # bare_refs (dropWhile name_char s) else bare_refs s)"
  by pat_completeness auto
termination
  by (relation "measure length") (auto simp: le_imp_less_Suc length_dropWhile_le)

function bare_subst :: "string dict \<Rightarrow> string \<Rightarrow> string" where
  "bare_subst table [] = []"
| "bare_subst table (c # s) =
     (if c = CHR ''$'' \<and> s \<noteq> [] \<and> name_start (hd s)
      then dict_get table (takeWhile name_char s) (c # takeWhile name_char s)
             @ bare_subst table (dropWhile name_char s)
      else c # bare_subst table s)"
  by pat_completeness auto
termination
  by (relation "measure (\<lambda>(table, s). length s)") (auto simp: le_imp_less_Suc length_dropWhile_le)

fun resolve_text_loop :: "nat \<Rightarrow> string \<Rightarrow> string dict \<Rightarrow> string \<Rightarrow> string option" where
  "resolve_text_loop 0 original table val = Some val"
| "resolve_text_loop (Suc depth) original table val =
     (if CHR ''$'' \<notin> set val then Some val
      else (case resolve_expansions val table [] MAX_TEXT_LEN of
        None \<Rightarrow> None
      | Some (v, ok) \<Rightarrow>
          (let refs = bare_refs v; widest = foldr max (map (\<lambda>n. length (dict_get table n [])) refs) 0;
               w = (if refs = [] then v else bare_subst table v) in
           if refs \<noteq> [] \<and> length v + length refs * widest > MAX_TEXT_LEN then Some original
           else if length w > MAX_TEXT_LEN then Some original
           else if w = val then Some w
           else resolve_text_loop depth original table w)))"

definition resolve_text :: "string \<Rightarrow> string dict \<Rightarrow> string option" where
  "resolve_text val table = resolve_text_loop RESOLVE_MAX_DEPTH val table val"

section \<open>When an expansion returns\<close>

lemma tokens_of_head:
  assumes "tokens_of (c # s) = Inr ts" "c \<noteq> CHR ''*''"
  shows "ts \<noteq> [] \<and> hd ts \<noteq> Star"
  using assms by (auto simp: push_def compile_class_def Let_def split: sum.splits option.splits if_splits)

text \<open>Only a pattern of nothing but stars compiles to nothing but stars.\<close>

lemma tokens_of_stars:
  "tokens_of pat = Inr ts \<Longrightarrow> set ts = {Star} \<longleftrightarrow> set pat = {CHR ''*''}"
proof (induction pat arbitrary: ts rule: tokens_of.induct)
  case (2 c s)
  have star: "set pat' \<subseteq> {CHR ''*''} \<Longrightarrow> dropWhile (\<lambda>d. d = CHR ''*'') pat' = []" for pat'
    by (auto simp: dropWhile_eq_Nil_conv)
  show ?case
  proof (cases "c = CHR ''*''")
    case False
    with tokens_of_head [OF \<open>tokens_of (c # s) = Inr ts\<close>] have "hd ts \<in> set ts" "hd ts \<noteq> Star" by auto
    with False show ?thesis by auto
  next
    case True
    then have c: "c \<noteq> BSL" by simp
    let ?r = "dropWhile (\<lambda>d. d = CHR ''*'') s"
    from \<open>tokens_of (c # s) = Inr ts\<close> True c obtain us where us: "tokens_of ?r = Inr us" "ts = Star # us"
      by (auto simp: push_def split: sum.splits)
    show ?thesis
    proof (cases ?r)
      case Nil
      with us have "us = []" by simp
      moreover from Nil have "set s \<subseteq> {CHR ''*''}" by (auto simp: dropWhile_eq_Nil_conv)
      ultimately show ?thesis using us True by auto
    next
      case (Cons d r)
      then have d: "d \<noteq> CHR ''*''" using hd_dropWhile [of "\<lambda>d. d = CHR ''*''" s] by auto
      from Cons have "d \<in> set s" using set_dropWhileD [of d "\<lambda>d. d = CHR ''*''" s] by auto
      moreover from us(1) Cons d tokens_of_head [of d r us] have "hd us \<in> set us" "hd us \<noteq> Star" by auto
      ultimately show ?thesis using us(2) d by auto
    qed
  qed
qed simp

lemma tokens_of_star: "set pat = {CHR ''*''} \<Longrightarrow> tokens_of pat = Inr [Star]"
proof (cases pat)
  case (Cons c s)
  assume "set pat = {CHR ''*''}"
  with Cons have c: "c = CHR ''*''" "\<forall>x \<in> set s. x = CHR ''*''" by auto
  then have s: "s = replicate (length s) (CHR ''*'')" by (intro replicate_eqI) auto
  have "tokens_of (CHR ''*'' # replicate n (CHR ''*'')) = Inr [Star]" for n
    by (simp add: push_def dropWhile_replicate)
  with Cons c(1) s show ?thesis by metis
qed simp

lemma if_split_eq: "(if P then Some a else x) = None \<longleftrightarrow> \<not> P \<and> x = None"
  by simp

lemma replace_value_returns:
  "replace_value val every rest (int n) = None \<longleftrightarrow>
     every \<and> set (fst (split_substitution rest)) = {CHR ''*''} \<and>
     length (fst (split_substitution rest)) \<le> MAX_GLOB_PATTERN_LEN \<and>
     length (snd (split_substitution rest)) \<le> MAX_VALUE_LEN \<and>
     length val + (length val + 1) * length (snd (split_substitution rest)) \<le> MAX_LINE_LEN \<and>
     2 * length val \<le> n"
proof -
  obtain pat rep where sp: "split_substitution rest = (pat, rep)" by (cases "split_substitution rest")
  have none: "(case x of None \<Rightarrow> None | Some (Inl e) \<Rightarrow> Some (None, int n) | Some (Inr (v, b)) \<Rightarrow> Some (Some v, b)) = None
    \<longleftrightarrow> x = None" for x :: "(glob_error + string \<times> int) option"
    by (simp split: option.split sum.split prod.split)
  show ?thesis
  proof (cases "glob_tokens pat")
    case (Inl e)
    have "\<not> (set pat = {CHR ''*''} \<and> length pat \<le> MAX_GLOB_PATTERN_LEN)"
    proof
      assume a: "set pat = {CHR ''*''} \<and> length pat \<le> MAX_GLOB_PATTERN_LEN"
      then have "tokens_of pat = Inr [Star]" by (intro tokens_of_star) simp
      with a Inl show False by (simp add: glob_tokens_def)
    qed
    then have no: "\<not> (set pat = {CHR ''*''} \<and> length pat \<le> MAX_GLOB_PATTERN_LEN \<and> P)" for P by blast
    show ?thesis unfolding replace_value_def sp prod.case fst_conv snd_conv Inl sum.case
      using no by (simp only: if_cancel option.distinct simp_thms split: if_split)
  next
    case (Inr ts)
    then have ts: "tokens_of pat = Inr ts" "length pat \<le> MAX_GLOB_PATTERN_LEN"
      by (auto simp: glob_tokens_def split: if_splits)
    have cost: "set ts = {Star} \<Longrightarrow> length val * Suc (length ts) = 2 * length val"
    proof -
      assume "set ts = {Star}"
      with tokens_of_stars [OF ts(1)] have "set pat = {CHR ''*''}" by simp
      from tokens_of_star [OF this] ts(1) show ?thesis by simp
    qed
    have sub: "glob_sub ts val (unescape rep) (\<not> every) (int n) = None \<longleftrightarrow>
        every \<and> set pat = {CHR ''*''} \<and> 2 * length val \<le> n"
      using tokens_of_stars [OF ts(1)] cost by (simp only: glob_sub_returns not_not cong: conj_cong)
    show ?thesis unfolding replace_value_def sp prod.case fst_conv snd_conv Inr sum.case
      using ts(2) by (simp only: if_split_eq none sub option.distinct not_less de_Morgan_disj simp_thms conj_ac)
  qed
qed

text \<open>
  The operators whose numbers \<^verbatim>\<open>int\<close> refuses.  A number is read only where the code gets to it: an element of a
  known array, a substring of a set variable; the offset of a slice and the length after two colons always.
\<close>

definition overlong :: "string \<Rightarrow> bool" where "overlong ds = (4300 < length ds)"

definition overlong_number :: "string dict \<Rightarrow> arrays \<Rightarrow> string \<Rightarrow> operator \<Rightarrow> bool" where
  "overlong_number vars arrays name op =
     (case op of
        Element idx \<Rightarrow> map_of arrays name \<noteq> None \<and> idx \<noteq> ''*'' \<and> idx \<noteq> ''@'' \<and> overlong idx
      | Slice off len \<Rightarrow> overlong off \<or> map_of arrays name \<noteq> None \<and> (\<exists>n. len = Some n \<and> overlong n)
      | UnsetSubstring n \<Rightarrow> overlong n
      | Substring off len \<Rightarrow> map_of vars name \<noteq> None \<and> (overlong off \<or> (\<exists>n. len = Some n \<and> overlong n))
      | _ \<Rightarrow> False)"

lemma digits_int_None: "digits_int ds = None \<longleftrightarrow> overlong ds"
  by (simp add: digits_int_def overlong_def not_le)

lemma substring_None: "substring off len xs = None \<longleftrightarrow> overlong off \<or> (\<exists>n. len = Some n \<and> overlong n)"
  by (cases "digits_int off"; cases len) (auto simp: substring_def digits_int_None [symmetric])

lemma apply_operator_returns:
  "apply_operator vars arrays (int n) name op = None \<longleftrightarrow>
     overlong_number vars arrays name op \<or>
     (\<exists>rest val. op = Replace True rest \<and> map_of vars name = Some val \<and>
        replace_value val True rest (int n) = None)"
proof (cases op)
  case (Slice off len)
  then show ?thesis
    by (cases "map_of arrays name") (auto simp: overlong_number_def digits_int_None substring_None)
next
  case (Replace every rest)
  have "replace_value val False rest (int n) \<noteq> None" for val by (simp only: replace_value_returns) simp
  then show ?thesis
    by (cases every; cases "map_of vars name") (simp_all add: Replace overlong_number_def)
qed (auto simp: overlong_number_def digits_int_None substring_None split: option.split sum.split prod.split)

lemma expand_one_None: "expand_one body vars arrays budget = None \<longleftrightarrow>
    expand_one_unbounded body vars arrays budget = None"
  by (auto simp: expand_one_def split: option.split prod.split)

lemma expand_one_length: "expand_one body vars arrays budget = Some (Some r, b) \<Longrightarrow> length r \<le> MAX_LINE_LEN"
  by (auto simp: expand_one_def split: option.splits if_splits prod.splits)

definition star_replacement :: "string dict \<Rightarrow> nat \<Rightarrow> string \<Rightarrow> operator \<Rightarrow> bool" where
  "star_replacement vars n name op = (\<exists>rest val pat rep. op = Replace True rest \<and> map_of vars name = Some val \<and>
     split_substitution rest = (pat, rep) \<and> set pat = {CHR ''*''} \<and>
     length pat \<le> MAX_GLOB_PATTERN_LEN \<and> length rep \<le> MAX_VALUE_LEN \<and>
     length val + (length val + 1) * length rep \<le> MAX_LINE_LEN \<and> 2 * length val \<le> n)"

lemma expand_one_no_value:
  "expand_one body vars arrays (int n) = None \<longleftrightarrow>
     (\<exists>name op. parse_body body = Some (name, op) \<and>
        (overlong_number vars arrays name op \<or> star_replacement vars n name op))"
proof -
  have "expand_one body vars arrays (int n) = None \<longleftrightarrow>
      (\<exists>name op. parse_body body = Some (name, op) \<and> apply_operator vars arrays (int n) name op = None)"
    by (auto simp: expand_one_None expand_one_unbounded_def split: option.split prod.split)
  moreover have "(\<exists>rest val. op = Replace True rest \<and> map_of vars name = Some val \<and>
      replace_value val True rest (int n) = None) \<longleftrightarrow> star_replacement vars n name op" for name op
  proof -
    have rv: "replace_value val True rest (int n) = None \<longleftrightarrow>
      (\<exists>pat rep. split_substitution rest = (pat, rep) \<and> set pat = {CHR ''*''} \<and>
        length pat \<le> MAX_GLOB_PATTERN_LEN \<and> length rep \<le> MAX_VALUE_LEN \<and>
        length val + (length val + 1) * length rep \<le> MAX_LINE_LEN \<and> 2 * length val \<le> n)" for val rest
    proof -
      obtain pat rep where sp: "split_substitution rest = (pat, rep)" by (cases "split_substitution rest")
      show ?thesis unfolding replace_value_returns sp fst_conv snd_conv by blast
    qed
    show ?thesis unfolding rv star_replacement_def by metis
  qed
  ultimately show ?thesis unfolding apply_operator_returns by simp
qed

text \<open>C15: One expansion gives a value or is refused, except for two shapes.  A number of more than 4300 digits,
  as an index, an offset or a length the code gets to read, makes \<^verbatim>\<open>int\<close> raise.  And replacing every match of a
  pattern of nothing but stars in the value of a set variable never returns, when pattern and replacement
  are within their bounds and the budget admits the first match.\<close>

theorem expand_one_returns:
  "expand_one body vars arrays (int n) = None \<longleftrightarrow>
     (case parse_body body of
        None \<Rightarrow> False
      | Some (name, Element idx) \<Rightarrow>
          map_of arrays name \<noteq> None \<and> idx \<noteq> ''*'' \<and> idx \<noteq> ''@'' \<and> 4300 < length idx
      | Some (name, Slice off len) \<Rightarrow>
          4300 < length off \<or> map_of arrays name \<noteq> None \<and> (\<exists>ds. len = Some ds \<and> 4300 < length ds)
      | Some (name, UnsetSubstring ds) \<Rightarrow> 4300 < length ds
      | Some (name, Substring off len) \<Rightarrow>
          map_of vars name \<noteq> None \<and> (4300 < length off \<or> (\<exists>ds. len = Some ds \<and> 4300 < length ds))
      | Some (name, Replace every rest) \<Rightarrow>
          every \<and> (\<exists>val pat rep. map_of vars name = Some val \<and>
            split_substitution rest = (pat, rep) \<and> set pat = {CHR ''*''} \<and>
            length pat \<le> MAX_GLOB_PATTERN_LEN \<and> length rep \<le> MAX_VALUE_LEN \<and>
            length val + (length val + 1) * length rep \<le> MAX_LINE_LEN \<and> 2 * length val \<le> n)
      | _ \<Rightarrow> False)"
proof (cases "parse_body body")
  case (Some p)
  obtain name op where p: "p = (name, op)" by (cases p)
  have head: "expand_one body vars arrays (int n) = None \<longleftrightarrow>
      overlong_number vars arrays name op \<or> star_replacement vars n name op"
    unfolding expand_one_no_value by (simp add: Some p)
  show ?thesis
  proof (cases op)
    case (Replace every rest)
    show ?thesis unfolding head Some p option.case prod.case Replace operator.case overlong_number_def
        star_replacement_def operator.inject by iprover
  qed (simp_all add: head Some p overlong_number_def overlong_def star_replacement_def)
qed (simp add: expand_one_no_value)

text \<open>The innermost expansion splits its text.\<close>

lemma innermost_Some: "innermost t = Some (pre, body, post) \<Longrightarrow> t = pre @ ''${'' @ body @ ''}'' @ post"
proof (induction t arbitrary: pre)
  case (Cons c s)
  let ?after = "dropWhile (\<lambda>d. \<not> brace d) (tl s)"
  let ?hit = "c = CHR ''$'' \<and> s \<noteq> [] \<and> hd s = CHR ''{'' \<and> ?after \<noteq> [] \<and> hd ?after = CHR ''}''"
  note eq = Cons.prems [unfolded innermost.simps(2) Let_def]
  show ?case
  proof (cases ?hit)
    case True
    have "pre = []" "body = takeWhile (\<lambda>d. \<not> brace d) (tl s)" "post = tl ?after"
      using eq unfolding if_P [OF True] by simp_all
    moreover from True have "s = CHR ''{'' # tl s" "''}'' @ tl ?after = ?after" "c = CHR ''$''"
      by (metis list.collapse, metis append_Cons append_Nil list.collapse, simp)
    moreover have "tl s = takeWhile (\<lambda>d. \<not> brace d) (tl s) @ ?after" by simp
    ultimately show ?thesis by (metis append.assoc append_Cons append_Nil)
  next
    case False
    from eq obtain pre' where "innermost s = Some (pre', body, post)" "pre = c # pre'"
      unfolding if_not_P [OF False] by auto
    with Cons.IH show ?thesis by simp
  qed
qed simp

lemma flagged:
  "Some (t, \<not> py_in p t) = Some (r, ok) \<Longrightarrow> length r \<le> max (length t) limit \<and> (ok \<longrightarrow> \<not> py_in p r)"
  unfolding option.inject prod.inject by (elim conjE) (hypsubst, simp)

lemma resolve_loop_bounded:
  "resolve_loop passes vars arrays limit t budget = Some (r, ok) \<Longrightarrow>
     length r \<le> max (length t) limit \<and> (ok \<longrightarrow> \<not> py_in open_expansion r)"
proof (induction passes arbitrary: t budget)
  case (Suc passes)
  show ?case
  proof (cases "innermost t")
    case None
    show ?thesis by (rule flagged [OF Suc.prems [unfolded resolve_loop.simps(2) None option.case]])
  next
    case (Some p)
    obtain pre body post where p: "p = (pre, body, post)" by (cases p)
    note eq = Suc.prems [unfolded resolve_loop.simps(2) Some p option.case prod.case]
    then obtain e b where e: "expand_one body vars arrays budget = Some (e, b)"
      by (auto split: option.splits)
    show ?thesis
    proof (cases e)
      case None
      with eq e show ?thesis by simp
    next
      case (Some x)
      note eq' = eq [unfolded e Some option.case prod.case]
      consider (large) "length pre + length x + length post > limit"
        | (same) "\<not> length pre + length x + length post > limit" "pre @ x @ post = t"
        | (step) "\<not> length pre + length x + length post > limit" "pre @ x @ post \<noteq> t" by blast
      then show ?thesis
      proof cases
        case large
        with eq' show ?thesis by simp
      next
        case same
        show ?thesis by (rule flagged [OF eq' [unfolded if_not_P [OF same(1)] if_P [OF same(2)]]])
      next
        case step
        from Suc.IH [OF eq' [unfolded if_not_P [OF step(1)] if_not_P [OF step(2)]]] step(1)
        show ?thesis by (simp add: le_max_iff_disj)
      qed
    qed
  qed
qed simp

text \<open>C30: The resolver never grows a text past its limit, and a text it reports as fully resolved holds
  no expansion any more.\<close>

theorem resolve_bounded:
  "case resolve_expansions t vars arrays limit of
     None \<Rightarrow> True
   | Some (r, ok) \<Rightarrow> length r \<le> max (length t) limit \<and> (if ok then \<not> py_in ''${'' r else True)"
  using resolve_loop_bounded [of MAX_EXPANSION_PASSES vars arrays limit t MAX_GLOB_STEPS]
  by (auto simp: resolve_expansions_def open_expansion_def split: option.split)

lemma resolve_text_loop_bounded:
  assumes "length val \<le> max (length original) MAX_TEXT_LEN"
  shows "resolve_text_loop depth original table val = Some r \<Longrightarrow> length r \<le> max (length original) MAX_TEXT_LEN"
  using assms
proof (induction depth arbitrary: val)
  case (Suc depth)
  show ?case
  proof (cases "CHR ''$'' \<in> set val")
    case False
    with Suc.prems show ?thesis by simp
  next
    case True
    then have d: "\<not> CHR ''$'' \<notin> set val" by simp
    note eq = Suc.prems(1) [unfolded resolve_text_loop.simps(2) if_not_P [OF d]]
    then obtain v ok where v: "resolve_expansions val table [] MAX_TEXT_LEN = Some (v, ok)"
      by (auto split: option.splits)
    define w where "w = (if bare_refs v = [] then v else bare_subst table v)"
    note eq' = eq [unfolded v option.case prod.case Let_def, folded w_def]
    let ?wide = "bare_refs v \<noteq> [] \<and>
      length v + length (bare_refs v) * foldr max (map (\<lambda>n. length (dict_get table n [])) (bare_refs v)) 0 > MAX_TEXT_LEN"
    consider (refused) "?wide \<or> length w > MAX_TEXT_LEN"
      | (same) "\<not> ?wide" "\<not> length w > MAX_TEXT_LEN" "w = val"
      | (step) "\<not> ?wide" "\<not> length w > MAX_TEXT_LEN" "w \<noteq> val" by blast
    then show ?thesis
    proof cases
      case refused
      with eq' show ?thesis by (auto split: if_splits)
    next
      case same
      from eq' [unfolded if_not_P [OF same(1)] if_not_P [OF same(2)] if_P [OF same(3)]] same(2)
      show ?thesis by simp
    next
      case step
      from Suc.IH [OF eq' [unfolded if_not_P [OF step(1)] if_not_P [OF step(2)] if_not_P [OF step(3)]]] step(2)
      show ?thesis by simp
    qed
  qed
qed simp

text \<open>Resolving a whole text obeys the same ceiling: the result is never longer than the larger of
  the text and eight megabytes, whatever table the text brings.\<close>

theorem resolve_text_bounded:
  "case resolve_text val table of None \<Rightarrow> True | Some r \<Rightarrow> length r \<le> max (length val) 8388608"
  using resolve_text_loop_bounded [of val val RESOLVE_MAX_DEPTH table]
  by (auto simp: resolve_text_def MAX_TEXT_LEN_def split: option.split)

text \<open>One nine character expansion in a recipe is enough: replacing every match of a lone star in a
  variable that is set does not return, unless the value is longer than half a line.\<close>

theorem star_replacement_hangs:
  "resolve_expansions ''${x//*/y}'' [(''x'', v)] [] limit =
     (if 2 * length v + 1 \<le> MAX_LINE_LEN then None else Some (''${x//*/y}'', False))"
proof -
  have inner: "innermost ''${x//*/y}'' = Some ([], ''x//*/y'', [])" by (simp add: brace_def)
  have parse: "parse_body ''x//*/y'' = Some (''x'', Replace True ''*/y'')" by code_simp
  have split: "split_substitution ''*/y'' = (''*'', ''y'')" by simp
  have passes: "MAX_EXPANSION_PASSES = Suc 15" by (simp add: MAX_EXPANSION_PASSES_def)
  have steps: "MAX_GLOB_STEPS = int 8000000" by (simp add: MAX_GLOB_STEPS_def)
  show ?thesis
  proof (cases "2 * length v + 1 \<le> MAX_LINE_LEN")
    case True
    then have "expand_one ''x//*/y'' [(''x'', v)] [] (int 8000000) = None"
      unfolding expand_one_no_value parse star_replacement_def
      by (auto simp: split MAX_GLOB_PATTERN_LEN_def MAX_VALUE_LEN_def MAX_LINE_LEN_def)
    then show ?thesis unfolding resolve_expansions_def passes resolve_loop.simps inner option.case prod.case steps
      using True by simp
  next
    case False
    then have "expand_one ''x//*/y'' [(''x'', v)] [] (int 8000000) = Some (None, int 8000000)"
      by (simp add: expand_one_def expand_one_unbounded_def parse replace_value_def split
          MAX_GLOB_PATTERN_LEN_def MAX_VALUE_LEN_def)
    then show ?thesis unfolding resolve_expansions_def passes resolve_loop.simps inner option.case prod.case steps
      using False by simp
  qed
qed

text \<open>A number of 4301 digits raises out of the resolver, whatever the tables hold.\<close>

lemma overlong_number_raises:
  "resolve_expansions (''${x::'' @ replicate 4301 (CHR ''1'') @ ''}'') vars arrays limit = None"
proof -
  let ?ds = "replicate 4301 (CHR ''1'')"
  have t: "takeWhile (\<lambda>d. \<not> brace d) (''x::'' @ ?ds @ ''}'') = ''x::'' @ ?ds"
    "dropWhile (\<lambda>d. \<not> brace d) (''x::'' @ ?ds @ ''}'') = ''}''"
    by (simp_all add: brace_def takeWhile_append dropWhile_append takeWhile_replicate dropWhile_replicate)
  have inner: "innermost (''${x::'' @ ?ds @ ''}'') = Some ([], ''x::'' @ ?ds, [])"
    using t by (simp add: brace_def)
  have word: "is_word (CHR ''x'')" "\<not> is_word (CHR '':'')" by code_simp+
  have parse: "parse_body (''x::'' @ ?ds) = Some (''x'', UnsetSubstring ?ds)"
    using word
    by (simp add: parse_body_def element_op_def replace_op_def case_op_def slice_op_def affix_op_def default_op_def
        unset_substring_op_def Let_def is_digit_def at_end_def takeWhile_replicate dropWhile_replicate)
  have "expand_one (''x::'' @ ?ds) vars arrays (int 8000000) = None"
    unfolding expand_one_no_value parse by (simp add: overlong_number_def overlong_def)
  moreover have passes: "MAX_EXPANSION_PASSES = Suc 15" and steps: "MAX_GLOB_STEPS = int 8000000"
    by (simp_all add: MAX_EXPANSION_PASSES_def MAX_GLOB_STEPS_def)
  ultimately show ?thesis
    unfolding resolve_expansions_def passes resolve_loop.simps inner option.case prod.case steps by simp
qed

section \<open>Where the tables and the comments part\<close>

text \<open>The space after an equals sign spans newlines: an empty assignment takes the next line as its value,
  and that line's own variable is lost.\<close>

lemma empty_assignment_swallows:
  "text_variable_table (''epoch='' @ [NL] @ ''pkgver=1'' @ [NL]) = [(''epoch'', ''pkgver=1'')]"
proof -
  have "text_assignment (''epoch='' @ [NL] @ ''pkgver=1'' @ [NL]) = Some (''epoch'', ''pkgver=1'', [NL])" by code_simp
  moreover have "text_assignment [NL] = None" "skip_line [NL] = []" by code_simp+
  ultimately show ?thesis
    by (simp add: text_variable_table_def text_table_from.simps enter_def MAX_VALUE_LEN_def MAX_TABLE_BYTES_def)
qed

text \<open>An empty pattern on an empty text is replaced twice (\<^verbatim>\<open>re.sub\<close> replaces it once).\<close>

lemma empty_pattern_twice: "glob_sub [] [] rep False budget = Some (Inr (rep @ rep, budget))"
  by (simp add: glob_sub_def)

end
