(* ===== verification/Version.thy ===== *)
theory Version
  imports Expansion Diff_Doc Score_Schema
begin

text \<open>
  Versions (\<^verbatim>\<open>analysis/version.py\<close> with the comparison of \<^verbatim>\<open>discovery.py\<close>): parsing
  \<^verbatim>\<open>[epoch:]pkgver[-pkgrel]\<close>, assembling it from a recipe, comparing an installed version with the
  declared one, and whether a diff moves a version field by its resolved value.  The native comparison
  of pacman is a parameter (an in-process function, or the answer of the command); the fallback is the
  code's own.  Resolving a reference need not return (see \<open>expand_one_returns\<close>), so the readers of diffs
  are options.  They take the parsed document: on a diff that \<open>parse_diff\<close> refuses they raise with it.  The
  \<^verbatim>\<open>ValueError\<close> of an epoch of more than 4300 digits is left out.
\<close>

section \<open>Comparing two versions\<close>

text \<open>\<^verbatim>\<open>re.split(r"(\d+)", v)\<close>: runs of other characters and runs of digits, in turn.\<close>

function split_runs :: "string \<Rightarrow> string list" where
  "split_runs s =
     (let plain = takeWhile (\<lambda>c. \<not> is_digit c) s; r = dropWhile (\<lambda>c. \<not> is_digit c) s in
      if r = [] then [plain]
      else plain # takeWhile is_digit r # split_runs (dropWhile is_digit r))"
  by pat_completeness auto
termination
proof (relation "measure length", simp)
  fix s plain r :: string
  assume "plain = takeWhile (\<lambda>c. \<not> is_digit c) s" and r: "r = dropWhile (\<lambda>c. \<not> is_digit c) s" "r \<noteq> []"
  then have "is_digit (hd r)" using hd_dropWhile [of "\<lambda>c. \<not> is_digit c" s] by auto
  with \<open>r \<noteq> []\<close> have "dropWhile is_digit r = dropWhile is_digit (tl r)" by (cases r) auto
  then have "length (dropWhile is_digit r) \<le> length (tl r)"
    using length_dropWhile_le [of is_digit "tl r"] by simp
  also have "\<dots> < length r" using \<open>r \<noteq> []\<close> by (cases r) auto
  also have "\<dots> \<le> length s" unfolding r by (rule length_dropWhile_le)
  finally show "(dropWhile is_digit r, s) \<in> measure length" by simp
qed

declare split_runs.simps [simp del]

datatype part = Num nat | Txt string

text \<open>
  \<^verbatim>\<open>str.isdigit\<close> also holds of the superscripts, which \<^verbatim>\<open>int\<close> refuses: a run of nothing but superscripts
  makes \<^verbatim>\<open>int(x)\<close> raise \<^verbatim>\<open>ValueError\<close> (\<open>None\<close>), and so does one of more than 4300 digits.
\<close>

definition superscript :: "char \<Rightarrow> bool" where
  "superscript c \<longleftrightarrow> c \<in> {CHR 0xB2, CHR 0xB3, CHR 0xB9}"

definition part_of :: "string \<Rightarrow> part option" where
  "part_of x =
     (if x \<noteq> [] \<and> list_all (\<lambda>c. is_digit c \<or> superscript c) x
      then (if list_all is_digit x then map_option Num (digits_int x) else None) else Some (Txt x))"

definition version_parts :: "string \<Rightarrow> part list option" where
  "version_parts v = those (map part_of (split_runs v))"

definition txt_of :: "part \<Rightarrow> string" where
  "txt_of p = (case p of Num n \<Rightarrow> show_nat n | Txt t \<Rightarrow> t)"

definition part_less :: "part \<Rightarrow> part \<Rightarrow> bool" where
  "part_less a b = (case (a, b) of (Num m, Num n) \<Rightarrow> m < n | _ \<Rightarrow> txt_of a < txt_of b)"

fun compare_parts :: "part list \<Rightarrow> part list \<Rightarrow> int" where
  "compare_parts (a # as) (b # bs) =
     (if a \<noteq> b then (if part_less a b then -1 else 1) else compare_parts as bs)"
| "compare_parts [] [] = 0"
| "compare_parts [] bs = -1"
| "compare_parts as [] = 1"

definition simple_vercmp :: "string \<Rightarrow> string \<Rightarrow> int option" where
  "simple_vercmp v1 v2 =
     (case (version_parts v1, version_parts v2) of
        (Some p1, Some p2) \<Rightarrow> Some (compare_parts p1 p2) | _ \<Rightarrow> None)"

text \<open>
  The comparison in force: \<^verbatim>\<open>pyalpm\<close>'s (which may raise, \<open>None\<close>), the \<^verbatim>\<open>vercmp\<close> command (absent, failed
  or answering no integer: \<open>None\<close>), or neither.
\<close>

datatype comparison =
    Native "string \<Rightarrow> string \<Rightarrow> int option"
  | Command "string \<Rightarrow> string \<Rightarrow> int option"

definition ver_char :: "char \<Rightarrow> bool" where
  "ver_char c = (ascii_letter c \<or> is_digit c \<or> c \<in> set ''._+~'')"

definition version_arg :: "string \<Rightarrow> bool" where
  "version_arg v =
     (let body = (if NL \<in> set v \<and> last v = NL then butlast v else v) in
      body \<noteq> [] \<and> list_all (\<lambda>c. ver_char c \<or> c = CHR '':'' \<or> c = CHR ''-'') body \<and> hd body \<noteq> CHR ''-'')"

definition vercmp :: "comparison \<Rightarrow> string \<Rightarrow> string \<Rightarrow> int option" where
  "vercmp how v1 v2 =
     (if v1 = v2 then Some 0
      else (case how of
        Native f \<Rightarrow> (case f v1 v2 of Some r \<Rightarrow> Some r | None \<Rightarrow> simple_vercmp v1 v2)
      | Command f \<Rightarrow>
          (if \<not> (version_arg v1 \<and> version_arg v2) then simple_vercmp v1 v2
           else (case f v1 v2 of Some r \<Rightarrow> Some r | None \<Rightarrow> simple_vercmp v1 v2))))"

section \<open>Full versions\<close>

record version =
  v_epoch :: nat
  v_pkgver :: string
  v_pkgrel :: "string option"
  v_raw :: string

definition version_full :: "version \<Rightarrow> bool" where "version_full v = (v_pkgrel v \<noteq> None)"

text \<open>The groups of \<^verbatim>\<open>_FULL_VERSION_RE\<close>: epoch, pkgver, pkgrel.\<close>

definition match_version :: "string \<Rightarrow> (string option \<times> string \<times> string option) option" where
  "match_version s =
     (let ds = takeWhile is_digit s; r = dropWhile is_digit s;
          has_epoch = (ds \<noteq> [] \<and> r \<noteq> [] \<and> hd r = CHR '':'');
          body = (if has_epoch then tl r else s);
          ver = takeWhile ver_char body; post = dropWhile ver_char body;
          epoch = (if has_epoch then Some ds else None) in
      if ver = [] then None
      else if at_end post then Some (epoch, ver, None)
      else if hd post \<noteq> CHR ''-'' then None
      else (let rel = takeWhile ver_char (tl post) in
        if rel \<noteq> [] \<and> at_end (dropWhile ver_char (tl post)) then Some (epoch, ver, Some rel) else None))"

definition parse_version :: "string option \<Rightarrow> version option" where
  "parse_version t =
     (case t of
        None \<Rightarrow> None
      | Some s \<Rightarrow>
          (if s = [] then None
           else (case match_version (py_strip s) of
              None \<Rightarrow> None
            | Some (epoch, ver, rel) \<Rightarrow>
                Some \<lparr>v_epoch = (case epoch of None \<Rightarrow> 0 | Some ds \<Rightarrow> nat_of_digits ds),
                      v_pkgver = ver, v_pkgrel = rel, v_raw = py_strip s\<rparr>)))"

text \<open>
  \<open>search_lines f s\<close> is the search for a \<^verbatim>\<open>^\<close>-anchored expression in \<^verbatim>\<open>MULTILINE\<close> mode: the first line start
  from which \<open>f\<close> matches.
\<close>

function search_lines :: "(string \<Rightarrow> 'a option) \<Rightarrow> string \<Rightarrow> 'a option" where
  "search_lines f s =
     (case f s of
        Some x \<Rightarrow> Some x
      | None \<Rightarrow> (if NL \<in> set s then search_lines f (skip_line s) else None))"
  by pat_completeness auto
termination
  by (relation "measure (\<lambda>(f, s). length s)") (auto intro!: skip_line_shorter)

declare search_lines.simps [simp del]

text \<open>A field, spaces and an equals sign; what follows the space after it.  \<open>nocase\<close> ignores case.\<close>

definition field_assigned :: "bool \<Rightarrow> string \<Rightarrow> string \<Rightarrow> string option" where
  "field_assigned nocase field s =
     (let t = dropWhile py_isspace s; name = take (length field) t in
      if (if nocase then py_lower name else name) \<noteq> field then None
      else (let r = dropWhile py_isspace (drop (length field) t) in
        if r \<noteq> [] \<and> hd r = CHR ''='' then Some (tl r) else None))"

text \<open>\<open>\s*(?:#.*)?$\<close>: space, then a comment, the end of a line, or the end.\<close>

definition tail_of_line :: "string \<Rightarrow> bool" where
  "tail_of_line x =
     (let post = dropWhile py_isspace x in post = [] \<or> hd post = CHR ''#'' \<or> NL \<in> set (takeWhile py_isspace x))"

definition quote_char :: "char \<Rightarrow> bool" where "quote_char c = (c = DQ \<or> c = SQ)"

definition drop_quote :: "string \<Rightarrow> string" where
  "drop_quote s = (if s \<noteq> [] \<and> quote_char (hd s) then tl s else s)"

definition literal_assign :: "string \<Rightarrow> string \<Rightarrow> string option" where
  "literal_assign field s =
     (case field_assigned False field s of
        None \<Rightarrow> None
      | Some r \<Rightarrow>
          (let body = drop_quote (dropWhile py_isspace r); ver = takeWhile ver_char body in
           if ver \<noteq> [] \<and> tail_of_line (drop_quote (dropWhile ver_char body)) then Some ver else None))"

text \<open>The shortest text after which the line may end: \<open>(.+?)\s*(?:#.*)?$\<close>, the text so far in \<open>acc\<close>.\<close>

fun shortest_value :: "string \<Rightarrow> string \<Rightarrow> string option" where
  "shortest_value acc s =
     (if acc \<noteq> [] \<and> tail_of_line s then Some (rev acc)
      else (case s of [] \<Rightarrow> None | c # r \<Rightarrow> if c = NL then None else shortest_value (c # acc) r))"

text \<open>
  The reference after \<^verbatim>\<open>pkgver=\<close>; when only space is left, one that is no newline stands for an empty one.
\<close>

definition raw_pkgver :: "string \<Rightarrow> string option" where
  "raw_pkgver s =
     (case field_assigned False ''pkgver'' s of
        None \<Rightarrow> None
      | Some r \<Rightarrow>
          (let t = dropWhile py_isspace r in
           if t \<noteq> [] then map_option assigned_value (shortest_value [] t)
           else if list_ex (\<lambda>c. c \<noteq> NL) r then Some [] else None))"

definition epoch_assign :: "string \<Rightarrow> string option" where
  "epoch_assign s =
     (case field_assigned True ''epoch'' s of
        None \<Rightarrow> None
      | Some r \<Rightarrow>
          (let ds = takeWhile is_digit (drop_quote (dropWhile py_isspace r)) in
           if ds = [] then None else Some ds))"

text \<open>The pkgver of a recipe: literal, or the value of the reference it is.\<close>

definition recipe_pkgver :: "string \<Rightarrow> string option option" where
  "recipe_pkgver t =
     (case search_lines (literal_assign ''pkgver'') t of
        Some v \<Rightarrow> Some (Some v)
      | None \<Rightarrow>
          (case search_lines raw_pkgver t of
             None \<Rightarrow> Some None
           | Some raw \<Rightarrow>
               (case resolve_text raw (text_variable_table t) of
                  None \<Rightarrow> None
                | Some v \<Rightarrow> Some (map_option (\<lambda>(e, ver, rel). ver) (match_version v)))))"

definition full_version_from_pkgbuild :: "string \<Rightarrow> string option" where
  "full_version_from_pkgbuild t =
     (if t = [] then Some []
      else map_option
        (\<lambda>found. case found of
             None \<Rightarrow> []
           | Some ver \<Rightarrow>
               (case search_lines epoch_assign t of
                  Some e \<Rightarrow> if e \<noteq> ''0'' then e @ '':'' else [] | None \<Rightarrow> []) @ ver @
               (case search_lines (literal_assign ''pkgrel'') t of Some r \<Rightarrow> ''-'' @ r | None \<Rightarrow> []))
        (recipe_pkgver t))"

section \<open>Packages whose version is computed\<close>

text \<open>A literal \<open>p\<close> at the start of \<open>s\<close>, ignoring case, and the rest.\<close>

definition after_nocase :: "string \<Rightarrow> string \<Rightarrow> string option" where
  "after_nocase p s = (if py_lower (take (length p) s) = p then Some (drop (length p) s) else None)"

definition VCS_KINDS :: "string list" where
  "VCS_KINDS = [''git'', ''hg'', ''svn'', ''bzr'', ''cvs'', ''darcs'', ''fossil'']"

definition pkgver_function_here :: "string \<Rightarrow> unit option" where
  "pkgver_function_here s =
     (let t = dropWhile py_isspace s; r = dropWhile py_isspace (drop 6 t) in
      if take 6 t \<noteq> ''pkgver'' \<or> \<not> py_startswith r ''('' then None
      else (let r' = dropWhile py_isspace (tl r) in
        if \<not> py_startswith r' '')'' then None
        else (if py_startswith (dropWhile py_isspace (tl r')) ''{'' then Some () else None)))"

definition pkgver_function :: "string \<Rightarrow> bool" where
  "pkgver_function t = (search_lines pkgver_function_here t \<noteq> None)"

definition vcs_suffix :: "string \<Rightarrow> bool" where
  "vcs_suffix name = list_ex (\<lambda>k. let low = py_lower name in
     py_endswith low (''-'' @ k) \<or> py_endswith low (''-'' @ k @ [NL])) VCS_KINDS"

text \<open>A VCS transport here: \<^verbatim>\<open>git+https://\<close>.  The character before must not continue a word.\<close>

definition vcs_transport_here :: "string \<Rightarrow> bool" where
  "vcs_transport_here s = list_ex (\<lambda>k. case after_nocase (k @ ''+'') s of
       None \<Rightarrow> False
     | Some r \<Rightarrow> takeWhile ascii_letter r \<noteq> [] \<and> py_startswith (dropWhile ascii_letter r) ''://'') VCS_KINDS"

definition url_word :: "char \<Rightarrow> bool" where
  "url_word c = (ascii_letter c \<or> is_digit c \<or> c \<in> set ''+.-'')"

fun vcs_source_from :: "bool \<Rightarrow> string \<Rightarrow> bool" where
  "vcs_source_from inside [] = False"
| "vcs_source_from inside (c # s) =
     (\<not> inside \<and> vcs_transport_here (c # s) \<or> vcs_source_from (url_word c) s)"

definition has_vcs_source :: "string \<Rightarrow> bool" where
  "has_vcs_source t = vcs_source_from False t"

definition is_vcs_package :: "string \<Rightarrow> string \<Rightarrow> bool" where
  "is_vcs_package name pkgbuild =
     (if pkgbuild \<noteq> [] then pkgver_function pkgbuild else name \<noteq> [] \<and> vcs_suffix name)"

datatype outcome = Aur_ahead | No_aur_change | Installed_ahead | Inconclusive

text \<open>\<open>None\<close> is the \<^verbatim>\<open>ValueError\<close> a comparison can raise.\<close>

definition compare_installed_to_aur ::
  "(string \<Rightarrow> string \<Rightarrow> int option) \<Rightarrow> string option \<Rightarrow> string option \<Rightarrow> bool \<Rightarrow> outcome option" where
  "compare_installed_to_aur cmp installed aur is_vcs =
     (if is_vcs then Some Inconclusive
      else (case (parse_version installed, parse_version aur) of
        (Some local, Some remote) \<Rightarrow>
          (let r = (if version_full remote \<and> version_full local then cmp (v_raw local) (v_raw remote)
                    else if v_epoch local \<noteq> v_epoch remote
                    then Some (if v_epoch local < v_epoch remote then -1 else 1)
                    else cmp (v_pkgver local) (v_pkgver remote)) in
           map_option (\<lambda>i. if i < 0 then Aur_ahead else if 0 < i then Installed_ahead else No_aur_change) r)
      | _ \<Rightarrow> Some Inconclusive))"

section \<open>Whether a diff moves the version\<close>

text \<open>A version field assigned on a diff line: sign, field, value.\<close>

definition scalar_line :: "bool \<Rightarrow> string \<Rightarrow> string \<Rightarrow> (char \<times> string) option" where
  "scalar_line nocase field l =
     (case assign_line l of
        None \<Rightarrow> None
      | Some (c, name, val) \<Rightarrow> if (if nocase then py_lower name else name) = field then Some (c, val) else None)"

fun resolved_scalar :: "string list \<Rightarrow> string \<Rightarrow> string dict \<Rightarrow> char set \<Rightarrow> string option option" where
  "resolved_scalar [] field table signs = Some None"
| "resolved_scalar (l # ls) field table signs =
     (case scalar_line True field l of
        Some (c, val) \<Rightarrow>
          (if c \<in> signs then map_option Some (resolve_text val table)
           else resolved_scalar ls field table signs)
      | None \<Rightarrow> resolved_scalar ls field table signs)"

definition old_signs :: "char set" where "old_signs = {CHR ''-'', CHR '' ''}"
definition new_signs :: "char set" where "new_signs = {CHR ''+'', CHR '' ''}"

definition diff_raws :: "diff_doc \<Rightarrow> string list" where
  "diff_raws doc = map dl_raw (dd_lines doc)"

text \<open>Both resolved and different: the field moved.\<close>

definition differ_values :: "string option \<Rightarrow> string option \<Rightarrow> bool" where
  "differ_values old new = (case (old, new) of (Some a, Some b) \<Rightarrow> a \<noteq> b | _ \<Rightarrow> False)"

definition scalar_moved :: "string list \<Rightarrow> string \<Rightarrow> bool option" where
  "scalar_moved ls field =
     (case resolved_scalar ls field (variable_table ls old_signs) old_signs of
        None \<Rightarrow> None
      | Some old \<Rightarrow>
          (case resolved_scalar ls field (variable_table ls new_signs) new_signs of
             None \<Rightarrow> None | Some new \<Rightarrow> Some (differ_values old new)))"

text \<open>The last removed, added and unchanged \<^verbatim>\<open>pkgver=\<close> line.\<close>

fun pkgver_refs :: "string list \<Rightarrow> string option \<times> string option \<times> string option \<Rightarrow>
    string option \<times> string option \<times> string option" where
  "pkgver_refs [] refs = refs"
| "pkgver_refs (l # ls) (old, new, ctx) =
     (case scalar_line False ''pkgver'' l of
        None \<Rightarrow> pkgver_refs ls (old, new, ctx)
      | Some (c, val) \<Rightarrow>
          pkgver_refs ls (if c = CHR ''-'' then (Some val, new, ctx)
                          else if c = CHR ''+'' then (old, Some val, ctx) else (old, new, Some val)))"

definition resolve_ref :: "string option \<Rightarrow> string dict \<Rightarrow> string option option" where
  "resolve_ref r table =
     (case r of None \<Rightarrow> Some None | Some v \<Rightarrow> map_option Some (resolve_text v table))"

definition pkgver_move_in_diff ::
  "diff_doc \<Rightarrow> string \<Rightarrow> (bool \<times> string option \<times> string option) option" where
  "pkgver_move_in_diff doc current =
     (let ls = diff_raws doc;
          (old, new, ctx) = pkgver_refs ls (None, None, None);
          absent = (old = None \<and> new = None \<and> ctx = None);
          cur = (if absent \<and> current \<noteq> [] then search_lines raw_pkgver current else None) in
      if absent \<and> cur = None then Some (False, None, None)
      else (let old' = (if absent then cur else if old = None then ctx else old);
                new' = (if absent then cur else if new = None then ctx else new) in
        case resolve_ref old' (variable_table ls old_signs) of
          None \<Rightarrow> None
        | Some a \<Rightarrow>
            (case resolve_ref new' (variable_table ls new_signs) of
               None \<Rightarrow> None | Some b \<Rightarrow> Some (differ_values a b, a, b))))"

definition any_version_scalar_moved :: "diff_doc \<Rightarrow> string \<Rightarrow> bool option" where
  "any_version_scalar_moved doc current =
     (let ls = diff_raws doc in
      case scalar_moved ls ''pkgver'' of
        None \<Rightarrow> None | Some True \<Rightarrow> Some True
      | Some False \<Rightarrow> (case scalar_moved ls ''pkgrel'' of
            None \<Rightarrow> None | Some True \<Rightarrow> Some True
          | Some False \<Rightarrow> (case scalar_moved ls ''epoch'' of
              None \<Rightarrow> None | Some True \<Rightarrow> Some True
            | Some False \<Rightarrow>
                (if current \<noteq> [] then map_option fst (pkgver_move_in_diff doc current) else Some False))))"

section \<open>Epochs\<close>

text \<open>
  \<open>resolved\<close> stands for the answer of the sandboxed tokenizer: the diff lines with each added line
  replaced by its resolved form.
\<close>

definition epoch_removed_line :: "string \<Rightarrow> bool" where
  "epoch_removed_line l =
     (let t = dropWhile py_isspace l in
      t \<noteq> [] \<and> hd t = CHR ''-'' \<and> field_assigned False ''epoch'' (tl t) \<noteq> None)"

definition added_line :: "string \<Rightarrow> bool" where
  "added_line l = (py_startswith l ''+'' \<and> \<not> py_startswith l ''+++'')"

definition epoch_in :: "string \<Rightarrow> string option" where
  "epoch_in l = search_lines epoch_assign (drop 1 l)"

fun first_added_epoch :: "string list \<Rightarrow> string option" where
  "first_added_epoch [] = None"
| "first_added_epoch (l # ls) =
     (if added_line l \<and> epoch_in l \<noteq> None then epoch_in l else first_added_epoch ls)"

definition epoch_introduced :: "diff_doc \<Rightarrow> string list \<Rightarrow> bool \<times> string option" where
  "epoch_introduced doc resolved =
     (if list_ex epoch_removed_line (diff_raws doc) then (False, None)
      else (case first_added_epoch resolved of None \<Rightarrow> (False, None) | Some v \<Rightarrow> (True, Some v)))"

definition strip_minus :: "string \<Rightarrow> string" where
  "strip_minus l =
     (let t = dropWhile py_isspace l in
      if t \<noteq> [] \<and> hd t = CHR ''-'' then dropWhile py_isspace (tl t) else l)"

definition epoch_removed_unchanged :: "diff_doc \<Rightarrow> string list \<Rightarrow> (bool \<times> string option) option" where
  "epoch_removed_unchanged doc resolved =
     (let ls = diff_raws doc; removed = filter epoch_removed_line ls in
      if removed = [] then Some (False, None)
      else if first_added_epoch resolved \<noteq> None then Some (False, None)
      else (case scalar_moved ls ''pkgver'' of
        None \<Rightarrow> None | Some True \<Rightarrow> Some (False, None)
      | Some False \<Rightarrow> (case scalar_moved ls ''pkgrel'' of
          None \<Rightarrow> None | Some True \<Rightarrow> Some (False, None)
        | Some False \<Rightarrow> Some (True, search_lines epoch_assign (strip_minus (hd removed))))))"

text \<open>The 1-based number of the first line that carries an epoch under a sign.\<close>

fun epoch_line :: "char \<Rightarrow> nat \<Rightarrow> string list \<Rightarrow> nat option" where
  "epoch_line sign i [] = None"
| "epoch_line sign i (l # ls) =
     (if py_startswith l [sign] \<and> epoch_in l \<noteq> None then Some i else epoch_line sign (Suc i) ls)"

definition epoch_finding ::
  "string \<Rightarrow> string \<Rightarrow> string \<Rightarrow> string \<Rightarrow> nat option \<Rightarrow> string option \<Rightarrow> finding" where
  "epoch_finding rid name severity reason ln val =
     (bare_finding rid name severity ''version'')\<lparr>f_match := Some reason, f_file := Some ''PKGBUILD'',
        f_line := ln, f_params := Some [(''epoch'', VStr (case val of Some v \<Rightarrow> v | None \<Rightarrow> ''0''))]\<rparr>"

text \<open>The delta, when the caller has one: the epoch before and after, and then the tokenizer is not asked
  for the introduction.\<close>

definition epoch_findings ::
  "diff_doc \<Rightarrow> string list \<Rightarrow> bool \<Rightarrow> (string \<times> string) option \<Rightarrow> finding list option" where
  "epoch_findings doc resolved whole_recipe delta =
     (case epoch_removed_unchanged doc resolved of
        None \<Rightarrow> None
      | Some (removed, removed_val) \<Rightarrow>
          (let ls = diff_raws doc;
               c030 = (if removed
                 then [epoch_finding ''C030'' ''Epoch Removed With Version Unchanged'' ''INFO''
                   (''epoch='' @ (case removed_val of Some v \<Rightarrow> v | None \<Rightarrow> ''?'') @
                    '' removed while pkgver/pkgrel are unchanged'') (epoch_line (CHR ''-'') 1 ls) removed_val]
                 else []);
               (introduced, val) = (case delta of
                   None \<Rightarrow> epoch_introduced doc resolved
                 | Some (old, new) \<Rightarrow> (py_strip old = [] \<and> py_strip new \<noteq> [],
                     if py_strip new = [] then None else Some (py_strip new)));
               severity = (case val of Some v \<Rightarrow> if v \<noteq> ''0'' then ''MEDIUM'' else ''INFO'' | None \<Rightarrow> ''INFO'');
               shown = (case val of Some v \<Rightarrow> ''epoch='' @ v | None \<Rightarrow> ''epoch'');
               h063 = (if introduced
                 then [epoch_finding ''H063'' ''Epoch Introduced'' severity
                   (shown @ (if whole_recipe then '' present'' else '' newly introduced''))
                   (epoch_line (CHR ''+'') 1 ls) val]
                 else []) in
           Some (c030 @ h063)))"

section \<open>The fallback comparison is an order\<close>

text \<open>Text and number take turns.\<close>

fun takes_turns :: "bool \<Rightarrow> part list \<Rightarrow> bool" where
  "takes_turns text_next [] = True"
| "takes_turns text_next (p # ps) =
     ((case p of Txt t \<Rightarrow> text_next | Num n \<Rightarrow> \<not> text_next) \<and> takes_turns (\<not> text_next) ps)"

lemma part_of_plain:
  assumes "list_all (\<lambda>c. \<not> is_digit c) x" "part_of x = Some p"
  shows "\<exists>t. p = Txt t"
proof (cases x)
  case (Cons c r)
  with assms(1) have "\<not> list_all is_digit x" by simp
  with assms(2) show ?thesis by (auto simp: part_of_def split: if_splits)
qed (use assms in \<open>auto simp: part_of_def\<close>)

lemma part_of_digits:
  assumes "list_all is_digit x" "x \<noteq> []" "part_of x = Some p"
  shows "\<exists>n. p = Num n"
proof -
  from assms(1) have "list_all (\<lambda>c. is_digit c \<or> superscript c) x" by (simp add: list_all_iff)
  with assms show ?thesis by (auto simp: part_of_def)
qed

lemma those_Cons_Some: "those (x # xs) = Some ys \<longleftrightarrow> (\<exists>y zs. x = Some y \<and> those xs = Some zs \<and> ys = y # zs)"
  by (auto split: option.split)

lemma split_runs_plain: "dropWhile (\<lambda>c. \<not> is_digit c) s = [] \<Longrightarrow> split_runs s = [takeWhile (\<lambda>c. \<not> is_digit c) s]"
  by (subst split_runs.simps) (simp only: Let_def simp_thms if_True)

lemma split_runs_step:
  "r = dropWhile (\<lambda>c. \<not> is_digit c) s \<Longrightarrow> r \<noteq> [] \<Longrightarrow>
     split_runs s = takeWhile (\<lambda>c. \<not> is_digit c) s # takeWhile is_digit r # split_runs (dropWhile is_digit r)"
  by (subst split_runs.simps) (simp only: Let_def simp_thms if_False)

lemma parts_take_turns: "those (map part_of (split_runs v)) = Some ps \<Longrightarrow> takes_turns True ps"
proof (induction v arbitrary: ps rule: split_runs.induct)
  case (1 s)
  let ?plain = "takeWhile (\<lambda>c. \<not> is_digit c) s"
  let ?r = "dropWhile (\<lambda>c. \<not> is_digit c) s"
  have plain: "list_all (\<lambda>c. \<not> is_digit c) ?plain" by (auto simp: list_all_iff dest: set_takeWhileD)
  show ?case
  proof (cases "?r = []")
    case True
    from 1(2) have "those [part_of ?plain] = Some ps" unfolding split_runs_plain [OF True] list.map .
    then obtain p where "part_of ?plain = Some p" "ps = [p]" unfolding those_Cons_Some by auto
    with part_of_plain [OF plain] show ?thesis by force
  next
    case False
    let ?ds = "takeWhile is_digit ?r"
    from False have "is_digit (hd ?r)" using hd_dropWhile by blast
    with False have ds: "list_all is_digit ?ds" "?ds \<noteq> []"
      by (auto simp: list_all_iff takeWhile_eq_Nil_iff dest: set_takeWhileD)
    from 1(2) have "those (part_of ?plain # part_of ?ds # map part_of (split_runs (dropWhile is_digit ?r))) = Some ps"
      unfolding split_runs_step [OF refl False] list.map .
    then obtain p q ps' where p: "part_of ?plain = Some p" and q: "part_of ?ds = Some q"
      and ps': "those (map part_of (split_runs (dropWhile is_digit ?r))) = Some ps'" and ps: "ps = p # q # ps'"
      unfolding those_Cons_Some by auto
    from 1(1) [OF refl refl False ps'] have "takes_turns True ps'" .
    with part_of_plain [OF plain p] part_of_digits [OF ds q] ps show ?thesis by auto
  qed
qed

lemma version_parts_turns: "version_parts v = Some ps \<Longrightarrow> takes_turns True ps"
  unfolding version_parts_def by (rule parts_take_turns)

lemma compare_self: "compare_parts ps ps = 0"
  by (induction ps) auto

lemma compare_swap:
  "takes_turns b ps \<Longrightarrow> takes_turns b qs \<Longrightarrow> compare_parts qs ps = - compare_parts ps qs"
proof (induction ps qs arbitrary: b rule: compare_parts.induct)
  case (1 x ps y qs)
  then show ?case by (auto simp: part_less_def txt_of_def split: part.splits)
qed simp_all

lemma compare_zero: "takes_turns b ps \<Longrightarrow> takes_turns b qs \<Longrightarrow> compare_parts ps qs = 0 \<longleftrightarrow> ps = qs"
  by (induction ps qs arbitrary: b rule: compare_parts.induct) (auto split: if_splits)

lemma compare_trans:
  "takes_turns b ps \<Longrightarrow> takes_turns b qs \<Longrightarrow> takes_turns b rs \<Longrightarrow>
     compare_parts ps qs \<le> 0 \<Longrightarrow> compare_parts qs rs \<le> 0 \<Longrightarrow> compare_parts ps rs \<le> 0"
proof (induction ps rs arbitrary: b qs rule: compare_parts.induct)
  case (1 x ps z rs)
  from 1(5) obtain y qs' where qs: "qs = y # qs'" by (cases qs) auto
  show ?case
  proof (cases "x = y \<and> y = z")
    case True
    with 1 qs show ?thesis by auto
  next
    case False
    with 1(2-6) qs show ?thesis
      by (auto simp: part_less_def txt_of_def split: part.splits if_splits)
  qed
next
  case (4 p ps)
  then show ?case by (cases qs) auto
qed simp_all

text \<open>
  What a caller needs from a comparison that may raise: swapping the sides negates the answer, and equal
  texts compare equal.
\<close>

locale version_order =
  fixes cmp :: "string \<Rightarrow> string \<Rightarrow> int option"
  assumes swapped: "cmp b a = map_option uminus (cmp a b)"
    and same: "cmp a a = Some i \<Longrightarrow> i = 0"
begin

lemma outcome_swapped:
  "compare_installed_to_aur cmp b a v =
     map_option (\<lambda>r. case r of Aur_ahead \<Rightarrow> Installed_ahead | Installed_ahead \<Rightarrow> Aur_ahead | _ \<Rightarrow> r)
       (compare_installed_to_aur cmp a b v)"
proof (cases "v \<or> parse_version a = None \<or> parse_version b = None")
  case True
  then show ?thesis by (auto simp: compare_installed_to_aur_def split: option.split)
next
  case False
  then obtain x y where [simp]: "\<not> v" "parse_version a = Some x" "parse_version b = Some y" by auto
  have sign: "map_option (\<lambda>i. if i < 0 then Aur_ahead else if 0 < i then Installed_ahead else No_aur_change)
        (map_option uminus r) =
      map_option (\<lambda>r. case r of Aur_ahead \<Rightarrow> Installed_ahead | Installed_ahead \<Rightarrow> Aur_ahead | _ \<Rightarrow> r)
        (map_option (\<lambda>i. if i < 0 then Aur_ahead else if 0 < i then Installed_ahead else No_aur_change) r)"
    for r :: "int option" by (cases r) auto
  have "(if version_full x \<and> version_full y then cmp (v_raw y) (v_raw x)
      else if v_epoch y \<noteq> v_epoch x then Some (if v_epoch y < v_epoch x then -1 else 1)
      else cmp (v_pkgver y) (v_pkgver x)) =
    map_option uminus (if version_full y \<and> version_full x then cmp (v_raw x) (v_raw y)
      else if v_epoch x \<noteq> v_epoch y then Some (if v_epoch x < v_epoch y then -1 else 1)
      else cmp (v_pkgver x) (v_pkgver y))"
    using swapped [of "v_raw y" "v_raw x"] swapped [of "v_pkgver y" "v_pkgver x"] by auto
  then show ?thesis by (simp add: compare_installed_to_aur_def Let_def sign [symmetric])
qed

lemma outcome_same: "compare_installed_to_aur cmp a a False = Some r \<Longrightarrow> r = No_aur_change \<or> r = Inconclusive"
  by (auto simp: compare_installed_to_aur_def Let_def dest: same split: option.splits if_splits)

end

lemma simple_vercmp_swapped: "simple_vercmp b a = map_option uminus (simple_vercmp a b)"
proof (cases "version_parts a = None \<or> version_parts b = None")
  case False
  then obtain p q where p: "version_parts a = Some p" and q: "version_parts b = Some q" by auto
  show ?thesis unfolding simple_vercmp_def p q prod.case option.case option.map
    by (simp only: compare_swap [OF version_parts_turns [OF p] version_parts_turns [OF q]])
qed (auto simp: simple_vercmp_def split: option.split)

interpretation fallback: version_order simple_vercmp
proof unfold_locales
  show "simple_vercmp a a = Some i \<Longrightarrow> i = 0" for a i
    by (auto simp: simple_vercmp_def compare_self split: option.splits)
qed (rule simple_vercmp_swapped)

interpretation no_helper: version_order "vercmp (Command (\<lambda>a b. None))"
proof unfold_locales
  show "vercmp (Command (\<lambda>a b. None)) b a = map_option uminus (vercmp (Command (\<lambda>a b. None)) a b)" for a b
    unfolding vercmp_def by (cases "a = b") (simp_all add: simple_vercmp_swapped [of b a])
qed (simp add: vercmp_def)

text \<open>C24: Without pacman's own comparison the code still orders versions: whenever it answers, swapping
  the sides negates the answer, answers of "not newer" chain, and two versions compare equal exactly when
  they split into the same texts and numbers.\<close>

theorem fallback_orders_versions:
  "case (simple_vercmp a b, simple_vercmp b c) of
     (Some i, Some j) \<Rightarrow>
       simple_vercmp b a = Some (- i) \<and>
       (i = 0 \<longleftrightarrow> version_parts a = version_parts b) \<and>
       (if i \<le> 0 \<and> j \<le> 0 then case simple_vercmp a c of Some k \<Rightarrow> k \<le> 0 | None \<Rightarrow> False else True)
   | _ \<Rightarrow> True"
proof (cases "version_parts a = None \<or> version_parts b = None \<or> version_parts c = None")
  case True
  then show ?thesis by (auto simp: simple_vercmp_def split: option.split)
next
  case False
  then obtain p q r where p: "version_parts a = Some p" and q: "version_parts b = Some q"
    and r: "version_parts c = Some r" by auto
  note turns = version_parts_turns [OF p] version_parts_turns [OF q] version_parts_turns [OF r]
  show ?thesis unfolding simple_vercmp_def p q r prod.case option.case option.inject
    using compare_swap [OF turns(1,2)] compare_zero [OF turns(1,2)] compare_trans [OF turns] by simp
qed

text \<open>Reading a comparison from the other side tells the same story: installed ahead becomes the AUR
  ahead and the other way round, and "no change" and "inconclusive" stay, also where the fallback raises.\<close>

theorem comparison_is_symmetric:
  "compare_installed_to_aur simple_vercmp b a v =
     map_option (\<lambda>r. case r of Aur_ahead \<Rightarrow> Installed_ahead | Installed_ahead \<Rightarrow> Aur_ahead | _ \<Rightarrow> r)
       (compare_installed_to_aur simple_vercmp a b v)"
  by (rule fallback.outcome_swapped)

section \<open>Assembling and parsing a version\<close>

definition render_version :: "nat \<Rightarrow> string \<Rightarrow> string option \<Rightarrow> string" where
  "render_version e ver rel =
     (if e = 0 then [] else show_nat e @ '':'') @ ver @ (case rel of None \<Rightarrow> [] | Some r \<Rightarrow> ''-'' @ r)"

definition version_text :: "string \<Rightarrow> bool" where
  "version_text v = (v \<noteq> [] \<and> list_all ver_char v)"

lemma show_nat_all [simp]: "list_all is_digit (show_nat n)" "show_nat n \<noteq> []"
  using show_nat_digits by blast+

lemma ver_char_facts: "ver_char c \<Longrightarrow> \<not> py_isspace c \<and> c \<noteq> CHR '':'' \<and> c \<noteq> CHR ''-'' \<and> c \<noteq> CHR ''#'' \<and>
    c \<noteq> NL \<and> \<not> quote_char c"
  by (auto simp: ver_char_def ascii_letter_def is_digit_def py_isspace_def quote_char_def)

lemma span_append:
  "list_all P a \<Longrightarrow> b = [] \<or> \<not> P (hd b) \<Longrightarrow> takeWhile P (a @ b) = a \<and> dropWhile P (a @ b) = b"
  by (induction a) (auto simp: takeWhile_eq_Nil_iff dropWhile_eq_self_iff)

definition version_tail :: "string \<Rightarrow> string option \<Rightarrow> string" where
  "version_tail ver rel = ver @ (case rel of None \<Rightarrow> [] | Some r \<Rightarrow> ''-'' @ r)"

lemma version_tail_chars:
  assumes "version_text ver" "rel = None \<or> version_text (the rel)"
  shows "CHR '':'' \<notin> set (version_tail ver rel)" "list_all (\<lambda>c. \<not> py_isspace c) (version_tail ver rel)"
    "version_tail ver rel \<noteq> []"
proof -
  have v: "CHR '':'' \<notin> set x \<and> list_all (\<lambda>c. \<not> py_isspace c) x" if "version_text x" for x
    using that ver_char_facts by (auto simp: version_text_def list_all_iff)
  have "\<not> py_isspace (CHR ''-'')" by (simp add: py_isspace_def)
  with v assms show "CHR '':'' \<notin> set (version_tail ver rel)" "list_all (\<lambda>c. \<not> py_isspace c) (version_tail ver rel)"
    by (auto simp: version_tail_def split: option.splits)
  from assms show "version_tail ver rel \<noteq> []" by (simp add: version_tail_def version_text_def)
qed

lemma version_tail_scan:
  assumes "version_text ver" "rel = None \<or> version_text (the rel)"
  shows "takeWhile ver_char (version_tail ver rel) = ver"
    "dropWhile ver_char (version_tail ver rel) = (case rel of None \<Rightarrow> [] | Some r \<Rightarrow> ''-'' @ r)"
proof -
  let ?post = "case rel of None \<Rightarrow> [] | Some r \<Rightarrow> ''-'' @ r"
  have "list_all ver_char ver" using assms(1) by (simp add: version_text_def)
  moreover have "?post = [] \<or> \<not> ver_char (hd ?post)" using ver_char_facts by (auto split: option.split)
  ultimately show "takeWhile ver_char (version_tail ver rel) = ver"
    "dropWhile ver_char (version_tail ver rel) = ?post"
    unfolding version_tail_def by (simp_all only: span_append)
qed

lemma text_span: "version_text r \<Longrightarrow> takeWhile ver_char r = r \<and> dropWhile ver_char r = []"
  by (auto simp: version_text_def list_all_iff takeWhile_eq_all_conv)

lemma match_version_render:
  assumes v: "version_text ver" and r: "rel = None \<or> version_text (the rel)"
  shows "match_version (render_version e ver rel) = Some (if e = 0 then None else Some (show_nat e), ver, rel)"
proof -
  let ?body = "version_tail ver rel"
  note scan = version_tail_scan [OF v r]
  have nonempty: "ver \<noteq> []" using v by (simp add: version_text_def)
  have dash: "\<not> at_end (CHR ''-'' # x)" for x by (simp add: at_end_def)
  show ?thesis
  proof (cases "e = 0")
    case True
    then have s: "render_version e ver rel = ?body" by (simp add: render_version_def version_tail_def)
    have no: "(takeWhile is_digit ?body \<noteq> [] \<and> dropWhile is_digit ?body \<noteq> [] \<and>
        hd (dropWhile is_digit ?body) = CHR '':'') = False"
      using version_tail_chars(1) [OF v r] set_dropWhileD [of "hd (dropWhile is_digit ?body)" is_digit ?body]
      by (metis hd_in_set)
    have "match_version ?body = Some (None, ver, rel)"
      unfolding match_version_def Let_def no if_False scan using nonempty r
      by (cases rel) (simp_all add: at_end_def text_span version_text_def)
    then show ?thesis unfolding s using True by simp
  next
    case False
    then have s: "render_version e ver rel = show_nat e @ CHR '':'' # ?body"
      by (simp add: render_version_def version_tail_def)
    have "\<not> is_digit (CHR '':'')" by (simp add: is_digit_def)
    then have t: "takeWhile is_digit (show_nat e @ CHR '':'' # ?body) = show_nat e"
      "dropWhile is_digit (show_nat e @ CHR '':'' # ?body) = CHR '':'' # ?body"
      using span_append [of is_digit "show_nat e" "CHR '':'' # ?body"] by simp_all
    have yes: "(show_nat e \<noteq> [] \<and> CHR '':'' # ?body \<noteq> [] \<and> hd (CHR '':'' # ?body) = CHR '':'') = True"
      by simp
    have "match_version (show_nat e @ CHR '':'' # ?body) = Some (Some (show_nat e), ver, rel)"
      unfolding match_version_def Let_def t yes if_True unfolding list.sel scan using nonempty r
      by (cases rel) (simp_all add: at_end_def text_span version_text_def)
    then show ?thesis unfolding s using False by simp
  qed
qed

lemma render_no_space:
  assumes "version_text ver" "rel = None \<or> version_text (the rel)"
  shows "list_all (\<lambda>c. \<not> py_isspace c) (render_version e ver rel)" "render_version e ver rel \<noteq> []"
proof -
  have "\<not> py_isspace c" if "is_digit c" for c using that by (auto simp: is_digit_def py_isspace_def)
  moreover have "list_all is_digit (show_nat e)" by simp
  ultimately have "list_all (\<lambda>c. \<not> py_isspace c) (show_nat e @ '':'')"
    by (auto simp: list_all_iff py_isspace_def)
  with version_tail_chars [OF assms] show "list_all (\<lambda>c. \<not> py_isspace c) (render_version e ver rel)"
    "render_version e ver rel \<noteq> []" by (auto simp: render_version_def version_tail_def)
qed

lemma parse_render:
  assumes "version_text ver" "rel = None \<or> version_text (the rel)"
  shows "parse_version (Some (render_version e ver rel)) =
    Some \<lparr>v_epoch = e, v_pkgver = ver, v_pkgrel = rel, v_raw = render_version e ver rel\<rparr>"
  using render_no_space [OF assms, of e]
  by (simp add: parse_version_def strip_no_space match_version_render [OF assms] nat_of_show_nat)

text \<open>The searches over a recipe of three lines.\<close>

lemma skip_line_at: "NL \<notin> set a \<Longrightarrow> skip_line (a @ NL # b) = b"
  unfolding skip_line_def by (induction a) auto

lemma search_lines_here: "f s = Some x \<Longrightarrow> search_lines f s = Some x"
  by (simp add: search_lines.simps [of f s])

lemma search_lines_next: "f (a @ NL # b) = None \<Longrightarrow> NL \<notin> set a \<Longrightarrow> search_lines f (a @ NL # b) = search_lines f b"
  by (simp add: search_lines.simps [of f "a @ NL # b"] skip_line_at)

lemma field_assigned_here:
  assumes "field \<noteq> []" "\<not> py_isspace (hd field)" "(if nocase then py_lower field else field) = field"
  shows "field_assigned nocase field (field @ ''='' @ x) = Some x"
proof -
  have "dropWhile py_isspace (field @ ''='' @ x) = field @ ''='' @ x"
    using assms(1,2) by (cases field) auto
  with assms(3) show ?thesis
    by (cases nocase) (simp_all add: field_assigned_def Let_def py_isspace_def)
qed

lemma drop_quote_other: "s = [] \<or> \<not> quote_char (hd s) \<Longrightarrow> drop_quote s = s"
  by (auto simp: drop_quote_def)

lemma literal_assign_here:
  assumes "field \<noteq> []" "\<not> py_isspace (hd field)" "version_text v"
  shows "literal_assign field (field @ ''='' @ v @ NL # b) = Some v"
proof -
  from assms(3) obtain c w where v: "v = c # w" "ver_char c" "list_all ver_char w"
    by (cases v) (auto simp: version_text_def)
  note c = ver_char_facts [OF v(2)]
  have "dropWhile py_isspace (v @ NL # b) = v @ NL # b" "drop_quote (v @ NL # b) = v @ NL # b"
    using c v by (simp_all add: drop_quote_def)
  moreover have "takeWhile ver_char (v @ NL # b) = v \<and> dropWhile ver_char (v @ NL # b) = NL # b"
    by (rule span_append) (use assms(3) ver_char_facts in \<open>auto simp: version_text_def\<close>)
  moreover have "tail_of_line (drop_quote (NL # b))"
    by (simp add: tail_of_line_def drop_quote_def quote_char_def py_isspace_def Let_def)
  ultimately show ?thesis using assms field_assigned_here [of field False "v @ NL # b"]
    by (simp add: literal_assign_def Let_def version_text_def)
qed

lemma epoch_assign_here:
  "epoch_assign (''epoch'' @ ''='' @ show_nat e @ [NL]) = Some (show_nat e)"
proof -
  obtain d ds where d: "show_nat e = d # ds" "is_digit d"
    using show_nat_all [of e] by (cases "show_nat e") auto
  have dig: "\<not> py_isspace d \<and> \<not> quote_char d"
    using ver_char_facts [of d] d(2) by (auto simp: ver_char_def)
  have "dropWhile py_isspace (show_nat e @ [NL]) = show_nat e @ [NL]"
    "drop_quote (show_nat e @ [NL]) = show_nat e @ [NL]" using dig d by (simp_all add: drop_quote_def)
  moreover have "takeWhile is_digit (show_nat e @ [NL]) = show_nat e"
    using span_append [of is_digit "show_nat e" "[NL]"] by (simp add: is_digit_def)
  moreover have "field_assigned True ''epoch'' (''epoch'' @ ''='' @ show_nat e @ [NL]) = Some (show_nat e @ [NL])"
    by (rule field_assigned_here) (simp_all add: py_isspace_def py_lower_def)
  ultimately show ?thesis by (simp add: epoch_assign_def Let_def)
qed

lemma version_text_no_nl: "version_text v \<Longrightarrow> NL \<notin> set v"
  using ver_char_facts by (auto simp: version_text_def list_all_iff)

definition plain_recipe :: "nat \<Rightarrow> string \<Rightarrow> string \<Rightarrow> string" where
  "plain_recipe e ver rel =
     (''pkgver='' @ ver) @ NL # (''pkgrel='' @ rel) @ NL # ''epoch'' @ ''='' @ show_nat e @ [NL]"

lemma show_nat_zero: "show_nat e = ''0'' \<longleftrightarrow> e = 0"
proof
  assume "show_nat e = ''0''"
  then have "nat_of_digits (show_nat e) = nat_of_digits ''0''" by simp
  then show "e = 0" by (simp add: nat_of_show_nat) (simp add: nat_of_digits_def digit_val_def)
qed (simp add: show_nat.simps char_of_def bit_0)

text \<open>A version survives being declared and read back: the version assembled from a recipe that
  declares a pkgver, a pkgrel and an epoch is their rendering, with epoch 0 left out as pacman does, and
  parsing it returns exactly the three.\<close>

theorem declared_version_roundtrip:
  assumes "version_text ver" "version_text rel"
  shows "full_version_from_pkgbuild (plain_recipe e ver rel) = Some (render_version e ver (Some rel)) \<and>
    parse_version (Some (render_version e ver (Some rel))) =
      Some \<lparr>v_epoch = e, v_pkgver = ver, v_pkgrel = Some rel, v_raw = render_version e ver (Some rel)\<rparr>"
proof
  let ?l3 = "''epoch'' @ ''='' @ show_nat e @ [NL]" and ?l1 = "''pkgver='' @ ver" and ?l2 = "''pkgrel='' @ rel"
  have nl: "NL \<notin> set ?l1" "NL \<notin> set ?l2" using assms version_text_no_nl by auto
  have "search_lines (literal_assign ''pkgver'') (plain_recipe e ver rel) = Some ver"
    unfolding plain_recipe_def
    using literal_assign_here [of "''pkgver''" ver "?l2 @ NL # ?l3"] assms
    by (intro search_lines_here) (simp add: py_isspace_def)
  moreover have "search_lines (literal_assign ''pkgrel'') (plain_recipe e ver rel) = Some rel"
  proof -
    have "literal_assign ''pkgrel'' (?l1 @ NL # ?l2 @ NL # ?l3) = None"
      by (simp add: literal_assign_def field_assigned_def py_isspace_def Let_def)
    moreover have "search_lines (literal_assign ''pkgrel'') (?l2 @ NL # ?l3) = Some rel"
      using literal_assign_here [of "''pkgrel''" rel ?l3] assms
      by (intro search_lines_here) (simp add: py_isspace_def)
    ultimately show ?thesis unfolding plain_recipe_def using search_lines_next [OF _ nl(1)] by metis
  qed
  moreover have "search_lines epoch_assign (plain_recipe e ver rel) = Some (show_nat e)"
  proof -
    have "epoch_assign (?l1 @ NL # ?l2 @ NL # ?l3) = None" "epoch_assign (?l2 @ NL # ?l3) = None"
      by (simp_all add: epoch_assign_def field_assigned_def py_isspace_def Let_def py_lower_def)
    moreover have "search_lines epoch_assign ?l3 = Some (show_nat e)"
      by (rule search_lines_here, rule epoch_assign_here)
    ultimately show ?thesis unfolding plain_recipe_def
      using search_lines_next [OF _ nl(1)] search_lines_next [OF _ nl(2)] by metis
  qed
  ultimately show "full_version_from_pkgbuild (plain_recipe e ver rel) = Some (render_version e ver (Some rel))"
    by (simp add: full_version_from_pkgbuild_def recipe_pkgver_def render_version_def show_nat_zero)
      (simp add: plain_recipe_def)
next
  show "parse_version (Some (render_version e ver (Some rel))) =
      Some \<lparr>v_epoch = e, v_pkgver = ver, v_pkgrel = Some rel, v_raw = render_version e ver (Some rel)\<rparr>"
    using assms by (intro parse_render) auto
qed

theorem declared_version_roundtrip_witness:
  "full_version_from_pkgbuild (plain_recipe 1 ''2.0'' ''3'') = Some (render_version 1 ''2.0'' (Some ''3''))"
  by (rule declared_version_roundtrip [THEN conjunct1])
     (simp_all add: version_text_def ver_char_def is_digit_def)

section \<open>A diff that assigns nothing moves nothing\<close>

text \<open>A line that assigns, if it does, on an unchanged line.\<close>

definition assigns_unchanged :: "string \<Rightarrow> bool" where
  "assigns_unchanged l = (case assign_line l of None \<Rightarrow> True | Some (c, name, val) \<Rightarrow> c = CHR '' '')"

lemma variable_table_unchanged:
  "list_all assigns_unchanged ls \<Longrightarrow>
     variable_table_from ls new_signs table tot = variable_table_from ls old_signs table tot"
proof (induction ls arbitrary: table tot)
  case (Cons l ls)
  then have IH: "variable_table_from ls new_signs t n = variable_table_from ls old_signs t n" for t n by simp
  from Cons.prems have "assigns_unchanged l" by simp
  then show ?case
    by (auto simp: assigns_unchanged_def new_signs_def old_signs_def IH [unfolded new_signs_def old_signs_def]
        split: option.splits prod.splits)
qed simp

lemma resolved_scalar_unchanged:
  "list_all assigns_unchanged ls \<Longrightarrow> resolved_scalar ls field table new_signs = resolved_scalar ls field table old_signs"
proof (induction ls)
  case (Cons l ls)
  then have IH: "resolved_scalar ls field table new_signs = resolved_scalar ls field table old_signs" by simp
  from Cons.prems have "assigns_unchanged l" by simp
  then have "scalar_line True field l = None \<or> (\<exists>val. scalar_line True field l = Some (CHR '' '', val))"
    by (auto simp: assigns_unchanged_def scalar_line_def split: option.splits)
  then show ?case using IH by (auto simp: new_signs_def old_signs_def)
qed simp

lemma differ_self [simp]: "\<not> differ_values v v"
  by (simp add: differ_values_def split: option.split)

lemma scalar_moved_unchanged: "list_all assigns_unchanged ls \<Longrightarrow> scalar_moved ls field \<noteq> Some True"
  by (auto simp: scalar_moved_def variable_table_def variable_table_unchanged resolved_scalar_unchanged
      split: option.splits)

lemma pkgver_refs_unchanged:
  "list_all assigns_unchanged ls \<Longrightarrow> pkgver_refs ls (None, None, ctx) = (old, new, ctx') \<Longrightarrow> old = None \<and> new = None"
proof (induction ls arbitrary: ctx)
  case (Cons l ls)
  from Cons.prems(1) have "assigns_unchanged l" by simp
  then have "scalar_line False ''pkgver'' l = None \<or> (\<exists>val. scalar_line False ''pkgver'' l = Some (CHR '' '', val))"
    by (auto simp: assigns_unchanged_def scalar_line_def split: option.splits)
  with Cons show ?case by auto
qed simp

lemma pkgver_move_unchanged:
  assumes u: "list_all assigns_unchanged (diff_raws d)" and m: "pkgver_move_in_diff d cur = Some (moved, a, b)"
  shows "\<not> moved"
proof -
  obtain old new ctx where refs: "pkgver_refs (diff_raws d) (None, None, None) = (old, new, ctx)"
    by (cases "pkgver_refs (diff_raws d) (None, None, None)") auto
  from pkgver_refs_unchanged [OF u refs] have on: "old = None" "new = None" by simp_all
  have same: "variable_table (diff_raws d) new_signs = variable_table (diff_raws d) old_signs"
    unfolding variable_table_def by (rule variable_table_unchanged [OF u])
  from m show ?thesis unfolding pkgver_move_in_diff_def Let_def refs prod.case on same
    by (auto split: option.splits if_splits)
qed

text \<open>Only an assignment on a changed line can move the version: when every assignment the diff shows
  is context, no version field counts as moved, whatever the recipe looks like.\<close>

theorem context_moves_nothing:
  assumes "list_all assigns_unchanged (diff_raws d)"
  shows "any_version_scalar_moved d cur \<noteq> Some True \<and>
    (case pkgver_move_in_diff d cur of Some (moved, a, b) \<Rightarrow> \<not> moved | None \<Rightarrow> True)"
proof -
  have "\<not> moved" if "pkgver_move_in_diff d cur = Some (moved, a, b)" for moved a b
    by (rule pkgver_move_unchanged [OF assms that])
  with scalar_moved_unchanged [OF assms] show ?thesis
    by (auto simp: any_version_scalar_moved_def Let_def split: option.splits bool.splits if_splits)
qed

theorem context_moves_nothing_witness:
  "any_version_scalar_moved (the (parse_diff ('' pkgver=1'' @ [NL] @ ''+make install''))) [] \<noteq> Some True \<and>
   (case pkgver_move_in_diff (the (parse_diff ('' pkgver=1'' @ [NL] @ ''+make install''))) [] of
      Some (moved, a, b) \<Rightarrow> \<not> moved | None \<Rightarrow> True)"
proof -
  have "list_all assigns_unchanged (diff_raws (the (parse_diff ('' pkgver=1'' @ [NL] @ ''+make install''))))" by code_simp
  then show ?thesis by (rule context_moves_nothing)
qed

text \<open>
  A reference that trims a prefix is cut at its hash sign, which the expression for the reference reads as
  a comment: the version is then unknown although the recipe assigns it.
\<close>

lemma hash_cuts_reference: "raw_pkgver (''pkgver=${_tag#v}'' @ [NL]) = Some ''${_tag''"
  by code_simp

lemma hash_reference_resolves: "resolve_text ''${_tag#v}'' [(''_tag'', ''v1'')] = Some ''1''"
proof -
  have inner: "innermost ''${_tag#v}'' = Some ([], ''_tag#v'', [])" "innermost ''1'' = None" by code_simp+
  have body: "parse_body ''_tag#v'' = Some (''_tag'', Affix ShortPrefix ''v'')" by code_simp
  have passes: "MAX_EXPANSION_PASSES = Suc (Suc 14)" "RESOLVE_MAX_DEPTH = Suc (Suc 6)"
    by (simp_all add: MAX_EXPANSION_PASSES_def RESOLVE_MAX_DEPTH_def)
  have strip: "strip_affix ''v1'' ShortPrefix ''v'' (int 8000000) = Inr (''1'', 7999996)"
    by (simp add: strip_affix_def glob_tokens_def MAX_GLOB_PATTERN_LEN_def push_def glob_prefix_ends_def
        first_row_def next_row_def)
  have "expand_one ''_tag#v'' [(''_tag'', ''v1'')] [] (int 8000000) = Some (Some ''1'', 7999996)"
    by (simp add: expand_one_def expand_one_unbounded_def body strip [simplified] MAX_LINE_LEN_def)
  then have "resolve_expansions ''${_tag#v}'' [(''_tag'', ''v1'')] [] MAX_TEXT_LEN = Some (''1'', True)"
    unfolding resolve_expansions_def passes resolve_loop.simps inner option.case prod.case
    by (simp add: MAX_GLOB_STEPS_def MAX_TEXT_LEN_def inner open_expansion_def py_in_def)
  then show ?thesis
    unfolding resolve_text_def passes resolve_text_loop.simps by (simp add: MAX_TEXT_LEN_def)
qed

text \<open>A lone superscript passes \<^verbatim>\<open>str.isdigit\<close> and fails \<^verbatim>\<open>int\<close>: the comparison raises.\<close>

lemma superscript_raises: "simple_vercmp (''1'' @ [CHR 0xB2]) ''1'' = None"
  by code_simp

end
