(* ===== verification/Joining.thy ===== *)
theory Joining
  imports Line_Lex
begin

text \<open>
  Logical lines (\<^verbatim>\<open>_tokenizer_engine/_common.py\<close>): which physical lines of a diff the shell runs as one.
  \<open>join_logical\<close> joins lines of one marker, \<open>join_side\<close> the lines of one side of the diff with the
  unchanged context between them.  The pending logical line of each loop is a record.
\<close>

section \<open>Continuation\<close>

definition unescaped_at :: "string \<Rightarrow> nat \<Rightarrow> bool" where
  "unescaped_at s i = even (length (takeWhile (\<lambda>c. c = BSL) (rev (take i s))))"

definition tail_continues :: "string \<Rightarrow> bool" where
  "tail_continues s =
     (if py_endswith s ''&&'' then True
      else if \<not> py_endswith s ''|'' then False else unescaped_at s (length s - 1))"

definition backslash_continues :: "string \<Rightarrow> bool" where
  "backslash_continues s = odd (length (takeWhile (\<lambda>c. c = BSL) (rev s)))"

definition is_diff_header :: "string \<Rightarrow> bool" where
  "is_diff_header l =
     (list_ex (py_startswith l) [''diff --git '', ''@@ '', ''--- '', ''+++ ''] \<or> l = ''---'' \<or> l = ''+++'')"

text \<open>The character before decides whether a hash sign opens a comment.\<close>

definition comment_after :: "char option \<Rightarrow> bool" where
  "comment_after prev = (case prev of None \<Rightarrow> True | Some c \<Rightarrow> py_isspace c \<or> c \<in> set '';|&('')"

text \<open>\<open>sg\<close>, \<open>db\<close>, \<open>bt\<close>: inside single quotes, double quotes, backticks.\<close>

function tail_data :: "char option \<Rightarrow> bool \<Rightarrow> bool \<Rightarrow> bool \<Rightarrow> string \<Rightarrow> bool" where
  "tail_data prev sg db bt [] = (sg \<or> db \<or> bt)"
| "tail_data prev sg db bt (c # s) =
     (if sg then tail_data (Some c) (c \<noteq> SQ) db bt s
      else if c = BSL \<and> s \<noteq> [] then tail_data (Some (hd s)) sg db bt (tl s)
      else if bt then tail_data (Some c) sg db (c \<noteq> BTK) s
      else if db then tail_data (Some c) sg (c \<noteq> DQ) (c = BTK) s
      else if c = CHR ''#'' \<and> comment_after prev then True
      else tail_data (Some c) (c = SQ) (c = DQ) (c = BTK) s)"
  by pat_completeness auto
termination by (relation "measure (\<lambda>(prev, sg, db, bt, s). length s)") auto

definition lexical_tail_is_data :: "string \<Rightarrow> bool" where
  "lexical_tail_is_data l = tail_data None False False False l"

datatype continuation = Ends | Backslash | Operator

definition continuation_kind :: "string \<Rightarrow> bool \<Rightarrow> continuation" where
  "continuation_kind body heredoc =
     (if heredoc \<or> lexical_tail_is_data body then Ends
      else if backslash_continues body then Backslash
      else if tail_continues (py_rstrip body) then Operator else Ends)"

section \<open>Joining lines of one marker\<close>

text \<open>The marker of a line and what stands behind it.\<close>

definition marker_of :: "string \<Rightarrow> string" where
  "marker_of l = (if l \<noteq> [] \<and> hd l \<in> {CHR ''+'', CHR ''-''} then [hd l] else [])"

definition body_of :: "string \<Rightarrow> string" where "body_of l = drop (length (marker_of l)) l"

text \<open>What a line adds to its logical line: a continuing backslash is dropped.\<close>

definition contribution :: "string \<Rightarrow> bool \<Rightarrow> string" where
  "contribution body heredoc =
     (if continuation_kind body heredoc = Backslash then butlast body else body)"

record pending_line =
  pd_marker :: string
  pd_start :: nat
  pd_text :: string

definition emit_logical :: "pending_line option \<Rightarrow> (nat \<times> string) list" where
  "emit_logical p = (case p of None \<Rightarrow> [] | Some q \<Rightarrow> [(pd_start q, pd_marker q @ pd_text q)])"

text \<open>Each line comes with its heredoc flag.\<close>

fun join_from :: "nat \<Rightarrow> (string \<times> bool) list \<Rightarrow> pending_line option \<Rightarrow> (nat \<times> string) list" where
  "join_from i [] p = emit_logical p"
| "join_from i ((l, heredoc) # ls) p =
     (if is_diff_header l then emit_logical p @ (i, l) # join_from (Suc i) ls None
      else (let m = marker_of l; body = body_of l; c = contribution body heredoc;
                same = (case p of None \<Rightarrow> False | Some q \<Rightarrow> pd_marker q = m);
                q = (if same then (the p)\<lparr>pd_text := pd_text (the p) @ c\<rparr>
                     else \<lparr>pd_marker = m, pd_start = i, pd_text = c\<rparr>);
                out = (if same then [] else emit_logical p) in
        if continuation_kind body heredoc = Ends then out @ emit_logical (Some q) @ join_from (Suc i) ls None
        else out @ join_from (Suc i) ls (Some q)))"

definition with_heredoc :: "string list \<Rightarrow> (string \<times> bool) list" where
  "with_heredoc ls = zip ls (map lx_heredoc_body (lex_lines ls False))"

definition join_logical :: "string list \<Rightarrow> (nat \<times> string) list" where
  "join_logical ls = join_from 0 (with_heredoc ls) None"

section \<open>Joining one side\<close>

text \<open>
  \<open>sd_index\<close> is the first line of the side's own marker, \<open>-1\<close> while only context has been read; the quote
  contexts are those before that line and after the last.
\<close>

record side_pending =
  sd_text :: string
  sd_index :: int
  sd_before :: "quote_frame list option"
  sd_after :: "quote_frame list option"

type_synonym side_line = "int \<times> string \<times> quote_frame list option \<times> quote_frame list option"

definition side_out :: "side_pending \<Rightarrow> side_line" where
  "side_out p = (sd_index p, sd_text p, sd_before p, sd_after p)"

text \<open>A header or a line of the other side flushes whatever is pending; the end of a logical line and the
  end of the diff flush it only when it has a line of this side.\<close>

definition flush_any :: "side_pending option \<Rightarrow> side_line list" where
  "flush_any p = (case p of None \<Rightarrow> [] | Some q \<Rightarrow> [side_out q])"

definition flush_own :: "side_pending option \<Rightarrow> side_line list" where
  "flush_own p = (case p of None \<Rightarrow> [] | Some q \<Rightarrow> if sd_index q \<ge> 0 then [side_out q] else [])"

definition side_extend :: "char \<Rightarrow> nat \<Rightarrow> lexed_line \<Rightarrow> side_pending option \<Rightarrow> side_pending" where
  "side_extend sign i x p =
     (let c = contribution (body_of (lx_text x)) (lx_heredoc_body x);
          q = (case p of
              None \<Rightarrow> \<lparr>sd_text = c, sd_index = -1, sd_before = None, sd_after = None\<rparr>
            | Some q \<Rightarrow> q\<lparr>sd_text := sd_text q @ c\<rparr>);
          q' = (if marker_of (lx_text x) = [sign] \<and> sd_index q < 0
                then q\<lparr>sd_index := int i, sd_before := Some (lx_quote_before x)\<rparr> else q) in
      q'\<lparr>sd_after := Some (lx_quote_after x)\<rparr>)"

fun side_from :: "char \<Rightarrow> nat \<Rightarrow> lexed_line list \<Rightarrow> side_pending option \<Rightarrow> side_line list" where
  "side_from sign i [] p = flush_own p"
| "side_from sign i (x # xs) p =
     (let l = lx_text x; q = side_extend sign i x p in
      if is_diff_header l \<or> marker_of l \<noteq> [] \<and> marker_of l \<noteq> [sign]
      then flush_any p @ side_from sign (Suc i) xs None
      else if continuation_kind (body_of l) (lx_heredoc_body x) = Ends
      then flush_own (Some q) @ side_from sign (Suc i) xs None
      else side_from sign (Suc i) xs (Some q))"

definition join_side :: "string list \<Rightarrow> char \<Rightarrow> side_line list" where
  "join_side ls sign = side_from sign 0 (lex_lines ls False) None"

section \<open>The logical lines partition the diff\<close>

text \<open>
  A physical line with its heredoc flag is an item.  A group of items is one logical line: a header alone,
  or lines of one marker of which all but the last continue.
\<close>

type_synonym item = "string \<times> bool"

definition header_item :: "item \<Rightarrow> bool" where "header_item x = is_diff_header (fst x)"
definition item_marker :: "item \<Rightarrow> string" where "item_marker x = marker_of (fst x)"

definition continues :: "item \<Rightarrow> bool" where
  "continues x = (\<not> header_item x \<and> continuation_kind (body_of (fst x)) (snd x) \<noteq> Ends)"

definition item_text :: "item \<Rightarrow> string" where
  "item_text x = contribution (body_of (fst x)) (snd x)"

definition group_text :: "item list \<Rightarrow> string" where
  "group_text g =
     (if header_item (hd g) then fst (hd g) else item_marker (hd g) @ concat (map item_text g))"

definition one_line :: "item list \<Rightarrow> bool" where
  "one_line g =
     (g \<noteq> [] \<and> (if header_item (hd g) then length g = 1
       else list_all (\<lambda>x. \<not> header_item x \<and> item_marker x = item_marker (hd g)) g \<and>
            list_all continues (butlast g)))"

text \<open>Two groups in a row could not have been one.\<close>

definition apart :: "item list \<Rightarrow> item list \<Rightarrow> bool" where
  "apart g g' =
     (\<not> continues (last g) \<or> header_item (hd g') \<or> item_marker (hd g') \<noteq> item_marker (hd g))"

fun numbered :: "nat \<Rightarrow> item list list \<Rightarrow> (nat \<times> string) list" where
  "numbered i [] = []"
| "numbered i (g # gs) = (i, group_text g) # numbered (i + length g) gs"

text \<open>The grouping the loop computes, the pending group in \<open>g\<close>.\<close>

definition keep :: "item list \<Rightarrow> item list list" where "keep g = (if g = [] then [] else [g])"

definition same_marker :: "item list \<Rightarrow> item \<Rightarrow> bool" where
  "same_marker g x = (g \<noteq> [] \<and> item_marker (hd g) = item_marker x)"

fun groups :: "item list \<Rightarrow> item list \<Rightarrow> item list list" where
  "groups [] g = keep g"
| "groups (x # xs) g =
     (if header_item x then keep g @ [x] # groups xs []
      else (let g' = (if same_marker g x then g @ [x] else [x]);
                out = (if same_marker g x then [] else keep g) in
        if continues x then out @ groups xs g' else out @ g' # groups xs []))"

text \<open>A pending group: one marker, everything continues.\<close>

definition open_group :: "item list \<Rightarrow> bool" where
  "open_group g = list_all (\<lambda>x. continues x \<and> item_marker x = item_marker (hd g)) g"

lemma open_group_Nil [simp]: "open_group []" by (simp add: open_group_def)

lemma open_group_head: "open_group g \<Longrightarrow> g \<noteq> [] \<Longrightarrow> \<not> header_item (hd g)"
  by (cases g) (auto simp: open_group_def continues_def)

lemma open_group_snoc:
  "open_group g \<Longrightarrow> continues x \<Longrightarrow> open_group (if same_marker g x then g @ [x] else [x])"
  by (cases g) (auto simp: open_group_def same_marker_def)

lemma open_group_line:
  "open_group g \<Longrightarrow> \<not> header_item x \<Longrightarrow> one_line (if same_marker g x then g @ [x] else [x])"
  by (cases g) (auto simp: open_group_def same_marker_def one_line_def continues_def list_all_iff)

lemma open_group_keep: "open_group g \<Longrightarrow> list_all one_line (keep g)"
  by (cases g) (auto simp: open_group_def keep_def one_line_def continues_def list_all_iff dest: in_set_butlastD)

lemma groups_concat: "concat (groups xs g) = g @ xs"
  by (induction xs g rule: groups.induct) (auto simp: keep_def Let_def)

lemma groups_lines: "open_group g \<Longrightarrow> list_all one_line (groups xs g)"
proof (induction xs g rule: groups.induct)
  case (1 g)
  then show ?case by (simp add: open_group_keep)
next
  case (2 x xs g)
  have "one_line [x]" if "header_item x" using that by (simp add: one_line_def)
  with 2 open_group_keep [OF 2(4)] open_group_line [OF 2(4)] open_group_snoc [OF 2(4)] show ?case
    by (auto simp: Let_def split: if_splits)
qed

lemma groups_head: "g \<noteq> [] \<Longrightarrow> \<exists>h gs. groups xs g = (g @ h) # gs"
proof (induction xs g rule: groups.induct)
  case (2 x xs g)
  show ?case
  proof (cases "\<not> header_item x \<and> same_marker g x \<and> continues x")
    case True
    then have n: "\<not> header_item x" "continues x" by simp_all
    from 2(2) [OF n(1) refl refl n(2)] True
    obtain h gs where "groups xs (g @ [x]) = (g @ [x] @ h) # gs" by auto
    with True show ?thesis by auto
  qed (use 2(4) in \<open>auto simp: keep_def Let_def\<close>)
qed (simp add: keep_def)

lemma groups_head_x: "\<exists>h gs. groups (x # xs) [] = (x # h) # gs"
proof (cases "header_item x \<or> \<not> continues x")
  case False
  with groups_head [of "[x]" xs] show ?thesis by (auto simp: same_marker_def keep_def)
qed (auto simp: keep_def same_marker_def)

text \<open>A group that is done is apart from whatever follows.\<close>

lemma apart_done: "\<not> continues (last g) \<Longrightarrow> successively apart gs \<Longrightarrow> successively apart (g # gs)"
  by (cases gs) (auto simp: apart_def)

lemma groups_apart: "open_group g \<Longrightarrow> successively apart (groups xs g)"
proof (induction xs g rule: groups.induct)
  case (1 g)
  then show ?case by (simp add: keep_def)
next
  case (2 x xs g)
  let ?g' = "if same_marker g x then g @ [x] else [x]"
  consider (header) "header_item x" | (ends) "\<not> header_item x" "\<not> continues x"
    | (goes_on) "\<not> header_item x" "continues x" by blast
  then show ?case
  proof cases
    case header
    then have "successively apart ([x] # groups xs [])"
      using 2(1) by (intro apart_done) (simp_all add: continues_def)
    then show ?thesis using header by (auto simp: keep_def apart_def)
  next
    case ends
    then have "successively apart (?g' # groups xs [])"
      using 2(3) by (intro apart_done) (simp_all add: Let_def)
    then show ?thesis using ends by (auto simp: keep_def apart_def same_marker_def)
  next
    case goes_on
    have next_ok: "successively apart (groups xs ?g')"
      using 2(2) [OF goes_on(1) refl refl goes_on(2)] open_group_snoc [OF 2(4) goes_on(2)] by simp
    show ?thesis
    proof (cases "same_marker g x")
      case True
      with next_ok goes_on show ?thesis by simp
    next
      case False
      obtain h gs where "groups xs [x] = (x # h) # gs" using groups_head [of "[x]" xs] by auto
      with next_ok goes_on False show ?thesis by (auto simp: keep_def apart_def same_marker_def)
    qed
  qed
qed

text \<open>The loop computes the numbered groups.\<close>

definition pending_of :: "nat \<Rightarrow> item list \<Rightarrow> pending_line option" where
  "pending_of i g =
     (if g = [] then None
      else Some \<lparr>pd_marker = item_marker (hd g), pd_start = i - length g, pd_text = concat (map item_text g)\<rparr>)"

lemma emit_pending:
  "open_group g \<Longrightarrow> length g \<le> i \<Longrightarrow> emit_logical (pending_of i g) = numbered (i - length g) (keep g)"
  by (cases g) (auto simp: emit_logical_def pending_of_def keep_def group_text_def open_group_def continues_def)

lemma numbered_append: "numbered i (gs @ hs) = numbered i gs @ numbered (i + length (concat gs)) hs"
  by (induction gs arbitrary: i) (simp_all add: add.assoc)

lemma join_from_groups:
  "open_group g \<Longrightarrow> length g \<le> i \<Longrightarrow> join_from i xs (pending_of i g) = numbered (i - length g) (groups xs g)"
proof (induction xs g arbitrary: i rule: groups.induct)
  case (1 g)
  then show ?case by (simp add: emit_pending)
next
  case (2 x xs g)
  obtain l heredoc where x: "x = (l, heredoc)" by (cases x)
  let ?g' = "if same_marker g x then g @ [x] else [x]"
  have none: "pending_of j [] = None" for j by (simp add: pending_of_def)
  have keep_len: "length (concat (keep g)) = length g" by (simp add: keep_def)
  have em: "emit_logical (pending_of i g) = numbered (i - length g) (keep g)" by (rule emit_pending [OF 2(4,5)])
  have same: "(case pending_of i g of None \<Rightarrow> False | Some q \<Rightarrow> pd_marker q = marker_of l) = same_marker g x"
    by (simp add: pending_of_def same_marker_def item_marker_def x)
  have q: "Some (if same_marker g x then (the (pending_of i g))\<lparr>pd_text := pd_text (the (pending_of i g)) @
          contribution (body_of l) heredoc\<rparr>
        else \<lparr>pd_marker = marker_of l, pd_start = i, pd_text = contribution (body_of l) heredoc\<rparr>) =
      pending_of (Suc i) ?g'"
    by (auto simp: pending_of_def same_marker_def item_marker_def item_text_def x)
  have len: "length ?g' \<le> Suc i" using 2(5) by simp
  have start: "Suc i - length ?g' = (if same_marker g x then i - length g else i)" by simp
  show ?case
  proof (cases "header_item x")
    case True
    then have h: "is_diff_header l" by (simp add: header_item_def x)
    have "join_from (Suc i) xs None = numbered (Suc i) (groups xs [])"
      using 2(1) [OF True open_group_Nil, of "Suc i"] by (simp add: none)
    with True h 2(5) show ?thesis
      by (simp add: x em numbered_append keep_len group_text_def header_item_def)
  next
    case False
    then have h: "\<not> is_diff_header l" by (simp add: header_item_def x)
    have kind: "(continuation_kind (body_of l) heredoc = Ends) = (\<not> continues x)"
      using False by (simp add: continues_def x)
    have step: "join_from i (x # xs) (pending_of i g) =
      (if continues x
       then (if same_marker g x then [] else emit_logical (pending_of i g)) @ join_from (Suc i) xs (pending_of (Suc i) ?g')
       else (if same_marker g x then [] else emit_logical (pending_of i g)) @ emit_logical (pending_of (Suc i) ?g') @
         join_from (Suc i) xs None)"
      unfolding x join_from.simps(2) if_not_P [OF h] Let_def same [unfolded x] q [unfolded x] kind [unfolded x]
      by simp
    show ?thesis
    proof (cases "continues x")
      case True
      have "join_from (Suc i) xs (pending_of (Suc i) ?g') = numbered (Suc i - length ?g') (groups xs ?g')"
        by (rule 2(2) [OF False refl refl True open_group_snoc [OF 2(4) True] len])
      then show ?thesis unfolding step start using True False 2(5)
        by (simp add: em numbered_append keep_len Let_def)
    next
      case ends: False
      have "join_from (Suc i) xs None = numbered (Suc i) (groups xs [])"
        using 2(3) [OF False refl refl ends open_group_Nil, of "Suc i"] by (simp add: none)
      moreover have "emit_logical (pending_of (Suc i) ?g') = numbered (Suc i - length ?g') [?g']"
        using open_group_head [OF 2(4)] False
        by (auto simp: emit_logical_def pending_of_def group_text_def same_marker_def)
      ultimately show ?thesis unfolding step start using ends False 2(5)
        by (simp add: em numbered_append keep_len Let_def)
    qed
  qed
qed

text \<open>C16: Joining loses no line and merges none it should not: the logical lines are the diff's physical
  lines cut into consecutive groups, each numbered by its first line; a group is one header, or lines of
  one marker of which all but the last continue, and no two groups in a row could have been one.  A
  logical line is the marker and the bodies of its lines, without the backslashes that continue them.\<close>

theorem join_logical_partition:
  "\<exists>gs. concat gs = with_heredoc ls \<and> list_all one_line gs \<and> successively apart gs \<and>
     join_logical ls = numbered 0 gs"
proof (intro exI conjI)
  let ?gs = "groups (with_heredoc ls) []"
  show "concat ?gs = with_heredoc ls" by (simp add: groups_concat)
  show "list_all one_line ?gs" by (rule groups_lines) simp
  show "successively apart ?gs" by (rule groups_apart) simp
  show "join_logical ls = numbered 0 ?gs"
    using join_from_groups [of "[]" 0 "with_heredoc ls"] by (simp add: join_logical_def pending_of_def)
qed

section \<open>The lines of one side\<close>

text \<open>An index that is reported: \<open>-1\<close> with no quote context, or a line of the side with its own.\<close>

definition own_index :: "lexed_line list \<Rightarrow> char \<Rightarrow> int \<Rightarrow> quote_frame list option \<Rightarrow> bool" where
  "own_index L sign j before =
     (if j < 0 then j = -1 \<and> before = None
      else nat j < length L \<and> marker_of (lx_text (L ! nat j)) = [sign] \<and>
           \<not> is_diff_header (lx_text (L ! nat j)) \<and> before = Some (lx_quote_before (L ! nat j)))"

definition own_pending :: "lexed_line list \<Rightarrow> char \<Rightarrow> nat \<Rightarrow> side_pending option \<Rightarrow> bool" where
  "own_pending L sign i p =
     (case p of None \<Rightarrow> True | Some q \<Rightarrow> own_index L sign (sd_index q) (sd_before q) \<and> sd_index q < int i)"

text \<open>The least index that may still be reported.\<close>

definition floor_of :: "nat \<Rightarrow> side_pending option \<Rightarrow> int" where
  "floor_of i p = (case p of None \<Rightarrow> int i | Some q \<Rightarrow> if sd_index q < 0 then int i else sd_index q)"

definition sound_side :: "lexed_line list \<Rightarrow> char \<Rightarrow> int \<Rightarrow> side_line list \<Rightarrow> bool" where
  "sound_side L sign lo out =
     (list_all (\<lambda>(j, t, b, a). own_index L sign j b \<and> (j < 0 \<or> lo \<le> j)) out \<and>
      sorted_wrt (<) (filter (\<lambda>j. 0 \<le> j) (map fst out)))"

lemma sound_side_Nil: "sound_side L sign lo []"
  by (simp add: sound_side_def)

lemma sound_side_mono: "sound_side L sign hi out \<Longrightarrow> lo \<le> hi \<Longrightarrow> sound_side L sign lo out"
  by (auto simp: sound_side_def list_all_iff)

lemma sound_side_Cons:
  assumes "sound_side L sign hi out" "own_index L sign (sd_index q) (sd_before q)"
    "lo \<le> hi" "sd_index q < 0 \<or> lo \<le> sd_index q \<and> sd_index q < hi"
  shows "sound_side L sign lo (side_out q # out)"
  using assms by (fastforce simp: sound_side_def list_all_iff side_out_def)

lemma sound_flush:
  assumes "own_pending L sign i p" "sound_side L sign (int i) out"
  shows "sound_side L sign (floor_of i p) (flush_any p @ out)" "sound_side L sign (floor_of i p) (flush_own p @ out)"
proof -
  show "sound_side L sign (floor_of i p) (flush_any p @ out)"
  proof (cases p)
    case None
    then show ?thesis using assms(2) by (auto simp: flush_any_def floor_of_def intro: sound_side_mono)
  next
    case (Some q)
    with assms show ?thesis
      by (auto simp: flush_any_def own_pending_def floor_of_def intro!: sound_side_Cons [OF assms(2)])
  qed
  show "sound_side L sign (floor_of i p) (flush_own p @ out)"
  proof (cases "p = None \<or> sd_index (the p) < 0")
    case True
    then show ?thesis using assms(2)
      by (auto simp: flush_own_def floor_of_def split: option.split intro: sound_side_mono)
  next
    case False
    with assms show ?thesis
      by (auto simp: flush_own_def own_pending_def floor_of_def intro!: sound_side_Cons [OF assms(2)])
  qed
qed

lemma side_extend_sound:
  assumes "own_pending L sign i p" "i < length L" "L ! i = x" "\<not> is_diff_header (lx_text x)"
  shows "own_pending L sign (Suc i) (Some (side_extend sign i x p))"
    "floor_of i p \<le> floor_of (Suc i) (Some (side_extend sign i x p))"
  using assms
  by (auto simp: own_pending_def own_index_def floor_of_def side_extend_def Let_def split: option.splits)

lemma side_from_sound:
  "drop i L = xs \<Longrightarrow> own_pending L sign i p \<Longrightarrow> sound_side L sign (floor_of i p) (side_from sign i xs p)"
proof (induction xs arbitrary: i p)
  case Nil
  show ?case
    using sound_flush(2) [OF Nil(2), of "[]"] by (simp add: sound_side_Nil)
next
  case (Cons x xs)
  have len: "i < length L" using Cons.prems(1) by (cases "i < length L") auto
  with Cons.prems(1) have x: "L ! i = x" and xs: "drop (Suc i) L = xs"
    by (metis Cons_nth_drop_Suc list.inject)+
  have fresh: "sound_side L sign (int (Suc i)) (side_from sign (Suc i) xs None)"
    using Cons.IH [OF xs, of None] by (simp add: own_pending_def floor_of_def)
  then have fresh': "sound_side L sign (int i) (side_from sign (Suc i) xs None)"
    by (rule sound_side_mono) simp
  show ?case
  proof (cases "is_diff_header (lx_text x) \<or> marker_of (lx_text x) \<noteq> [] \<and> marker_of (lx_text x) \<noteq> [sign]")
    case True
    then show ?thesis using sound_flush(1) [OF Cons.prems(2) fresh'] by (simp add: Let_def)
  next
    case False
    then have ext: "own_pending L sign (Suc i) (Some (side_extend sign i x p))"
      "floor_of i p \<le> floor_of (Suc i) (Some (side_extend sign i x p))"
      using side_extend_sound [OF Cons.prems(2) len x] by auto
    have "sound_side L sign (floor_of (Suc i) (Some (side_extend sign i x p))) (side_from sign i (x # xs) p)"
      unfolding side_from.simps(2) Let_def if_not_P [OF False]
      using sound_flush(2) [OF ext(1) fresh] Cons.IH [OF xs ext(1)] by simp
    then show ?thesis by (rule sound_side_mono [OF _ ext(2)])
  qed
qed

text \<open>Every logical line of a side is located: its index is a line of the diff that carries the side's
  own marker, with the quote context that line was lexed in, and the indices increase.  The exception is
  the index \<open>-1\<close>, which carries no quote context.\<close>

theorem side_lines_located:
  "list_all (\<lambda>(j, t, b, a).
      (if j < 0 then j = -1 \<and> b = None
       else nat j < length ls \<and> marker_of (ls ! nat j) = [sign] \<and> \<not> is_diff_header (ls ! nat j) \<and>
         b = Some (lx_quote_before (lex_lines ls False ! nat j)))) (join_side ls sign) \<and>
   sorted_wrt (<) (filter (\<lambda>j. 0 \<le> j) (map fst (join_side ls sign)))"
proof -
  let ?L = "lex_lines ls False"
  have lines: "map lx_text ?L = ls" by (simp add: lex_lines_def lex_from_text)
  then have len: "length ?L = length ls" by (metis length_map)
  have nth: "j < length ls \<Longrightarrow> lx_text (?L ! j) = ls ! j" for j using lines len by (metis nth_map)
  have own: "own_index ?L sign j b = (if j < 0 then j = -1 \<and> b = None
      else nat j < length ls \<and> marker_of (ls ! nat j) = [sign] \<and> \<not> is_diff_header (ls ! nat j) \<and>
        b = Some (lx_quote_before (?L ! nat j)))" for j b
    by (auto simp: own_index_def len nth)
  have "sound_side ?L sign 0 (join_side ls sign)"
    using side_from_sound [of 0 ?L ?L sign None] by (simp add: join_side_def own_pending_def floor_of_def)
  then show ?thesis unfolding sound_side_def own
    by (elim conjE, intro conjI) (rule list.pred_mono_strong, assumption, blast, assumption)
qed

text \<open>
  The exception happens: an unchanged line that continues, followed by a line of the other side, is
  reported as a logical line of this side at index \<open>-1\<close>, although this side never changed it.
\<close>

lemma context_reported_as_added:
  "map (\<lambda>(j, t, b, a). (j, t)) (join_side ['' cd src &&'', ''-  make all'', ''+  make install''] (CHR ''+'')) =
     [(-1, '' cd src &&''), (2, ''  make install'')]"
proof -
  have "lex_lines ['' cd src &&'', ''-  make all'', ''+  make install''] False =
      map (\<lambda>l. plain_lexed l [] False) ['' cd src &&'', ''-  make all'', ''+  make install'']"
    by (simp add: lex_lines_def lex_code_line_def LEXICAL_CHARS_def MAX_TOKENIZER_LINE_def plain_lexed_def)
  moreover have "continuation_kind '' cd src &&'' False = Operator"
    "continuation_kind ''  make install'' False = Ends" by code_simp+
  ultimately show ?thesis
    by (simp add: join_side_def side_extend_def plain_lexed_def is_diff_header_def marker_of_def body_of_def
        contribution_def flush_any_def flush_own_def side_out_def)
qed

end
