(* ===== verification/Aliases.thy ===== *)
theory Aliases
  imports Joining Expansion
begin

text \<open>
  Shell aliases of a diff (\<^verbatim>\<open>_tokenizer_engine/_aliases.py\<close>) and the collapse of path traversal
  (\<^verbatim>\<open>_tokenizer_engine/_apply.py\<close>): the definitions a line makes, the table they fill, and the bounded
  replacement of alias names in command position.  The scanning loops run over the rest of the text
  where the code keeps an index.
\<close>

definition MAX_ALIASES :: nat where "MAX_ALIASES = 64"
definition MAX_ALIAS_LEN :: nat where "MAX_ALIAS_LEN = 512"

section \<open>Definitions\<close>

text \<open>\<^verbatim>\<open>^\s*alias\s+(?!-)(.+)$\<close>: where an option or nothing follows, the last space belongs to the rest.\<close>

definition alias_def :: "string \<Rightarrow> string option" where
  "alias_def l =
     (let t = dropWhile py_isspace l; r = drop 5 t; ws = takeWhile py_isspace r; rest = dropWhile py_isspace r in
      if take 5 t \<noteq> ''alias'' \<or> ws = [] then None
      else if rest \<noteq> [] \<and> hd rest \<noteq> CHR ''-'' then rest_of_line rest
      else if length ws \<ge> 2 then rest_of_line (last ws # rest) else None)"

definition alias_name :: "string \<Rightarrow> bool" where
  "alias_name n =
     (n \<noteq> [] \<and> name_start (hd n) \<and> list_all (\<lambda>c. is_word c \<or> c = CHR ''.'' \<or> c = CHR ''-'') (tl n))"

definition is_space :: "char \<Rightarrow> bool" where "is_space c = (c = SPC)"

lemma after_sign:
  assumes "dropWhile R s \<noteq> []"
  shows "length (dropWhile P (dropWhile Q (tl (dropWhile R s)))) < length s"
proof -
  let ?r = "dropWhile R s"
  have "length (dropWhile P (dropWhile Q (tl ?r))) \<le> length (tl ?r)" by (meson length_dropWhile_le le_trans)
  also have "\<dots> < length ?r" using assms by (cases ?r) auto
  also have "\<dots> \<le> length s" by (rule length_dropWhile_le)
  finally show ?thesis .
qed

lemma after_quote:
  assumes "dropWhile R s \<noteq> []"
  shows "length (dropWhile P (tl (dropWhile Q (tl (tl (dropWhile R s)))))) < length s"
proof -
  let ?r = "dropWhile R s"
  have "length (dropWhile P (tl (dropWhile Q (tl (tl ?r))))) \<le> length (tl (dropWhile Q (tl (tl ?r))))"
    by (rule length_dropWhile_le)
  also have "\<dots> \<le> length (dropWhile Q (tl (tl ?r)))" by simp
  also have "\<dots> \<le> length (tl (tl ?r))" by (rule length_dropWhile_le)
  also have "\<dots> \<le> length (tl ?r)" by simp
  also have "\<dots> < length ?r" using assms by (cases ?r) auto
  also have "\<dots> \<le> length s" by (rule length_dropWhile_le)
  finally show ?thesis .
qed

function alias_pairs :: "string \<Rightarrow> (string \<times> string) list" where
  "alias_pairs s =
     (let name = py_strip (takeWhile (\<lambda>c. c \<noteq> CHR ''='') s); r = dropWhile (\<lambda>c. c \<noteq> CHR ''='') s in
      if r = [] then []
      else if \<not> alias_name name then []
      else if tl r \<noteq> [] \<and> (hd (tl r) = SQ \<or> hd (tl r) = DQ) then
        (let body = tl (tl r); q = hd (tl r); val = takeWhile (\<lambda>c. c \<noteq> q) body; post = dropWhile (\<lambda>c. c \<noteq> q) body in
         if post = [] then [] else (name, val) # alias_pairs (dropWhile is_space (tl post)))
      else
        (let val = takeWhile (\<lambda>c. \<not> is_space c) (tl r); post = dropWhile (\<lambda>c. \<not> is_space c) (tl r) in
         if post = [] then [(name, val)] else (name, val) # alias_pairs (dropWhile is_space post)))"
  by pat_completeness auto
termination
  by (relation "measure length") (simp, auto intro: after_sign after_quote)

declare alias_pairs.simps [simp del]

text \<open>One line fills the table; the flag says that the table is full and the reading ends.\<close>

fun add_pairs :: "(string \<times> string) list \<Rightarrow> string dict \<Rightarrow> string dict \<times> bool" where
  "add_pairs [] table = (table, False)"
| "add_pairs ((name, val) # ps) table =
     (if length table \<ge> MAX_ALIASES then (table, True)
      else add_pairs ps (if val \<noteq> [] \<and> length val \<le> MAX_ALIAS_LEN then dict_set table name val else table))"

fun alias_entries :: "string list \<Rightarrow> string dict \<Rightarrow> string dict \<times> bool" where
  "alias_entries [] table = (table, False)"
| "alias_entries (l # ls) table =
     (case alias_def l of
        None \<Rightarrow> alias_entries ls table
      | Some rest \<Rightarrow>
          (case add_pairs (alias_pairs rest) table of
             (t, True) \<Rightarrow> (t, True) | (t, False) \<Rightarrow> alias_entries ls t))"

text \<open>\<^verbatim>\<open>value.split(None, 1)\<close>: the first word and, when there is one, the rest.\<close>

definition split_head :: "string \<Rightarrow> (string \<times> string option) option" where
  "split_head v =
     (let t = dropWhile py_isspace v; w = takeWhile (\<lambda>c. \<not> py_isspace c) t;
          r = dropWhile py_isspace (dropWhile (\<lambda>c. \<not> py_isspace c) t) in
      if w = [] then None else Some (w, if r = [] then None else Some r))"

definition chain_alias :: "string \<times> string \<Rightarrow> string dict \<Rightarrow> string dict" where
  "chain_alias nv table =
     (case split_head (snd nv) of
        None \<Rightarrow> table
      | Some (w, rest) \<Rightarrow>
          (case map_of table w of
             None \<Rightarrow> table
           | Some expansion \<Rightarrow>
               (let merged = py_strip (expansion @ '' '' @ (case rest of None \<Rightarrow> [] | Some r \<Rightarrow> r)) in
                if w = fst nv then table
                else if length merged \<le> MAX_ALIAS_LEN then dict_set table (fst nv) merged else table)))"

definition chain_pass :: "string dict \<Rightarrow> string dict" where
  "chain_pass table = fold chain_alias table table"

definition alias_table :: "string list \<Rightarrow> string dict" where
  "alias_table ls =
     (case alias_entries ls [] of
        (t, True) \<Rightarrow> t | (t, False) \<Rightarrow> chain_pass (chain_pass t))"

section \<open>Use\<close>

definition COMMAND_WORDS :: "string list" where
  "COMMAND_WORDS = [''then'', ''do'', ''else'', ''if'', ''while'', ''until'', ''for'', ''time'']"

text \<open>A command may start after this text: nothing, an operator, or a reserved word that is a word.\<close>

definition command_position :: "string \<Rightarrow> bool" where
  "command_position pre =
     (let p = py_rstrip pre in
      p = [] \<or> last p \<in> set '';&|(){}!'' \<or>
      list_ex (\<lambda>w. py_endswith p w \<and>
        (let b = take (length p - length w) p in b = [] \<or> \<not> is_word (last b))) COMMAND_WORDS)"

definition name_ends :: "string \<Rightarrow> bool" where
  "name_ends post = (post = [] \<or> \<not> (is_word (hd post) \<or> hd post = CHR ''.'' \<or> hd post = CHR ''-''))"

text \<open>
  One name from a position on: \<open>None\<close> when the limit would be crossed, else the text and whether it changed.
\<close>

function expand_name :: "nat \<Rightarrow> string \<Rightarrow> string \<Rightarrow> string \<Rightarrow> string \<Rightarrow> bool \<Rightarrow> (string \<times> bool) option" where
  "expand_name limit name val before rest changed =
     (case py_find rest name of
        None \<Rightarrow> Some (before @ rest, changed)
      | Some i \<Rightarrow>
          (let pre = before @ take i rest; post = drop (i + length name) rest in
           if name = [] then Some (before @ rest, changed)
           else if name_ends post \<and> command_position pre \<and> map_option fst (split_head val) \<noteq> Some name
           then (if length pre + length val + length post > limit then None
                 else expand_name limit name val (pre @ val) post True)
           else expand_name limit name val (pre @ name) post changed))"
  by pat_completeness auto
termination
proof (relation "measure (\<lambda>(limit, name, val, before, rest, changed). length rest)", simp)
  fix limit :: nat and name val before rest pre post :: string and changed :: bool and i :: nat
  assume "py_find rest name = Some i" "post = drop (i + length name) rest" "name \<noteq> []"
  then have "i + length name \<le> length rest" "0 < length name" using py_find_Some [of rest name i] by auto
  then have "length post < length rest" unfolding \<open>post = _\<close> length_drop by linarith
  then show "((limit, name, val, pre @ val, post, True), limit, name, val, before, rest, changed)
      \<in> measure (\<lambda>(limit, name, val, before, rest, changed). length rest)"
    "((limit, name, val, pre @ name, post, changed), limit, name, val, before, rest, changed)
      \<in> measure (\<lambda>(limit, name, val, before, rest, changed). length rest)" by simp_all
qed

declare expand_name.simps [simp del]

fun expand_names :: "nat \<Rightarrow> string dict \<Rightarrow> string \<Rightarrow> bool \<Rightarrow> (string \<times> bool) option" where
  "expand_names limit [] s changed = Some (s, changed)"
| "expand_names limit ((name, val) # table) s changed =
     (case expand_name limit name val [] s changed of
        None \<Rightarrow> None | Some (s', changed') \<Rightarrow> expand_names limit table s' changed')"

fun expand_passes :: "nat \<Rightarrow> nat \<Rightarrow> string dict \<Rightarrow> string \<Rightarrow> string \<Rightarrow> string" where
  "expand_passes 0 limit table original s = s"
| "expand_passes (Suc n) limit table original s =
     (case expand_names limit table s False of
        None \<Rightarrow> original
      | Some (s', changed) \<Rightarrow>
          (if \<not> changed \<or> length s' > limit then s' else expand_passes n limit table original s'))"

definition expand_aliases :: "string \<Rightarrow> string dict \<Rightarrow> nat \<Rightarrow> string" where
  "expand_aliases l table limit = (if table = [] then l else expand_passes 3 limit table l l)"

section \<open>Path traversal\<close>

definition path_char :: "char \<Rightarrow> bool" where
  "path_char c = (\<not> py_isspace c \<and> c \<notin> set ''/;&|'' \<and> c \<noteq> DQ \<and> c \<noteq> SQ)"

text \<open>\<^verbatim>\<open>seg/..\<close> behind a slash, and what follows it.\<close>

definition traversal_here :: "string \<Rightarrow> string option" where
  "traversal_here s =
     (let seg = takeWhile path_char s; r = dropWhile path_char s; post = drop 3 r in
      if py_startswith s ''../'' \<or> seg = [] \<or> \<not> py_startswith r ''/..'' then None
      else if at_end post \<or> hd post = CHR ''/'' then Some post else None)"

function drop_traversals :: "string \<Rightarrow> string" where
  "drop_traversals [] = []"
| "drop_traversals (c # s) =
     (case (if c = CHR ''/'' then traversal_here s else None) of
        Some post \<Rightarrow> drop_traversals post | None \<Rightarrow> c # drop_traversals s)"
  by pat_completeness auto
termination
proof (relation "measure length", simp)
  fix c :: char and s post :: string
  assume "(if c = CHR ''/'' then traversal_here s else None) = Some post"
  then have "post = drop 3 (dropWhile path_char s)"
    by (auto simp: traversal_here_def Let_def split: if_splits)
  then have "length post \<le> length s"
    using length_dropWhile_le [of path_char s] by simp
  then show "(post, c # s) \<in> measure length" by simp
qed simp

fun collapse_passes :: "nat \<Rightarrow> string \<Rightarrow> string" where
  "collapse_passes 0 s = s"
| "collapse_passes (Suc n) s = (let t = drop_traversals s in if t = s then s else collapse_passes n t)"

definition collapse_traversal :: "string \<Rightarrow> string" where
  "collapse_traversal s = collapse_passes 8 s"

section \<open>Bounds\<close>

definition small_table :: "string dict \<Rightarrow> bool" where
  "small_table t = (length t \<le> MAX_ALIASES \<and> distinct (map fst t) \<and> list_all (\<lambda>(n, v). length v \<le> MAX_ALIAS_LEN) t)"

lemma dict_set_length: "length (dict_set d k v) = (if k \<in> fst ` set d then length d else Suc (length d))"
  by (induction d k v rule: dict_set.induct) auto

lemma dict_set_all: "list_all P d \<Longrightarrow> P (k, v) \<Longrightarrow> list_all P (dict_set d k v)"
  by (induction d k v rule: dict_set.induct) auto

lemma small_set_new: "small_table t \<Longrightarrow> length t < MAX_ALIASES \<Longrightarrow> length v \<le> MAX_ALIAS_LEN \<Longrightarrow> small_table (dict_set t k v)"
  by (auto simp: small_table_def dict_set_length dict_set_distinct dict_set_all)

lemma small_set_old: "small_table t \<Longrightarrow> k \<in> fst ` set t \<Longrightarrow> length v \<le> MAX_ALIAS_LEN \<Longrightarrow> small_table (dict_set t k v)"
  by (auto simp: small_table_def dict_set_length dict_set_distinct dict_set_all)

lemma add_pairs_small: "small_table t \<Longrightarrow> small_table (fst (add_pairs ps t))"
  by (induction ps t rule: add_pairs.induct) (auto simp: small_set_new)

lemma alias_entries_small: "small_table t \<Longrightarrow> small_table (fst (alias_entries ls t))"
proof (induction ls t rule: alias_entries.induct)
  case (2 l ls t)
  show ?case
  proof (cases "alias_def l")
    case (Some rest)
    obtain t' full where t': "add_pairs (alias_pairs rest) t = (t', full)" by (cases "add_pairs (alias_pairs rest) t")
    with add_pairs_small [OF 2(3), of "alias_pairs rest"] have "small_table t'" by simp
    with Some t' 2(2) show ?thesis by (cases full) auto
  qed (use 2 in simp)
qed simp

text \<open>A pass keeps the names.\<close>

lemma chain_alias_small:
  "small_table t \<Longrightarrow> fst nv \<in> fst ` set t \<Longrightarrow> small_table (chain_alias nv t) \<and> fst ` set t \<subseteq> fst ` set (chain_alias nv t)"
  by (auto simp: chain_alias_def Let_def small_set_old dict_set_keys split: option.split)

lemma chain_fold_small:
  "small_table t \<Longrightarrow> fst ` set nvs \<subseteq> fst ` set t \<Longrightarrow> small_table (fold chain_alias nvs t)"
proof (induction nvs arbitrary: t)
  case (Cons nv nvs)
  with chain_alias_small [of t nv] show ?case by auto
qed simp

lemma chain_pass_small: "small_table t \<Longrightarrow> small_table (chain_pass t)"
  by (simp add: chain_pass_def chain_fold_small)

lemma alias_table_small: "small_table (alias_table ls)"
  using alias_entries_small [of "[]" ls]
  by (auto simp: alias_table_def small_table_def [of "[]"] chain_pass_small split: prod.split bool.split)

lemma expand_name_length:
  "expand_name limit name val before rest ch = Some (s, ch') \<Longrightarrow> length s \<le> max (length before + length rest) limit"
proof (induction limit name val before rest ch rule: expand_name.induct)
  case (1 limit name val before rest ch)
  note eq = 1(3) [unfolded expand_name.simps [of limit name val before rest ch]]
  show ?case
  proof (cases "py_find rest name")
    case None
    with eq show ?thesis by auto
  next
    case (Some i)
    let ?pre = "before @ take i rest" and ?post = "drop (i + length name) rest"
    have len: "i + length name \<le> length rest" using py_find_Some [OF Some] by simp
    consider (empty) "name = []" | (use) "name \<noteq> []" "name_ends ?post \<and> command_position ?pre \<and> map_option fst (split_head val) \<noteq> Some name"
      | (skip) "name \<noteq> []" "\<not> (name_ends ?post \<and> command_position ?pre \<and> map_option fst (split_head val) \<noteq> Some name)" by blast
    then show ?thesis
    proof cases
      case empty
      with eq Some show ?thesis by (auto simp: Let_def)
    next
      case use
      with eq Some have fits: "\<not> length ?pre + length val + length ?post > limit"
        and s: "expand_name limit name val (?pre @ val) ?post True = Some (s, ch')"
        by (auto simp: Let_def split: if_splits)
      from 1(1) [OF Some refl refl use fits s] fits show ?thesis by simp
    next
      case skip
      have s: "expand_name limit name val (?pre @ name) ?post ch = Some (s, ch')"
        using eq unfolding Some option.case Let_def if_not_P [OF skip(1)] if_not_P [OF skip(2)] .
      from 1(2) [OF Some refl refl skip s] len show ?thesis by simp
    qed
  qed
qed

lemma expand_names_length:
  "expand_names limit table t ch = Some (s, ch') \<Longrightarrow> length s \<le> max (length t) limit"
proof (induction limit table t ch rule: expand_names.induct)
  case (2 limit name val table t ch)
  then obtain t' c where t': "expand_name limit name val [] t ch = Some (t', c)"
    "expand_names limit table t' c = Some (s, ch')" by (auto split: option.splits)
  with 2(1) [OF t'(1) refl t'(2)] expand_name_length [OF t'(1)] show ?case by simp
qed simp

lemma expand_passes_length:
  "length t \<le> max (length original) limit \<Longrightarrow>
     length (expand_passes n limit table original t) \<le> max (length original) limit"
proof (induction n arbitrary: t)
  case (Suc n)
  show ?case
  proof (cases "expand_names limit table t False")
    case (Some p)
    then obtain s' c where p: "expand_names limit table t False = Some (s', c)" by (cases p) auto
    with expand_names_length [OF p] Suc.prems have "length s' \<le> max (length original) limit" by simp
    with Suc.IH [of s'] show ?thesis by (simp add: p)
  qed simp
qed simp

text \<open>Aliases stay within their bounds whatever the diff defines: the table holds at most 64 distinct
  names, each for at most 512 characters, chained definitions included, and replacing them never makes a
  line longer than the limit.\<close>

theorem aliases_bounded:
  "length (alias_table ls) \<le> 64 \<and> distinct (map fst (alias_table ls)) \<and>
   list_all (\<lambda>(n, v). length v \<le> 512) (alias_table ls) \<and>
   length (expand_aliases l table limit) \<le> max (length l) limit"
  using alias_table_small [of ls] expand_passes_length [of l l limit 3 table]
  by (simp add: small_table_def MAX_ALIASES_def MAX_ALIAS_LEN_def expand_aliases_def)

end
