(* ===== verification/Shell_Words.thy ===== *)
theory Shell_Words
  imports Expansion
begin

text \<open>
  Command positions of a shell text (\<^verbatim>\<open>shell_words.py\<close>): the quote-aware split into commands, case arms, the
  first command word behind assignments, wrappers and redirections, and the bodies of substitutions.
  Loops over an index run over the rest of the text; the regular expressions are written out.
\<close>

definition quote_mark :: "char \<Rightarrow> bool" where "quote_mark c = (c = SQ \<or> c = DQ)"
definition separator :: "char \<Rightarrow> bool" where "separator c = (c \<in> set '';&|'' \<or> c = NL)"

section \<open>Splitting\<close>

text \<open>\<open>cur\<close> is the part being read, \<open>depth\<close> counts the open parentheses and double brackets.\<close>

function split_from :: "char option \<Rightarrow> nat \<Rightarrow> string \<Rightarrow> string \<Rightarrow> string list" where
  "split_from q depth cur [] = [cur]"
| "split_from q depth cur (c # s) =
     (if q \<noteq> None then split_from (if q = Some c then None else q) depth (cur @ [c]) s
      else if quote_mark c then split_from (Some c) depth (cur @ [c]) s
      else if c = CHR ''['' \<and> s \<noteq> [] \<and> hd s = CHR ''['' then split_from None (Suc depth) (cur @ ''[['') (tl s)
      else if c = CHR '']'' \<and> s \<noteq> [] \<and> hd s = CHR '']'' then split_from None (depth - 1) (cur @ '']]'') (tl s)
      else if c = CHR ''('' then split_from None (Suc depth) (cur @ [c]) s
      else if c = CHR '')'' then split_from None (depth - 1) (cur @ [c]) s
      else if separator c \<and> depth = 0
      then cur # split_from None depth [] (if s \<noteq> [] \<and> hd s = c then tl s else s)
      else split_from None depth (cur @ [c]) s)"
  by pat_completeness auto
termination by (relation "measure (\<lambda>(q, depth, cur, s). length s)") (auto simp: less_Suc_eq_le)

definition split_shell_commands :: "string \<Rightarrow> string list" where
  "split_shell_commands body = split_from None 0 [] body"

fun arms_from :: "char option \<Rightarrow> nat \<Rightarrow> string \<Rightarrow> string \<Rightarrow> string list" where
  "arms_from q depth cur [] = [cur]"
| "arms_from q depth cur (c # s) =
     (if q \<noteq> None then arms_from (if q = Some c then None else q) depth (cur @ [c]) s
      else if quote_mark c then arms_from (Some c) depth (cur @ [c]) s
      else if c = CHR ''('' then arms_from None (Suc depth) (cur @ [c]) s
      else if c = CHR '')''
      then (if depth \<noteq> 0 then arms_from None (depth - 1) (cur @ [c]) s else cur # arms_from None 0 [] s)
      else arms_from None depth (cur @ [c]) s)"

definition split_case_arms :: "string \<Rightarrow> string list" where
  "split_case_arms part = arms_from None 0 [] part"

text \<open>The label of a case arm: words joined by bars, a parenthesis, and space.\<close>

definition label_char :: "char \<Rightarrow> bool" where
  "label_char c = (\<not> py_isspace c \<and> c \<notin> set ''();&|'')"

function label_rest :: "string \<Rightarrow> string option" where
  "label_rest s =
     (let r = dropWhile label_char s in
      if takeWhile label_char s = [] \<or> r = [] then None
      else if hd r = CHR '')'' then Some (tl r)
      else if hd r = CHR ''|'' then label_rest (tl r) else None)"
  by pat_completeness auto
termination
proof (relation "measure length", simp)
  fix s r :: string
  assume r: "r = dropWhile label_char s" and "\<not> (takeWhile label_char s = [] \<or> r = [])"
  then have "length (tl r) < length r" by (cases r) auto
  also have "\<dots> \<le> length s" unfolding r by (rule length_dropWhile_le)
  finally show "(tl r, s) \<in> measure length" by simp
qed

declare label_rest.simps [simp del]

definition strip_case_label :: "string \<Rightarrow> string" where
  "strip_case_label part =
     (case label_rest (dropWhile py_isspace part) of
        None \<Rightarrow> part
      | Some r \<Rightarrow> if r \<noteq> [] \<and> py_isspace (hd r) then dropWhile py_isspace r else part)"

section \<open>The first command word\<close>

definition COMMAND_WRAPPERS :: "string list" where
  "COMMAND_WRAPPERS = [''env'', ''exec'', ''sudo'', ''doas'', ''run0'', ''nohup'', ''command'', ''builtin'',
     ''time'', ''nice'', ''ionice'', ''timeout'', ''xargs'', ''setsid'', ''stdbuf'', ''unbuffer'', ''script'',
     ''then'', ''else'', ''do'', ''elif'', ''if'', ''while'', ''until'', ''!'']"

definition PRIVILEGE_WRAPPERS :: "string list" where "PRIVILEGE_WRAPPERS = [''sudo'', ''doas'', ''run0'']"

definition opens_a_value :: "string \<Rightarrow> bool" where
  "opens_a_value t =
     (odd (count_list t DQ) \<or> odd (count_list t SQ) \<or> count_list t (CHR ''('') > count_list t (CHR '')''))"

text \<open>An identifier at the start, and the rest.\<close>

definition after_name :: "string \<Rightarrow> string option" where
  "after_name s = (if s \<noteq> [] \<and> name_start (hd s) then Some (dropWhile name_char s) else None)"

definition drop_one :: "char \<Rightarrow> string \<Rightarrow> string" where
  "drop_one c s = (if s \<noteq> [] \<and> hd s = c then tl s else s)"

definition assignment_word :: "string \<Rightarrow> bool" where
  "assignment_word w =
     (case after_name w of
        None \<Rightarrow> False
      | Some r \<Rightarrow>
          (let idx = takeWhile (\<lambda>c. c \<noteq> CHR '']'') (tl r); post = dropWhile (\<lambda>c. c \<noteq> CHR '']'') (tl r);
               r' = (if r \<noteq> [] \<and> hd r = CHR ''['' \<and> length idx \<le> 40 \<and> post \<noteq> [] then tl post else r) in
           py_startswith (drop_one (CHR ''+'') r') ''=''))"

definition redirect_word :: "string \<Rightarrow> bool" where
  "redirect_word w =
     (let r = (if w \<noteq> [] \<and> is_digit (hd w) then tl w else w) in
      r \<noteq> [] \<and> (hd r = CHR ''<'' \<or> hd r = CHR ''>''))"

definition numeric_word :: "string \<Rightarrow> bool" where
  "numeric_word w = (w \<noteq> [] \<and> list_all is_digit w)"

definition evaluation :: "string \<Rightarrow> bool" where
  "evaluation s =
     (py_startswith s ''(('' \<or> py_startswith s ''[['' \<or>
      py_startswith s ''['' \<and> tl s \<noteq> [] \<and> py_isspace (s ! 1) \<or>
      py_startswith s ''test'' \<and> drop 4 s \<noteq> [] \<and> py_isspace (s ! 4))"

text \<open>
  \<^verbatim>\<open>^-{1,2}(?:u|user|g|group)(?:=(.*))?$\<close>: no match, the bare option, or the option with its value.
\<close>

datatype account = NoAccount | BareAccount | InlineAccount string

definition account_option :: "string \<Rightarrow> account" where
  "account_option w =
     (let r = (if py_startswith w ''--'' then drop 2 w else drop 1 w);
          name = takeWhile (\<lambda>c. c \<noteq> CHR ''='') r; post = dropWhile (\<lambda>c. c \<noteq> CHR ''='') r in
      if \<not> py_startswith w ''-'' \<or> name \<notin> {''u'', ''user'', ''g'', ''group''} then NoAccount
      else if post = [] then BareAccount else InlineAccount (tl post))"

definition plain_var :: "string \<Rightarrow> bool" where
  "plain_var s =
     (let t = (if s \<noteq> [] \<and> quote_mark (hd s) then tl s else s) in
      t \<noteq> [] \<and> hd t = CHR ''$'' \<and>
      (case after_name (drop_one (CHR ''{'') (tl t)) of
         None \<Rightarrow> False
       | Some r \<Rightarrow> (let r' = drop_one (CHR ''}'') r in r' = [] \<or> (\<exists>c \<in> {SQ, DQ}. r' = [c]))))"

definition function_prefix :: "string \<Rightarrow> string option" where
  "function_prefix s =
     (let ws = dropWhile py_isspace;
          brace_after = (\<lambda>r. let t = ws r in if py_startswith t ''{'' then Some (tl t) else None);
          keyword = (if py_startswith s ''function'' \<and> drop 8 s \<noteq> [] \<and> py_isspace (s ! 8)
            then (case after_name (ws (drop 8 s)) of
                None \<Rightarrow> None
              | Some r \<Rightarrow> brace_after (if py_startswith (ws r) ''()'' then drop 2 (ws r) else r))
            else None) in
      case keyword of
        Some r \<Rightarrow> Some r
      | None \<Rightarrow> (case after_name s of
            None \<Rightarrow> None
          | Some r \<Rightarrow> if py_startswith (ws r) ''()'' then brace_after (drop 2 (ws r)) else None))"

definition command_base :: "string \<Rightarrow> string" where
  "command_base w = rev (takeWhile (\<lambda>c. c \<noteq> CHR ''/'') (rev (strip_quotes w)))"

lemma next_word_shorter:
  assumes "dropWhile py_isspace s \<noteq> []"
  shows "length (dropWhile (\<lambda>c. \<not> py_isspace c) (dropWhile py_isspace s)) < length s"
proof -
  obtain c r where r: "dropWhile py_isspace s = c # r" using assms by (cases "dropWhile py_isspace s") auto
  then have "\<not> py_isspace c" using hd_dropWhile [OF assms] by simp
  then have "length (dropWhile (\<lambda>c. \<not> py_isspace c) (c # r)) \<le> length r" by (simp add: length_dropWhile_le)
  also have "\<dots> < length s" using length_dropWhile_le [of py_isspace s] r by simp
  finally show ?thesis by (simp only: r)
qed

text \<open>The loop over the words; \<open>None\<close> when there is no command word.\<close>

datatype word_turn = Stop | Go_on bool string bool | Found string

definition word_action :: "bool \<Rightarrow> string \<Rightarrow> bool \<Rightarrow> string \<Rightarrow> string \<Rightarrow> word_turn" where
  "word_action seen wrapper acct token word =
     (if py_startswith token ''(('' then Stop
      else if word = [] then Go_on seen wrapper acct
      else if assignment_word word then (if opens_a_value word then Stop else Go_on seen wrapper acct)
      else if redirect_word word \<or> numeric_word word then Go_on seen wrapper acct
      else if hd word = CHR ''-'' then
        (if \<not> seen then Stop
         else if wrapper = ''command'' \<and> (word = ''-v'' \<or> word = ''-V'') then Stop
         else if wrapper = ''type'' \<and> word \<in> {''-p'', ''-P'', ''-a''} then Stop
         else if wrapper \<notin> set PRIVILEGE_WRAPPERS then Go_on seen wrapper acct
         else (case account_option word of
             NoAccount \<Rightarrow> Go_on seen wrapper acct
           | BareAccount \<Rightarrow> Go_on seen wrapper True
           | InlineAccount v \<Rightarrow>
               (if (CHR ''$'' \<in> set v \<or> BTK \<in> set v) \<and> \<not> plain_var v then Found (strip_quotes v)
                else Go_on seen wrapper acct)))
      else if command_base word \<in> set COMMAND_WRAPPERS then Go_on True (command_base word) False
      else if acct then Go_on seen wrapper False
      else Found word)"

function scan_words :: "bool \<Rightarrow> string \<Rightarrow> bool \<Rightarrow> string \<Rightarrow> (string \<times> string) option" where
  "scan_words seen wrapper acct s =
     (let t = dropWhile py_isspace s; token = takeWhile (\<lambda>c. \<not> py_isspace c) t;
          word = dropWhile (\<lambda>c. c \<in> set ''({'') token in
      if t = [] then None
      else (case word_action seen wrapper acct token word of
          Stop \<Rightarrow> None
        | Go_on seen' wrapper' acct' \<Rightarrow> scan_words seen' wrapper' acct' (dropWhile (\<lambda>c. \<not> py_isspace c) t)
        | Found w \<Rightarrow> Some (w, drop (length token - length word) t)))"
  by pat_completeness auto
termination
  by (relation "measure (\<lambda>(seen, wrapper, acct, s). length s)") (simp, auto intro: next_word_shorter)

declare scan_words.simps [simp del]

definition first_command_start :: "string \<Rightarrow> (string \<times> string) option" where
  "first_command_start part =
     (let stripped = dropWhile py_isspace part in
      case function_prefix stripped of
        Some r \<Rightarrow>
          (let body = dropWhile py_isspace r in
           if body = [] \<or> evaluation body then None else scan_words False [] False body)
      | None \<Rightarrow> if stripped = [] \<or> evaluation stripped then None else scan_words False [] False part)"

section \<open>Substitutions\<close>

text \<open>The offset of the parenthesis that closes the first one, quotes respected.\<close>

fun balanced_from :: "char option \<Rightarrow> int \<Rightarrow> nat \<Rightarrow> string \<Rightarrow> nat option" where
  "balanced_from q depth i [] = None"
| "balanced_from q depth i (c # s) =
     (if q \<noteq> None then
        (if c = BSL \<and> q = Some DQ
         then (case s of [] \<Rightarrow> None | d # r \<Rightarrow> balanced_from q depth (i + 2) r)
         else balanced_from (if q = Some c then None else q) depth (Suc i) s)
      else if quote_mark c then balanced_from (Some c) depth (Suc i) s
      else if c = CHR ''('' then balanced_from None (depth + 1) (Suc i) s
      else if c = CHR '')''
      then (if depth - 1 = 0 then Some i else balanced_from None (depth - 1) (Suc i) s)
      else balanced_from None depth (Suc i) s)"

definition balanced_end :: "string \<Rightarrow> nat option" where
  "balanced_end s = balanced_from None 0 0 s"

definition opens_substitution_at :: "string \<Rightarrow> bool" where
  "opens_substitution_at s = (py_startswith s ''$('' \<or> py_startswith s ''<('' \<or> py_startswith s ''>('')"

definition opens_arithmetic_at :: "string \<Rightarrow> bool" where
  "opens_arithmetic_at s = (py_startswith s ''$(('' \<or> py_startswith s ''(('')"

text \<open>
  What happens at a character, the rest in \<open>s\<close>: go on behind some of the rest, take a body that ends at an
  offset, or stop at an opener that is never closed.
\<close>

datatype body_step = Advance "char option" nat | Body nat | Unclosed

definition body_step_at :: "char option \<Rightarrow> char \<Rightarrow> string \<Rightarrow> body_step" where
  "body_step_at q c s =
     (if q = Some SQ then Advance (if c = SQ then None else q) 0
      else if q \<noteq> None \<and> c = BSL then Advance q 1
      else if q \<noteq> None \<and> c = DQ then Advance None 0
      else if q = None \<and> quote_mark c then Advance (Some c) 0
      else if q = None \<and> opens_arithmetic_at (c # s) then
        (let skip = (if c = CHR ''$'' then 1 else 0) in
         case balanced_end (drop skip (c # s)) of None \<Rightarrow> Unclosed | Some k \<Rightarrow> Advance q (skip + k))
      else if opens_substitution_at (c # s) \<and> \<not> py_startswith (c # s) ''$(('' then
        (case balanced_end s of None \<Rightarrow> Unclosed | Some k \<Rightarrow> Body k)
      else Advance q 0)"

function bodies_from :: "char option \<Rightarrow> string \<Rightarrow> string list" where
  "bodies_from q [] = []"
| "bodies_from q (c # s) =
     (case body_step_at q c s of
        Advance q' n \<Rightarrow> bodies_from q' (drop n s)
      | Body k \<Rightarrow> take (k - 1) (drop 1 s) # bodies_from q (drop (Suc k) s)
      | Unclosed \<Rightarrow> [])"
  by pat_completeness auto
termination by (relation "measure (\<lambda>(q, s). length s)") auto

definition substitution_bodies :: "string \<Rightarrow> string list" where
  "substitution_bodies body = bodies_from None body"

fun command_starts :: "bool \<Rightarrow> nat \<Rightarrow> string \<Rightarrow> (string \<times> string) list" where
  "command_starts recurse depth body =
     concat (map (\<lambda>part. List.map_filter first_command_start (split_case_arms (strip_case_label part)))
       (split_shell_commands (strip_case_label body))) @
     (case depth of
        0 \<Rightarrow> []
      | Suc d \<Rightarrow> if recurse then concat (map (command_starts recurse d) (substitution_bodies body)) else [])"

declare command_starts.simps [simp del]

section \<open>Splitting loses nothing\<close>

fun weave :: "string list \<Rightarrow> string list \<Rightarrow> string" where
  "weave (p # ps) (x # xs) = p @ x @ weave ps xs"
| "weave ps xs = concat ps"

definition separates :: "string \<Rightarrow> bool" where
  "separates x = (x \<noteq> [] \<and> separator (hd x) \<and> (x = [hd x] \<or> x = [hd x, hd x]))"

definition woven :: "string list \<Rightarrow> string \<Rightarrow> bool" where
  "woven ps s \<longleftrightarrow>
     (\<exists>seps. length ps = Suc (length seps) \<and> list_all separates seps \<and> weave ps seps = s)"

lemma woven_single: "woven [s] s"
  unfolding woven_def by (intro exI [of _ "[]"]) simp

lemma woven_Cons: "separates x \<Longrightarrow> woven ps r \<Longrightarrow> woven (p # ps) (p @ x @ r)"
proof -
  assume x: "separates x" and "woven ps r"
  then obtain seps where "length ps = Suc (length seps)" "list_all separates seps" "weave ps seps = r"
    by (auto simp: woven_def)
  with x show ?thesis unfolding woven_def by (intro exI [of _ "x # seps"]) simp
qed

lemma separates_here: "separator c \<Longrightarrow> woven ps (if s \<noteq> [] \<and> hd s = c then tl s else s) \<Longrightarrow> woven (p # ps) (p @ c # s)"
  using woven_Cons [of "[c, c]" ps "tl s" p] woven_Cons [of "[c]" ps s p]
  by (cases "s \<noteq> [] \<and> hd s = c") (auto simp: separates_def neq_Nil_conv)

lemma doubled: "c = d \<and> s \<noteq> [] \<and> hd s = d \<Longrightarrow> d # d # tl s = c # s"
  by auto

lemma split_from_woven: "woven (split_from q depth cur s) (cur @ s)"
proof (induction q depth cur s rule: split_from.induct)
  case (1 q depth cur)
  then show ?case by (simp add: woven_single)
next
  case (2 q depth cur c s)
  let ?open = "c = CHR ''['' \<and> s \<noteq> [] \<and> hd s = CHR ''[''"
  let ?close = "c = CHR '']'' \<and> s \<noteq> [] \<and> hd s = CHR '']''"
  consider (open_bracket) "q = None" "\<not> quote_mark c" ?open
    | (close_bracket) "q = None" "\<not> quote_mark c" "\<not> ?open" ?close
    | (sep) "q = None" "\<not> quote_mark c" "\<not> ?open" "\<not> ?close" "c \<noteq> CHR ''(''" "c \<noteq> CHR '')''" "separator c \<and> depth = 0"
    | (kept) "q \<noteq> None \<or> quote_mark c \<or> \<not> ?open \<and> \<not> ?close \<and>
        (c = CHR ''('' \<or> c = CHR '')'' \<or> \<not> (separator c \<and> depth = 0))" by blast
  then show ?case
  proof cases
    case open_bracket
    with 2(3) doubled [OF open_bracket(3)] show ?thesis by simp
  next
    case close_bracket
    with 2(4) doubled [OF close_bracket(4)] show ?thesis by simp
  next
    case sep
    from sep(7) have s: "separator c" by simp
    from 2(7) [OF _ sep(2-7)] sep(1)
    have "woven (split_from None depth [] (if s \<noteq> [] \<and> hd s = c then tl s else s)) (if s \<noteq> [] \<and> hd s = c then tl s else s)"
      by simp
    from separates_here [OF s this] show ?thesis
      unfolding split_from.simps(2) using sep by (simp only: simp_thms if_True if_False)
  next
    case kept
    with 2(1,2,5,6,8) show ?thesis by (cases q) (auto simp del: woven_def)
  qed
qed

text \<open>Splitting a line into commands loses only the separators: put back between the parts, single or
  doubled, they give the line again, character for character.\<close>

theorem split_keeps_text:
  "\<exists>seps. length (split_shell_commands body) = Suc (length seps) \<and> list_all separates seps \<and>
     weave (split_shell_commands body) seps = body"
  using split_from_woven [of None 0 "[]" body] by (simp add: split_shell_commands_def woven_def)

section \<open>Reported commands stand in the text\<close>

lemma sub_trans: "sublist x y \<Longrightarrow> sublist y z \<Longrightarrow> sublist x z"
  by (rule sublist_order.order.trans)

lemma sub_suffix: "suffix y z \<Longrightarrow> sublist x y \<Longrightarrow> sublist x z"
  using sub_trans suffix_imp_sublist by blast

lemma sub_after: "sublist p s \<Longrightarrow> sublist p (x @ s)"
  by (rule sub_trans [OF _ sublist_append_leftI])

lemma sub_Cons: "sublist p s \<Longrightarrow> sublist p (c # s)"
  using sub_after [of p s "[c]"] by simp

lemma weave_parts: "length ps = Suc (length seps) \<Longrightarrow> p \<in> set ps \<Longrightarrow> sublist p (weave ps seps)"
proof (induction ps seps rule: weave.induct)
  case (1 r ps x xs)
  then show ?case by (auto intro: sub_after)
qed (auto simp: length_Suc_conv)

lemma split_from_parts: "p \<in> set (split_from q depth cur s) \<Longrightarrow> sublist p (cur @ s)"
  using split_from_woven [of q depth cur s] weave_parts unfolding woven_def by metis

lemma arms_from_parts: "p \<in> set (arms_from q depth cur s) \<Longrightarrow> sublist p (cur @ s)"
proof (induction q depth cur s rule: arms_from.induct)
  case (2 q depth cur c s)
  consider (cut) "q = None" "\<not> quote_mark c" "c \<noteq> CHR ''(''" "c = CHR '')''" "\<not> depth \<noteq> 0"
    | (kept) "q \<noteq> None \<or> quote_mark c \<or> c = CHR ''('' \<or> c \<noteq> CHR '')'' \<or> depth \<noteq> 0" by blast
  then show ?case
  proof cases
    case cut
    with 2(7) have "p = cur \<or> p \<in> set (arms_from None 0 [] s)" by simp
    then show ?thesis
    proof
      assume "p \<in> set (arms_from None 0 [] s)"
      with 2(5) cut have "sublist p s" by simp
      then show ?thesis by (intro sub_after sub_Cons)
    qed simp
  next
    case kept
    with 2(1-4,6,7) show ?thesis by (cases q) (auto split: if_splits)
  qed
qed simp

lemma label_rest_suffix: "label_rest s = Some r \<Longrightarrow> suffix r s"
proof (induction s rule: label_rest.induct)
  case (1 s)
  have "suffix (dropWhile label_char s) s" by (rule suffix_dropWhile)
  then have "suffix (tl (dropWhile label_char s)) s" by (meson suffix_order.trans suffix_tl)
  with 1 show ?case
    by (subst (asm) (2) label_rest.simps) (auto simp: Let_def split: if_splits intro: suffix_order.trans)
qed

lemma strip_case_label_suffix: "suffix (strip_case_label part) part"
proof -
  have "suffix (dropWhile py_isspace r) part" if "label_rest (dropWhile py_isspace part) = Some r" for r
    using label_rest_suffix [OF that] suffix_dropWhile suffix_order.trans by metis
  then show ?thesis by (auto simp: strip_case_label_def split: option.split)
qed

lemma strip_quotes_sub: "sublist (strip_quotes s) s"
proof -
  have "sublist (py_lstrip_of P s) s" for P and s :: string by (simp add: py_lstrip_of_def)
  moreover have "sublist (py_rstrip_of P s) s" for P and s :: string
    by (simp add: py_rstrip_of_def sublist_rev_left)
  ultimately show ?thesis unfolding strip_quotes_def by (blast intro: sub_trans)
qed

lemma account_inline_sub: "account_option w = InlineAccount v \<Longrightarrow> sublist v w"
proof -
  assume "account_option w = InlineAccount v"
  then obtain n where "v = tl (dropWhile (\<lambda>c. c \<noteq> CHR ''='') (drop n w))"
    by (auto simp: account_option_def Let_def split: if_splits)
  then show ?thesis by (metis sub_trans sublist_tl sublist_dropWhile sublist_drop)
qed

definition in_text :: "string \<Rightarrow> string \<times> string \<Rightarrow> bool" where
  "in_text s wt = (sublist (fst wt) (snd wt) \<and> sublist (snd wt) s)"

lemma in_text_suffix: "suffix r s \<Longrightarrow> in_text r wt \<Longrightarrow> in_text s wt"
  unfolding in_text_def using sub_suffix by blast

lemma in_text_sub: "sublist r s \<Longrightarrow> in_text r wt \<Longrightarrow> in_text s wt"
  unfolding in_text_def using sub_trans by blast

text \<open>The word at the front of its tail.\<close>

lemma word_in_tail:
  assumes "word = dropWhile Q (takeWhile P t)" "tail = drop (length (takeWhile P t) - length word) t"
  shows "sublist word tail" "suffix tail t"
proof -
  let ?token = "takeWhile P t"
  have "?token = takeWhile Q ?token @ word" unfolding assms(1) by simp
  then have "length ?token - length word = length (takeWhile Q ?token)" by (metis add_diff_cancel_right' length_append)
  moreover have "t = takeWhile Q ?token @ word @ dropWhile P t"
    using \<open>?token = takeWhile Q ?token @ word\<close> by (metis append.assoc takeWhile_dropWhile_id)
  ultimately have "tail = word @ dropWhile P t"
    unfolding assms(2) by (metis append_eq_conv_conj)
  then show "sublist word tail" by simp
  show "suffix tail t" unfolding assms(2) by (rule suffix_drop)
qed

lemma word_action_sub: "word_action seen wrapper acct token word = Found w \<Longrightarrow> sublist w word"
  by (auto simp: word_action_def split: if_splits account.splits
      intro: sub_trans [OF strip_quotes_sub account_inline_sub])

lemma scan_words_in_text: "scan_words seen wrapper acct s = Some wt \<Longrightarrow> in_text s wt"
proof (induction seen wrapper acct s rule: scan_words.induct)
  case (1 seen wrapper acct s)
  let ?t = "dropWhile py_isspace s"
  let ?token = "takeWhile (\<lambda>c. \<not> py_isspace c) ?t"
  let ?word = "dropWhile (\<lambda>c. c \<in> set ''({'') ?token"
  let ?tail = "drop (length ?token - length ?word) ?t"
  note eq = 1(2) [unfolded scan_words.simps [of seen wrapper acct s] Let_def]
  from eq have t: "?t \<noteq> []" by (cases "?t = []") simp_all
  note eq' = eq [unfolded if_not_P [OF t]]
  show ?case
  proof (cases "word_action seen wrapper acct ?token ?word")
    case Stop
    with eq' show ?thesis by simp
  next
    case (Go_on seen' wrapper' acct')
    with 1(1) [OF refl refl refl t Go_on] eq'
    have "in_text (dropWhile (\<lambda>c. \<not> py_isspace c) ?t) wt" by simp
    then show ?thesis
      by (rule in_text_sub [rotated]) (rule sub_trans [OF sublist_dropWhile sublist_dropWhile])
  next
    case (Found w)
    with eq' have wt: "wt = (w, ?tail)" by simp
    note tail = word_in_tail [of ?word "\<lambda>c. c \<in> set ''({''" "\<lambda>c. \<not> py_isspace c" ?t ?tail, OF refl refl]
    show ?thesis unfolding in_text_def wt fst_conv snd_conv
      using sub_trans [OF word_action_sub [OF Found] tail(1)]
        sub_trans [OF suffix_imp_sublist [OF tail(2)] sublist_dropWhile] by blast
  qed
qed

lemma function_prefix_suffix: "function_prefix s = Some r \<Longrightarrow> suffix r s"
proof -
  have ws: "suffix (dropWhile py_isspace r) r" for r by (rule suffix_dropWhile)
  have name: "suffix r u" if "after_name u = Some r" for u r
    using that by (auto simp: after_name_def suffix_dropWhile split: if_splits)
  have dr: "suffix (drop n u) u" "suffix (tl u) u" for n and u :: string by (rule suffix_drop, rule suffix_tl)
  note tr = suffix_order.trans
  have prior: "suffix x u" if "suffix x (dropWhile py_isspace (drop 8 u))" for x u
    by (rule tr [OF that tr [OF ws dr(1)]])
  assume "function_prefix s = Some r"
  then show ?thesis
    unfolding function_prefix_def Let_def
    by (auto split: option.splits if_splits intro: tr [OF _ name] tr [OF dr(2)] tr [OF ws] tr [OF dr(1)] dest!: name prior
        elim: tr)
qed

lemma first_command_in_text: "first_command_start part = Some wt \<Longrightarrow> in_text part wt"
proof -
  assume a: "first_command_start part = Some wt"
  let ?t = "dropWhile py_isspace part"
  show ?thesis
  proof (cases "function_prefix ?t")
    case None
    with a have "scan_words False [] False part = Some wt"
      by (auto simp: first_command_start_def Let_def split: if_splits)
    then show ?thesis by (rule scan_words_in_text)
  next
    case (Some r)
    with a have "scan_words False [] False (dropWhile py_isspace r) = Some wt"
      by (auto simp: first_command_start_def Let_def split: if_splits)
    from scan_words_in_text [OF this] show ?thesis
      using function_prefix_suffix [OF Some] suffix_dropWhile suffix_order.trans in_text_suffix by metis
  qed
qed

lemma bodies_from_sub: "b \<in> set (bodies_from q s) \<Longrightarrow> sublist b s"
proof (induction q s rule: bodies_from.induct)
  case (2 q c s)
  have dr: "sublist b (c # s)" if "sublist b (drop n s)" for n
    by (rule sub_Cons, rule sub_trans [OF that], rule sublist_drop)
  have tk: "sublist (take k (drop n s)) (c # s)" for k n
    by (rule sub_Cons, rule sub_trans [OF sublist_take sublist_drop])
  show ?case
  proof (cases "body_step_at q c s")
    case (Advance q' n)
    with 2(1) [OF Advance] 2(3) dr show ?thesis by simp
  next
    case (Body k)
    with 2(3) have "b = take (k - 1) (drop 1 s) \<or> b \<in> set (bodies_from q (drop (Suc k) s))" by simp
    with 2(2) [OF Body] dr [of "Suc k"] tk [of "k - 1" 1] show ?thesis by blast
  next
    case Unclosed
    with 2(3) show ?thesis by simp
  qed
qed simp

text \<open>No command is invented: every command word the scan reports, at any depth of substitution, stands
  character for character inside its tail, and the tail stands inside the text.\<close>

theorem commands_stand_in_text:
  "list_all (\<lambda>(w, t). sublist w t \<and> sublist t body) (command_starts recurse depth body)"
proof (induction depth arbitrary: body)
  have here: "in_text body wt" if "part \<in> set (split_shell_commands (strip_case_label body))"
    "piece \<in> set (split_case_arms (strip_case_label part))" "first_command_start piece = Some wt"
    for body part piece wt
  proof -
    have "sublist part body"
      using split_from_parts [of part None 0 "[]"] that(1) sub_suffix [OF strip_case_label_suffix]
      by (simp add: split_shell_commands_def)
    moreover have "sublist piece part"
      using arms_from_parts [of piece None 0 "[]"] that(2) sub_suffix [OF strip_case_label_suffix]
      by (simp add: split_case_arms_def)
    ultimately show ?thesis using first_command_in_text [OF that(3)] in_text_sub by blast
  qed
  {
    case 0
    show ?case using here [where body = body]
      by (auto simp: command_starts.simps list_all_iff List.map_filter_def in_text_def)
  next
    case (Suc d)
    have deeper: "in_text body wt" if "b \<in> set (substitution_bodies body)" "wt \<in> set (command_starts recurse d b)" for b wt
    proof -
      have "in_text b wt" using Suc.IH [of b] that(2) by (auto simp: list_all_iff in_text_def)
      moreover have "sublist b body" using bodies_from_sub that(1) by (simp add: substitution_bodies_def)
      ultimately show ?thesis using in_text_sub by blast
    qed
    show ?case using here [where body = body] deeper
      by (auto simp: command_starts.simps [of recurse "Suc d"] list_all_iff List.map_filter_def in_text_def)
  }
qed

end
