(* ===== verification/Clamp.thy ===== *)
theory Clamp
  imports Joining Diff_Doc
begin

text \<open>
  The input bounds of the rule engine and its line filters (\<^verbatim>\<open>rules/_clamp.py\<close>): cutting a diff and its
  lines, what counts as a message addressed to a reader, and the logical lines that carry content.
\<close>

definition MAX_RULE_LINE_BYTES :: nat where "MAX_RULE_LINE_BYTES = 8192"
definition MAX_SCANNED_LINES :: nat where "MAX_SCANNED_LINES = 20000"

section \<open>Cutting lines\<close>

text \<open>\<^verbatim>\<open>[^\S\n]{2,}\<close> becomes one space: runs of two or more spaces that are no newlines.\<close>

definition run_space :: "char \<Rightarrow> bool" where "run_space c = (py_isspace c \<and> c \<noteq> NL)"

function collapse_runs :: "string \<Rightarrow> string" where
  "collapse_runs [] = []"
| "collapse_runs (c # s) =
     (if run_space c \<and> s \<noteq> [] \<and> run_space (hd s) then SPC # collapse_runs (dropWhile run_space s)
      else c # collapse_runs s)"
  by pat_completeness auto
termination by (relation "measure length") (auto simp: le_imp_less_Suc length_dropWhile_le)

definition cut_line :: "nat \<Rightarrow> string \<Rightarrow> string" where
  "cut_line bound l =
     (if length l \<le> bound then l
      else (let t = collapse_runs l in if length t \<le> bound then t else take bound t))"

definition clamp :: "string \<Rightarrow> string" where "clamp l = cut_line MAX_RULE_LINE_BYTES l"

definition clamp_text :: "string option \<Rightarrow> string option" where
  "clamp_text t =
     (case t of
        None \<Rightarrow> None
      | Some s \<Rightarrow>
          Some (if length s \<le> MAX_RULE_LINE_BYTES then s
                else py_join [NL] (map clamp (py_split NL s))))"

definition bound_tokenizer_lines :: "string \<Rightarrow> string" where
  "bound_tokenizer_lines s =
     (let ls = py_split NL s in
      if s = [] \<or> \<not> list_ex (\<lambda>l. length l > MAX_TOKENIZER_LINE) ls then s
      else py_join [NL] (map (cut_line MAX_TOKENIZER_LINE) ls))"

section \<open>Cutting a diff\<close>

definition content_line :: "string \<Rightarrow> bool" where
  "content_line l =
     (let body = (if l \<noteq> [] \<and> hd l \<in> set ''+- '' then tl l else l); stripped = py_strip body in
      stripped \<noteq> [] \<and> \<not> py_startswith stripped ''#'')"

text \<open>The lines kept: up to the content limit, or twice the limit in all.\<close>

fun kept_lines :: "nat \<Rightarrow> nat \<Rightarrow> string list \<Rightarrow> string list" where
  "kept_lines content n [] = []"
| "kept_lines content n (l # ls) =
     (let c = (if content_line l then Suc content else content) in
      l # (if c \<ge> MAX_SCANNED_LINES \<or> Suc n \<ge> 2 * MAX_SCANNED_LINES then [] else kept_lines c (Suc n) ls))"

definition clamp_diff_lines :: "string \<Rightarrow> string \<times> bool" where
  "clamp_diff_lines diff_text =
     (let ls = py_split NL diff_text; kept = kept_lines 0 0 ls in
      if length ls \<le> MAX_SCANNED_LINES then (diff_text, False)
      else if length kept = length ls then (diff_text, False)
      else (py_join [NL] kept, True))"

section \<open>Filters\<close>

definition after_plus :: "string \<Rightarrow> string" where
  "after_plus l = dropWhile py_isspace (if l \<noteq> [] \<and> hd l = CHR ''+'' then tl l else l)"

text \<open>One of some words, and what follows it.\<close>

definition after_words :: "string list \<Rightarrow> string \<Rightarrow> string list" where
  "after_words ws s = List.map_filter (\<lambda>w. if py_startswith s w then Some (drop (length w) s) else None) ws"

definition DEP_WORDS :: "string list" where
  "DEP_WORDS = [''depends'', ''makedepends'', ''optdepends'', ''checkdepends'']"

definition PRINTERS :: "string list" where
  "PRINTERS = [''echo'', ''printf'', ''note'', ''msg'', ''warning'', ''error'', ''info'']"

definition dep_opener :: "string \<Rightarrow> bool" where
  "dep_opener s = list_ex (\<lambda>r. let t = dropWhile py_isspace r in
     py_startswith t ''='' \<and> py_startswith (dropWhile py_isspace (tl t)) ''('') (after_words DEP_WORDS s)"

definition comment_or_dep :: "string \<Rightarrow> bool" where
  "comment_or_dep l = (py_startswith (after_plus l) ''#'' \<or> dep_opener (after_plus l))"

definition message_line :: "string \<Rightarrow> bool" where
  "message_line l = list_ex (\<lambda>r. r \<noteq> [] \<and> py_isspace (hd r) \<and>
     (let t = dropWhile py_isspace r in t \<noteq> [] \<and> (hd t = DQ \<or> hd t = SQ))) (after_words PRINTERS (after_plus l))"

definition filter_raw_lines :: "string list \<Rightarrow> (nat \<times> string) list" where
  "filter_raw_lines ls =
     map (\<lambda>(i, l). (i, clamp l)) (filter (\<lambda>(i, l). \<not> comment_or_dep l) (enumerate 0 ls))"

text \<open>A substitution opens here.\<close>

definition dollar_paren :: "char \<Rightarrow> string \<Rightarrow> bool" where
  "dollar_paren c s = (c = CHR ''$'' \<and> s \<noteq> [] \<and> hd s = CHR ''('')"

function command_chain :: "char option \<Rightarrow> string \<Rightarrow> bool" where
  "command_chain q [] = False"
| "command_chain q (c # s) =
     (if q = Some SQ then command_chain (if c = SQ then None else q) s
      else if c = BSL then command_chain q (tl s)
      else if q = Some DQ then
        (if c = DQ then command_chain None s
         else if c = BTK \<or> dollar_paren c s then True else command_chain q s)
      else if c = DQ \<or> c = SQ then command_chain (Some c) s
      else if c \<in> set '';&|'' \<or> c = BTK \<or> dollar_paren c s then True
      else command_chain q s)"
  by pat_completeness auto
termination by (relation "measure (\<lambda>(q, s). length s)") (auto simp: le_imp_less_Suc)

definition has_unquoted_command_chain :: "string \<Rightarrow> bool" where
  "has_unquoted_command_chain l = command_chain None l"

fun redirect_after :: "char option \<Rightarrow> string \<Rightarrow> bool" where
  "redirect_after q [] = False"
| "redirect_after q (c # s) =
     (if q \<noteq> None then redirect_after (if q = Some c then None else q) s
      else if c = DQ \<or> c = SQ then redirect_after (Some c) s
      else c = CHR ''>'' \<or> redirect_after None s)"

definition has_unquoted_redirect :: "string \<Rightarrow> bool" where
  "has_unquoted_redirect l = redirect_after None l"

definition is_message_line :: "string \<Rightarrow> bool" where
  "is_message_line l =
     (message_line l \<and> \<not> has_unquoted_command_chain l \<and> \<not> has_unquoted_redirect l)"

text \<open>The quote a line leaves open, given the one it starts in; a comment ends the reading.\<close>

function open_after :: "char option \<Rightarrow> char option \<Rightarrow> string \<Rightarrow> char option" where
  "open_after prev q [] = q"
| "open_after prev q (c # s) =
     (if q = Some SQ then open_after (Some c) (if c = SQ then None else q) s
      else if q = Some DQ then
        (if c = BSL then (if s = [] then q else open_after (Some (hd s)) q (tl s))
         else open_after (Some c) (if c = DQ then None else q) s)
      else if c = DQ \<or> c = SQ then open_after (Some c) (Some c) s
      else if c = CHR ''#'' \<and> (prev = None \<or> prev = Some SPC \<or> prev = Some TAB) then q
      else open_after (Some c) q s)"
  by pat_completeness auto
termination by (relation "measure (\<lambda>(prev, q, s). length s)") (auto simp: le_imp_less_Suc)

fun printer_bodies :: "nat \<Rightarrow> char option \<Rightarrow> bool \<Rightarrow> string list \<Rightarrow> nat list" where
  "printer_bodies i q span [] = []"
| "printer_bodies i q span (l # ls) =
     (let span' = (if q = None then message_line l else span);
          q' = open_after None q l in
      (if q \<noteq> None \<and> span' \<and> \<not> redirect_after q l then [i] else []) @
      printer_bodies (Suc i) q' (if q' = None then False else span') ls)"

definition printer_quote_body_indices :: "string list \<Rightarrow> nat list" where
  "printer_quote_body_indices ls = printer_bodies 0 None False ls"

section \<open>Logical lines with content\<close>

definition raw_diff_lines_indexed :: "string \<Rightarrow> string list \<times> nat list" where
  "raw_diff_lines_indexed diff_text =
     (let kept = filter (\<lambda>(i, l). l \<noteq> [])
            (map (\<lambda>(i, l). (i, py_strip l)) (join_logical (split_lines diff_text))) in
      (map snd kept, map fst kept))"

definition raw_diff_lines :: "string \<Rightarrow> string list" where
  "raw_diff_lines diff_text = fst (raw_diff_lines_indexed diff_text)"

section \<open>What the bounds keep\<close>

lemma cut_line_length: "length (cut_line bound l) \<le> bound"
  by (auto simp: cut_line_def Let_def)

lemma cut_line_short: "length l \<le> bound \<Longrightarrow> cut_line bound l = l"
  by (simp add: cut_line_def)

lemma collapse_runs_chars: "set (collapse_runs l) \<subseteq> insert SPC (set l)"
  by (induction l rule: collapse_runs.induct) (auto dest: set_dropWhileD)

lemma cut_line_no_newline: "NL \<notin> set l \<Longrightarrow> NL \<notin> set (cut_line bound l)"
  using collapse_runs_chars [of l] by (auto simp: cut_line_def Let_def dest: in_set_takeD)

text \<open>Cutting leaves the visible characters in order; only what does not fit is lost.\<close>

lemma collapse_runs_visible: "filter (\<lambda>c. \<not> run_space c) (collapse_runs l) = filter (\<lambda>c. \<not> run_space c) l"
proof (induction l rule: collapse_runs.induct)
  case (2 c s)
  have "filter (\<lambda>c. \<not> run_space c) (dropWhile run_space s) = filter (\<lambda>c. \<not> run_space c) s"
    by (induction s) auto
  moreover have "run_space SPC" by (simp add: run_space_def py_isspace_def)
  ultimately show ?case using 2 by auto
qed simp

lemma map_cut_lines: "py_split NL (py_join [NL] (map (cut_line b) (py_split NL s))) = map (cut_line b) (py_split NL s)"
proof (rule py_split_join)
  show "map (cut_line b) (py_split NL s) \<noteq> []" by simp
  show "\<forall>l \<in> set (map (cut_line b) (py_split NL s)). NL \<notin> set l"
    using cut_line_no_newline py_split_parts by fastforce
qed

lemma short_lines: "length s \<le> b \<Longrightarrow> map (cut_line b) (py_split NL s) = py_split NL s"
proof -
  assume "length s \<le> b"
  moreover have "length l \<le> length s" if "l \<in> set (py_split NL s)" for l
  proof -
    have "length p \<le> length (py_join [c] ps)" if "p \<in> set ps" for p c and ps :: "string list"
      using that by (induction "[c]" ps rule: py_join.induct) auto
    from this [OF that, of NL] show ?thesis by (simp add: py_join_split)
  qed
  ultimately show ?thesis by (intro map_idI) (auto intro!: cut_line_short dest: order_trans)
qed

text \<open>Clamping a text for the rules keeps its lines: there are as many as before, each is at most 8192
  characters long and is the line itself where that was no longer, and a cut line whose visible
  characters fit keeps them all, in order.\<close>

theorem clamp_keeps_lines:
  "case clamp_text (Some s) of
     None \<Rightarrow> False
   | Some t \<Rightarrow>
       list_all2 (\<lambda>l c. length c \<le> 8192 \<and>
           (if length l \<le> 8192 then c = l
            else if length (collapse_runs l) \<le> 8192
            then filter (\<lambda>x. \<not> run_space x) c = filter (\<lambda>x. \<not> run_space x) l
            else length c = 8192))
         (py_split NL s) (py_split NL t)"
proof -
  have "py_split NL (if length s \<le> MAX_RULE_LINE_BYTES then s else py_join [NL] (map clamp (py_split NL s))) =
      map (cut_line MAX_RULE_LINE_BYTES) (py_split NL s)"
    using short_lines [of s MAX_RULE_LINE_BYTES] map_cut_lines [of MAX_RULE_LINE_BYTES s]
    by (simp add: clamp_def [abs_def])
  moreover have "length (cut_line 8192 l) \<le> 8192 \<and>
      (if length l \<le> 8192 then cut_line 8192 l = l
       else if length (collapse_runs l) \<le> 8192
       then filter (\<lambda>x. \<not> run_space x) (cut_line 8192 l) = filter (\<lambda>x. \<not> run_space x) l
       else length (cut_line 8192 l) = 8192)" for l
    using cut_line_length [of 8192 l] by (simp add: cut_line_def Let_def collapse_runs_visible)
  ultimately show ?thesis
    by (simp add: clamp_text_def MAX_RULE_LINE_BYTES_def list_all2_map2 list.rel_refl)
qed

definition contents :: "string list \<Rightarrow> nat" where "contents ls = length (filter content_line ls)"

lemma kept_lines_exact:
  "c < MAX_SCANNED_LINES \<Longrightarrow> n < 2 * MAX_SCANNED_LINES \<Longrightarrow>
     \<exists>k \<le> length ls. kept_lines c n ls = take k ls \<and> n + k \<le> 2 * MAX_SCANNED_LINES \<and>
       c + contents (take k ls) \<le> MAX_SCANNED_LINES \<and>
       (k < length ls \<longrightarrow> n + k = 2 * MAX_SCANNED_LINES \<or> c + contents (take k ls) = MAX_SCANNED_LINES) \<and>
       (ls \<noteq> [] \<longrightarrow> 0 < k)"
proof (induction ls arbitrary: c n)
  case (Cons l ls)
  let ?c = "if content_line l then Suc c else c"
  show ?case
  proof (cases "?c \<ge> MAX_SCANNED_LINES \<or> Suc n \<ge> 2 * MAX_SCANNED_LINES")
    case True
    with Cons.prems show ?thesis
      by (intro exI [of _ 1]) (auto simp: contents_def Let_def split: if_splits)
  next
    case False
    then have "?c < MAX_SCANNED_LINES" "Suc n < 2 * MAX_SCANNED_LINES" by simp_all
    from Cons.IH [OF this] obtain k where k: "k \<le> length ls" "kept_lines ?c (Suc n) ls = take k ls"
      "Suc n + k \<le> 2 * MAX_SCANNED_LINES" "?c + contents (take k ls) \<le> MAX_SCANNED_LINES"
      "k < length ls \<longrightarrow> Suc n + k = 2 * MAX_SCANNED_LINES \<or> ?c + contents (take k ls) = MAX_SCANNED_LINES"
      by auto
    have count: "c + contents (take (Suc k) (l # ls)) = ?c + contents (take k ls)" by (simp add: contents_def)
    have kept: "kept_lines c n (l # ls) = take (Suc k) (l # ls)"
      using k(2) False unfolding kept_lines.simps(2) Let_def if_not_P [OF False] by simp
    show ?thesis unfolding kept
      using k(1,3,4,5) count by (intro exI [of _ "Suc k"] conjI) simp_all
  qed
qed (simp add: contents_def)

text \<open>Cutting a diff is honest: what is not reported as cut is the diff unchanged, of at most 40000
  lines; what is reported as cut is a proper, nonempty run of its first lines, which stops exactly at 20000
  lines of content or at 40000 lines in all.\<close>

theorem clamp_diff_exact:
  "case clamp_diff_lines d of (t, was_cut) \<Rightarrow>
     (if was_cut
      then \<exists>k. 0 < k \<and> k < length (py_split NL d) \<and> py_split NL t = take k (py_split NL d) \<and>
        k \<le> 40000 \<and> contents (take k (py_split NL d)) \<le> 20000 \<and>
        (k = 40000 \<or> contents (take k (py_split NL d)) = 20000)
      else t = d \<and> length (py_split NL d) \<le> 40000)"
proof -
  let ?ls = "py_split NL d"
  obtain k where k: "k \<le> length ?ls" "kept_lines 0 0 ?ls = take k ?ls" "k \<le> 40000"
    "contents (take k ?ls) \<le> 20000" "k < length ?ls \<longrightarrow> k = 40000 \<or> contents (take k ?ls) = 20000" "0 < k"
    using kept_lines_exact [of 0 0 ?ls] by (auto simp: MAX_SCANNED_LINES_def)
  have joined: "py_split NL (py_join [NL] (take k ?ls)) = take k ?ls"
  proof (rule py_split_join)
    show "take k ?ls \<noteq> []" using k(6) by simp
    show "\<forall>l \<in> set (take k ?ls). NL \<notin> set l" using py_split_parts in_set_takeD by metis
  qed
  consider (few) "length ?ls \<le> MAX_SCANNED_LINES" | (all) "\<not> length ?ls \<le> MAX_SCANNED_LINES" "k = length ?ls"
    | (shorter) "\<not> length ?ls \<le> MAX_SCANNED_LINES" "k < length ?ls" using k(1) by linarith
  then show ?thesis
  proof cases
    case few
    then show ?thesis by (simp add: clamp_diff_lines_def MAX_SCANNED_LINES_def)
  next
    case all
    with k show ?thesis by (simp add: clamp_diff_lines_def)
  next
    case shorter
    then have "clamp_diff_lines d = (py_join [NL] (take k ?ls), True)"
      unfolding clamp_diff_lines_def Let_def k(2) by simp
    with shorter k joined show ?thesis by auto
  qed
qed

end
