(* ===== verification/Watch.thy ===== *)
theory Watch
  imports Outbox Meta_Rules
begin

text \<open>
  The always-on watcher: the metadata keys that record its liveness and the health verdict read from them
  (\<^verbatim>\<open>full_aur/watch_state.py\<close>), the interval (\<^verbatim>\<open>full_aur/pipeline.py\<close>) and the loop that runs the cycles
  (\<^verbatim>\<open>full_aur/_pipeline_watch.py\<close>).  The metadata table is a map from keys to stored values; a stored
  moment is the ISO text of whole seconds, which reads back as the moment.  What happens during a cycle is
  an argument: the outcome of the corpus run, the signals, the answers of the sinks, and whether the
  database accepts writes.  The first write, that of the start, is taken to succeed (the code goes on when it
  does not).  Log lines are not kept; the deliveries and the sleeps are.
\<close>

section \<open>Recorded liveness\<close>

datatype stored = Stamp int | Text string

type_synonym metadata = "string \<rightharpoonup> stored"

definition LAST_STARTED :: string where "LAST_STARTED = ''watch_last_started''"
definition LAST_SUCCESS :: string where "LAST_SUCCESS = ''watch_last_success''"
definition LAST_FAILURE :: string where "LAST_FAILURE = ''watch_last_failure''"
definition FAILURES :: string where "FAILURES = ''watch_consecutive_failures''"
definition LAST_ERROR :: string where "LAST_ERROR = ''watch_last_error''"
definition INTERVAL :: string where "INTERVAL = ''watch_interval''"

lemmas watch_keys = LAST_STARTED_def LAST_SUCCESS_def LAST_FAILURE_def FAILURES_def LAST_ERROR_def
  INTERVAL_def

definition FAILURE_NOTICE_AFTER :: int where "FAILURE_NOTICE_AFTER = 3"

fun parse_moment :: "stored option \<Rightarrow> int option" where
  "parse_moment (Some (Stamp t)) = Some t"
| "parse_moment _ = None"

text \<open>\<^verbatim>\<open>int(get_metadata(key) or standard)\<close>, and the fallback when the text is no number.\<close>

fun stored_int :: "int \<Rightarrow> int \<Rightarrow> stored option \<Rightarrow> int" where
  "stored_int standard fallback None = standard"
| "stored_int standard fallback (Some (Stamp t)) = fallback"
| "stored_int standard fallback (Some (Text s)) =
     (if s = [] then standard else case int_of_text s of None \<Rightarrow> fallback | Some i \<Rightarrow> i)"

fun stored_string :: "stored option \<Rightarrow> stored" where
  "stored_string None = Text []"
| "stored_string (Some v) = v"

definition record_start :: "int \<Rightarrow> int \<Rightarrow> metadata \<Rightarrow> metadata" where
  "record_start interval now m =
     m(LAST_STARTED \<mapsto> Stamp now, INTERVAL \<mapsto> Text (show_int interval))"

definition record_success :: "int \<Rightarrow> metadata \<Rightarrow> metadata" where
  "record_success now m =
     m(LAST_SUCCESS \<mapsto> Stamp now, FAILURES \<mapsto> Text ''0'', LAST_ERROR \<mapsto> Text [])"

text \<open>A count that does not read as a number starts again at one.\<close>

definition record_failure :: "string \<Rightarrow> int \<Rightarrow> metadata \<Rightarrow> metadata \<times> int" where
  "record_failure err now m =
     (let failures = stored_int 0 0 (m FAILURES) + 1 in
      (m(LAST_FAILURE \<mapsto> Stamp now, FAILURES \<mapsto> Text (show_int failures),
         LAST_ERROR \<mapsto> Text (take 1000 err)), failures))"

definition should_notify_failure :: "int \<Rightarrow> bool" where
  "should_notify_failure failures \<longleftrightarrow> failures \<ge> FAILURE_NOTICE_AFTER"

section \<open>The health verdict\<close>

record health_report =
  h_healthy :: bool
  h_reason :: string
  h_started :: "int option"
  h_success :: "int option"
  h_failure :: "int option"
  h_error :: stored
  h_interval :: int
  h_max_age :: int
  h_failures :: int
  h_outbox :: stats
  h_db_bytes :: nat

text \<open>The reports of a machine that does not watch hold a reason only, and are healthy.\<close>

datatype health_state = NotWatching string | Watching health_report

definition max_age :: "int \<Rightarrow> int" where "max_age interval = max (interval * 2 + 300) 900"

definition no_stats :: stats where
  "no_stats = \<lparr>st_pending = 0, st_parked = 0, st_oldest = 0\<rparr>"

definition health_reasons :: "int \<Rightarrow> int option \<Rightarrow> int \<Rightarrow> int \<Rightarrow> stats \<Rightarrow> string list" where
  "health_reasons now success interval failures outbox =
     (case success of
        None \<Rightarrow> [''no successful cycle recorded'']
      | Some t \<Rightarrow> (if now - t > max_age interval
           then [''last success '' @ show_int (now - t) @ ''s ago, limit '' @ show_int (max_age interval) @ ''s'']
           else []))
     @ (if failures \<ge> FAILURE_NOTICE_AFTER then [show_int failures @ '' consecutive failed cycles''] else [])
     @ (if st_parked outbox \<noteq> 0 then [show_nat (st_parked outbox) @ '' parked alert document(s)''] else [])"

text \<open>
  The database is absent, or a file of some size with its metadata and its outbox; reading the outbox may
  raise, which the verdict reads as an empty outbox.
\<close>

record database =
  d_meta :: metadata
  d_outbox :: "outbox option"
  d_bytes :: nat

definition health :: "int \<Rightarrow> database option \<Rightarrow> health_state" where
  "health now db =
     (case db of
        None \<Rightarrow> NotWatching ''no database''
      | Some d \<Rightarrow>
          (let m = d_meta d; started = parse_moment (m LAST_STARTED);
               success = parse_moment (m LAST_SUCCESS) in
           if started = None \<and> success = None then NotWatching ''not a watcher''
           else
             (let interval = stored_int 3600 3600 (m INTERVAL);
                  failures = stored_int 0 0 (m FAILURES);
                  outbox = (case d_outbox d of None \<Rightarrow> no_stats | Some ob \<Rightarrow> outbox_stats now ob);
                  reasons = health_reasons now success interval failures outbox in
              Watching \<lparr>h_healthy = (reasons = []), h_reason = py_join ''; '' reasons, h_started = started,
                h_success = success, h_failure = parse_moment (m LAST_FAILURE),
                h_error = stored_string (m LAST_ERROR), h_interval = interval, h_max_age = max_age interval,
                h_failures = failures, h_outbox = outbox, h_db_bytes = d_bytes d\<rparr>)))"

fun healthy :: "health_state \<Rightarrow> bool" where
  "healthy (NotWatching r) = True"
| "healthy (Watching h) = h_healthy h"

section \<open>The interval\<close>

text \<open>The configured numbers and the requested one are given as what \<^verbatim>\<open>int(...)\<close> makes of them, if anything.\<close>

definition watch_interval_seconds :: "int option \<Rightarrow> int option \<Rightarrow> int option \<Rightarrow> int" where
  "watch_interval_seconds standard least requested =
     (let least = (case least of None \<Rightarrow> 60 | Some n \<Rightarrow> n);
          standard = (case standard of None \<Rightarrow> 3600 | Some n \<Rightarrow> n) in
      max least (case requested of None \<Rightarrow> standard | Some n \<Rightarrow> n))"

section \<open>The loop\<close>

text \<open>
  The result of a corpus cycle, as far as the loop reads it; what the run of a cycle does: it raises with
  a text, it is interrupted from the keyboard, or it returns.
\<close>

record cycle_result =
  cr_refused :: bool
  cr_backfilling :: bool
  cr_alerts :: "(string \<times> string) list"

datatype cycle_outcome = Raised string | Interrupted | Returned cycle_result

text \<open>
  One turn of the loop is driven by: the outcome, the moment it is recorded, whether a stop signal
  arrives during the run and during the sleep that follows, whether the database takes the writes,
  whether a snapshot or a cursor exists, and what the sinks answer.
\<close>

record turn =
  tn_outcome :: cycle_outcome
  tn_now :: int
  tn_stop_run :: bool
  tn_stop_sleep :: bool
  tn_writes :: bool
  tn_snapshot :: bool
  tn_alerted :: bool
  tn_beat :: bool

datatype watch_event =
    FailureBeat int string
  | AlertsSent
  | AliveBeat
  | Slept int

record watch =
  w_meta :: metadata
  w_attempts :: nat
  w_results :: "cycle_result list"
  w_stop :: bool
  w_over :: bool
  w_events :: "watch_event list"

definition add_events :: "watch_event list \<Rightarrow> watch \<Rightarrow> watch" where
  "add_events evs w = w\<lparr>w_events := w_events w @ evs\<rparr>"

definition finished :: "watch \<Rightarrow> bool" where
  "finished w \<longleftrightarrow> w_stop w \<or> w_over w"

text \<open>The recording calls of the loop, each in its own \<^verbatim>\<open>try\<close>.\<close>

definition try_success :: "turn \<Rightarrow> watch \<Rightarrow> watch" where
  "try_success tn w =
     (if tn_writes tn then w\<lparr>w_meta := record_success (tn_now tn) (w_meta w)\<rparr> else w)"

definition try_failure :: "turn \<Rightarrow> string \<Rightarrow> watch \<Rightarrow> watch \<times> int" where
  "try_failure tn err w =
     (if tn_writes tn
      then (let (m, failures) = record_failure err (tn_now tn) (w_meta w) in (w\<lparr>w_meta := m\<rparr>, failures))
      else (w, 0))"

definition sleep :: "int \<Rightarrow> turn \<Rightarrow> watch \<Rightarrow> watch" where
  "sleep seconds tn w =
     (if w_stop w then w
      else (add_events [Slept seconds] w)\<lparr>w_stop := tn_stop_sleep tn\<rparr>)"

definition after_raise :: "int \<Rightarrow> nat \<Rightarrow> turn \<Rightarrow> string \<Rightarrow> watch \<Rightarrow> watch" where
  "after_raise delay cycles tn err w =
     (let attempts = w_attempts w + 1;
          (w1, failures) = try_failure tn err (w\<lparr>w_attempts := attempts\<rparr>);
          w2 = (if should_notify_failure failures then add_events [FailureBeat failures err] w1 else w1) in
      if cycles \<noteq> 0 \<and> attempts \<ge> cycles then w2\<lparr>w_over := True\<rparr> else sleep delay tn w2)"

definition after_refusal :: "int \<Rightarrow> turn \<Rightarrow> cycle_result \<Rightarrow> watch \<Rightarrow> watch" where
  "after_refusal delay tn r w =
     (if \<not> tn_snapshot tn
      then (fst (try_failure tn ''no corpus snapshot'' w))\<lparr>w_results := w_results w @ [r], w_over := True\<rparr>
      else sleep delay tn (fst (try_failure tn ''cycle did no work'' w)))"

definition after_work :: "int \<Rightarrow> nat \<Rightarrow> turn \<Rightarrow> cycle_result \<Rightarrow> watch \<Rightarrow> watch" where
  "after_work delay cycles tn r w =
     (let w1 = add_events (if tn_alerted tn then [AlertsSent] else if tn_beat tn then [AliveBeat] else [])
                 (w\<lparr>w_results := w_results w @ [r]\<rparr>) in
      if w_stop w1 then w1\<lparr>w_over := True\<rparr>
      else if cycles \<noteq> 0 \<and> length (w_results w1) \<ge> cycles then w1\<lparr>w_over := True\<rparr>
      else sleep (if cr_backfilling r then 2 else delay) tn w1)"

definition take_turn :: "int \<Rightarrow> nat \<Rightarrow> turn \<Rightarrow> watch \<Rightarrow> watch" where
  "take_turn delay cycles tn w0 =
     (let w = w0\<lparr>w_stop := w_stop w0 \<or> tn_stop_run tn\<rparr> in
      case tn_outcome tn of
        Interrupted \<Rightarrow> w\<lparr>w_stop := True, w_over := True\<rparr>
      | Raised err \<Rightarrow> after_raise delay cycles tn err w
      | Returned r \<Rightarrow>
          (let w1 = (try_success tn w)\<lparr>w_attempts := 0\<rparr> in
           if cr_refused r then after_refusal delay tn r w1 else after_work delay cycles tn r w1))"

text \<open>The loop over the turns to come; a finished watch leaves the rest unused.\<close>

fun watch_loop :: "int \<Rightarrow> nat \<Rightarrow> turn list \<Rightarrow> watch \<Rightarrow> watch" where
  "watch_loop delay cycles [] w = w"
| "watch_loop delay cycles (tn # tns) w =
     (if finished w then w else watch_loop delay cycles tns (take_turn delay cycles tn w))"

definition watch_start :: "int \<Rightarrow> int \<Rightarrow> metadata \<Rightarrow> watch" where
  "watch_start delay now m =
     \<lparr>w_meta = record_start delay now m, w_attempts = 0, w_results = [], w_stop = False,
      w_over = False, w_events = []\<rparr>"

definition run_watch :: "int \<Rightarrow> nat \<Rightarrow> int \<Rightarrow> turn list \<Rightarrow> metadata \<Rightarrow> watch" where
  "run_watch delay cycles now tns m = watch_loop delay cycles tns (watch_start delay now m)"

section \<open>A run with a cycle limit ends\<close>

definition refused :: "turn \<Rightarrow> bool" where
  "refused tn \<longleftrightarrow> (case tn_outcome tn of Returned r \<Rightarrow> cr_refused r | _ \<Rightarrow> False)"

text \<open>The turns still possible: a finished cycle renews the attempts, a failed one uses one up.\<close>

definition turns_left :: "nat \<Rightarrow> watch \<Rightarrow> nat" where
  "turns_left cycles w = (cycles - length (w_results w)) * cycles - w_attempts w"

definition in_limits :: "nat \<Rightarrow> watch \<Rightarrow> bool" where
  "in_limits cycles w \<longleftrightarrow> w_attempts w < cycles \<and> length (w_results w) < cycles"

lemmas turn_defs = take_turn_def after_raise_def after_refusal_def after_work_def try_failure_def
  try_success_def sleep_def add_events_def finished_def

lemma turn_progress:
  assumes "0 < cycles" "in_limits cycles w" "\<not> refused tn"
  shows "finished (take_turn delay cycles tn w)
    \<or> (in_limits cycles (take_turn delay cycles tn w)
       \<and> turns_left cycles (take_turn delay cycles tn w) < turns_left cycles w)"
proof (cases "tn_outcome tn")
  case (Raised err)
  have "w_attempts w < (cycles - length (w_results w)) * cycles"
    using assms(2) by (simp add: in_limits_def) (metis One_nat_def Suc_leI less_le_trans mult.commute mult_le_mono2 nat_mult_1_right zero_less_diff)
  with Raised assms show ?thesis
    by (auto simp: turn_defs Let_def in_limits_def turns_left_def split: prod.splits)
next
  case Interrupted
  then show ?thesis by (simp add: turn_defs)
next
  case (Returned r)
  have less: "(cycles - Suc (length (w_results w))) * cycles < (cycles - length (w_results w)) * cycles - w_attempts w"
  proof -
    have "Suc (cycles - Suc (length (w_results w))) = cycles - length (w_results w)"
      using assms(2) by (simp add: in_limits_def Suc_diff_Suc del: diff_Suc_Suc)
    note this [symmetric]
    moreover have "w_attempts w < cycles" using assms(2) by (simp add: in_limits_def)
    ultimately show ?thesis by simp
  qed
  with Returned assms show ?thesis
    by (auto simp: turn_defs Let_def in_limits_def turns_left_def refused_def)
qed

lemma limits_leave_turns: "in_limits cycles w \<Longrightarrow> 0 < turns_left cycles w"
  by (simp add: in_limits_def turns_left_def)
    (metis One_nat_def Suc_leI less_le_trans mult.commute mult_le_mono2 nat_mult_1_right zero_less_diff)

lemma loop_ends:
  "\<lbrakk>0 < cycles; list_all (\<lambda>tn. \<not> refused tn) tns; finished w \<or> in_limits cycles w \<and> turns_left cycles w \<le> length tns\<rbrakk>
   \<Longrightarrow> finished (watch_loop delay cycles tns w)"
proof (induction tns arbitrary: w)
  case Nil
  then show ?case using limits_leave_turns by fastforce
next
  case (Cons tn tns)
  show ?case
  proof (cases "finished w")
    case False
    with Cons.prems have "in_limits cycles w" "turns_left cycles w \<le> Suc (length tns)" "\<not> refused tn" by auto
    with turn_progress [OF Cons.prems(1), of w tn delay] have
      "finished (take_turn delay cycles tn w) \<or> in_limits cycles (take_turn delay cycles tn w)
        \<and> turns_left cycles (take_turn delay cycles tn w) \<le> length tns" by linarith
    with False Cons.IH Cons.prems show ?thesis by simp
  qed simp
qed

lemma results_in_limit:
  "\<lbrakk>0 < cycles; length (w_results w) \<le> cycles; \<not> finished w \<longrightarrow> length (w_results w) < cycles\<rbrakk>
   \<Longrightarrow> length (w_results (watch_loop delay cycles tns w)) \<le> cycles"
proof (induction tns arbitrary: w)
  case (Cons tn tns)
  show ?case
  proof (cases "finished w")
    case False
    let ?w = "take_turn delay cycles tn w"
    have "length (w_results ?w) \<le> cycles \<and> (\<not> finished ?w \<longrightarrow> length (w_results ?w) < cycles)"
      using False Cons.prems(3)
      by (cases "tn_outcome tn") (auto simp: turn_defs Let_def split: prod.splits)
    with False Cons show ?thesis by simp
  qed (use Cons in simp)
qed simp

text \<open>C35: a watch limited to n cycles in which no cycle is refused has ended after at most n * n turns,
  whatever the cycles, the signals and the sinks do, and it never reports more than n results.
\<close>

theorem watch_ends:
  assumes "0 < cycles" "list_all (\<lambda>tn. \<not> refused tn) tns" "cycles * cycles \<le> length tns"
  shows "finished (run_watch delay cycles now tns m)
    \<and> length (w_results (run_watch delay cycles now tns m)) \<le> cycles"
proof -
  have "in_limits cycles (watch_start delay now m)" "turns_left cycles (watch_start delay now m) = cycles * cycles"
    using assms(1) by (simp_all add: in_limits_def turns_left_def watch_start_def)
  with assms loop_ends [of cycles tns "watch_start delay now m" delay]
    results_in_limit [of cycles "watch_start delay now m" delay tns]
  show ?thesis by (simp add: run_watch_def in_limits_def)
qed

definition some_turn :: "cycle_outcome \<Rightarrow> turn" where
  "some_turn oc = \<lparr>tn_outcome = oc, tn_now = 0, tn_stop_run = False, tn_stop_sleep = False,
     tn_writes = True, tn_snapshot = True, tn_alerted = False, tn_beat = False\<rparr>"

theorem watch_ends_witness:
  "finished (run_watch 60 2 0 (map (\<lambda>i. some_turn (Raised ''timeout'')) [1..<5]) (\<lambda>k. None))
   \<and> length (w_results (run_watch 60 2 0 (map (\<lambda>i. some_turn (Raised ''timeout'')) [1..<5]) (\<lambda>k. None))) \<le> 2"
  by (rule watch_ends) (simp_all add: refused_def some_turn_def list_all_iff)

section \<open>Runs as a step relation\<close>

text \<open>
  The turns taken so far and the state they lead to: a turn is taken while the watch is not finished.
\<close>

inductive watched :: "int \<Rightarrow> nat \<Rightarrow> watch \<Rightarrow> turn list \<Rightarrow> watch \<Rightarrow> bool" for delay cycles w0 where
  begin_watch: "watched delay cycles w0 [] w0"
| one_turn: "\<lbrakk>watched delay cycles w0 tns w; \<not> finished w\<rbrakk>
    \<Longrightarrow> watched delay cycles w0 (tns @ [tn]) (take_turn delay cycles tn w)"

inductive_cases watched_noneE: "watched delay cycles w0 [] w"
inductive_cases watched_snocE: "watched delay cycles w0 (tns @ [tn]) w"

lemma loop_watched:
  "watched delay cycles w0 done_tns w \<Longrightarrow>
   \<exists>now_tns rest. tns = now_tns @ rest \<and> watched delay cycles w0 (done_tns @ now_tns) (watch_loop delay cycles tns w)
     \<and> (rest = [] \<or> finished (watch_loop delay cycles tns w))"
proof (induction tns arbitrary: done_tns w)
  case (Cons tn tns)
  show ?case
  proof (cases "finished w")
    case True
    with Cons.prems show ?thesis by (intro exI [of _ "[]"] exI [of _ "tn # tns"]) simp
  next
    case False
    from Cons.IH [OF one_turn [OF Cons.prems False]] obtain now_tns rest where
      "tns = now_tns @ rest" "watched delay cycles w0 ((done_tns @ [tn]) @ now_tns) (watch_loop delay cycles tns (take_turn delay cycles tn w))"
      "rest = [] \<or> finished (watch_loop delay cycles tns (take_turn delay cycles tn w))" by blast
    with False show ?thesis by (intro exI [of _ "tn # now_tns"] exI [of _ rest]) simp
  qed
qed simp

lemma run_watched:
  assumes "\<not> finished (run_watch delay cycles now tns m)"
  shows "watched delay cycles (watch_start delay now m) tns (run_watch delay cycles now tns m)"
proof -
  from loop_watched [OF begin_watch, of tns delay cycles "watch_start delay now m"] obtain ts rest where
    "tns = [] @ ts @ rest" "watched delay cycles (watch_start delay now m) ([] @ ts) (run_watch delay cycles now tns m)"
    "rest = [] \<or> finished (run_watch delay cycles now tns m)" unfolding run_watch_def by force
  with assms show ?thesis by simp
qed

section \<open>What the record says\<close>

lemma digits_no_space: "list_all is_digit s \<Longrightarrow> list_all (\<lambda>c. \<not> py_isspace c) s"
proof -
  have "\<not> py_isspace c" if "is_digit c" for c using that by (auto simp: is_digit_def py_isspace_def)
  then show "list_all is_digit s \<Longrightarrow> list_all (\<lambda>c. \<not> py_isspace c) s" by (auto simp: list_all_iff)
qed

lemma int_of_digits:
  "\<lbrakk>list_all is_digit s; s \<noteq> []\<rbrakk> \<Longrightarrow> int_of_text s = Some (int (nat_of_digits s))"
  "\<lbrakk>list_all is_digit s; s \<noteq> []\<rbrakk> \<Longrightarrow> int_of_text (CHR ''-'' # s) = Some (- int (nat_of_digits s))"
proof -
  assume d: "list_all is_digit s" "s \<noteq> []"
  then obtain c r where s: "s = c # r" "is_digit c" by (cases s) auto
  then have "c \<noteq> CHR ''-''" "c \<noteq> CHR ''+''" by (auto simp: is_digit_def)
  with d s strip_no_space [OF digits_no_space [OF d(1)]] show "int_of_text s = Some (int (nat_of_digits s))"
    by (simp add: int_of_text_def)
  have "py_strip (CHR ''-'' # s) = CHR ''-'' # s"
    using digits_no_space [OF d(1)] by (intro strip_no_space) (simp add: py_isspace_def)
  with d show "int_of_text (CHR ''-'' # s) = Some (- int (nat_of_digits s))"
    by (simp add: int_of_text_def)
qed

lemma int_of_show_int [simp]: "int_of_text (show_int i) = Some i" "show_int i \<noteq> []"
  using show_nat_digits [of "nat (- i)"] show_nat_digits [of "nat i"]
  by (auto simp: show_int_def int_of_digits nat_of_show_nat)

lemma stored_show [simp]: "stored_int standard fallback (Some (Text (show_int i))) = i"
  by simp

lemma int_of_zero [simp]: "int_of_text ''0'' = Some 0"
proof -
  have "show_int 0 = ''0''" by code_simp
  with int_of_show_int(1) [of 0] show ?thesis by simp
qed

text \<open>
  The count of failures after the given turns, latest first: every cycle that raises adds one, one that
  does work resets it, and a refused cycle leaves one, since it is recorded as a success first.
\<close>

fun failing_streak :: "int \<Rightarrow> turn list \<Rightarrow> int" where
  "failing_streak c0 [] = c0"
| "failing_streak c0 (tn # earlier) =
     (case tn_outcome tn of
        Raised err \<Rightarrow> failing_streak c0 earlier + 1
      | Interrupted \<Rightarrow> failing_streak c0 earlier
      | Returned r \<Rightarrow> (if cr_refused r then 1 else 0))"

fun last_return :: "int option \<Rightarrow> turn list \<Rightarrow> int option" where
  "last_return t0 [] = t0"
| "last_return t0 (tn # earlier) =
     (case tn_outcome tn of Returned r \<Rightarrow> Some (tn_now tn) | _ \<Rightarrow> last_return t0 earlier)"

text \<open>The heartbeats due over the turns, in their order.\<close>

definition beat_of :: "int \<Rightarrow> turn list \<Rightarrow> watch_event list" where
  "beat_of c0 latest_first =
     (case latest_first of
        [] \<Rightarrow> []
      | tn # earlier \<Rightarrow>
          (case tn_outcome tn of
             Raised err \<Rightarrow> (if failing_streak c0 latest_first \<ge> 3 then [FailureBeat (failing_streak c0 latest_first) err] else [])
           | _ \<Rightarrow> []))"

definition beats_due :: "int \<Rightarrow> turn list \<Rightarrow> watch_event list" where
  "beats_due c0 tns = concat (map (\<lambda>i. beat_of c0 (rev (take (Suc i) tns))) [0..<length tns])"

fun is_beat :: "watch_event \<Rightarrow> bool" where
  "is_beat (FailureBeat n err) = True"
| "is_beat _ = False"

lemma beats_due_snoc: "beats_due c0 (tns @ [tn]) = beats_due c0 tns @ beat_of c0 (tn # rev tns)"
proof -
  have "map (\<lambda>i. beat_of c0 (rev (take (Suc i) (tns @ [tn])))) [0..<length tns]
      = map (\<lambda>i. beat_of c0 (rev (take (Suc i) tns))) [0..<length tns]"
    by (intro map_cong) simp_all
  then have "concat (map (\<lambda>i. beat_of c0 (rev (take (Suc i) (tns @ [tn])))) [0..<length tns]) = beats_due c0 tns"
    unfolding beats_due_def by (rule arg_cong)
  then show ?thesis by (simp add: beats_due_def del: take_append)
qed

definition accounts :: "int \<Rightarrow> metadata \<Rightarrow> turn list \<Rightarrow> watch \<Rightarrow> bool" where
  "accounts delay m tns w \<longleftrightarrow>
     stored_int 0 0 (w_meta w FAILURES) = failing_streak (stored_int 0 0 (m FAILURES)) (rev tns)
     \<and> parse_moment (w_meta w LAST_SUCCESS) = last_return (parse_moment (m LAST_SUCCESS)) (rev tns)
     \<and> stored_int 3600 3600 (w_meta w INTERVAL) = delay
     \<and> parse_moment (w_meta w LAST_STARTED) \<noteq> None
     \<and> filter is_beat (w_events w) = beats_due (stored_int 0 0 (m FAILURES)) tns"

lemma watch_accounts:
  "watched delay cycles (watch_start delay now m) tns w \<Longrightarrow> list_all tn_writes tns
   \<Longrightarrow> accounts delay m tns w"
proof (induction rule: watched.induct)
  case begin_watch
  show ?case
    by (simp add: accounts_def watch_start_def record_start_def watch_keys beats_due_def)
next
  case (one_turn tns w tn)
  then have w: "accounts delay m tns w" "tn_writes tn" by simp_all
  show ?case
  proof (cases "tn_outcome tn")
    case (Raised err)
    with w show ?thesis
      by (simp add: accounts_def turn_defs record_failure_def watch_keys Let_def beats_due_snoc beat_of_def
          should_notify_failure_def FAILURE_NOTICE_AFTER_def)
  next
    case Interrupted
    with w show ?thesis by (simp add: accounts_def turn_defs watch_keys beats_due_snoc beat_of_def)
  next
    case (Returned r)
    with w show ?thesis
      by (simp add: accounts_def turn_defs record_failure_def record_success_def watch_keys Let_def
          beats_due_snoc beat_of_def)
  qed
qed

lemma loop_runs_on:
  "\<lbrakk>\<And>tn w. \<lbrakk>tn \<in> set tns; \<not> finished w\<rbrakk> \<Longrightarrow> \<not> finished (take_turn delay cycles tn w); \<not> finished w\<rbrakk>
   \<Longrightarrow> \<not> finished (watch_loop delay cycles tns w)"
  by (induction tns arbitrary: w) simp_all

lemma start_unfinished: "\<not> finished (watch_start delay now m)"
  by (simp add: watch_start_def finished_def)

lemma raise_runs_on:
  "\<lbrakk>tn_outcome tn = Raised err; \<not> tn_stop_run tn; \<not> tn_stop_sleep tn; \<not> finished w\<rbrakk>
   \<Longrightarrow> \<not> finished (take_turn delay 0 tn w)"
  by (auto simp: turn_defs Let_def split_def)

lemma no_reasons:
  "health_reasons now success interval failures outbox = []
   \<longleftrightarrow> (case success of None \<Rightarrow> False | Some t \<Rightarrow> now - t \<le> max_age interval)
     \<and> failures < 3 \<and> st_parked outbox = 0"
  by (auto simp: health_reasons_def FAILURE_NOTICE_AFTER_def split: option.splits)

lemma parked_none: "st_parked (outbox_stats now ob) = 0 \<longleftrightarrow> list_all (\<lambda>r. r_parked r = None) (ob_rows ob)"
  by (simp add: outbox_stats_def Let_def filter_empty_conv list_all_iff)

lemma healthy_accounts:
  assumes "accounts delay m tns w"
  shows "healthy (health now (Some \<lparr>d_meta = w_meta w, d_outbox = outbox, d_bytes = bytes\<rparr>))
    \<longleftrightarrow> (case last_return (parse_moment (m LAST_SUCCESS)) (rev tns) of
          None \<Rightarrow> False | Some t \<Rightarrow> now - t \<le> max (2 * delay + 300) 900)
      \<and> failing_streak (stored_int 0 0 (m FAILURES)) (rev tns) < 3
      \<and> (case outbox of None \<Rightarrow> True | Some ob \<Rightarrow> list_all (\<lambda>r. r_parked r = None) (ob_rows ob))"
proof -
  have "parse_moment (w_meta w LAST_STARTED) \<noteq> None" using assms by (simp add: accounts_def)
  with assms show ?thesis
    by (simp add: health_def Let_def no_reasons accounts_def)
      (cases outbox; simp add: no_stats_def parked_none max_age_def mult.commute cong: option.case_cong)
qed

text \<open>C31: after any run of turns whose records are written, the failure heartbeats sent are exactly those due,
  one for each raising cycle that makes the count of failures three or more, and the health verdict is
  healthy exactly when a cycle has returned within twice the interval and five minutes (at least fifteen
  minutes), the count is below three, and no document is parked.
\<close>

theorem health_of_run:
  assumes "watched delay cycles (watch_start delay started m) tns w" "list_all tn_writes tns"
  shows "filter is_beat (w_events w) = beats_due (stored_int 0 0 (m FAILURES)) tns
    \<and> (healthy (health now (Some \<lparr>d_meta = w_meta w, d_outbox = outbox, d_bytes = bytes\<rparr>))
    \<longleftrightarrow> (case last_return (parse_moment (m LAST_SUCCESS)) (rev tns) of
          None \<Rightarrow> False | Some t \<Rightarrow> now - t \<le> max (2 * delay + 300) 900)
      \<and> failing_streak (stored_int 0 0 (m FAILURES)) (rev tns) < 3
      \<and> (case outbox of None \<Rightarrow> True | Some ob \<Rightarrow> list_all (\<lambda>r. r_parked r = None) (ob_rows ob)))"
  using watch_accounts [OF assms] healthy_accounts [OF watch_accounts [OF assms], of now outbox bytes]
  by (simp_all add: accounts_def)

theorem health_of_run_witness:
  "\<forall>e. \<not> healthy (health 10 (Some \<lparr>d_meta = w_meta (run_watch 60 0 0 [some_turn (Raised e), some_turn (Raised e), some_turn (Raised e)] (\<lambda>k. None)),
     d_outbox = None, d_bytes = 0\<rparr>))"
proof
  fix e
  let ?ts = "[some_turn (Raised e), some_turn (Raised e), some_turn (Raised e)]" and ?m = "\<lambda>k. None"
  have "\<not> finished (run_watch 60 0 0 ?ts ?m)"
    unfolding run_watch_def
    by (rule loop_runs_on [OF raise_runs_on start_unfinished]) (auto simp: some_turn_def)
  from health_of_run [OF run_watched [OF this], of 10 None 0] show "\<not> healthy (health 10 (Some \<lparr>d_meta = w_meta (run_watch 60 0 0 ?ts ?m), d_outbox = None, d_bytes = 0\<rparr>))"
    by (simp add: some_turn_def)
qed

section \<open>A watch that never works\<close>

text \<open>A refused cycle with a snapshot, uninterrupted.\<close>

definition idle_turn :: "turn \<Rightarrow> bool" where
  "idle_turn tn \<longleftrightarrow> refused tn \<and> tn_snapshot tn \<and> tn_writes tn \<and> \<not> tn_stop_run tn \<and> \<not> tn_stop_sleep tn"

lemma idle_returned: "idle_turn tn \<Longrightarrow> \<exists>r. tn_outcome tn = Returned r \<and> cr_refused r"
  by (auto simp: idle_turn_def refused_def split: cycle_outcome.splits)

lemma idle_turn_runs_on: "\<lbrakk>idle_turn tn; \<not> finished w\<rbrakk> \<Longrightarrow> \<not> finished (take_turn delay cycles tn w)"
  using idle_returned [of tn] by (auto simp: turn_defs idle_turn_def Let_def split_def)

lemma idle_beats:
  assumes "list_all idle_turn tns"
  shows "beats_due c0 tns = []"
proof -
  have "beat_of c0 (rev (take (Suc i) tns)) = []" if i: "i < length tns" for i
  proof -
    have "idle_turn (tns ! i)" using assms i by (simp add: list_all_length)
    then obtain r where "tn_outcome (tns ! i) = Returned r" using idle_returned by blast
    moreover have "rev (take (Suc i) tns) = tns ! i # rev (take i tns)"
      using i by (simp add: take_Suc_conv_app_nth)
    ultimately show ?thesis by (simp add: beat_of_def)
  qed
  then show ?thesis by (auto simp: beats_due_def)
qed

text \<open>a watch whose every cycle is refused never ends, whatever its cycle limit, sends no failure
  heartbeat, and is reported healthy, since a refused cycle is recorded as a success before it is
  recorded as a failure.
\<close>

theorem refused_watch_reads_healthy:
  assumes "list_all idle_turn tns" "tns \<noteq> []" "now - tn_now (last tns) \<le> 900"
  shows "\<not> finished (run_watch delay cycles started tns m)
    \<and> filter is_beat (w_events (run_watch delay cycles started tns m)) = []
    \<and> healthy (health now (Some \<lparr>d_meta = w_meta (run_watch delay cycles started tns m),
         d_outbox = Some \<lparr>ob_rows = [], ob_next = n\<rparr>, d_bytes = bytes\<rparr>))"
proof -
  let ?w = "run_watch delay cycles started tns m"
  have on: "\<not> finished ?w" unfolding run_watch_def
    by (rule loop_runs_on [OF idle_turn_runs_on start_unfinished]) (use assms(1) in \<open>auto simp: list_all_iff\<close>)
  have "list_all tn_writes tns" using assms(1) by (auto simp: list_all_iff idle_turn_def)
  from watch_accounts [OF run_watched [OF on] this] have acc: "accounts delay m tns ?w" .
  have latest: "rev tns = last tns # rev (butlast tns)"
    using assms(2) by (metis append_butlast_last_id rev_eq_Cons_iff rev_rev_ident)
  obtain r where "tn_outcome (last tns) = Returned r" "cr_refused r"
    using idle_returned assms(1,2) by (metis last_in_set list_all_iff)
  then have "last_return t0 (rev tns) = Some (tn_now (last tns))" "failing_streak c0 (rev tns) = 1" for t0 c0
    unfolding latest by simp_all
  with on acc assms(3) idle_beats [OF assms(1)] show ?thesis
    by (simp add: healthy_accounts) (simp add: accounts_def)
qed

theorem refused_watch_reads_healthy_witness:
  "healthy (health 100 (Some \<lparr>d_meta = w_meta (run_watch 60 2 0
       (replicate 5 (some_turn (Returned \<lparr>cr_refused = True, cr_backfilling = False, cr_alerts = []\<rparr>))) (\<lambda>k. None)),
     d_outbox = Some \<lparr>ob_rows = [], ob_next = 1\<rparr>, d_bytes = 0\<rparr>))"
  using refused_watch_reads_healthy [of "replicate 5 (some_turn (Returned \<lparr>cr_refused = True, cr_backfilling = False, cr_alerts = []\<rparr>))"
      100 60 2 0 "\<lambda>k. None" 1 0]
  by (simp add: list_all_iff idle_turn_def refused_def some_turn_def)

end
