(* ===== verification/Novelty.thy ===== *)
theory Novelty
  imports Score_Schema
begin

text \<open>
  First-seen facts (\<^verbatim>\<open>novelty.py\<close>, \<^verbatim>\<open>canonical_host\<close> of \<^verbatim>\<open>buckets.py\<close>): the version-stable spelling of a
  URL, the tables of URLs and maintainers seen so far, and the novelty context of one analysis.  The
  salted digest of a maintainer and the digest of a source array are parameters; a package id is a number,
  0 that of the imported seed.
\<close>

section \<open>One spelling of a host\<close>

text \<open>\<^verbatim>\<open>s.rsplit(c, 1)[1]\<close>, where \<open>c\<close> occurs.\<close>

definition after_last :: "char \<Rightarrow> string \<Rightarrow> string" where
  "after_last c s = rev (takeWhile (\<lambda>x. x \<noteq> c) (rev s))"

definition before_first :: "char \<Rightarrow> string \<Rightarrow> string" where
  "before_first c s = takeWhile (\<lambda>x. x \<noteq> c) s"

definition canonical_host :: "string \<Rightarrow> string" where
  "canonical_host netloc =
     (let host = (if CHR ''@'' \<in> set netloc then after_last CHR ''@'' netloc else netloc);
          bare = (if py_startswith host ''['' then
              (case py_find host '']'' of None \<Rightarrow> host
               | Some i \<Rightarrow> take (Suc i) host @ before_first CHR '':'' (drop (Suc i) host))
            else if CHR '':'' \<in> set host then
              (let name = before_first CHR '':'' host; port = drop (Suc (length name)) host in
               if port \<in> {[], ''80'', ''443''} then name else name @ '':'' @ port)
            else host)
      in py_lower (py_rstrip_of (\<lambda>c. c = CHR ''.'') bare))"

definition is_ascii_letter :: "char \<Rightarrow> bool" where
  "is_ascii_letter c = (let n = (of_char c :: nat) in 65 \<le> n \<and> n \<le> 90 \<or> 97 \<le> n \<and> n \<le> 122)"

text \<open>\<^verbatim>\<open>_URL_HOST_RE\<close>: the scheme with its \<^verbatim>\<open>://\<close>, the host part and the rest.\<close>

definition split_url :: "string \<Rightarrow> (string \<times> string \<times> string) option" where
  "split_url url =
     (case url of [] \<Rightarrow> None
      | c # cs \<Rightarrow>
          (let name = takeWhile (\<lambda>x. is_word x \<or> x \<in> set ''+.-'') cs; rest = drop (length name) cs in
           if is_ascii_letter c \<and> py_startswith rest ''://''
           then (let after = drop 3 rest; host = takeWhile (\<lambda>x. x \<notin> set ''/?#'') after in
                 Some (c # name @ ''://'', host, drop (length host) after))
           else None))"

definition canonicalise_host :: "string \<Rightarrow> string" where
  "canonicalise_host url =
     (case split_url url of None \<Rightarrow> url
      | Some (scheme, host, rest) \<Rightarrow> py_lower scheme @ canonical_host host @ rest)"

section \<open>The version-stable spelling\<close>

text \<open>
  \<^verbatim>\<open>re.sub\<close> for a pattern given by the length it matches at a place, which sees the character before it.
\<close>

function sub_all :: "(char option \<Rightarrow> string \<Rightarrow> nat option) \<Rightarrow> string \<Rightarrow> char option \<Rightarrow> string \<Rightarrow> string" where
  "sub_all m rep prev [] = []"
| "sub_all m rep prev (c # cs) =
     (case m prev (c # cs) of
        Some (Suc n) \<Rightarrow> rep @ sub_all m rep (Some (last (c # take n cs))) (drop n cs)
      | _ \<Rightarrow> c # sub_all m rep (Some c) cs)"
  by pat_completeness auto
termination by (relation "measure (\<lambda>(m, rep, prev, s). length s)") auto

text \<open>\<^verbatim>\<open>\d{1,32}+(?:\.\d{1,32}+){1,8}\<close>: a component never gives digits back.\<close>

definition component :: "string \<Rightarrow> nat" where
  "component s = length (takeWhile is_digit (take 32 s))"

fun components :: "nat \<Rightarrow> string \<Rightarrow> nat \<times> nat" where
  "components (Suc k) (c # s) =
     (if c = CHR ''.'' \<and> component s > 0
      then (let (n, l) = components k (drop (component s) s) in (Suc n, Suc (component s + l)))
      else (0, 0))"
| "components _ _ = (0, 0)"

definition version_at :: "char option \<Rightarrow> string \<Rightarrow> nat option" where
  "version_at prev s =
     (let d = component s; (n, l) = components 8 (drop d s) in
      if d = 0 \<or> n = 0 then None else Some (d + l))"

definition is_hex :: "char \<Rightarrow> bool" where
  "is_hex c \<longleftrightarrow> c \<in> set ''0123456789abcdefABCDEF''"

text \<open>\<^verbatim>\<open>(?<=[./])[a-f0-9]{7,64}(?=[./]|$)\<close>, any case: a whole run of hexadecimal digits.\<close>

definition hash_at :: "char option \<Rightarrow> string \<Rightarrow> nat option" where
  "hash_at prev s =
     (let n = length (takeWhile is_hex s); rest = drop n s in
      if prev \<in> {Some CHR ''.'', Some CHR ''/''} \<and> 7 \<le> n \<and> n \<le> 64
         \<and> (rest = [] \<or> hd rest \<in> set ''./'' \<or> rest = [NL])
      then Some n else None)"

text \<open>\<^verbatim>\<open>\d{4}[-_]\d{2}[-_]\d{2}\<close>.\<close>

definition date_at :: "char option \<Rightarrow> string \<Rightarrow> nat option" where
  "date_at prev s =
     (if 10 \<le> length s \<and> list_all (\<lambda>i. is_digit (s ! i)) [0, 1, 2, 3, 5, 6, 8, 9]
         \<and> s ! 4 \<in> set ''-_'' \<and> s ! 7 \<in> set ''-_'' then Some 10 else None)"

definition normalize_url :: "string \<Rightarrow> string" where
  "normalize_url url =
     (let n = canonicalise_host url;
          n = sub_all version_at ''0'' None n;
          n = sub_all hash_at ''HASH'' None n;
          n = sub_all date_at ''DATE'' None n
      in py_rstrip_of (\<lambda>c. c = CHR ''/'') n)"

section \<open>The tables\<close>

record url_row =
  ur_url :: string
  ur_package :: nat
  ur_uses :: nat

record novelty_db =
  nd_urls :: "url_row list"
  nd_salt :: "string option"
  nd_package_hashes :: "(string \<times> nat) list"
  nd_known_hashes :: "string list"
  nd_plain :: "(string \<times> nat) list"
  nd_arrays :: "(string \<times> string \<times> string) list"

definition seen_by :: "nat \<Rightarrow> string \<Rightarrow> novelty_db \<Rightarrow> bool" where
  "seen_by pkg nurl db \<longleftrightarrow> list_ex (\<lambda>r. ur_url r = nurl \<and> ur_package r = pkg) (nd_urls db)"

definition seen_at_all :: "string \<Rightarrow> novelty_db \<Rightarrow> bool" where
  "seen_at_all nurl db \<longleftrightarrow> list_ex (\<lambda>r. ur_url r = nurl) (nd_urls db)"

text \<open>\<^verbatim>\<open>(first_for_package, first_globally)\<close>, and the tables after the call.\<close>

definition check_url_novelty :: "bool \<Rightarrow> string \<Rightarrow> nat \<Rightarrow> novelty_db \<Rightarrow> (bool \<times> bool) \<times> novelty_db" where
  "check_url_novelty keep url pkg db =
     (let nurl = normalize_url url;
          first_package = (\<not> seen_by pkg nurl db \<and> \<not> seen_by 0 nurl db);
          first_global = (\<not> seen_at_all nurl db)
      in ((first_package, first_global),
          if \<not> keep then db
          else if first_global then db\<lparr>nd_urls := nd_urls db @ [\<lparr>ur_url = nurl, ur_package = pkg, ur_uses = 1\<rparr>]\<rparr>
          else db\<lparr>nd_urls := map (\<lambda>r. if ur_url r = nurl then r\<lparr>ur_uses := ur_uses r + 1\<rparr> else r) (nd_urls db)\<rparr>))"

definition check_maintainer_novelty ::
    "(string \<Rightarrow> string \<Rightarrow> string) \<Rightarrow> bool \<Rightarrow> string \<Rightarrow> nat \<Rightarrow> novelty_db \<Rightarrow> bool \<times> novelty_db" where
  "check_maintainer_novelty digest keep name pkg db =
     (if name = [] then (False, db)
      else if nd_salt db \<noteq> None \<and> nd_salt db \<noteq> Some [] then
        (let h = digest name (the (nd_salt db)) in
         if (h, pkg) \<in> set (nd_package_hashes db) then (False, db)
         else (h \<notin> set (nd_known_hashes db),
               if keep then db\<lparr>nd_package_hashes := nd_package_hashes db @ [(h, pkg)]\<rparr> else db))
      else if (name, pkg) \<in> set (nd_plain db) then (False, db)
      else (True, if keep then db\<lparr>nd_plain := nd_plain db @ [(name, pkg)]\<rparr> else db))"

definition array_seen_before :: "(string list \<Rightarrow> string) \<Rightarrow> string \<Rightarrow> string \<Rightarrow> string list \<Rightarrow> novelty_db \<Rightarrow> bool" where
  "array_seen_before entries_hash package name entries db \<longleftrightarrow> (package, name, entries_hash entries) \<in> set (nd_arrays db)"

section \<open>The context of an analysis\<close>

definition NOVELTY_EXEMPT :: "string list" where "NOVELTY_EXEMPT = [''official'']"

definition is_unresolved :: "string \<Rightarrow> bool" where
  "is_unresolved url \<longleftrightarrow> list_ex (\<lambda>c. c \<in> set ''${}'') url"

definition exempt :: "string dict option \<Rightarrow> string \<Rightarrow> bool" where
  "exempt buckets url \<longleftrightarrow>
     (case buckets of None \<Rightarrow> False
      | Some b \<Rightarrow> (case map_of b url of None \<Rightarrow> False | Some name \<Rightarrow> name \<in> set NOVELTY_EXEMPT))"

definition note_url :: "bool \<Rightarrow> nat \<Rightarrow> string dict option \<Rightarrow> string \<Rightarrow> novelty_context \<times> novelty_db \<Rightarrow> novelty_context \<times> novelty_db" where
  "note_url keep pkg buckets url = (\<lambda>(ctx, db).
     if is_unresolved url then (ctx, db)
     else (let ((first_pkg, first_global), db1) = check_url_novelty keep url pkg db in
           if exempt buckets url then (ctx, db1)
           else (let c1 = (if first_pkg then
                     ctx\<lparr>url_first_seen_in_this_package := True,
                         url_first_seen_in_this_package_url :=
                           (if url_first_seen_in_this_package_url ctx = [] then url else url_first_seen_in_this_package_url ctx)\<rparr>
                   else ctx);
                   c2 = (if first_global then
                     c1\<lparr>url_first_seen_globally := True,
                        url_first_seen_globally_url :=
                          (if url_first_seen_globally_url c1 = [] then url else url_first_seen_globally_url c1)\<rparr>
                   else c1)
                 in (c2, db1))))"

record novelty_query =
  nq_urls :: "string list"
  nq_package :: nat
  nq_maintainer :: string
  nq_name :: string
  nq_array :: "string list option"
  nq_buckets :: "string dict option"

definition build_novelty_context ::
    "(string \<Rightarrow> string \<Rightarrow> string) \<Rightarrow> (string list \<Rightarrow> string) \<Rightarrow> int \<Rightarrow> bool \<Rightarrow> novelty_query \<Rightarrow> novelty_db
     \<Rightarrow> novelty_context \<times> novelty_db" where
  "build_novelty_context digest entries_hash observations keep q db =
     (let ctx = default_novelty\<lparr>observation_count := observations\<rparr>;
          (ctx, db) = (if nq_maintainer q = [] then (ctx, db)
             else (let (new, db1) = check_maintainer_novelty digest keep (nq_maintainer q) (nq_package q) db in
                   (ctx\<lparr>maintainer_first_seen_for_this_package := new\<rparr>, db1)));
          (ctx, db) = List.fold (note_url keep (nq_package q) (nq_buckets q)) (nq_urls q) (ctx, db)
      in case nq_array q of
           None \<Rightarrow> (ctx, db)
         | Some entries \<Rightarrow>
             (if nq_name q = [] then (ctx, db)
              else (ctx\<lparr>source_array_seen_before :=
                entries \<noteq> [] \<and> array_seen_before entries_hash (nq_name q) ''source'' entries db\<rparr>, db)))"

section \<open>What a recorded analysis leaves\<close>

definition owners :: "novelty_db \<Rightarrow> (string \<times> nat) list" where
  "owners db = map (\<lambda>r. (ur_url r, ur_package r)) (nd_urls db)"

lemma seen_owners:
  "seen_by p n db \<longleftrightarrow> (n, p) \<in> set (owners db)" "seen_at_all n db \<longleftrightarrow> (\<exists>p. (n, p) \<in> set (owners db))"
  by (auto simp: seen_by_def seen_at_all_def owners_def list_ex_iff)

lemma check_owners:
  "owners (snd (check_url_novelty keep url q db)) =
     owners db @ (if keep \<and> \<not> seen_at_all (normalize_url url) db then [(normalize_url url, q)] else [])"
  by (auto simp: check_url_novelty_def Let_def owners_def)

lemma check_seen_by:
  "seen_by p n (snd (check_url_novelty keep url q db)) \<longleftrightarrow>
     seen_by p n db \<or> keep \<and> p = q \<and> n = normalize_url url \<and> \<not> seen_at_all n db"
  by (auto simp: seen_owners(1) check_owners)

lemma check_seen_at_all:
  "seen_at_all n (snd (check_url_novelty keep url q db)) \<longleftrightarrow> seen_at_all n db \<or> keep \<and> n = normalize_url url"
  by (auto simp: seen_owners check_owners)

lemma check_answers:
  "fst (check_url_novelty keep url q db) =
     (\<not> seen_by q (normalize_url url) db \<and> \<not> seen_by 0 (normalize_url url) db, \<not> seen_at_all (normalize_url url) db)"
  by (simp add: check_url_novelty_def Let_def)

lemma check_read_only: "snd (check_url_novelty False url q db) = db"
  by (simp add: check_url_novelty_def Let_def)

text \<open>The steps of the fold over the added URLs, table and flags apart.\<close>

lemma note_url_table:
  "snd (note_url keep pkg buckets url (ctx, db)) =
     (if is_unresolved url then db else snd (check_url_novelty keep url pkg db))"
  by (cases "check_url_novelty keep url pkg db") (auto simp: note_url_def Let_def split: prod.splits)

lemma note_url_flags:
  "url_first_seen_globally (fst (note_url keep pkg buckets url (ctx, db))) \<longleftrightarrow>
     url_first_seen_globally ctx \<or> \<not> is_unresolved url \<and> \<not> exempt buckets url \<and> \<not> seen_at_all (normalize_url url) db"
  "url_first_seen_in_this_package (fst (note_url keep pkg buckets url (ctx, db))) \<longleftrightarrow>
     url_first_seen_in_this_package ctx \<or> \<not> is_unresolved url \<and> \<not> exempt buckets url
       \<and> \<not> seen_by pkg (normalize_url url) db \<and> \<not> seen_by 0 (normalize_url url) db"
  "maintainer_first_seen_for_this_package (fst (note_url keep pkg buckets url (ctx, db))) =
     maintainer_first_seen_for_this_package ctx"
  using check_answers [of keep url pkg db]
  by (cases "check_url_novelty keep url pkg db"; auto simp: note_url_def Let_def)+

lemmas note_facts = note_url_table note_url_flags check_seen_by check_seen_at_all

lemma fold_seen_at_all:
  "seen_at_all n (snd (List.fold (note_url True pkg buckets) urls (ctx, db))) \<longleftrightarrow>
     seen_at_all n db \<or> list_ex (\<lambda>u. \<not> is_unresolved u \<and> n = normalize_url u) urls"
proof (induction urls arbitrary: ctx db)
  case (Cons u us)
  obtain c1 d1 where step: "note_url True pkg buckets u (ctx, db) = (c1, d1)" by fastforce
  with note_url_table [of True pkg buckets u ctx db] have "d1 = (if is_unresolved u then db else snd (check_url_novelty True u pkg db))"
    by simp
  then show ?case using Cons.IH [of c1 d1] by (auto simp: step check_seen_at_all)
qed simp

lemma fold_seen_by:
  "seen_by p n (snd (List.fold (note_url True pkg buckets) urls (ctx, db))) \<longleftrightarrow>
     seen_by p n db \<or> p = pkg \<and> \<not> seen_at_all n db \<and> list_ex (\<lambda>u. \<not> is_unresolved u \<and> n = normalize_url u) urls"
proof (induction urls arbitrary: ctx db)
  case (Cons u us)
  obtain c1 d1 where step: "note_url True pkg buckets u (ctx, db) = (c1, d1)" by fastforce
  with note_url_table [of True pkg buckets u ctx db] have "d1 = (if is_unresolved u then db else snd (check_url_novelty True u pkg db))"
    by simp
  then show ?case using Cons.IH [of c1 d1] by (auto simp: step check_seen_by check_seen_at_all)
qed simp

lemma fold_read_only: "snd (List.fold (note_url False pkg buckets) urls (ctx, db)) = db"
proof (induction urls arbitrary: ctx)
  case (Cons u us)
  obtain c1 d1 where step: "note_url False pkg buckets u (ctx, db) = (c1, d1)" by fastforce
  with note_url_table [of False pkg buckets u ctx db] have "d1 = db" by (simp add: check_read_only)
  with Cons.IH [of c1] show ?case by (simp add: step)
qed simp

text \<open>Once every readable URL has a row, the flags depend on the owners of the rows only.\<close>

lemma fold_flags_known:
  assumes "list_all (\<lambda>u. is_unresolved u \<or> seen_at_all (normalize_url u) db) urls"
  shows "url_first_seen_globally (fst (List.fold (note_url keep pkg buckets) urls (ctx, db))) = url_first_seen_globally ctx
    \<and> maintainer_first_seen_for_this_package (fst (List.fold (note_url keep pkg buckets) urls (ctx, db)))
        = maintainer_first_seen_for_this_package ctx
    \<and> (url_first_seen_in_this_package (fst (List.fold (note_url keep pkg buckets) urls (ctx, db))) \<longleftrightarrow>
         url_first_seen_in_this_package ctx \<or>
         list_ex (\<lambda>u. \<not> is_unresolved u \<and> \<not> exempt buckets u \<and> \<not> seen_by pkg (normalize_url u) db
           \<and> \<not> seen_by 0 (normalize_url u) db) urls)"
  using assms
proof (induction urls arbitrary: ctx db)
  case (Cons u us)
  obtain c1 d1 where step: "note_url keep pkg buckets u (ctx, db) = (c1, d1)" by fastforce
  have d1: "d1 = (if is_unresolved u then db else snd (check_url_novelty keep u pkg db))"
    using note_url_table [of keep pkg buckets u ctx db] step by simp
  have same: "seen_at_all n d1 = seen_at_all n db" "seen_by p n d1 = seen_by p n db" for p n
    using Cons.prems by (auto simp: d1 check_seen_at_all check_seen_by)
  have flags: "url_first_seen_globally c1 = url_first_seen_globally ctx"
      "maintainer_first_seen_for_this_package c1 = maintainer_first_seen_for_this_package ctx"
      "url_first_seen_in_this_package c1 \<longleftrightarrow> url_first_seen_in_this_package ctx \<or> \<not> is_unresolved u
         \<and> \<not> exempt buckets u \<and> \<not> seen_by pkg (normalize_url u) db \<and> \<not> seen_by 0 (normalize_url u) db"
    using note_url_flags [of keep pkg buckets u ctx db] Cons.prems by (auto simp: step)
  have "list_all (\<lambda>u. is_unresolved u \<or> seen_at_all (normalize_url u) d1) us"
    using Cons.prems by (simp add: same)
  from Cons.IH [OF this, of c1] show ?case by (auto simp: step flags same)
qed simp

section \<open>Novelty wears off, for the first package\<close>

definition readable_query :: "novelty_query \<Rightarrow> string list" where
  "readable_query q = filter (\<lambda>u. \<not> is_unresolved u \<and> \<not> exempt (nq_buckets q) u) (nq_urls q)"

text \<open>The stages of a build: the maintainer, the URLs, the array.\<close>

definition after_maintainer ::
    "(string \<Rightarrow> string \<Rightarrow> string) \<Rightarrow> int \<Rightarrow> bool \<Rightarrow> novelty_query \<Rightarrow> novelty_db \<Rightarrow> novelty_context \<times> novelty_db" where
  "after_maintainer digest observations keep q db =
     (let ctx = default_novelty\<lparr>observation_count := observations\<rparr> in
      if nq_maintainer q = [] then (ctx, db)
      else (let (new, db1) = check_maintainer_novelty digest keep (nq_maintainer q) (nq_package q) db in
            (ctx\<lparr>maintainer_first_seen_for_this_package := new\<rparr>, db1)))"

lemma build_stages:
  fixes digest entries_hash observations keep q db
  defines "start \<equiv> after_maintainer digest observations keep q db"
  defines "out \<equiv> List.fold (note_url keep (nq_package q) (nq_buckets q)) (nq_urls q) start"
  defines "res \<equiv> build_novelty_context digest entries_hash observations keep q db"
  shows "snd res = snd out"
    "url_first_seen_globally (fst res) = url_first_seen_globally (fst out)"
    "url_first_seen_in_this_package (fst res) = url_first_seen_in_this_package (fst out)"
    "maintainer_first_seen_for_this_package (fst res) = maintainer_first_seen_for_this_package (fst out)"
  unfolding res_def out_def start_def build_novelty_context_def after_maintainer_def
  by (auto simp: Let_def split: option.splits prod.splits)

lemma maintainer_stage:
  "nd_urls (snd (after_maintainer digest obs keep q db)) = nd_urls db"
  "snd (after_maintainer digest obs False q db) = db"
  "\<not> url_first_seen_globally (fst (after_maintainer digest obs keep q db))"
  "\<not> url_first_seen_in_this_package (fst (after_maintainer digest obs keep q db))"
  by (auto simp: after_maintainer_def check_maintainer_novelty_def default_novelty_def Let_def split: prod.splits)

lemma note_url_keeps_people:
  "\<exists>rows. snd (note_url keep pkg buckets u st) = (snd st)\<lparr>nd_urls := rows\<rparr>"
proof (cases st)
  case (Pair ctx db)
  have "\<exists>rows. db = db\<lparr>nd_urls := rows\<rparr>" by (rule exI [of _ "nd_urls db"]) simp
  then show ?thesis
    using Pair note_url_table [of keep pkg buckets u ctx db] by (auto simp: check_url_novelty_def Let_def)
qed

lemma fold_keeps_people:
  "\<exists>rows. snd (List.fold (note_url keep pkg buckets) urls st) = (snd st)\<lparr>nd_urls := rows\<rparr>"
proof (induction urls arbitrary: st)
  case Nil
  show ?case by (rule exI [of _ "nd_urls (snd st)"]) simp
next
  case (Cons u us)
  obtain rows where "snd (note_url keep pkg buckets u st) = (snd st)\<lparr>nd_urls := rows\<rparr>"
    using note_url_keeps_people by blast
  with Cons.IH [of "note_url keep pkg buckets u st"] show ?case by auto
qed

definition maintainer_known :: "(string \<Rightarrow> string \<Rightarrow> string) \<Rightarrow> novelty_query \<Rightarrow> novelty_db \<Rightarrow> bool" where
  "maintainer_known digest q db \<longleftrightarrow> \<not> fst (check_maintainer_novelty digest False (nq_maintainer q) (nq_package q) db)"

lemma maintainer_recorded:
  "maintainer_known digest q (snd (after_maintainer digest obs True q db))"
  by (auto simp: maintainer_known_def after_maintainer_def check_maintainer_novelty_def Let_def split: prod.splits)

lemma maintainer_known_urls: "maintainer_known digest q (db\<lparr>nd_urls := rows\<rparr>) = maintainer_known digest q db"
  by (simp add: maintainer_known_def check_maintainer_novelty_def Let_def)

lemma maintainer_known_stage:
  "maintainer_known digest q db \<Longrightarrow> \<not> maintainer_first_seen_for_this_package (fst (after_maintainer digest obs keep q db))"
  by (auto simp: maintainer_known_def after_maintainer_def check_maintainer_novelty_def default_novelty_def Let_def
      split: if_splits prod.splits)

text \<open>C32: novelty wears off, except for a second package.  After a recorded analysis the same query finds no
  URL new to the world and no new maintainer; it finds a URL new to its package exactly when some readable,
  scored URL had been seen before only by other packages.  An analysis that is not recorded changes
  nothing.\<close>

theorem novelty_settles:
  "let pkg = nq_package q;
       db1 = snd (build_novelty_context digest entries_hash observations True q db);
       again = fst (build_novelty_context digest entries_hash observations' keep q db1)
   in snd (build_novelty_context digest entries_hash observations False q db) = db
      \<and> \<not> url_first_seen_globally again \<and> \<not> maintainer_first_seen_for_this_package again
      \<and> (url_first_seen_in_this_package again \<longleftrightarrow>
           list_ex (\<lambda>u. seen_at_all (normalize_url u) db \<and> \<not> seen_by pkg (normalize_url u) db
             \<and> \<not> seen_by 0 (normalize_url u) db) (readable_query q))"
proof -
  let ?pkg = "nq_package q" and ?b = "nq_buckets q" and ?us = "nq_urls q"
  let ?s0 = "after_maintainer digest observations True q db"
  obtain c0 d0 where s0: "?s0 = (c0, d0)" by fastforce
  let ?d1 = "snd (List.fold (note_url True ?pkg ?b) ?us ?s0)"
  let ?s1 = "after_maintainer digest observations' keep q ?d1"
  obtain c1 d1 where s1: "?s1 = (c1, d1)" by fastforce
  have "nd_urls d0 = nd_urls db" using maintainer_stage(1) [of digest observations True q db] s0 by simp
  then have start: "seen_at_all n d0 = seen_at_all n db" "seen_by p n d0 = seen_by p n db" for p n
    by (simp_all add: seen_at_all_def seen_by_def)
  have "nd_urls d1 = nd_urls ?d1" using maintainer_stage(1) [of digest observations' keep q ?d1] s1 by simp
  then have d1: "seen_at_all n d1 \<longleftrightarrow> seen_at_all n db \<or> list_ex (\<lambda>u. \<not> is_unresolved u \<and> n = normalize_url u) ?us"
      "seen_by p n d1 \<longleftrightarrow> seen_by p n db \<or> p = ?pkg \<and> \<not> seen_at_all n db
         \<and> list_ex (\<lambda>u. \<not> is_unresolved u \<and> n = normalize_url u) ?us" for p n
    using fold_seen_at_all [of n ?pkg ?b ?us c0 d0] fold_seen_by [of p n ?pkg ?b ?us c0 d0] start
    by (simp_all add: seen_at_all_def seen_by_def s0)
  have all: "list_all (\<lambda>u. is_unresolved u \<or> seen_at_all (normalize_url u) d1) ?us"
    by (auto simp: list_all_iff list_ex_iff d1)
  obtain rows where "?d1 = (snd ?s0)\<lparr>nd_urls := rows\<rparr>" using fold_keeps_people by blast
  then have known: "maintainer_known digest q ?d1"
    using maintainer_recorded [of digest q observations db] by (simp add: maintainer_known_urls)
  have fresh: "\<not> url_first_seen_globally c1" "\<not> url_first_seen_in_this_package c1" "\<not> maintainer_first_seen_for_this_package c1"
    using maintainer_stage(3,4) [of digest observations' keep q ?d1] maintainer_known_stage [OF known, of observations' keep] s1
    by simp_all
  have seen: "seen_by p n db \<Longrightarrow> seen_at_all n db" for p n by (auto simp: seen_owners)
  have ex: "list_ex (\<lambda>u. \<not> is_unresolved u \<and> \<not> exempt ?b u \<and> \<not> seen_by ?pkg (normalize_url u) d1 \<and> \<not> seen_by 0 (normalize_url u) d1) ?us
      \<longleftrightarrow> list_ex (\<lambda>u. seen_at_all (normalize_url u) db \<and> \<not> seen_by ?pkg (normalize_url u) db
        \<and> \<not> seen_by 0 (normalize_url u) db) (readable_query q)"
    unfolding list_ex_iff readable_query_def d1 set_filter by (auto dest: seen)
  have readonly: "snd (build_novelty_context digest entries_hash observations False q db) = db"
    using fold_read_only [of ?pkg ?b ?us] maintainer_stage(2) [of digest observations q db]
    by (metis build_stages(1) prod.collapse)
  show ?thesis
    unfolding Let_def build_stages(1) build_stages(2-4) [of digest entries_hash observations' keep q] ex [symmetric]
    using fold_flags_known [OF all, of keep ?pkg ?b c1] fresh readonly [unfolded build_stages(1)] by (simp add: s1 del: build_stages)
qed

text \<open>
  A URL another package brought first is new to this package in every one of its analyses, however many of
  them were recorded: only the package that introduced a URL has a row for it.
\<close>

lemma other_package_never_settles:
  assumes "seen_at_all (normalize_url url) db" "\<not> seen_by pkg (normalize_url url) db" "\<not> seen_by 0 (normalize_url url) db"
  shows "fst (fst (check_url_novelty keep url pkg (((\<lambda>d. snd (check_url_novelty True url pkg d)) ^^ k) db)))"
proof -
  let ?d = "((\<lambda>d. snd (check_url_novelty True url pkg d)) ^^ k) db"
  have "seen_at_all (normalize_url url) ?d \<and> \<not> seen_by pkg (normalize_url url) ?d \<and> \<not> seen_by 0 (normalize_url url) ?d"
    by (induction k) (simp_all add: assms check_seen_by check_seen_at_all)
  then show ?thesis by (simp add: check_answers)
qed

section \<open>Spellings\<close>

lemma lower_dot: "lower_char c = CHR ''.'' \<longleftrightarrow> c = CHR ''.''"
proof
  assume low: "lower_char c = CHR ''.''"
  show "c = CHR ''.''"
  proof (rule ccontr)
    assume "c \<noteq> CHR ''.''"
    with low obtain n :: nat where "65 \<le> n \<and> n \<le> 90 \<or> 192 \<le> n \<and> n \<le> 222" "char_of (n + 32) = CHR ''.''"
      by (auto simp: Let_def split: if_splits)
    then have "of_char (char_of (n + 32) :: char) = (of_char (CHR ''.'') :: nat)" by (simp only:)
    then have "(n + 32) mod 256 = 46" by simp
    with \<open>65 \<le> n \<and> n \<le> 90 \<or> 192 \<le> n \<and> n \<le> 222\<close> show False by auto
  qed
qed (simp add: Let_def)

lemma lower_rstrip: "py_lower (py_rstrip_of (\<lambda>c. c = CHR ''.'') s) = py_rstrip_of (\<lambda>c. c = CHR ''.'') (py_lower s)"
  by (simp add: py_lower_def py_rstrip_of_def dropWhile_map o_def lower_dot rev_map del: lower_char.simps)

lemma rstrip_dots: "py_rstrip_of (\<lambda>c. c = d) (s @ replicate k d) = py_rstrip_of (\<lambda>c. c = d) s"
proof -
  have "dropWhile (\<lambda>c. c = d) (replicate k d @ t) = dropWhile (\<lambda>c. c = d) t" for t by (induction k) auto
  then show ?thesis by (simp add: py_rstrip_of_def)
qed

lemma takeWhile_until: "c \<notin> set xs \<Longrightarrow> takeWhile (\<lambda>x. x \<noteq> c) (xs @ c # ys) = xs"
  by (induction xs) auto

lemma after_last_append: "c \<notin> set t \<Longrightarrow> after_last c (s @ c # t) = t"
  by (simp add: after_last_def takeWhile_until)

definition plain_host :: "string \<Rightarrow> bool" where
  "plain_host h \<longleftrightarrow> CHR ''@'' \<notin> set h \<and> CHR '':'' \<notin> set h \<and> CHR ''['' \<notin> set h"

text \<open>one machine, one host.  Whatever userinfo stands before it, however it is capitalised, with a
  root dot or several and with no port, an empty one or a default one, a plain host has one canonical
  spelling.\<close>

theorem one_host_spelling:
  assumes "plain_host h" "plain_host h'" "py_lower h' = py_lower h" "port \<in> set [[], '':'', '':80'', '':443'']"
  shows "canonical_host (user @ ''@'' @ h' @ replicate k CHR ''.'' @ port) = canonical_host h"
proof -
  let ?dots = "replicate k CHR ''.''"
  have chars: "CHR ''@'' \<notin> set (h' @ ?dots)" "CHR '':'' \<notin> set (h' @ ?dots)" "CHR ''['' \<notin> set (h' @ ?dots)"
    using assms(2) by (simp_all add: plain_host_def)
  have no_at: "CHR ''@'' \<notin> set (h' @ ?dots @ port)"
    using chars(1) assms(4) by (simp, elim disjE) simp_all
  then have host: "after_last CHR ''@'' (user @ ''@'' @ h' @ ?dots @ port) = h' @ ?dots @ port"
    by (simp add: after_last_append)
  note no_colon = chars(2)
  have before: "before_first CHR '':'' (h' @ ?dots @ CHR '':'' # p) = h' @ ?dots" for p
    using takeWhile_until [OF no_colon, of p] by (simp add: before_first_def)
  have bracket: "\<not> py_startswith (h' @ ?dots @ port) ''[''"
  proof -
    have "CHR ''['' \<notin> set (h' @ ?dots @ port)" using chars(3) assms(4) by (simp, elim disjE) simp_all
    then show ?thesis by (cases "h' @ ?dots @ port") (simp, metis list.set_intros(1) py_startswith.simps(3))
  qed
  have "canonical_host (user @ ''@'' @ h' @ ?dots @ port) = py_lower (py_rstrip_of (\<lambda>c. c = CHR ''.'') (h' @ ?dots))"
  proof (cases "port = []")
    case True
    then show ?thesis using bracket no_colon by (simp add: canonical_host_def host [unfolded True, simplified] Let_def)
  next
    case False
    with assms(4) obtain q where q: "port = CHR '':'' # q" "q \<in> {[], ''80'', ''443''}" by auto
    have at: "CHR ''@'' \<in> set (user @ ''@'' @ h' @ ?dots @ port)" by simp
    have colon: "CHR '':'' \<in> set (h' @ ?dots @ port)" by (simp add: q)
    have b: "before_first CHR '':'' (h' @ ?dots @ port) = h' @ ?dots" by (simp only: q before)
    have d: "drop (Suc (length (h' @ ?dots))) (h' @ ?dots @ port) = q" by (simp add: q)
    show ?thesis
      by (simp only: canonical_host_def Let_def at host bracket colon b d q(2) if_True if_False)
  qed
  moreover have "canonical_host h = py_lower (py_rstrip_of (\<lambda>c. c = CHR ''.'') h)"
    using assms(1) by (cases h) (auto simp: canonical_host_def plain_host_def Let_def)
  ultimately show ?thesis by (simp only: rstrip_dots lower_rstrip assms(3))
qed

theorem one_host_spelling_witness:
  "canonical_host ''user@GitHub.com.:443'' = canonical_host ''github.com''"
proof -
  have "plain_host ''github.com''" "plain_host ''GitHub.com''" by (simp_all add: plain_host_def)
  moreover have "py_lower ''GitHub.com'' = py_lower ''github.com''" by code_simp
  ultimately show ?thesis
    using one_host_spelling [of "''github.com''" "''GitHub.com''" "'':443''" "''user''" 1] by simp
qed

text \<open>
  A dotted address reads as a version, so that every raw address has the spelling of every other: a source
  moved from one numbered machine to another is no new URL.
\<close>

lemma raw_addresses_conflated:
  "normalize_url ''http://203.0.113.7/x.sh'' = ''http://0/x.sh''"
  "normalize_url ''http://198.51.100.9/x.sh'' = ''http://0/x.sh''"
  by code_simp+

end
