(* ===== verification/Override.thy ===== *)
theory Override
  imports Complex_Main Novelty Categories
begin

text \<open>
  Operator overrides (\<^verbatim>\<open>override.py\<close>): the hand-editable file of rule overrides and acknowledged source
  URLs, its loading, the writers, and the filter that hides overridden findings.  The file holds a parsed
  JSON value; JSON text is the standard library's.  A float is its value, \<open>None\<close> for one that is not finite.
  The clock and the observation counter are arguments; writing the file is taken to succeed.
\<close>

datatype json = JNull | JBool bool | JInt int | JFloat "rat option" | JStr string
  | JArr "json list" | JObj "(string \<times> json) list"

datatype override_error = ValueError string | TypeError | AttributeError

fun json_truthy :: "json \<Rightarrow> bool" where
  "json_truthy JNull = False"
| "json_truthy (JBool b) = b"
| "json_truthy (JInt i) = (i \<noteq> 0)"
| "json_truthy (JFloat r) = (r \<noteq> Some 0)"
| "json_truthy (JStr s) = (s \<noteq> [])"
| "json_truthy (JArr xs) = (xs \<noteq> [])"
| "json_truthy (JObj d) = (d \<noteq> [])"

definition field :: "(string \<times> json) list \<Rightarrow> string \<Rightarrow> json \<Rightarrow> json" where
  "field d k v = dict_get d k v"

section \<open>The file\<close>

datatype store = Missing | Damaged | Stored json

definition empty_file :: json where "empty_file = JObj [(''overrides'', JArr []), (''url_acks'', JArr [])]"

definition ensure_file :: "store \<Rightarrow> store" where
  "ensure_file st = (if st = Missing then Stored empty_file else st)"

definition load_file :: "store \<Rightarrow> (string \<times> json) list" where
  "load_file st = (case ensure_file st of Stored (JObj d) \<Rightarrow> d | _ \<Rightarrow> [])"

definition save_file :: "(string \<times> json) list \<Rightarrow> store \<Rightarrow> store" where
  "save_file d st = Stored (JObj d)"

record rule_override =
  ro_rule_id :: json
  ro_reason :: json
  ro_package :: json
  ro_created_at :: json
  ro_created_at_obs :: json
  ro_ttl :: json
  ro_requires_clear :: json

record url_ack =
  ua_package :: json
  ua_url :: json
  ua_reason :: json
  ua_created_at :: json

text \<open>A value that may not be null: a hand edit's \<^verbatim>\<open>null\<close> reads as the empty text.\<close>

definition text_field :: "(string \<times> json) list \<Rightarrow> string \<Rightarrow> json" where
  "text_field d k = (let v = field d k JNull in if v = JNull then JStr [] else v)"

definition read_override :: "json \<Rightarrow> rule_override option" where
  "read_override e =
     (case e of
        JObj d \<Rightarrow>
          (if \<not> json_truthy (field d ''rule_id'' JNull) then None
           else Some \<lparr>ro_rule_id = field d ''rule_id'' JNull, ro_reason = text_field d ''reason'',
             ro_package = field d ''package'' JNull, ro_created_at = text_field d ''created_at'',
             ro_created_at_obs = field d ''created_at_obs'' (JInt 0), ro_ttl = field d ''ttl_observations'' JNull,
             ro_requires_clear = field d ''requires_clear_indicators'' (JBool False)\<rparr>)
      | _ \<Rightarrow> None)"

definition read_ack :: "json \<Rightarrow> url_ack option" where
  "read_ack e =
     (case e of
        JObj d \<Rightarrow>
          (if \<not> json_truthy (field d ''url'' JNull) \<or> \<not> json_truthy (field d ''package'' JNull) then None
           else Some \<lparr>ua_package = field d ''package'' JNull, ua_url = field d ''url'' JNull,
             ua_reason = text_field d ''reason'', ua_created_at = text_field d ''created_at''\<rparr>)
      | _ \<Rightarrow> None)"

definition entries_of :: "string \<Rightarrow> store \<Rightarrow> json list" where
  "entries_of key st = (case field (load_file st) key (JArr []) of JArr es \<Rightarrow> es | _ \<Rightarrow> [])"

definition load_overrides :: "store \<Rightarrow> rule_override list" where
  "load_overrides st = List.map_filter read_override (entries_of ''overrides'' st)"

definition load_url_acks :: "store \<Rightarrow> url_ack list" where
  "load_url_acks st = List.map_filter read_ack (entries_of ''url_acks'' st)"

text \<open>\<^verbatim>\<open>asdict\<close>, and the writers that keep the other key of the file.\<close>

definition write_override :: "rule_override \<Rightarrow> json" where
  "write_override ov = JObj [(''rule_id'', ro_rule_id ov), (''reason'', ro_reason ov), (''package'', ro_package ov),
     (''created_at'', ro_created_at ov), (''created_at_obs'', ro_created_at_obs ov),
     (''ttl_observations'', ro_ttl ov), (''requires_clear_indicators'', ro_requires_clear ov)]"

definition write_ack :: "url_ack \<Rightarrow> json" where
  "write_ack a = JObj [(''package'', ua_package a), (''url'', ua_url a), (''reason'', ua_reason a), (''created_at'', ua_created_at a)]"

definition save_overrides :: "rule_override list \<Rightarrow> store \<Rightarrow> store" where
  "save_overrides ovs st = save_file (dict_set (load_file st) ''overrides'' (JArr (map write_override ovs))) st"

definition save_url_acks :: "url_ack list \<Rightarrow> store \<Rightarrow> store" where
  "save_url_acks acks st = save_file (dict_set (load_file st) ''url_acks'' (JArr (map write_ack acks))) st"

section \<open>Writing overrides\<close>

definition OVERRIDE_FATAL :: "string list" where "OVERRIDE_FATAL = [''R012'', ''R013'']"

definition sanitize :: "string \<Rightarrow> string" where
  "sanitize s = map (\<lambda>c. if (of_char c :: nat) < 32 \<or> (of_char c :: nat) = 127 then SPC else c) s"

definition validate :: "string \<Rightarrow> string \<Rightarrow> override_error option" where
  "validate rule_id reason =
     (if py_strip reason = [] then Some (ValueError ''Override reason must be non-empty'')
      else if rule_id \<in> set OVERRIDE_FATAL
      then Some (ValueError (''Cannot override '' @ rule_id @ '': FATAL rules are non-overridable''))
      else None)"

definition package_json :: "string option \<Rightarrow> json" where
  "package_json p = (case p of None \<Rightarrow> JNull | Some s \<Rightarrow> JStr s)"

definition same_target :: "json \<Rightarrow> json \<Rightarrow> rule_override \<Rightarrow> bool" where
  "same_target rid pkg ov \<longleftrightarrow> ro_rule_id ov = rid \<and> ro_package ov = pkg"

record add_request =
  ar_rule_id :: string
  ar_reason :: string
  ar_package :: "string option"
  ar_ttl :: "int option"
  ar_requires_clear :: bool

definition requested :: "string \<Rightarrow> nat \<Rightarrow> add_request \<Rightarrow> rule_override" where
  "requested now obs r =
     \<lparr>ro_rule_id = JStr (py_upper (ar_rule_id r)), ro_reason = JStr (sanitize (py_strip (ar_reason r))),
      ro_package = package_json (ar_package r), ro_created_at = JStr now, ro_created_at_obs = JInt (int obs),
      ro_ttl = (case ar_ttl r of None \<Rightarrow> JNull | Some n \<Rightarrow> JInt n), ro_requires_clear = JBool (ar_requires_clear r)\<rparr>"

definition add_override :: "string \<Rightarrow> nat \<Rightarrow> add_request \<Rightarrow> store \<Rightarrow> override_error + (rule_override \<times> store)" where
  "add_override now obs r st =
     (case validate (ar_rule_id r) (ar_reason r) of
        Some e \<Rightarrow> Inl e
      | None \<Rightarrow>
          (if (case ar_ttl r of None \<Rightarrow> False | Some n \<Rightarrow> n \<le> 0)
           then Inl (ValueError ''ttl_observations must be a positive integer'')
           else (let ov = requested now obs r;
                     kept = filter (\<lambda>o'. \<not> same_target (ro_rule_id ov) (ro_package ov) o') (load_overrides st)
                 in Inr (ov, save_overrides (kept @ [ov]) st))))"

definition remove_override :: "string \<Rightarrow> string option \<Rightarrow> store \<Rightarrow> bool \<times> store" where
  "remove_override rid pkg st =
     (let ovs = load_overrides st; kept = filter (\<lambda>o'. \<not> same_target (JStr rid) (package_json pkg) o') ovs in
      if length kept = length ovs then (False, ensure_file st) else (True, save_overrides kept st))"

definition get_active_overrides :: "string option \<Rightarrow> string option \<Rightarrow> store \<Rightarrow> rule_override list" where
  "get_active_overrides rid pkg st =
     filter (\<lambda>o'. (case rid of None \<Rightarrow> True | Some r \<Rightarrow> ro_rule_id o' = JStr r)
       \<and> (case pkg of None \<Rightarrow> True | Some p \<Rightarrow> ro_package o' = JNull \<or> ro_package o' = JStr p)) (load_overrides st)"

section \<open>Filtering findings\<close>

text \<open>\<^verbatim>\<open>int(text)\<close>: surrounding space, a sign, digits with single underscores between, at most 4300 of them.\<close>

fun int_digits :: "string \<Rightarrow> string option" where
  "int_digits [] = None"
| "int_digits [c] = (if is_digit c then Some [c] else None)"
| "int_digits (c # d # s) =
     (if \<not> is_digit c then None
      else map_option ((#) c) (int_digits (if d = CHR ''_'' then s else d # s)))"

definition clock_int :: "string \<Rightarrow> int option" where
  "clock_int t =
     (let s = py_strip t;
          (neg, body) = (case s of [] \<Rightarrow> (False, [])
            | c # cs \<Rightarrow> (if c = CHR ''-'' then (True, cs) else if c = CHR ''+'' then (False, cs) else (False, s)))
      in case int_digits body of None \<Rightarrow> None
         | Some ds \<Rightarrow> (if length ds > 4300 then None
             else Some (if neg then - int (nat_of_digits ds) else int (nat_of_digits ds))))"

fun clock :: "json \<Rightarrow> int option" where
  "clock (JBool b) = Some (if b then 1 else 0)"
| "clock (JInt i) = Some (max 0 i)"
| "clock (JFloat r) = map_option (\<lambda>q. max 0 (if q \<ge> 0 then \<lfloor>q\<rfloor> else \<lceil>q\<rceil>)) r"
| "clock (JStr s) = map_option (max 0) (clock_int s)"
| "clock _ = None"

definition is_expired :: "int option \<Rightarrow> rule_override \<Rightarrow> bool" where
  "is_expired now ov =
     (if ro_ttl ov = JNull \<or> now = None then False
      else (case clock (ro_ttl ov) of None \<Rightarrow> False
        | Some ttl \<Rightarrow>
            (let created = (case clock (ro_created_at_obs ov) of None \<Rightarrow> 0 | Some n \<Rightarrow> n)
             in the now - created \<ge> ttl)))"

definition is_active :: "string option \<Rightarrow> rule_override \<Rightarrow> bool" where
  "is_active pkg ov \<longleftrightarrow> ro_package ov = JNull \<or> (case pkg of None \<Rightarrow> False | Some p \<Rightarrow> ro_package ov = JStr p)"

definition set_default :: "'v dict \<Rightarrow> string \<Rightarrow> 'v \<Rightarrow> 'v dict" where
  "set_default d k v = (if map_of d k = None then dict_set d k v else d)"

text \<open>A list or an object is no key of a dictionary; a key that is no text is never looked up.\<close>

fun hashable :: "json \<Rightarrow> bool" where
  "hashable (JArr _) = False"
| "hashable (JObj _) = False"
| "hashable _ = True"

definition index_override :: "rule_override dict \<Rightarrow> rule_override \<Rightarrow> rule_override dict" where
  "index_override d ov =
     (case ro_rule_id ov of
        JStr rid \<Rightarrow> set_default (set_default d rid ov) (survivor_id rid) ov
      | _ \<Rightarrow> d)"

record filtered =
  fl_kept :: "(finding \<times> bool) list"
  fl_suppressed :: "(finding \<times> rule_override \<times> bool) list"
  fl_expired :: "string list"

definition filter_one ::
    "rule_override dict \<Rightarrow> bool \<Rightarrow> int option \<Rightarrow> finding \<Rightarrow> filtered \<Rightarrow> filtered" where
  "filter_one by_id corroborated now f acc =
     (case map_of by_id (f_rule_id f) of
        None \<Rightarrow> acc\<lparr>fl_kept := fl_kept acc @ [(f, False)]\<rparr>
      | Some ov \<Rightarrow>
          (if f_severity f = ''FATAL'' then acc\<lparr>fl_kept := fl_kept acc @ [(f, False)]\<rparr>
           else if is_expired now ov
           then acc\<lparr>fl_expired := fl_expired acc @ [f_rule_id f], fl_kept := fl_kept acc @ [(f, True)]\<rparr>
           else acc\<lparr>fl_suppressed := fl_suppressed acc
                  @ [(f, ov, json_truthy (ro_requires_clear ov) \<and> corroborated)]\<rparr>))"

definition filter_triggered_rules ::
    "finding list \<Rightarrow> string option \<Rightarrow> bool \<Rightarrow> int option \<Rightarrow> store \<Rightarrow> override_error + filtered" where
  "filter_triggered_rules fs pkg corroborated now st =
     (let none = \<lparr>fl_kept = [], fl_suppressed = [], fl_expired = []\<rparr>; ovs = load_overrides st in
      if ovs = [] then Inr (none\<lparr>fl_kept := map (\<lambda>f. (f, False)) fs\<rparr>)
      else (let active = filter (is_active pkg) ovs in
            if list_ex (\<lambda>ov. \<not> hashable (ro_rule_id ov)) active then Inl TypeError
            else Inr (List.fold (filter_one (foldl index_override [] active) corroborated now) fs none)))"

text \<open>The cross-check of the review, after the fact.\<close>

definition apply_indicator_cross_check ::
    "(finding \<times> rule_override \<times> bool) list \<Rightarrow> bool \<Rightarrow> (finding \<times> rule_override \<times> bool) list" where
  "apply_indicator_cross_check rows matched =
     (if \<not> matched then rows
      else map (\<lambda>(f, ov, marked). (f, ov, marked \<or> json_truthy (ro_requires_clear ov))) rows)"

section \<open>What the filter hides\<close>

text \<open>An override speaks of a rule by its id or by a former id that leads to it.\<close>

definition speaks_of :: "string \<Rightarrow> rule_override \<Rightarrow> bool" where
  "speaks_of rid ov \<longleftrightarrow> (case ro_rule_id ov of JStr r \<Rightarrow> r = rid \<or> survivor_id r = rid | _ \<Rightarrow> False)"

definition governing :: "string option \<Rightarrow> store \<Rightarrow> string \<Rightarrow> rule_override option" where
  "governing pkg st rid = List.find (\<lambda>ov. is_active pkg ov \<and> speaks_of rid ov) (load_overrides st)"

definition is_hidden :: "string option \<Rightarrow> int option \<Rightarrow> store \<Rightarrow> finding \<Rightarrow> bool" where
  "is_hidden pkg now st f \<longleftrightarrow> f_severity f \<noteq> ''FATAL'' \<and>
     (case governing pkg st (f_rule_id f) of None \<Rightarrow> False | Some ov \<Rightarrow> \<not> is_expired now ov)"

lemma set_default_lookup:
  "map_of (set_default d k v) x = (if x = k \<and> map_of d k = None then Some v else map_of d x)"
  by (auto simp: set_default_def)

lemma index_lookup:
  "map_of (foldl index_override d ovs) rid =
     (case map_of d rid of Some ov \<Rightarrow> Some ov | None \<Rightarrow> List.find (speaks_of rid) ovs)"
proof (induction ovs arbitrary: d)
  case Nil
  then show ?case by (simp split: option.split)
next
  case (Cons ov ovs)
  have "map_of (index_override d ov) rid =
      (case map_of d rid of Some o' \<Rightarrow> Some o' | None \<Rightarrow> (if speaks_of rid ov then Some ov else None))"
    by (auto simp: index_override_def speaks_of_def set_default_lookup split: json.split option.split)
  then show ?case by (simp add: Cons.IH split: option.split)
qed

lemma find_filter: "List.find P (filter Q xs) = List.find (\<lambda>x. Q x \<and> P x) xs"
  by (induction xs) auto

lemma index_governing:
  "map_of (foldl index_override [] (filter (is_active pkg) (load_overrides st))) rid = governing pkg st rid"
  by (simp add: index_lookup governing_def find_filter)

lemma governing_Some:
  "governing pkg st rid = Some ov \<Longrightarrow> ov \<in> set (load_overrides st) \<and> is_active pkg ov \<and> speaks_of rid ov"
  unfolding governing_def by (auto simp: find_Some_iff)

text \<open>The fold, against the declarative split.\<close>

definition split_exactly :: "string option \<Rightarrow> bool \<Rightarrow> int option \<Rightarrow> store \<Rightarrow> finding list \<Rightarrow> filtered \<Rightarrow> bool" where
  "split_exactly pkg corroborated now st fs r \<longleftrightarrow>
     map fst (fl_kept r) = filter (\<lambda>f. \<not> is_hidden pkg now st f) fs
     \<and> map fst (fl_suppressed r) = filter (is_hidden pkg now st) fs
     \<and> fl_expired r = map (f_rule_id \<circ> fst) (filter snd (fl_kept r))
     \<and> list_all (\<lambda>(f, lapsed). if lapsed then (case governing pkg st (f_rule_id f) of None \<Rightarrow> False | Some ov \<Rightarrow> is_expired now ov) else True)
         (fl_kept r)
     \<and> list_all (\<lambda>(f, ov, marked). governing pkg st (f_rule_id f) = Some ov \<and> marked = (json_truthy (ro_requires_clear ov) \<and> corroborated))
         (fl_suppressed r)"

lemma filter_one_exact:
  assumes "split_exactly pkg corroborated now st fs r" "\<And>rid. map_of by_id rid = governing pkg st rid"
  shows "split_exactly pkg corroborated now st (fs @ [f]) (filter_one by_id corroborated now f r)"
proof (cases "governing pkg st (f_rule_id f)")
  case None
  with assms show ?thesis by (simp add: filter_one_def split_exactly_def is_hidden_def)
next
  case (Some ov)
  then show ?thesis
    using assms by (cases "f_severity f = ''FATAL''"; cases "is_expired now ov") (simp_all add: filter_one_def split_exactly_def is_hidden_def)
qed

lemma fold_filter_exact:
  assumes "\<And>rid. map_of by_id rid = governing pkg st rid"
  shows "split_exactly pkg corroborated now st done_fs r
    \<Longrightarrow> split_exactly pkg corroborated now st (done_fs @ fs) (List.fold (filter_one by_id corroborated now) fs r)"
proof (induction fs arbitrary: done_fs r)
  case (Cons f fs)
  from Cons.IH [OF filter_one_exact [OF Cons.prems assms, of f]] show ?case by simp
qed simp

lemma filter_triggered_split:
  "case filter_triggered_rules fs pkg corroborated now st of
     Inl e \<Rightarrow> e = TypeError \<and> list_ex (\<lambda>ov. is_active pkg ov \<and> \<not> hashable (ro_rule_id ov)) (load_overrides st)
   | Inr r \<Rightarrow> split_exactly pkg corroborated now st fs r"
proof -
  let ?none = "\<lparr>fl_kept = [], fl_suppressed = [], fl_expired = []\<rparr>"
  show ?thesis
  proof (cases "load_overrides st = []")
    case True
    then have "is_hidden pkg now st f = False" for f by (simp add: is_hidden_def governing_def)
    then have "split_exactly pkg corroborated now st fs (?none\<lparr>fl_kept := map (\<lambda>f. (f, False)) fs\<rparr>)"
      by (simp add: split_exactly_def list_all_iff filter_map o_def)
    with True show ?thesis by (simp add: filter_triggered_rules_def)
  next
    case False
    have "split_exactly pkg corroborated now st [] ?none" by (simp add: split_exactly_def)
    from fold_filter_exact [OF index_governing this, of fs] False show ?thesis
      by (auto simp: filter_triggered_rules_def Let_def list_ex_iff)
  qed
qed

text \<open>C9: an override hides exactly what it may.  The filter gives up only over an active override whose
  rule id is no dictionary key.  Otherwise every finding is kept or suppressed, in order; one is suppressed
  exactly when it is not FATAL and the first active override of the file that speaks of its rule has not
  lapsed; the report names that override, and every finding returned because its override lapsed.  No
  override touches a FATAL finding.\<close>

theorem filter_hides_exactly:
  "case filter_triggered_rules fs pkg corroborated now st of
     Inl e \<Rightarrow> e = TypeError \<and> list_ex (\<lambda>ov. is_active pkg ov \<and> \<not> hashable (ro_rule_id ov)) (load_overrides st)
   | Inr r \<Rightarrow> split_exactly pkg corroborated now st fs r
       \<and> filter (\<lambda>f. f_severity f = ''FATAL'') (map fst (fl_kept r)) = filter (\<lambda>f. f_severity f = ''FATAL'') fs"
proof -
  have "filter (\<lambda>f. f_severity f = ''FATAL'') (filter (\<lambda>f. \<not> is_hidden pkg now st f) fs) = filter (\<lambda>f. f_severity f = ''FATAL'') fs"
    by (auto simp: is_hidden_def intro!: filter_cong)
  then have fatal: "filter (\<lambda>f. f_severity f = ''FATAL'') (map fst (fl_kept r)) = filter (\<lambda>f. f_severity f = ''FATAL'') fs"
    if "split_exactly pkg corroborated now st fs r" for r
    using that by (simp only: split_exactly_def)
  show ?thesis
    using filter_triggered_split [where fs = fs and pkg = pkg and corroborated = corroborated and now = now and st = st] fatal
    by (cases "filter_triggered_rules fs pkg corroborated now st") simp_all
qed

section \<open>Writing and reading back\<close>

definition well_read :: "rule_override \<Rightarrow> bool" where
  "well_read ov \<longleftrightarrow> json_truthy (ro_rule_id ov) \<and> ro_reason ov \<noteq> JNull \<and> ro_created_at ov \<noteq> JNull"

lemma read_write_override: "well_read ov \<Longrightarrow> read_override (write_override ov) = Some ov"
  by (simp add: read_override_def write_override_def field_def text_field_def dict_get_def well_read_def)

lemma read_well_read: "read_override e = Some ov \<Longrightarrow> well_read ov"
  by (auto simp: read_override_def text_field_def well_read_def Let_def split: json.splits if_splits)

lemma map_filter_set: "x \<in> set (List.map_filter f xs) \<longleftrightarrow> (\<exists>y \<in> set xs. f y = Some x)"
  by (force simp: List.map_filter_def)

lemma loaded_well_read: "ov \<in> set (load_overrides st) \<Longrightarrow> well_read ov"
  by (auto simp: load_overrides_def map_filter_set dest: read_well_read)

lemma map_filter_all: "list_all (\<lambda>x. f (g x) = Some x) xs \<Longrightarrow> List.map_filter f (map g xs) = xs"
  by (induction xs) (simp_all add: List.map_filter_simps)

lemma load_save: "list_all well_read ovs \<Longrightarrow> load_overrides (save_overrides ovs st) = ovs"
  by (simp add: load_overrides_def save_overrides_def save_file_def entries_of_def load_file_def ensure_file_def
      field_def dict_get_def map_filter_all list_all_iff read_write_override)

lemma save_keeps_acks: "load_url_acks (save_overrides ovs st) = load_url_acks st"
  by (simp add: load_url_acks_def save_overrides_def save_file_def entries_of_def load_file_def [of "Stored j" for j] ensure_file_def
      field_def dict_get_def)

lemma upper_nonempty: "s \<noteq> [] \<Longrightarrow> py_upper s \<noteq> []"
  by (cases s) (simp_all add: py_upper_def Let_def)

text \<open>C36: an override that was added is there once, the others and the acknowledged URLs are kept, and removing
  it leaves exactly the others.  It is refused only for an empty reason, a FATAL id or a lifetime that is not
  positive.  (An empty rule id is stored and read as absent.)\<close>

theorem override_roundtrip:
  "case add_override now obs r st of
     Inl e \<Rightarrow> py_strip (ar_reason r) = [] \<or> ar_rule_id r \<in> set OVERRIDE_FATAL
       \<or> (case ar_ttl r of None \<Rightarrow> False | Some n \<Rightarrow> n \<le> 0)
   | Inr (ov, st1) \<Rightarrow> ar_rule_id r = [] \<or>
       (let others = filter (\<lambda>o'. \<not> (ro_rule_id o' = JStr (py_upper (ar_rule_id r))
              \<and> ro_package o' = package_json (ar_package r))) (load_overrides st);
            gone = remove_override (py_upper (ar_rule_id r)) (ar_package r) st1
        in load_overrides st1 = others @ [ov] \<and> load_url_acks st1 = load_url_acks st
           \<and> fst gone \<and> load_overrides (snd gone) = others \<and> load_url_acks (snd gone) = load_url_acks st
           \<and> \<not> fst (remove_override (py_upper (ar_rule_id r)) (ar_package r) (snd gone)))"
proof (cases "validate (ar_rule_id r) (ar_reason r) \<noteq> None \<or> (case ar_ttl r of None \<Rightarrow> False | Some n \<Rightarrow> n \<le> 0)")
  case True
  then show ?thesis by (auto simp: add_override_def validate_def split: if_splits option.splits)
next
  case False
  let ?ov = "requested now obs r"
  let ?p = "\<lambda>o'. \<not> same_target (ro_rule_id ?ov) (ro_package ?ov) o'"
  let ?others = "filter ?p (load_overrides st)"
  let ?st1 = "save_overrides (?others @ [?ov]) st"
  have add: "add_override now obs r st = Inr (?ov, ?st1)"
    using False by (auto simp: add_override_def Let_def split: option.splits)
  show ?thesis
  proof (cases "ar_rule_id r = []")
    case True
    then show ?thesis by (simp add: add)
  next
    case rid: False
    then have "well_read ?ov" using upper_nonempty [of "ar_rule_id r"] by (simp add: well_read_def requested_def)
    then have l1: "load_overrides ?st1 = ?others @ [?ov]"
      by (intro load_save) (auto simp: list_all_iff dest: loaded_well_read)
    have target: "same_target (JStr (py_upper (ar_rule_id r))) (package_json (ar_package r)) = same_target (ro_rule_id ?ov) (ro_package ?ov)"
      by (simp add: requested_def)
    have mine: "\<not> ?p ?ov" by (simp add: same_target_def)
    have only: "filter ?p (?others @ [?ov]) = ?others" using mine by simp
    have gone: "remove_override (py_upper (ar_rule_id r)) (ar_package r) ?st1 = (True, save_overrides ?others ?st1)"
      unfolding remove_override_def Let_def target l1 only by simp
    have l2: "load_overrides (save_overrides ?others ?st1) = ?others"
      by (intro load_save) (auto simp: list_all_iff dest: loaded_well_read)
    have again: "\<not> fst (remove_override (py_upper (ar_rule_id r)) (ar_package r) (save_overrides ?others ?st1))"
      unfolding remove_override_def Let_def target l2 by simp
    have plain: "filter (\<lambda>o'. \<not> (ro_rule_id o' = JStr (py_upper (ar_rule_id r)) \<and> ro_package o' = package_json (ar_package r)))
        (load_overrides st) = ?others"
      by (rule filter_cong) (simp_all add: requested_def same_target_def)
    show ?thesis unfolding add by (simp only: sum.case prod.case plain Let_def) (simp add: l1 gone l2 again save_keeps_acks)
  qed
qed

section \<open>Acknowledged URLs\<close>

text \<open>\<^verbatim>\<open>re.sub(r"[\)]+", ")", token)\<close>.\<close>

fun squeeze :: "char \<Rightarrow> string \<Rightarrow> string" where
  "squeeze c (x # y # s) = (if x = c \<and> y = c then squeeze c (y # s) else x # squeeze c (y # s))"
| "squeeze c s = s"

definition trailing :: "char \<Rightarrow> string \<Rightarrow> nat" where
  "trailing c s = length (takeWhile (\<lambda>x. x = c) (rev s))"

definition clean_url :: "string \<Rightarrow> string" where
  "clean_url token =
     (let token = squeeze CHR '')'' (py_rstrip_of (\<lambda>c. c \<in> set '')<>'') token);
          open_braces = count_list token CHR ''{''; close_braces = count_list token CHR ''}'';
          token = take (length token - min (trailing CHR ''}'' token) (close_braces - open_braces)) token
      in py_rstrip_of (\<lambda>c. c \<in> set '',;'' \<or> py_isspace c) token)"

definition ack_key :: "string \<Rightarrow> string" where
  "ack_key url = normalize_url (clean_url (py_strip url))"

text \<open>The key of a stored entry: an URL that is no text has no \<^verbatim>\<open>strip\<close>.\<close>

definition stored_key :: "url_ack \<Rightarrow> string option" where
  "stored_key a = (case ua_url a of JStr u \<Rightarrow> Some (ack_key u) | _ \<Rightarrow> None)"

definition acks_of :: "string \<Rightarrow> store \<Rightarrow> url_ack list" where
  "acks_of pkg st = filter (\<lambda>a. ua_package a = JStr pkg) (load_url_acks st)"

text \<open>Whether an entry is the ack of a key; \<open>None\<close> where reading its key raises.\<close>

definition is_ack_of :: "string \<Rightarrow> string \<Rightarrow> url_ack \<Rightarrow> bool" where
  "is_ack_of pkg key a \<longleftrightarrow> ua_package a = JStr pkg \<and> stored_key a = Some key"

definition raises_for :: "string \<Rightarrow> store \<Rightarrow> bool" where
  "raises_for pkg st \<longleftrightarrow> list_ex (\<lambda>a. stored_key a = None) (acks_of pkg st)"

definition add_url_ack :: "string \<Rightarrow> string \<Rightarrow> string \<Rightarrow> string \<Rightarrow> store \<Rightarrow> override_error + (url_ack \<times> store)" where
  "add_url_ack now pkg url reason st =
     (if py_strip pkg = [] then Inl (ValueError ''An acknowledged URL needs a package'')
      else if py_strip url = [] then Inl (ValueError ''An acknowledged URL needs a URL'')
      else if py_strip reason = [] then Inl (ValueError ''Acknowledgement reason must be non-empty'')
      else if raises_for (py_strip pkg) st then Inl AttributeError
      else (let u = sanitize (py_strip url);
                a = \<lparr>ua_package = JStr (py_strip pkg), ua_url = JStr u,
                     ua_reason = JStr (sanitize (py_strip reason)), ua_created_at = JStr now\<rparr>
            in Inr (a, save_url_acks (filter (\<lambda>b. \<not> is_ack_of (py_strip pkg) (ack_key u) b) (load_url_acks st) @ [a]) st)))"

definition remove_url_ack :: "string \<Rightarrow> string \<Rightarrow> store \<Rightarrow> override_error + (bool \<times> store)" where
  "remove_url_ack pkg url st =
     (if raises_for pkg st then Inl AttributeError
      else (let acks = load_url_acks st; kept = filter (\<lambda>b. \<not> is_ack_of pkg (ack_key url) b) acks in
            if length kept = length acks then Inr (False, ensure_file st) else Inr (True, save_url_acks kept st)))"

text \<open>The last entry of a key wins; the answer is keyed by the URL as it was given.\<close>

definition covering :: "string \<Rightarrow> store \<Rightarrow> string \<Rightarrow> url_ack option" where
  "covering pkg st key = List.find (\<lambda>a. stored_key a = Some key) (rev (acks_of pkg st))"

definition match_url_acks :: "string \<Rightarrow> string list \<Rightarrow> store \<Rightarrow> override_error + url_ack dict" where
  "match_url_acks pkg urls st =
     (if raises_for pkg st then Inl AttributeError
      else Inr (foldl (\<lambda>d url. case covering pkg st (ack_key url) of None \<Rightarrow> d | Some a \<Rightarrow> dict_set d url a) [] urls))"

text \<open>\<^verbatim>\<open>https?://[^\s'"<>)]+\<close>, every match from left to right.\<close>

definition url_stop :: "char \<Rightarrow> bool" where
  "url_stop c \<longleftrightarrow> py_isspace c \<or> c \<in> {SQ, DQ} \<or> c \<in> set ''<>)''"

definition url_prefix :: "string \<Rightarrow> nat" where
  "url_prefix s = (if py_startswith s ''http://'' then 7 else if py_startswith s ''https://'' then 8 else 0)"

function urls_in :: "string \<Rightarrow> string list" where
  "urls_in [] = []"
| "urls_in (c # s) =
     (let n = url_prefix (c # s); body = takeWhile (\<lambda>x. \<not> url_stop x) (drop n (c # s)) in
      if n = 0 \<or> body = [] then urls_in s
      else (take n (c # s) @ body) # urls_in (drop (length body) (drop n (c # s))))"
  by pat_completeness auto
termination by (relation "measure length") auto

definition suppress_acknowledged ::
    "finding list \<Rightarrow> string \<Rightarrow> url_ack dict \<Rightarrow> store \<Rightarrow> override_error + (finding list \<times> url_ack dict)" where
  "suppress_acknowledged fs pkg matched st =
     (if pkg = [] then Inr (fs, matched)
      else if raises_for pkg st then Inl AttributeError
      else if acks_of pkg st = [] then Inr (fs, matched)
      else (let urls = (\<lambda>f. urls_in (case f_match f of None \<Rightarrow> [] | Some m \<Rightarrow> m));
                covered = (\<lambda>f. f_rule_id f = ''R152'' \<and> urls f \<noteq> []
                  \<and> list_all (\<lambda>u. covering pkg st (ack_key u) \<noteq> None) (urls f))
            in Inr (filter (\<lambda>f. \<not> covered f) fs,
                 foldl (\<lambda>d f. foldl (\<lambda>d u. dict_set d u (the (covering pkg st (ack_key u)))) d (urls f)) matched (filter covered fs))))"

definition acknowledged_url_rows :: "url_ack dict \<Rightarrow> (string \<times> json) list" where
  "acknowledged_url_rows matched = map (\<lambda>(url, a). (url, ua_reason a)) (sort_key fst matched)"

lemma read_write_ack: "json_truthy (ua_url a) \<and> json_truthy (ua_package a) \<and> ua_reason a \<noteq> JNull \<and> ua_created_at a \<noteq> JNull
    \<Longrightarrow> read_ack (write_ack a) = Some a"
  by (simp add: read_ack_def write_ack_def field_def text_field_def dict_get_def)

lemma text_not_null: "text_field d k \<noteq> JNull"
  by (simp add: text_field_def Let_def)

lemma read_ack_fields: "read_ack e = Some a \<Longrightarrow>
    json_truthy (ua_url a) \<and> json_truthy (ua_package a) \<and> ua_reason a \<noteq> JNull \<and> ua_created_at a \<noteq> JNull"
  by (cases e) (auto simp: read_ack_def text_not_null split: if_splits)

lemma loaded_ack: "a \<in> set (load_url_acks st) \<Longrightarrow>
    json_truthy (ua_url a) \<and> json_truthy (ua_package a) \<and> ua_reason a \<noteq> JNull \<and> ua_created_at a \<noteq> JNull"
  using read_ack_fields by (auto simp: load_url_acks_def map_filter_set)

lemma load_save_acks:
  "list_all (\<lambda>a. json_truthy (ua_url a) \<and> json_truthy (ua_package a) \<and> ua_reason a \<noteq> JNull \<and> ua_created_at a \<noteq> JNull) acks
   \<Longrightarrow> load_url_acks (save_url_acks acks st) = acks"
  by (simp add: load_url_acks_def save_url_acks_def save_file_def entries_of_def load_file_def ensure_file_def
      field_def dict_get_def map_filter_all list_all_iff read_write_ack)

lemma save_keeps_overrides: "load_overrides (save_url_acks acks st) = load_overrides st"
  by (simp add: load_overrides_def save_url_acks_def save_file_def entries_of_def load_file_def [of "Stored j" for j] ensure_file_def
      field_def dict_get_def)

lemma covering_find:
  "covering pkg st key = List.find (is_ack_of pkg key) (rev (load_url_acks st))"
  by (simp add: covering_def acks_of_def rev_filter find_filter is_ack_of_def [abs_def])

lemma find_disjoint: "(\<And>x. P x \<Longrightarrow> Q x) \<Longrightarrow> List.find P (filter Q xs) = List.find P xs"
  by (induction xs) auto

text \<open>looking up after acknowledging.  An acknowledgement is refused only for an empty field, or when an
  entry of the package holds an URL that is no text.  Otherwise the URL of that package with the same
  version-stable spelling is covered by the new entry, every other package and every other spelling are
  covered as before, and no rule override changes.\<close>

theorem ack_lookup:
  "case add_url_ack now pkg url reason st of
     Inl e \<Rightarrow> py_strip pkg = [] \<or> py_strip url = [] \<or> py_strip reason = [] \<or> raises_for (py_strip pkg) st
   | Inr (a, st1) \<Rightarrow> load_overrides st1 = load_overrides st
       \<and> (\<forall>p key. covering p st1 key =
            (if p = py_strip pkg \<and> key = ack_key (sanitize (py_strip url)) then Some a else covering p st key))"
proof (cases "py_strip pkg = [] \<or> py_strip url = [] \<or> py_strip reason = [] \<or> raises_for (py_strip pkg) st")
  case True
  then show ?thesis by (auto simp: add_url_ack_def)
next
  case False
  let ?key = "ack_key (sanitize (py_strip url))" and ?p = "py_strip pkg"
  let ?a = "\<lparr>ua_package = JStr ?p, ua_url = JStr (sanitize (py_strip url)),
      ua_reason = JStr (sanitize (py_strip reason)), ua_created_at = JStr now\<rparr>"
  let ?acks = "filter (\<lambda>b. \<not> is_ack_of ?p ?key b) (load_url_acks st) @ [?a]"
  let ?st1 = "save_url_acks ?acks st"
  have add: "add_url_ack now pkg url reason st = Inr (?a, ?st1)"
    using False by (simp add: add_url_ack_def Let_def)
  have "sanitize (py_strip url) \<noteq> []" using False by (simp add: sanitize_def)
  then have load: "load_url_acks ?st1 = ?acks"
    using False by (intro load_save_acks) (auto simp: list_all_iff dest: loaded_ack)
  have new: "is_ack_of p key ?a \<longleftrightarrow> p = ?p \<and> key = ?key" for p key
    by (auto simp: is_ack_of_def stored_key_def)
  have apart: "is_ack_of p key x \<Longrightarrow> \<not> is_ack_of ?p ?key x" if "\<not> (p = ?p \<and> key = ?key)" for p key x
    using that by (auto simp: is_ack_of_def)
  have "covering p ?st1 key = (if p = ?p \<and> key = ?key then Some ?a else covering p st key)" for p key
  proof (cases "p = ?p \<and> key = ?key")
    case True
    then show ?thesis using new [of p key] by (simp add: covering_find load)
  next
    case other: False
    have "List.find (is_ack_of p key) (filter (\<lambda>b. \<not> is_ack_of ?p ?key b) (rev (load_url_acks st))) =
        List.find (is_ack_of p key) (rev (load_url_acks st))"
      by (rule find_disjoint) (rule apart [OF other])
    then show ?thesis using other new [of p key] by (simp only: covering_find load rev_append rev_filter) simp
  qed
  then show ?thesis unfolding add by (simp add: save_keeps_overrides)
qed

section \<open>Where the code and its comments part\<close>

text \<open>Acknowledging one raw address acknowledges every raw address with the same path.\<close>

lemma address_covers_all_addresses:
  "match_url_acks ''p'' [''http://198.51.100.9/x.sh'']
     (Stored (JObj [(''url_acks'', JArr [JObj [(''package'', JStr ''p''), (''url'', JStr ''http://203.0.113.7/x.sh'')]])]))
   = Inr [(''http://198.51.100.9/x.sh'',
       \<lparr>ua_package = JStr ''p'', ua_url = JStr ''http://203.0.113.7/x.sh'', ua_reason = JStr [], ua_created_at = JStr []\<rparr>)]"
  by code_simp

text \<open>The refusal of FATAL ids looks at the id before it is put in capitals.\<close>

lemma lower_case_fatal_accepted:
  "\<exists>ov st1. add_override now obs \<lparr>ar_rule_id = ''r012'', ar_reason = ''noise'', ar_package = None, ar_ttl = None, ar_requires_clear = False\<rparr> st
     = Inr (ov, st1) \<and> ro_rule_id ov = JStr ''R012''"
proof -
  have "py_strip ''noise'' \<noteq> []" "py_upper ''r012'' = ''R012''" by code_simp+
  then show ?thesis by (simp add: add_override_def validate_def OVERRIDE_FATAL_def requested_def Let_def)
qed

text \<open>One entry whose rule id is a list ends every filtering that would reach it.\<close>

lemma list_rule_id_aborts:
  "filter_triggered_rules fs pkg corroborated now
     (Stored (JObj [(''overrides'', JArr [JObj [(''rule_id'', JArr [JStr ''H001''])]])])) = Inl TypeError"
  by (simp add: filter_triggered_rules_def load_overrides_def entries_of_def load_file_def ensure_file_def field_def
      dict_get_def List.map_filter_def read_override_def is_active_def Let_def)

text \<open>Of an override under a former id and one under the current id the earlier in the file governs.\<close>

lemma former_id_governs:
  "map_option ro_reason (governing None (Stored (JObj [(''overrides'', JArr
     [JObj [(''rule_id'', JStr ''R004''), (''reason'', JStr ''old'')], JObj [(''rule_id'', JStr ''H001''), (''reason'', JStr ''new'')]])])) ''H001'')
   = Some (JStr ''old'')"
  by code_simp

end
