(* ===== verification/Aur_Rpc.thy ===== *)
theory Aur_Rpc
  imports Override
begin

text \<open>
  Which packages the AUR still has (\<^verbatim>\<open>discovery.py\<close>, the cache of \<^verbatim>\<open>db/_history.py\<close>) and the pruning of the
  packages it no longer has (\<^verbatim>\<open>prune\<close> of the client, \<^verbatim>\<open>forget_prune\<close>).  One network attempt is an argument:
  a parsed body, an HTTP error, a failure the code retries (a socket error, a body that is no JSON or too large)
  or an exception it does not catch.  The configuration section, the clock, the switches and whether the database
  answers are arguments too.  The waiting between attempts, a time to live that is not finite, and equal keys of
  different JSON types (\<^verbatim>\<open>1\<close> and \<^verbatim>\<open>true\<close>) are left out.
\<close>

section \<open>A query and its attempts\<close>

definition RPC_MAX_RETRIES :: nat where "RPC_MAX_RETRIES = 3"

definition RPC_RETRYABLE_STATUS :: "nat list" where "RPC_RETRYABLE_STATUS = [429, 500, 502, 503, 504]"

datatype rpc_attempt = Reply json | Http_Error nat | Broken | Uncaught

datatype rpc_error = Wrong_Shape | Unhashable_Name | Uncaught_Error | Section_Error | No_Answer

type_synonym rpc_record = "(string \<times> json) list"
type_synonym rpc_results = "(json \<times> rpc_record) list"

fun results_set :: "rpc_results \<Rightarrow> json \<Rightarrow> rpc_record \<Rightarrow> rpc_results" where
  "results_set [] k v = [(k, v)]"
| "results_set ((k', v') # d) k v = (if k' = k then (k, v) # d else (k', v') # results_set d k v)"

fun parse_entries :: "json list \<Rightarrow> rpc_results \<Rightarrow> rpc_error + rpc_results" where
  "parse_entries [] out = Inr out"
| "parse_entries (e # es) out =
     (case e of
        JObj d \<Rightarrow>
          (case map_of d ''Name'' of
             None \<Rightarrow> Inl Wrong_Shape
           | Some k \<Rightarrow> (if hashable k then parse_entries es (results_set out k d) else Inl Unhashable_Name))
      | _ \<Rightarrow> Inl Wrong_Shape)"

definition parse_rpc_results :: "json \<Rightarrow> rpc_error + rpc_results" where
  "parse_rpc_results body =
     (case body of
        JObj d \<Rightarrow> (case map_of d ''results'' of Some (JArr es) \<Rightarrow> parse_entries es [] | _ \<Rightarrow> Inl Wrong_Shape)
      | _ \<Rightarrow> Inl Wrong_Shape)"

text \<open>
  The loop over the attempts from number \<open>k\<close>: an answer, the end without one, or an exception.  A name
  that cannot be a key raises \<^verbatim>\<open>TypeError\<close>, which the loop does not catch.
\<close>

function query_from :: "(nat \<Rightarrow> rpc_attempt) \<Rightarrow> nat \<Rightarrow> rpc_error + rpc_results option" where
  "query_from net k =
     (if k > RPC_MAX_RETRIES then Inr None
      else case net k of
        Uncaught \<Rightarrow> Inl Uncaught_Error
      | Broken \<Rightarrow> (if k < RPC_MAX_RETRIES then query_from net (Suc k) else Inr None)
      | Http_Error code \<Rightarrow>
          (if code \<in> set RPC_RETRYABLE_STATUS \<and> k < RPC_MAX_RETRIES then query_from net (Suc k) else Inr None)
      | Reply body \<Rightarrow>
          (case parse_rpc_results body of
             Inr results \<Rightarrow> Inr (Some results)
           | Inl Wrong_Shape \<Rightarrow> (if k < RPC_MAX_RETRIES then query_from net (Suc k) else Inr None)
           | Inl e \<Rightarrow> Inl e))"
  by pat_completeness auto
termination by (relation "measure (\<lambda>(net, k). Suc RPC_MAX_RETRIES - k)") auto

declare query_from.simps [simp del]

definition aur_rpc_query :: "(nat \<Rightarrow> rpc_attempt) \<Rightarrow> rpc_error + rpc_results option" where
  "aur_rpc_query net = query_from net 0"

section \<open>The cache\<close>

record cache_row =
  ca_version :: json
  ca_modified :: json
  ca_at :: rat

text \<open>The time of a row and of the clock in minutes; a row whose time is damaged has that of the epoch.\<close>

record discovery =
  de_section :: json
  de_now :: rat
  de_readable :: bool
  de_writable :: bool
  de_offline :: bool
  de_net :: "string list \<Rightarrow> nat \<Rightarrow> rpc_attempt"

definition is_fresh :: "rat \<Rightarrow> rat \<Rightarrow> cache_row \<Rightarrow> bool" where
  "is_fresh now ttl r \<longleftrightarrow> now - ca_at r < ttl"

definition read_aur_cache :: "rat \<Rightarrow> string list \<Rightarrow> rat \<Rightarrow> cache_row dict \<Rightarrow> cache_row dict \<times> cache_row dict" where
  "read_aur_cache now names ttl cache =
     (filter (\<lambda>(n, r). n \<in> set names \<and> is_fresh now ttl r) cache,
      filter (\<lambda>(n, r). n \<notin> set names \<or> is_fresh now ttl r) cache)"

text \<open>The time to live, nothing when no number can be compared with it.\<close>

definition cache_ttl :: "rpc_record \<Rightarrow> rat option" where
  "cache_ttl cfg =
     (case dict_get cfg ''cache_ttl_minutes'' (JInt 60) of
        JBool b \<Rightarrow> Some (if b then 1 else 0) | JInt i \<Rightarrow> Some (of_int i) | JFloat r \<Rightarrow> r | _ \<Rightarrow> None)"

definition read_fresh_aur_cache ::
    "discovery \<Rightarrow> string list \<Rightarrow> cache_row dict \<Rightarrow> (rpc_error + cache_row dict) \<times> cache_row dict" where
  "read_fresh_aur_cache de names cache =
     (case de_section de of
        JObj cfg \<Rightarrow>
          (case cache_ttl cfg of
             Some ttl \<Rightarrow>
               (if de_readable de
                then (let (hits, cache1) = read_aur_cache (de_now de) names ttl cache in (Inr hits, cache1))
                else (Inr [], cache))
           | None \<Rightarrow> (Inr [], cache))
      | _ \<Rightarrow> (Inl Section_Error, cache))"

definition write_aur_cache :: "rat \<Rightarrow> (string \<times> json \<times> json) list \<Rightarrow> cache_row dict \<Rightarrow> cache_row dict" where
  "write_aur_cache now entries cache =
     fold (\<lambda>(name, version, modified) c. dict_set c name \<lparr>ca_version = version, ca_modified = modified, ca_at = now\<rparr>)
       entries cache"

text \<open>The rows a reply gives; a name that is no string names no package and is left out here.\<close>

fun row_of_result :: "json \<times> rpc_record \<Rightarrow> (string \<times> json \<times> json) option" where
  "row_of_result (JStr name, r) = Some (name, dict_get r ''Version'' (JStr []), dict_get r ''LastModified'' JNull)"
| "row_of_result _ = None"

definition cache_rpc_results :: "discovery \<Rightarrow> rpc_results \<Rightarrow> cache_row dict \<Rightarrow> cache_row dict" where
  "cache_rpc_results de results cache =
     (if results = [] \<or> \<not> de_writable de then cache
      else write_aur_cache (de_now de) (List.map_filter row_of_result results) cache)"

section \<open>What the AUR has\<close>

definition cached_record :: "string \<times> cache_row \<Rightarrow> json \<times> rpc_record" where
  "cached_record = (\<lambda>(n, r). (JStr n, [(''Version'', ca_version r), (''LastModified'', ca_modified r)]))"

text \<open>\<^verbatim>\<open>missed\<close>, and \<^verbatim>\<open>out.update(results)\<close>.\<close>

definition missed_names :: "string list \<Rightarrow> cache_row dict \<Rightarrow> string list" where
  "missed_names names hits = filter (\<lambda>n. n \<notin> fst ` set hits) names"

definition results_update :: "rpc_results \<Rightarrow> rpc_results \<Rightarrow> rpc_results" where
  "results_update out results = fold (\<lambda>(k, v) o'. results_set o' k v) results out"

definition get_aur_package_info ::
    "discovery \<Rightarrow> string list \<Rightarrow> cache_row dict \<Rightarrow> (rpc_error + rpc_results) \<times> cache_row dict" where
  "get_aur_package_info de names cache =
     (if names = [] then (Inr [], cache)
      else case read_fresh_aur_cache de names cache of
        (Inl e, cache1) \<Rightarrow> (Inl e, cache1)
      | (Inr hits, cache1) \<Rightarrow>
          (let missed = missed_names names hits; old = map cached_record hits in
           if missed = [] \<or> de_offline de then (Inr old, cache1)
           else case aur_rpc_query (de_net de missed) of
             Inl e \<Rightarrow> (Inl e, cache1)
           | Inr answer \<Rightarrow>
               (let results = (case answer of None \<Rightarrow> [] | Some r \<Rightarrow> r) in
                (Inr (results_update old results), cache_rpc_results de results cache1))))"

definition get_existing_aur_package_names ::
    "discovery \<Rightarrow> string list \<Rightarrow> cache_row dict \<Rightarrow> (rpc_error + json list option) \<times> cache_row dict" where
  "get_existing_aur_package_names de names cache =
     (if names = [] then (Inr (Some []), cache)
      else case read_fresh_aur_cache de names cache of
        (Inl e, cache1) \<Rightarrow> (Inl e, cache1)
      | (Inr hits, cache1) \<Rightarrow>
          (let missed = missed_names names hits in
           if missed = [] then (Inr (Some (map JStr names)), cache1)
           else if de_offline de then (Inr None, cache1)
           else case aur_rpc_query (de_net de missed) of
             Inl e \<Rightarrow> (Inl e, cache1)
           | Inr None \<Rightarrow> (Inr None, cache1)
           | Inr (Some results) \<Rightarrow>
               (Inr (Some (map (JStr \<circ> fst) hits @ map fst results)), cache_rpc_results de results cache1)))"

section \<open>Pruning\<close>

definition SEED_NAME :: string where "SEED_NAME = ''__seed__''"

definition tracked_packages :: "string list \<Rightarrow> string list" where
  "tracked_packages tracked = filter (\<lambda>n. n \<noteq> SEED_NAME) tracked"

text \<open>The names removed, and the package table after it; \<^verbatim>\<open>forget_package\<close> deletes the rows of one name.\<close>

definition forget_prune :: "json list \<Rightarrow> bool \<Rightarrow> string list \<Rightarrow> string list \<times> string list" where
  "forget_prune existing dry_run tracked =
     (let removed = filter (\<lambda>n. JStr n \<notin> set existing) (tracked_packages tracked) in
      (removed, if dry_run then tracked else filter (\<lambda>n. n \<notin> set removed) tracked))"

definition prune ::
    "discovery \<Rightarrow> bool \<Rightarrow> string list \<Rightarrow> cache_row dict \<Rightarrow> (rpc_error + string list) \<times> string list \<times> cache_row dict" where
  "prune de dry_run tracked cache =
     (let names = tracked_packages tracked in
      if names = [] then (Inr [], tracked, cache)
      else case get_existing_aur_package_names de names cache of
        (Inl e, cache1) \<Rightarrow> (Inl e, tracked, cache1)
      | (Inr None, cache1) \<Rightarrow> (Inl No_Answer, tracked, cache1)
      | (Inr (Some existing), cache1) \<Rightarrow>
          (let (removed, tracked1) = forget_prune existing dry_run tracked in (Inr removed, tracked1, cache1)))"

section \<open>What an answer rests on\<close>

text \<open>
  The attempts that are tried again, and the attempt a query ends with: the first one that is not, at the
  latest the fourth.
\<close>

definition tried_again :: "rpc_attempt \<Rightarrow> bool" where
  "tried_again a =
     (case a of Uncaught \<Rightarrow> False | Broken \<Rightarrow> True | Http_Error code \<Rightarrow> code \<in> {429, 500, 502, 503, 504}
      | Reply body \<Rightarrow> parse_rpc_results body = Inl Wrong_Shape)"

definition deciding :: "(nat \<Rightarrow> rpc_attempt) \<Rightarrow> nat" where
  "deciding net = length (takeWhile (\<lambda>k. tried_again (net k)) [0, 1, 2])"

definition answer_of :: "rpc_attempt \<Rightarrow> rpc_results option" where
  "answer_of a =
     (case a of Reply body \<Rightarrow> (case parse_rpc_results body of Inr results \<Rightarrow> Some results | Inl _ \<Rightarrow> None) | _ \<Rightarrow> None)"

definition raised_by :: "rpc_attempt \<Rightarrow> rpc_error option" where
  "raised_by a =
     (case a of Uncaught \<Rightarrow> Some Uncaught_Error
      | Reply body \<Rightarrow> (if parse_rpc_results body = Inl Wrong_Shape then None
          else case parse_rpc_results body of Inl e \<Rightarrow> Some e | Inr _ \<Rightarrow> None)
      | _ \<Rightarrow> None)"

definition settled :: "rpc_attempt \<Rightarrow> rpc_error + rpc_results option" where
  "settled a = (case raised_by a of Some e \<Rightarrow> Inl e | None \<Rightarrow> Inr (answer_of a))"

lemma query_step:
  "k \<le> RPC_MAX_RETRIES \<Longrightarrow> query_from net k =
     (if tried_again (net k) \<and> k < RPC_MAX_RETRIES then query_from net (Suc k) else settled (net k))"
  unfolding query_from.simps [of net k]
  by (auto simp: tried_again_def settled_def raised_by_def answer_of_def RPC_RETRYABLE_STATUS_def
      split: rpc_attempt.splits sum.splits rpc_error.splits)

lemma query_decided: "aur_rpc_query net = settled (net (deciding net))"
proof -
  have q: "query_from net k = (if tried_again (net k) \<and> k < 3 then query_from net (Suc k) else settled (net k))"
    if "k \<le> 3" for k using query_step [of k net] that by (simp add: RPC_MAX_RETRIES_def)
  have "query_from net 0 = settled (net (deciding net))"
    using q [of 0] q [of 1] q [of 2] q [of 3] by (simp add: deciding_def numeral_2_eq_2 numeral_3_eq_3)
  then show ?thesis by (simp add: aur_rpc_query_def)
qed

text \<open>A fresh cache row, when the cache can be read; the names a list of records carries.\<close>

definition fresh_name :: "discovery \<Rightarrow> cache_row dict \<Rightarrow> string \<Rightarrow> bool" where
  "fresh_name de cache n \<longleftrightarrow> de_readable de \<and>
     (case cache_ttl (case de_section de of JObj cfg \<Rightarrow> cfg | _ \<Rightarrow> []) of None \<Rightarrow> False
      | Some ttl \<Rightarrow> list_ex (\<lambda>(m, r). m = n \<and> is_fresh (de_now de) ttl r) cache)"

definition is_section :: "discovery \<Rightarrow> bool" where
  "is_section de = (case de_section de of JObj cfg \<Rightarrow> True | _ \<Rightarrow> False)"

lemma fresh_hits:
  assumes "read_fresh_aur_cache de names cache = (Inr hits, cache1)"
  shows "is_section de" "fst ` set hits = {n \<in> set names. fresh_name de cache n}"
proof -
  obtain cfg where cfg: "de_section de = JObj cfg"
    using assms by (cases "de_section de") (auto simp: read_fresh_aur_cache_def)
  then show "is_section de" by (simp add: is_section_def)
  show "fst ` set hits = {n \<in> set names. fresh_name de cache n}"
    using assms by (fastforce simp: read_fresh_aur_cache_def read_aur_cache_def cfg fresh_name_def list_ex_iff image_iff
        split: option.splits if_splits)
qed

lemma read_section: "fst (read_fresh_aur_cache de names cache) = Inl e \<longleftrightarrow> \<not> is_section de \<and> e = Section_Error"
  by (auto simp: read_fresh_aur_cache_def is_section_def split: json.splits option.splits prod.splits)

text \<open>The names still to be asked, and the attempt the answer about them rests on.\<close>

definition to_ask :: "discovery \<Rightarrow> string list \<Rightarrow> cache_row dict \<Rightarrow> string list" where
  "to_ask de names cache = filter (\<lambda>n. \<not> fresh_name de cache n) names"

definition last_attempt :: "discovery \<Rightarrow> string list \<Rightarrow> rpc_attempt" where
  "last_attempt de missed = de_net de missed (deciding (de_net de missed))"

lemma missed_to_ask:
  assumes "read_fresh_aur_cache de names cache = (Inr hits, cache1)"
  shows "missed_names names hits = to_ask de names cache"
  unfolding missed_names_def to_ask_def fresh_hits(2) [OF assms] by (rule filter_cong) auto

text \<open>The whole answer about what the AUR still has: an exception, no answer, or the names.\<close>

lemma existing_names_exact:
  assumes "names \<noteq> []"
  shows "case fst (get_existing_aur_package_names de names cache) of
      Inl e \<Rightarrow> (if is_section de then to_ask de names cache \<noteq> [] \<and> \<not> de_offline de
          \<and> raised_by (last_attempt de (to_ask de names cache)) = Some e else e = Section_Error)
    | Inr None \<Rightarrow> is_section de \<and> to_ask de names cache \<noteq> [] \<and>
        (de_offline de \<or> settled (last_attempt de (to_ask de names cache)) = Inr None)
    | Inr (Some existing) \<Rightarrow> is_section de \<and>
        (if to_ask de names cache = [] then set existing = JStr ` set names
         else \<not> de_offline de \<and> (case settled (last_attempt de (to_ask de names cache)) of
             Inr (Some results) \<Rightarrow>
               set existing = JStr ` {n \<in> set names. fresh_name de cache n} \<union> fst ` set results
           | _ \<Rightarrow> False))"
proof (cases "read_fresh_aur_cache de names cache")
  case (Pair r cache1)
  show ?thesis
  proof (cases r)
    case (Inl e)
    with Pair have "\<not> is_section de" "e = Section_Error" using read_section [of de names cache e] by simp_all
    with Inl Pair assms show ?thesis by (simp add: get_existing_aur_package_names_def)
  next
    case (Inr hits)
    note h = Pair [unfolded Inr]
    have run: "get_existing_aur_package_names de names cache =
        (if to_ask de names cache = [] then (Inr (Some (map JStr names)), cache1)
         else if de_offline de then (Inr None, cache1)
         else case settled (last_attempt de (to_ask de names cache)) of
             Inl e \<Rightarrow> (Inl e, cache1) | Inr None \<Rightarrow> (Inr None, cache1)
           | Inr (Some results) \<Rightarrow>
               (Inr (Some (map (JStr \<circ> fst) hits @ map fst results)), cache_rpc_results de results cache1))"
      using assms by (simp add: get_existing_aur_package_names_def h missed_to_ask [OF h] query_decided last_attempt_def Let_def)
    have names: "(JStr \<circ> fst) ` set hits = JStr ` {n \<in> set names. fresh_name de cache n}"
      unfolding image_comp [symmetric] fresh_hits(2) [OF h] ..
    show ?thesis
      unfolding run using fresh_hits(1) [OF h] names
      by (auto simp: settled_def split: option.splits sum.splits)
  qed
qed

text \<open>C38: pruning removes exactly the tracked packages that no fresh cache row names and that the reply the
  query ended with does not list, and nothing without such a reply; a failed, refused or forbidden query, an
  exception and a damaged configuration section are errors, and after an error, as after a dry run, every tracked
  package is still there.
\<close>

theorem prune_removes_unlisted:
  "case prune de dry_run tracked cache of (answer, tracked1, cache1) \<Rightarrow>
     let names = tracked_packages tracked; missed = to_ask de names cache in
     (case answer of
        Inl e \<Rightarrow> tracked1 = tracked \<and>
          (if is_section de
           then missed \<noteq> [] \<and>
             (if de_offline de \<or> settled (last_attempt de missed) = Inr None then e = No_Answer
              else raised_by (last_attempt de missed) = Some e)
           else e = Section_Error)
      | Inr removed \<Rightarrow>
          removed = (if missed = [] then []
            else filter (\<lambda>n. \<not> fresh_name de cache n \<and>
              (case answer_of (last_attempt de missed) of None \<Rightarrow> False | Some results \<Rightarrow> JStr n \<notin> fst ` set results)) names) \<and>
          tracked1 = (if dry_run then tracked else filter (\<lambda>n. n \<notin> set removed) tracked) \<and>
          (if missed = [] then True else \<not> de_offline de \<and> answer_of (last_attempt de missed) \<noteq> None))"
proof (cases "tracked_packages tracked = []")
  case True
  then show ?thesis by (simp add: prune_def to_ask_def)
next
  case False
  let ?names = "tracked_packages tracked"
  let ?missed = "to_ask de ?names cache"
  obtain r cache1 where g: "get_existing_aur_package_names de ?names cache = (r, cache1)" by fastforce
  note exact = existing_names_exact [OF False, of de cache, unfolded g fst_conv]
  show ?thesis
  proof (cases r)
    case (Inl e)
    with exact have "if is_section de then ?missed \<noteq> [] \<and> \<not> de_offline de
        \<and> raised_by (last_attempt de ?missed) = Some e else e = Section_Error" by simp
    then show ?thesis using False by (auto simp: prune_def g Inl Let_def settled_def)
  next
    case (Inr a)
    show ?thesis
    proof (cases a)
      case None
      with exact Inr show ?thesis using False by (auto simp: prune_def g Let_def)
    next
      case (Some existing)
      have gone: "prune de dry_run tracked cache = (let removed = filter (\<lambda>n. JStr n \<notin> set existing) ?names in
          (Inr removed, (if dry_run then tracked else filter (\<lambda>n. n \<notin> set removed) tracked), cache1))"
        using False by (simp add: prune_def g Inr Some forget_prune_def Let_def)
      show ?thesis
      proof (cases "?missed = []")
        case True
        with exact Inr Some have "set existing = JStr ` set ?names" by simp
        then show ?thesis unfolding gone using True by (simp add: Let_def)
      next
        case asked: False
        with exact Inr Some obtain results where v: "settled (last_attempt de ?missed) = Inr (Some results)"
          and e: "set existing = JStr ` {n \<in> set ?names. fresh_name de cache n} \<union> fst ` set results"
          and on: "\<not> de_offline de"
          by (auto split: sum.splits option.splits)
        from v have a: "answer_of (last_attempt de ?missed) = Some results"
          by (simp add: settled_def split: option.splits)
        have "filter (\<lambda>n. JStr n \<notin> set existing) ?names
            = filter (\<lambda>n. \<not> fresh_name de cache n \<and> JStr n \<notin> fst ` set results) ?names"
          unfolding e by (rule filter_cong) auto
        then show ?thesis unfolding gone using asked on a by (simp add: Let_def)
      qed
    qed
  qed
qed

section \<open>On concrete replies\<close>

definition online :: "json \<Rightarrow> discovery" where
  "online body = \<lparr>de_section = JObj [], de_now = 1000, de_readable = True, de_writable = True, de_offline = False,
     de_net = (\<lambda>names k. if k = 0 then Http_Error 503 else Reply body)\<rparr>"

lemma prune_sample:
  "prune (online (JObj [(''results'', JArr [JObj [(''Name'', JStr ''b'')]])])) False [''__seed__'', ''a'', ''b'', ''c'']
     [(''a'', \<lparr>ca_version = JNull, ca_modified = JNull, ca_at = 990\<rparr>)]
   = (Inr [''c''], [''__seed__'', ''a'', ''b''],
      [(''a'', \<lparr>ca_version = JNull, ca_modified = JNull, ca_at = 990\<rparr>),
       (''b'', \<lparr>ca_version = JStr [], ca_modified = JNull, ca_at = 1000\<rparr>)])"
  by code_simp

text \<open>
  An error reply with an empty list of results counts as the AUR having none of the names, and everything that is
  not in the cache is removed; a record whose name is a list raises instead of leaving the query without an answer.
\<close>

lemma error_reply_prunes_everything:
  "fst (prune (online (JObj [(''type'', JStr ''error''), (''error'', JStr ''Too many package results.''),
       (''results'', JArr [])])) False [''a'', ''b''] []) = Inr [''a'', ''b'']"
  by code_simp

lemma unhashable_name_raises:
  "fst (prune (online (JObj [(''results'', JArr [JObj [(''Name'', JArr [])]])])) False [''a''] [])
   = Inl Unhashable_Name"
  by code_simp

end
