(* ===== verification/Depth.thy ===== *)
theory Depth
  imports Scoring Dep_Graph Aur_Rpc
begin

text \<open>
  The analysis of a package's AUR dependency closure (\<^verbatim>\<open>depth.py\<close>, with the wrappers
  \<^verbatim>\<open>_walk_dependencies\<close> and \<^verbatim>\<open>_deps_not_scanned\<close> of \<^verbatim>\<open>analysis/pipeline\<close>): the walk that analyses each
  dependency once, level by level under two ceilings, and the closure that records who needs what.  The
  provider of the metadata is the code's protocol as a record of answers, with \<open>None\<close> where asking
  raises; the corpus snapshot and the AUR RPC with its cache provide it.  Each analysis is an argument.
\<close>

section \<open>Providers\<close>

definition MAX_DEPTH_LEVELS :: nat where "MAX_DEPTH_LEVELS = 8"
definition MAX_DEPTH_NODES :: nat where "MAX_DEPTH_NODES = 200"

record provider =
  pv_deps :: "string \<Rightarrow> string list option"
  pv_is_aur :: "string \<Rightarrow> bool option"
  pv_aur_name :: "string \<Rightarrow> string"
  pv_available :: bool

text \<open>The children of a package: triples of the target, the field and the parent.\<close>

definition child :: "provider \<Rightarrow> string list \<Rightarrow> string \<Rightarrow> string option" where
  "child p seen raw =
     (let dep = normalize_dependency raw in
      if dep = [] \<or> dep \<in> set seen then None
      else (let target = pv_aur_name p dep in
            if pv_is_aur p target = Some True then Some target else None))"

definition aur_children :: "provider \<Rightarrow> string \<Rightarrow> string list \<Rightarrow> (string \<times> string \<times> string) list" where
  "aur_children p name seen =
     (case pv_deps p name of
        None \<Rightarrow> []
      | Some raws \<Rightarrow> map (\<lambda>target. (target, ''depends'', name)) (List.map_filter (child p seen) (sorted_set raws)))"

subsection \<open>The corpus snapshot\<close>

definition snapshot_deps :: "meta_entry dict \<Rightarrow> string \<Rightarrow> string list" where
  "snapshot_deps packages name =
     (case map_of packages name of
        None \<Rightarrow> []
      | Some e \<Rightarrow> uniq_first (filter (\<lambda>d. d \<noteq> []) (map normalize_dependency (all_deps e))))"

definition snapshot_provider :: "meta_entry dict \<Rightarrow> provider" where
  "snapshot_provider packages =
     \<lparr>pv_deps = (\<lambda>name. Some (snapshot_deps packages name)),
      pv_is_aur = (\<lambda>name. Some (map_of packages name \<noteq> None)),
      pv_aur_name = (\<lambda>name. if map_of packages name \<noteq> None then name
        else (case unique_provider packages name of None \<Rightarrow> name | Some target \<Rightarrow> target)),
      pv_available = True\<rparr>"

subsection \<open>The RPC\<close>

text \<open>
  The cache holds the answer for every name asked, \<open>None\<close> for a name the AUR does not have.  A fetch
  raises or returns the entries it knows; the offline switch counts only for the built-in fetch.
\<close>

record rpc =
  rc_cache :: "meta_entry option dict"
  rc_available :: bool

definition rpc_start :: rpc where "rpc_start = \<lparr>rc_cache = [], rc_available = True\<rparr>"

type_synonym fetcher = "string list \<Rightarrow> meta_entry dict option"

definition prime :: "bool \<Rightarrow> fetcher \<Rightarrow> string list \<Rightarrow> rpc \<Rightarrow> rpc" where
  "prime cut_off fetch names s =
     (let wanted = filter (\<lambda>n. map_of (rc_cache s) n = None) (uniq_first names) in
      if wanted = [] then s
      else
        (let (found, ok) = (if cut_off then ([], False)
               else case fetch wanted of None \<Rightarrow> ([], False) | Some found \<Rightarrow> (found, True)) in
         \<lparr>rc_cache = rc_cache s @ map (\<lambda>n. (n, map_of found n)) wanted,
          rc_available = rc_available s \<and> ok\<rparr>))"

definition rpc_entry :: "bool \<Rightarrow> fetcher \<Rightarrow> string \<Rightarrow> rpc \<Rightarrow> meta_entry option \<times> rpc" where
  "rpc_entry cut_off fetch name s =
     (let s1 = (if map_of (rc_cache s) name = None then prime cut_off fetch [name] s else s) in
      (case map_of (rc_cache s1) name of None \<Rightarrow> None | Some e \<Rightarrow> e, s1))"

definition rpc_is_aur :: "bool \<Rightarrow> fetcher \<Rightarrow> string \<Rightarrow> rpc \<Rightarrow> bool \<times> rpc" where
  "rpc_is_aur cut_off fetch name s =
     (let (e, s1) = rpc_entry cut_off fetch name s in (e \<noteq> None, s1))"

definition entry_deps :: "meta_entry option \<Rightarrow> string list" where
  "entry_deps e =
     (case e of None \<Rightarrow> []
      | Some e \<Rightarrow> uniq_first (filter (\<lambda>d. d \<noteq> []) (map normalize_dependency (all_deps e))))"

definition rpc_deps_of :: "bool \<Rightarrow> fetcher \<Rightarrow> string \<Rightarrow> rpc \<Rightarrow> string list \<times> rpc" where
  "rpc_deps_of cut_off fetch name s =
     (let (e, s1) = rpc_entry cut_off fetch name s in (entry_deps e, s1))"

text \<open>
  The built-in fetch over the database cache and the network of \<open>Aur_Rpc\<close>; the dependency arrays of a record are
  lists of strings.  Its answers as a provider: \<open>answered\<close> is what the run has got for each name, true or not, and
  \<open>available\<close> the flag at the end; the cache keeps the first answer to a name.
\<close>

definition strings_in :: "json \<Rightarrow> string list" where
  "strings_in j = (case j of JArr xs \<Rightarrow> List.map_filter (\<lambda>x. case x of JStr s \<Rightarrow> Some s | _ \<Rightarrow> None) xs | _ \<Rightarrow> [])"

fun entry_of_result :: "json \<times> rpc_record \<Rightarrow> (string \<times> meta_entry) option" where
  "entry_of_result (JStr name, r) =
     Some (name, \<lparr>me_provides = [], me_depends = strings_in (dict_get r ''Depends'' JNull),
       me_make_depends = strings_in (dict_get r ''MakeDepends'' JNull),
       me_check_depends = strings_in (dict_get r ''CheckDepends'' JNull), me_maintainer = []\<rparr>)"
| "entry_of_result _ = None"

definition builtin_fetch :: "discovery \<Rightarrow> cache_row dict \<Rightarrow> fetcher" where
  "builtin_fetch de cache names =
     (case fst (get_aur_package_info de names cache) of Inl e \<Rightarrow> None
      | Inr results \<Rightarrow> Some (List.map_filter entry_of_result results))"

definition rpc_provider :: "(string \<Rightarrow> meta_entry option) \<Rightarrow> bool \<Rightarrow> provider" where
  "rpc_provider answered available =
     \<lparr>pv_deps = (\<lambda>name. Some (entry_deps (answered name))),
      pv_is_aur = (\<lambda>name. Some (answered name \<noteq> None)),
      pv_aur_name = (\<lambda>name. name), pv_available = available\<rparr>"

lemma answers_are_kept:
  "map_of (rc_cache s) n = Some e \<Longrightarrow> map_of (rc_cache (snd (rpc_entry cut_off fetch m s))) n = Some e"
  by (auto simp: rpc_entry_def prime_def Let_def map_add_def split: option.splits prod.splits)

section \<open>The walk\<close>

record report =
  dr_name :: string
  dr_depth :: nat
  dr_score :: int
  dr_risk :: string
  dr_risk_label :: string
  dr_findings :: nat
  dr_gaps :: "string list"
  dr_via :: string
  dr_parent :: string
  dr_failed :: bool
  dr_error :: string

record depth_result =
  dp_reports :: "report list"
  dp_truncated :: bool
  dp_reason :: string
  dp_unavailable :: bool
  dp_added_unreported :: bool

definition no_result :: depth_result where
  "no_result = \<lparr>dp_reports = [], dp_truncated = False, dp_reason = [], dp_unavailable = False,
     dp_added_unreported = False\<rparr>"

text \<open>The flag and the configured level are given as what \<^verbatim>\<open>int(...)\<close> makes of them, \<open>None\<close> if it raises.\<close>

definition resolve_depth :: "int option option \<Rightarrow> int option \<Rightarrow> int" where
  "resolve_depth flag configured =
     (case (case flag of None \<Rightarrow> configured | Some v \<Rightarrow> v) of
        None \<Rightarrow> 1 | Some d \<Rightarrow> (if d < -1 then -1 else d))"

definition wanted :: "nat \<Rightarrow> int \<Rightarrow> bool" where
  "wanted level depth \<longleftrightarrow>
     (if depth = 0 then False
      else if depth = -1 then level \<le> MAX_DEPTH_LEVELS
      else int level \<le> min depth (int MAX_DEPTH_LEVELS))"

text \<open>An analysis raises with a text, returns nothing, or returns a fact.\<close>

type_synonym analysis = "string \<Rightarrow> string + package_fact option"

definition failed_report :: "string \<Rightarrow> nat \<Rightarrow> string \<Rightarrow> string \<Rightarrow> string \<Rightarrow> report" where
  "failed_report name level via parent err =
     \<lparr>dr_name = name, dr_depth = level, dr_score = 0, dr_risk = [], dr_risk_label = [], dr_findings = 0,
      dr_gaps = [], dr_via = via, dr_parent = parent, dr_failed = True, dr_error = err\<rparr>"

definition analyse_one :: "string \<Rightarrow> nat \<Rightarrow> string \<Rightarrow> string \<Rightarrow> analysis \<Rightarrow> report" where
  "analyse_one name level via parent analyse =
     (case analyse name of
        Inl err \<Rightarrow> failed_report name level via parent (take 200 err)
      | Inr None \<Rightarrow> failed_report name level via parent ''analysis returned nothing''
      | Inr (Some f) \<Rightarrow>
          \<lparr>dr_name = name, dr_depth = level, dr_score = pf_final_score f, dr_risk = verdict_level f,
           dr_risk_label = verdict_label f,
           dr_findings = length (filter (\<lambda>e. e_weight e > 0 \<or> e_severity e \<in> {''FATAL'', ''CRITICAL''}) (pf_score_breakdown f)),
           dr_gaps = pf_coverage_gaps f, dr_via = via, dr_parent = parent, dr_failed = False, dr_error = []\<rparr>)"

text \<open>
  The state of the walk: the names seen, the reports, the next frontier, and whether the node ceiling
  has returned early.
\<close>

record walk =
  wk_seen :: "string list"
  wk_reports :: "report list"
  wk_truncated :: bool
  wk_reason :: string
  wk_next :: "(string \<times> string \<times> string) list"
  wk_stopped :: bool

definition stop_at_nodes :: "walk \<Rightarrow> walk" where
  "stop_at_nodes w =
     w\<lparr>wk_truncated := True, wk_stopped := True,
       wk_reason := ''stopped after '' @ show_nat MAX_DEPTH_NODES @
         '' dependencies; the closure is larger than one run analyses''\<rparr>"

definition report_one :: "provider \<Rightarrow> report \<Rightarrow> walk \<Rightarrow> walk" where
  "report_one p r w =
     (let w1 = w\<lparr>wk_seen := wk_seen w @ [dr_name r], wk_reports := wk_reports w @ [r]\<rparr> in
      if dr_failed r
      then w1\<lparr>wk_truncated := True,
              wk_reason := (if wk_reason w = [] then dr_name r @
                '' could not be analysed, so its own dependencies were not reached either'' else wk_reason w)\<rparr>
      else w1\<lparr>wk_next := wk_next w @ aur_children p (dr_name r) (wk_seen w1)\<rparr>)"

definition visit_dep :: "provider \<Rightarrow> analysis \<Rightarrow> nat \<Rightarrow> string \<times> string \<times> string \<Rightarrow> walk \<Rightarrow> walk" where
  "visit_dep p analyse level = (\<lambda>(name, via, parent) w.
     if wk_stopped w \<or> name \<in> set (wk_seen w) then w
     else if length (wk_reports w) \<ge> MAX_DEPTH_NODES then stop_at_nodes w
     else report_one p (analyse_one name level via parent analyse) w)"

definition walk_level :: "provider \<Rightarrow> analysis \<Rightarrow> nat \<Rightarrow> walk \<Rightarrow> walk" where
  "walk_level p analyse level w = List.fold (visit_dep p analyse level) (wk_next w) (w\<lparr>wk_next := []\<rparr>)"

function walk_from :: "provider \<Rightarrow> analysis \<Rightarrow> int \<Rightarrow> nat \<Rightarrow> walk \<Rightarrow> nat \<times> walk" where
  "walk_from p analyse depth level w =
     (if wk_next w \<noteq> [] \<and> wanted level depth \<and> \<not> wk_stopped w
      then walk_from p analyse depth (Suc level) (walk_level p analyse level w)
      else (level, w))"
  by pat_completeness auto
termination
  by (relation "measure (\<lambda>(p, analyse, depth, level, w). Suc MAX_DEPTH_LEVELS - level)")
    (auto simp: wanted_def split: if_splits)

declare walk_from.simps [simp del]

definition finish_walk :: "provider \<Rightarrow> int \<Rightarrow> nat \<times> walk \<Rightarrow> depth_result" where
  "finish_walk p depth = (\<lambda>(level, w).
     (let deeper = (\<not> wk_stopped w \<and> wk_next w \<noteq> [] \<and> level > MAX_DEPTH_LEVELS
                     \<and> (depth = -1 \<or> depth > int MAX_DEPTH_LEVELS)) in
      \<lparr>dp_reports = wk_reports w, dp_truncated = wk_truncated w \<or> deeper,
       dp_reason = (if deeper then ''stopped at '' @ show_nat MAX_DEPTH_LEVELS @
         '' levels; the closure is deeper than one run walks'' else wk_reason w),
       dp_unavailable = \<not> pv_available p, dp_added_unreported = False\<rparr>))"

definition walk_start :: "provider \<Rightarrow> string \<Rightarrow> string list \<Rightarrow> walk" where
  "walk_start p start_name already =
     (let seen = (if start_name \<in> set already then already else already @ [start_name]) in
      \<lparr>wk_seen = seen, wk_reports = [], wk_truncated = False, wk_reason = [],
       wk_next = aur_children p start_name seen, wk_stopped = False\<rparr>)"

text \<open>The result, and the shared set of names the walk leaves behind.\<close>

definition walk_dependencies ::
    "provider \<Rightarrow> analysis \<Rightarrow> string \<Rightarrow> int \<Rightarrow> string list \<Rightarrow> depth_result \<times> string list" where
  "walk_dependencies p analyse start_name depth already =
     (if depth = 0 then (no_result\<lparr>dp_unavailable := \<not> pv_available p\<rparr>, already)
      else (let run = walk_from p analyse depth 1 (walk_start p start_name already) in
            (finish_walk p depth run, wk_seen (snd run))))"

section \<open>What a walk reaches\<close>

text \<open>The AUR packages a package needs, and those within a number of levels of the roots.\<close>

definition needs :: "provider \<Rightarrow> string \<Rightarrow> string list" where
  "needs p name = map fst (aur_children p name [])"

primrec reached :: "provider \<Rightarrow> string list \<Rightarrow> nat \<Rightarrow> string list" where
  "reached p roots 0 = roots"
| "reached p roots (Suc k) = remdups (reached p roots k @ concat (map (needs p) (reached p roots k)))"

definition in_reach :: "provider \<Rightarrow> string list \<Rightarrow> int \<Rightarrow> string set" where
  "in_reach p roots depth =
     (if depth = -1 then (\<Union>k. set (reached p roots k)) else set (reached p roots (nat depth)))"

text \<open>
  The walks of one review share the names they have seen: a walk goes through the packages that no earlier walk
  has, as if the others were not in the AUR.
\<close>

definition unseen :: "provider \<Rightarrow> string set \<Rightarrow> provider" where
  "unseen p S = p\<lparr>pv_is_aur := (\<lambda>n. if n \<in> S then Some False else pv_is_aur p n)\<rparr>"

definition is_aur :: "provider \<Rightarrow> string \<Rightarrow> bool" where
  "is_aur p name \<longleftrightarrow> pv_is_aur p name = Some True"

text \<open>Where a level adds nothing, no later level does.\<close>

lemma reached_mono: "set (reached p roots k) \<subseteq> set (reached p roots (k + n))"
  by (induction n) auto

lemma reached_closed:
  assumes "set (reached p roots (Suc k)) = set (reached p roots k)"
  shows "set (reached p roots (k + n)) = set (reached p roots k)"
proof (induction n)
  case (Suc n)
  have "set (reached p roots (Suc (k + n))) = set (reached p roots (k + n)) \<union> (\<Union>a \<in> set (reached p roots (k + n)). set (needs p a))"
    by auto
  also have "\<dots> = set (reached p roots (Suc k))" unfolding Suc.IH by auto
  finally show ?case using assms by simp
qed simp

lemma closed_in_reach:
  assumes "set (reached p roots (Suc k)) = set (reached p roots k)" "depth = -1 \<or> int k \<le> depth"
  shows "in_reach p roots depth = set (reached p roots k)"
proof (cases "depth = -1")
  case True
  have "set (reached p roots j) \<subseteq> set (reached p roots k)" for j
  proof (cases "j \<le> k")
    case True
    then show ?thesis using reached_mono [of p roots j "k - j"] by simp
  next
    case False
    then show ?thesis using reached_closed [OF assms(1), of "j - k"] by simp
  qed
  with True show ?thesis by (auto simp: in_reach_def)
next
  case False
  with assms(2) show ?thesis using reached_closed [OF assms(1), of "nat depth - k"] by (simp add: in_reach_def)
qed

text \<open>
  The contract of a provider: an AUR package is resolved to itself.  It makes the names seen and the
  names resolved comparable, so that skipping a seen name loses nothing.
\<close>

lemma level_sets:
  assumes "n \<notin> S" "K \<union> insert n S = h n \<union> insert n S"
    and "X \<union> (insert n S \<union> F) = (N \<union> K) \<union> (insert n S \<union> F) \<union> (\<Union>a \<in> (insert n S \<union> F) - insert n S. h a)"
  shows "X \<union> (S \<union> insert n F) = N \<union> (S \<union> insert n F) \<union> (\<Union>a \<in> (S \<union> insert n F) - S. h a)"
proof -
  have "(S \<union> insert n F) - S = insert n ((insert n S \<union> F) - insert n S)" using assms(1) by auto
  then have "N \<union> (S \<union> insert n F) \<union> (\<Union>a \<in> (S \<union> insert n F) - S. h a)
      = N \<union> (insert n S \<union> h n) \<union> F \<union> (\<Union>a \<in> (insert n S \<union> F) - insert n S. h a)" by auto
  also have "\<dots> = N \<union> (insert n S \<union> K) \<union> F \<union> (\<Union>a \<in> (insert n S \<union> F) - insert n S. h a)"
    using assms(2) by (simp add: Un_commute)
  also have "\<dots> = X \<union> (insert n S \<union> F)" unfolding assms(3) by auto
  finally show ?thesis by auto
qed

lemma children_set:
  "set (map fst (aur_children p a seen))
   = {t. \<exists>raws raw. pv_deps p a = Some raws \<and> raw \<in> set raws \<and> child p seen raw = Some t}"
proof (cases "pv_deps p a")
  case (Some raws)
  have mf: "set (List.map_filter f xs) = {t. \<exists>x \<in> set xs. f x = Some t}" for f :: "string \<Rightarrow> string option" and xs
    by (induction xs) (auto simp: map_filter_simps split: option.splits)
  have "map fst (aur_children p a seen) = List.map_filter (child p seen) (sorted_set raws)"
    by (simp add: aur_children_def Some comp_def)
  with Some mf show ?thesis by auto
qed (simp add: aur_children_def)

lemma unseen_needs: "set (needs (unseen p S) a) = set (needs p a) - S"
proof -
  have "child (unseen p S) [] raw = Some t \<longleftrightarrow> child p [] raw = Some t \<and> t \<notin> S" for raw t
    by (auto simp: child_def unseen_def Let_def split: if_splits)
  then show ?thesis unfolding needs_def children_set by (auto simp: unseen_def)
qed

lemma unseen_disjoint: "r \<notin> S \<Longrightarrow> set (reached (unseen p S) [r] k) \<inter> S = {}"
  by (induction k) (auto simp: unseen_needs)

lemma unseen_none [simp]: "unseen p {} = p" by (simp add: unseen_def)

lemma unseen_step:
  "set (reached (unseen p S) [r] (Suc k)) \<union> S
   = (set (reached (unseen p S) [r] k) \<union> (\<Union>a \<in> set (reached (unseen p S) [r] k). set (needs p a))) \<union> S"
  by (auto simp: unseen_needs)

locale aur_metadata =
  fixes p :: provider
  assumes resolved: "is_aur p name \<Longrightarrow> pv_aur_name p name = name"
begin

lemma child_seen:
  assumes "list_all (is_aur p) seen"
  shows "set (map fst (aur_children p a seen)) \<union> set seen = set (needs p a) \<union> set seen"
    and "list_all (is_aur p) (map fst (aur_children p a seen))"
proof -
  have less: "child p [] raw = Some t" if "child p seen raw = Some t" for raw t
    using that by (simp add: child_def Let_def split: if_splits)
  have more: "child p seen raw = Some t \<or> t \<in> set seen" if "child p [] raw = Some t" for raw t
  proof (cases "normalize_dependency raw \<in> set seen")
    case True
    with assms have "is_aur p (normalize_dependency raw)" by (auto simp: list_all_iff)
    with True that show ?thesis by (simp add: child_def Let_def resolved split: if_splits)
  next
    case False
    with that show ?thesis by (simp add: child_def Let_def split: if_splits)
  qed
  show "set (map fst (aur_children p a seen)) \<union> set seen = set (needs p a) \<union> set seen"
    unfolding needs_def children_set using less more by blast
  show "list_all (is_aur p) (map fst (aur_children p a seen))"
    unfolding list_all_iff children_set by (auto simp: child_def Let_def is_aur_def split: if_splits)
qed

lemma visit_cases:
  obtains (same) "visit_dep p analyse level (name, via, parent) w = w" "wk_stopped w \<or> name \<in> set (wk_seen w)"
  | (full) "visit_dep p analyse level (name, via, parent) w = stop_at_nodes w" "\<not> wk_stopped w"
      "name \<notin> set (wk_seen w)" "MAX_DEPTH_NODES \<le> length (wk_reports w)"
  | (new) "visit_dep p analyse level (name, via, parent) w
        = report_one p (analyse_one name level via parent analyse) w"
      "\<not> wk_stopped w" "name \<notin> set (wk_seen w)" "length (wk_reports w) < MAX_DEPTH_NODES"
  by (cases "wk_stopped w \<or> name \<in> set (wk_seen w)"; cases "MAX_DEPTH_NODES \<le> length (wk_reports w)")
    (auto simp: visit_dep_def)

lemma report_name: "dr_name (analyse_one name level via parent analyse) = name"
  "dr_depth (analyse_one name level via parent analyse) = level"
  by (auto simp: analyse_one_def failed_report_def split: sum.split option.split)

text \<open>What every step of the walk keeps, whatever the analyses answer.\<close>

definition walk_inv :: "string list \<Rightarrow> nat \<Rightarrow> walk \<Rightarrow> bool" where
  "walk_inv start level w \<longleftrightarrow>
     start @ map dr_name (wk_reports w) = wk_seen w \<and> distinct (wk_seen w)
     \<and> list_all (is_aur p) (wk_seen w) \<and> list_all (is_aur p) (map fst (wk_next w))
     \<and> length (wk_reports w) \<le> MAX_DEPTH_NODES
     \<and> list_all (\<lambda>r. 1 \<le> dr_depth r \<and> dr_depth r \<le> level) (wk_reports w)
     \<and> (wk_stopped w \<longrightarrow> wk_truncated w) \<and> (list_ex dr_failed (wk_reports w) \<longrightarrow> wk_truncated w)"

lemma visit_inv:
  assumes "walk_inv start level w" "is_aur p name" "1 \<le> level"
  shows "walk_inv start level (visit_dep p analyse level (name, via, parent) w)"
proof (cases rule: visit_cases [of analyse level name via parent w])
  case same
  then show ?thesis using assms(1) by simp
next
  case full
  then show ?thesis using assms(1) by (simp add: walk_inv_def stop_at_nodes_def)
next
  case new
  have w: "list_all (is_aur p) (wk_seen w)" "distinct (wk_seen w)"
    "start @ map dr_name (wk_reports w) = wk_seen w"
    using assms(1) by (simp_all only: walk_inv_def)
  with assms(2) child_seen(2) [of "wk_seen w @ [name]" name]
  have "list_all (is_aur p) (map fst (aur_children p name (wk_seen w @ [name])))" by simp
  moreover have "distinct (wk_seen w @ [name])" "list_all (is_aur p) (wk_seen w @ [name])"
    using w new(3) assms(2) by simp_all
  ultimately show ?thesis
    using assms(1,3) new(4) w(3) unfolding walk_inv_def new(1) report_one_def Let_def
    by (simp add: report_name flip: append_assoc)
qed

lemma fold_inv:
  "\<lbrakk>walk_inv start level w; list_all (is_aur p) (map fst ds); 1 \<le> level\<rbrakk>
   \<Longrightarrow> walk_inv start level (List.fold (visit_dep p analyse level) ds w)"
  by (induction ds arbitrary: w) (auto simp: visit_inv)

lemma visit_truncated: "wk_truncated w \<Longrightarrow> wk_truncated (visit_dep p analyse level d w)"
  by (cases d) (auto simp: visit_dep_def stop_at_nodes_def report_one_def Let_def)

lemma fold_truncated: "wk_truncated w \<Longrightarrow> wk_truncated (List.fold (visit_dep p analyse level) ds w)"
  by (induction ds arbitrary: w) (simp_all add: visit_truncated)

lemma fold_level:
  "\<lbrakk>walk_inv start level w; list_all (is_aur p) (map fst ds); 1 \<le> level;
    \<not> wk_truncated (List.fold (visit_dep p analyse level) ds w)\<rbrakk>
   \<Longrightarrow> set (wk_seen (List.fold (visit_dep p analyse level) ds w)) = set (wk_seen w) \<union> fst ` set ds
     \<and> fst ` set (wk_next (List.fold (visit_dep p analyse level) ds w)) \<union> (set (wk_seen w) \<union> fst ` set ds)
       = fst ` set (wk_next w) \<union> (set (wk_seen w) \<union> fst ` set ds)
         \<union> (\<Union>a \<in> (set (wk_seen w) \<union> fst ` set ds) - set (wk_seen w). set (needs p a))"
proof (induction ds arbitrary: w)
  case (Cons d ds)
  obtain name via parent where d: "d = (name, via, parent)" by (cases d)
  let ?w = "visit_dep p analyse level d w"
  have aur: "is_aur p name" "list_all (is_aur p) (map fst ds)" using Cons.prems(2) by (simp_all add: d)
  have inv: "walk_inv start level ?w" using visit_inv [OF Cons.prems(1) aur(1) Cons.prems(3)] by (simp add: d)
  have open_w: "\<not> wk_truncated ?w" using Cons.prems(4) fold_truncated by fastforce
  note IH = Cons.IH [OF inv aur(2) Cons.prems(3)]
  show ?case
  proof (cases rule: visit_cases [of analyse level name via parent w])
    case same
    with open_w Cons.prems(1) have "?w = w" "name \<in> set (wk_seen w)" by (auto simp: d walk_inv_def)
    with IH Cons.prems(4) show ?thesis by (simp add: d insert_absorb)
  next
    case full
    with open_w show ?thesis by (simp add: d stop_at_nodes_def)
  next
    case new
    have w: "wk_seen ?w = wk_seen w @ [name]"
      "wk_next ?w = wk_next w @ aur_children p name (wk_seen w @ [name])"
      using new(1) open_w by (auto simp: d report_one_def Let_def report_name split: if_splits)
    have "list_all (is_aur p) (wk_seen w @ [name])" using Cons.prems(1) aur(1)
      by (simp add: walk_inv_def)
    note kids = child_seen(1) [OF this, of name]
    have sets: "set (wk_seen ?w) = insert name (set (wk_seen w))"
      "fst ` set (wk_next ?w) = fst ` set (wk_next w) \<union> fst ` set (aur_children p name (wk_seen w @ [name]))"
      by (auto simp: w)
    have kids: "fst ` set (aur_children p name (wk_seen w @ [name])) \<union> insert name (set (wk_seen w))
        = set (needs p name) \<union> insert name (set (wk_seen w))" using kids by simp
    have "\<not> wk_truncated (List.fold (visit_dep p analyse level) ds ?w)" using Cons.prems(4) by simp
    note IH = IH [OF this, unfolded sets]
    show ?thesis
      using conjunct1 [OF IH] level_sets [OF new(3) kids conjunct2 [OF IH]] by (simp add: d)
  qed
qed simp

text \<open>Before a level, an untruncated walk has seen one level less than its frontier reaches.\<close>

definition level_inv :: "string list \<Rightarrow> string set \<Rightarrow> string \<Rightarrow> nat \<Rightarrow> walk \<Rightarrow> bool" where
  "level_inv start S start_name k w \<longleftrightarrow> walk_inv start k w
     \<and> (\<not> wk_truncated w \<longrightarrow> set (wk_seen w) = set (reached (unseen p S) [start_name] k) \<union> S
          \<and> set (reached (unseen p S) [start_name] (Suc k)) \<union> S = set (wk_seen w) \<union> fst ` set (wk_next w))"

lemma walk_inv_later: "walk_inv start k w \<Longrightarrow> walk_inv start (Suc k) w"
  by (auto simp: walk_inv_def list_all_iff)

lemma level_step:
  assumes "level_inv start S start_name k w" "start_name \<notin> S"
  shows "level_inv start S start_name (Suc k) (walk_level p analyse (Suc k) w)"
proof -
  let ?w = "w\<lparr>wk_next := []\<rparr>" and ?v = "walk_level p analyse (Suc k) w"
  let ?R = "\<lambda>k. set (reached (unseen p S) [start_name] k)"
  from assms(1) have inv: "walk_inv start (Suc k) ?w" and aur: "list_all (is_aur p) (map fst (wk_next w))"
    using walk_inv_later [of start k w] by (auto simp: level_inv_def walk_inv_def)
  from fold_inv [OF inv aur] have v: "walk_inv start (Suc k) ?v" by (simp add: walk_level_def)
  have "set (wk_seen ?v) = ?R (Suc k) \<union> S
      \<and> ?R (Suc (Suc k)) \<union> S = set (wk_seen ?v) \<union> fst ` set (wk_next ?v)" if ok: "\<not> wk_truncated ?v"
  proof -
    have "\<not> wk_truncated w" using ok fold_truncated [of ?w] by (auto simp: walk_level_def)
    with assms(1) have w: "set (wk_seen w) = ?R k \<union> S" "?R (Suc k) \<union> S = set (wk_seen w) \<union> fst ` set (wk_next w)"
      by (simp_all add: level_inv_def)
    have apart: "?R (Suc k) \<inter> S = {}" by (rule unseen_disjoint [OF assms(2)])
    have new: "(?R (Suc k) \<union> S) - (?R k \<union> S) = ?R (Suc k) - ?R k" using apart by blast
    have flat: "?R k \<union> S \<union> fst ` set (wk_next w) = ?R (Suc k) \<union> S" using w by simp
    from fold_level [OF inv aur _ ok [unfolded walk_level_def]]
    have seen: "set (wk_seen ?v) = ?R (Suc k) \<union> S"
      and kids: "fst ` set (wk_next ?v) \<union> (?R (Suc k) \<union> S)
        = (?R (Suc k) \<union> S) \<union> (\<Union>a \<in> ?R (Suc k) - ?R k. set (needs p a))"
      by (simp_all add: walk_level_def w(1) flat new del: reached.simps)
    have old: "(\<Union>a \<in> ?R k. set (needs p a)) \<subseteq> ?R (Suc k) \<union> S" using unseen_step [of p S start_name k] by blast
    have "?R (Suc (Suc k)) \<union> S = (?R (Suc k) \<union> S) \<union> (\<Union>a \<in> ?R (Suc k). set (needs p a))"
      unfolding unseen_step [of p S start_name "Suc k"] by (simp only: Un_ac)
    also have "\<dots> = (?R (Suc k) \<union> S) \<union> (\<Union>a \<in> ?R (Suc k) - ?R k. set (needs p a))"
      using old by blast
    finally show ?thesis using seen kids by (metis Un_commute)
  qed
  with v show ?thesis by (simp add: level_inv_def del: reached.simps)
qed

lemma walk_from_inv:
  "\<lbrakk>level_inv start S start_name k w; start_name \<notin> S; k = 0 \<or> wanted k depth; walk_from p analyse depth (Suc k) w = (l, v)\<rbrakk>
   \<Longrightarrow> \<exists>j. l = Suc j \<and> level_inv start S start_name j v \<and> (j = 0 \<or> wanted j depth)
     \<and> (wk_next v = [] \<or> \<not> wanted l depth \<or> wk_stopped v)"
proof (induction "Suc MAX_DEPTH_LEVELS - k" arbitrary: k w rule: less_induct)
  case less
  show ?case
  proof (cases "wk_next w \<noteq> [] \<and> wanted (Suc k) depth \<and> \<not> wk_stopped w")
    case True
    then have "Suc k \<le> MAX_DEPTH_LEVELS" by (auto simp: wanted_def split: if_splits)
    then have "Suc MAX_DEPTH_LEVELS - Suc k < Suc MAX_DEPTH_LEVELS - k" by simp
    from less.hyps [OF this level_step [OF less.prems(1,2), of analyse]] True less.prems(2,4)
    show ?thesis by (simp add: walk_from.simps [of p analyse depth "Suc k" w])
  next
    case False
    with less.prems show ?thesis by (auto simp: walk_from.simps [of p analyse depth "Suc k" w])
  qed
qed

text \<open>The names seen when a walk starts, and those among them it will not go through.\<close>

definition begun :: "string list \<Rightarrow> string \<Rightarrow> string list" where
  "begun already start_name = (if start_name \<in> set already then already else already @ [start_name])"

lemma start_level:
  assumes "is_aur p start_name" "list_all (is_aur p) already" "distinct already"
  shows "level_inv (begun already start_name) (set already - {start_name}) start_name 0 (walk_start p start_name already)"
proof -
  have aur: "list_all (is_aur p) (begun already start_name)" "distinct (begun already start_name)"
    "set (begun already start_name) = insert start_name (set already)" using assms by (auto simp: begun_def)
  note kids = child_seen [OF aur(1), of start_name]
  have "set (reached (unseen p (set already - {start_name})) [start_name] (Suc 0)) \<union> (set already - {start_name})
      = set (begun already start_name) \<union> fst ` set (aur_children p start_name (begun already start_name))"
    using kids(1) unfolding unseen_step aur(3) by auto
  moreover have "set (begun already start_name) = {start_name} \<union> (set already - {start_name})" using aur(3) by auto
  ultimately show ?thesis using kids(2) aur(1,2)
    by (simp add: level_inv_def walk_inv_def walk_start_def Let_def flip: begun_def del: reached.simps(2))
qed

lemma walk_names:
  assumes "walk_inv (begun already start_name) j v" "distinct already"
  shows "set (map dr_name (wk_reports v)) = set (wk_seen v) - insert start_name (set already)"
    and "distinct (map dr_name (wk_reports v))" "set (map dr_name (wk_reports v)) \<inter> insert start_name (set already) = {}"
proof -
  have d: "distinct (begun already start_name @ map dr_name (wk_reports v))"
    and n: "begun already start_name @ map dr_name (wk_reports v) = wk_seen v" using assms(1) by (simp_all add: walk_inv_def)
  have b: "set (begun already start_name) = insert start_name (set already)" by (auto simp: begun_def)
  have s: "set (wk_seen v) = insert start_name (set already) \<union> set (map dr_name (wk_reports v))"
    unfolding n [symmetric] using b by simp
  show "distinct (map dr_name (wk_reports v))" using d by simp
  show apart: "set (map dr_name (wk_reports v)) \<inter> insert start_name (set already) = {}" using d b by auto
  show "set (map dr_name (wk_reports v)) = set (wk_seen v) - insert start_name (set already)" using s apart by blast
qed

lemma walk_covers:
  assumes "is_aur p start_name" "list_all (is_aur p) already" "distinct already" "-1 \<le> depth" "depth \<noteq> 0"
    and "fst (walk_dependencies p analyse start_name depth already) = res" "\<not> dp_truncated res"
  shows "set (map dr_name (dp_reports res)) = in_reach (unseen p (set already - {start_name})) [start_name] depth - {start_name}"
proof -
  let ?S = "set already - {start_name}"
  let ?R = "\<lambda>k. set (reached (unseen p ?S) [start_name] k)"
  obtain l v where run: "walk_from p analyse depth (Suc 0) (walk_start p start_name already) = (l, v)" by fastforce
  have out: "start_name \<notin> ?S" by simp
  from walk_from_inv [OF start_level [OF assms(1-3)] out _ run] obtain j where
    j: "l = Suc j" "level_inv (begun already start_name) ?S start_name j v" "j = 0 \<or> wanted j depth"
      "wk_next v = [] \<or> \<not> wanted l depth \<or> wk_stopped v" by auto
  have res: "res = finish_walk p depth (l, v)"
    using assms(5,6) run by (simp add: walk_dependencies_def Let_def)
  with assms(7) have open_v: "\<not> wk_truncated v"
    and deeper: "wk_stopped v \<or> wk_next v = [] \<or> l \<le> MAX_DEPTH_LEVELS \<or> (depth \<noteq> -1 \<and> depth \<le> int MAX_DEPTH_LEVELS)"
    by (auto simp: finish_walk_def Let_def)
  have inv: "walk_inv (begun already start_name) j v" using j(2) by (simp add: level_inv_def)
  have running: "\<not> wk_stopped v" using inv open_v by (simp add: walk_inv_def)
  have seen: "set (wk_seen v) = ?R j \<union> ?S" "?R (Suc j) \<union> ?S = set (wk_seen v) \<union> fst ` set (wk_next v)"
    using j(2) open_v by (simp_all only: level_inv_def) simp_all
  have near: "depth = -1 \<or> int j \<le> depth" using j(3) assms(4,5) by (auto simp: wanted_def split: if_splits)
  have "in_reach (unseen p ?S) [start_name] depth = ?R j"
  proof (cases "wk_next v = []")
    case True
    with seen have "?R (Suc j) \<union> ?S = ?R j \<union> ?S" by simp
    then have "?R (Suc j) = ?R j"
      using unseen_disjoint [OF out, of p "Suc j"] unseen_disjoint [OF out, of p j] by blast
    from closed_in_reach [OF this near] show ?thesis .
  next
    case False
    with running j(1,4) deeper near have "depth = int j"
      using assms(4,5) by (auto simp: wanted_def split: if_splits)
    then show ?thesis by (simp add: in_reach_def)
  qed
  moreover have "set (map dr_name (wk_reports v)) = ?R j - {start_name}"
    using walk_names(1) [OF inv assms(3)] seen(1) unseen_disjoint [OF out, of p j] by blast
  moreover have "dp_reports res = wk_reports v" by (simp add: res finish_walk_def Let_def)
  ultimately show ?thesis by simp
qed

lemma walk_bounded:
  assumes "is_aur p start_name" "list_all (is_aur p) already" "distinct already"
    and "fst (walk_dependencies p analyse start_name depth already) = res"
  shows "length (dp_reports res) \<le> MAX_DEPTH_NODES \<and> distinct (start_name # map dr_name (dp_reports res))
    \<and> set (map dr_name (dp_reports res)) \<inter> set already = {}
    \<and> list_all (\<lambda>r. 1 \<le> dr_depth r \<and> dr_depth r \<le> MAX_DEPTH_LEVELS) (dp_reports res)
    \<and> (list_ex dr_failed (dp_reports res) \<longrightarrow> dp_truncated res)"
proof (cases "depth = 0")
  case True
  with assms(4) show ?thesis by (auto simp: walk_dependencies_def no_result_def)
next
  case False
  obtain l v where run: "walk_from p analyse depth (Suc 0) (walk_start p start_name already) = (l, v)" by fastforce
  have out: "start_name \<notin> set already - {start_name}" by simp
  from walk_from_inv [OF start_level [OF assms(1-3)] out _ run] obtain j where
    j: "level_inv (begun already start_name) (set already - {start_name}) start_name j v" "j = 0 \<or> wanted j depth" by auto
  have inv: "walk_inv (begun already start_name) j v" and start_name: "j \<le> MAX_DEPTH_LEVELS"
    using j by (auto simp: level_inv_def wanted_def split: if_splits)
  have names: "distinct (start_name # map dr_name (wk_reports v))" "set (map dr_name (wk_reports v)) \<inter> set already = {}"
    using walk_names(2,3) [OF inv assms(3)] by auto
  have "res = finish_walk p depth (l, v)" using False assms(4) run by (simp add: walk_dependencies_def Let_def)
  with inv start_name names show ?thesis by (auto simp: walk_inv_def finish_walk_def Let_def list_all_iff)
qed

end

interpretation snapshot: aur_metadata "snapshot_provider packages" for packages
  by unfold_locales (simp add: is_aur_def snapshot_provider_def)

interpretation rpc_view: aur_metadata "rpc_provider answered available" for answered available
  by unfold_locales (simp add: rpc_provider_def)

section \<open>The gap a walk leaves\<close>

text \<open>
  Whether an added dependency the provider knows was not reported; asking may raise (\<^verbatim>\<open>any\<close> over a set,
  whose order is an argument here).
\<close>

fun any_unreported :: "provider \<Rightarrow> string list \<Rightarrow> string list \<Rightarrow> bool option" where
  "any_unreported p reported [] = Some False"
| "any_unreported p reported (n # ns) =
     (if n \<in> set reported then any_unreported p reported ns
      else (case pv_is_aur p n of None \<Rightarrow> None | Some True \<Rightarrow> Some True | Some False \<Rightarrow> any_unreported p reported ns))"

definition walk_with_added ::
    "provider \<Rightarrow> analysis \<Rightarrow> string \<Rightarrow> int \<Rightarrow> string list \<Rightarrow> string list \<Rightarrow> depth_result \<times> string list" where
  "walk_with_added p analyse start_name depth already added =
     (let (res, seen) = (if depth = 0 then (no_result, already) else walk_dependencies p analyse start_name depth already);
          res1 = (if added = [] then res
             else (case any_unreported p (map dr_name (dp_reports res)) added of
                None \<Rightarrow> res\<lparr>dp_unavailable := True\<rparr>
              | Some b \<Rightarrow> res\<lparr>dp_added_unreported := b\<rparr>)) in
      (res1\<lparr>dp_unavailable := dp_unavailable res1 \<or> \<not> pv_available p\<rparr>, seen))"

definition deps_not_scanned :: "depth_result \<Rightarrow> string list \<Rightarrow> bool" where
  "deps_not_scanned res added \<longleftrightarrow>
     dp_truncated res \<or> (added \<noteq> [] \<and> dp_unavailable res) \<or> dp_added_unreported res"

lemma any_unreported_no:
  "any_unreported p reported added = Some False \<Longrightarrow> list_all (\<lambda>n. is_aur p n \<longrightarrow> n \<in> set reported) added"
  by (induction p reported added rule: any_unreported.induct)
    (auto simp: is_aur_def split: if_splits option.splits bool.splits)

text \<open>C20: over the corpus snapshot, when a walk leaves no \<^verbatim>\<open>deps_not_scanned\<close> gap it has reported exactly
  the AUR packages within the requested depth, other than the package itself, that are reached without passing
  through a package an earlier walk of the review has seen (all of them when it is the first), each analysed
  without failure, and every added dependency that is in the AUR is among them; in every case it makes at most
  two hundred reports, of distinct packages none of which was seen before.
\<close>

theorem walk_vets_closure:
  assumes "map_of packages start_name \<noteq> None" "list_all (\<lambda>n. map_of packages n \<noteq> None) already" "distinct already"
    and "-1 \<le> depth" "depth \<noteq> 0"
    and "fst (walk_with_added (snapshot_provider packages) analyse start_name depth already added) = res"
  shows "length (dp_reports res) \<le> MAX_DEPTH_NODES \<and> distinct (start_name # map dr_name (dp_reports res))
    \<and> set (map dr_name (dp_reports res)) \<inter> set already = {}
    \<and> (\<not> deps_not_scanned res added \<longrightarrow>
         set (map dr_name (dp_reports res))
           = in_reach (unseen (snapshot_provider packages) (set already - {start_name})) [start_name] depth - {start_name}
         \<and> list_all (\<lambda>r. \<not> dr_failed r) (dp_reports res)
         \<and> list_all (\<lambda>n. map_of packages n \<noteq> None \<longrightarrow> n \<in> set (map dr_name (dp_reports res))) added)"
proof -
  let ?p = "snapshot_provider packages"
  obtain r seen where w: "walk_dependencies ?p analyse start_name depth already = (r, seen)" by fastforce
  have aur: "is_aur ?p start_name" "list_all (is_aur ?p) already"
    using assms(1,2) by (auto simp: is_aur_def snapshot_provider_def list_all_iff)
  have res: "dp_reports res = dp_reports r" "dp_truncated res = dp_truncated r"
    "added \<noteq> [] \<longrightarrow> any_unreported ?p (map dr_name (dp_reports r)) added = Some False"
    if "\<not> deps_not_scanned res added"
    using that assms(5,6) w by (auto simp: walk_with_added_def deps_not_scanned_def Let_def split: option.splits if_splits)
  have reports: "dp_reports res = dp_reports r"
    using assms(5,6) w by (auto simp: walk_with_added_def Let_def split: option.splits)
  note bounded = snapshot.walk_bounded [OF aur assms(3), of analyse depth r, unfolded w, simplified]
  have "set (map dr_name (dp_reports res)) = in_reach (unseen ?p (set already - {start_name})) [start_name] depth - {start_name}
      \<and> list_all (\<lambda>r. \<not> dr_failed r) (dp_reports res)
      \<and> list_all (\<lambda>n. map_of packages n \<noteq> None \<longrightarrow> n \<in> set (map dr_name (dp_reports res))) added"
    if ok: "\<not> deps_not_scanned res added"
  proof -
    have "\<not> dp_truncated r" using ok res(2) by (simp add: deps_not_scanned_def)
    with snapshot.walk_covers [OF aur assms(3-5), of analyse r] w bounded
    have "set (map dr_name (dp_reports r)) = in_reach (unseen ?p (set already - {start_name})) [start_name] depth - {start_name}"
      "\<not> list_ex dr_failed (dp_reports r)" by simp_all
    moreover have "list_all (\<lambda>n. map_of packages n \<noteq> None \<longrightarrow> n \<in> set (map dr_name (dp_reports r))) added"
      using res(3) [OF ok] any_unreported_no [of ?p "map dr_name (dp_reports r)" added]
      by (cases added) (simp_all add: is_aur_def snapshot_provider_def)
    ultimately show ?thesis unfolding reports by (simp add: list_ex_iff list_all_iff)
  qed
  moreover from bounded have "length (dp_reports r) \<le> MAX_DEPTH_NODES" "distinct (start_name # map dr_name (dp_reports r))"
    "set (map dr_name (dp_reports r)) \<inter> set already = {}" by simp_all
  ultimately show ?thesis unfolding reports by blast
qed

text \<open>A package whose two dependencies share one of theirs.\<close>

definition small_entry :: "string list \<Rightarrow> meta_entry" where
  "small_entry deps = \<lparr>me_provides = [], me_depends = deps, me_make_depends = [], me_check_depends = [],
     me_maintainer = []\<rparr>"

definition chain_packages :: "meta_entry dict" where
  "chain_packages = [(''a'', small_entry [''b'']), (''b'', small_entry [''x'']), (''c'', small_entry [''x'']),
     (''x'', small_entry [''y'']), (''y'', small_entry [])]"

definition quiet_analysis :: analysis where "quiet_analysis name = Inr (Some default_fact)"

theorem walk_vets_closure_witness:
  "set (map dr_name (dp_reports (fst (walk_with_added (snapshot_provider chain_packages) quiet_analysis ''a'' 2 [''c''] [''b'']))))
   = in_reach (unseen (snapshot_provider chain_packages) {''c''}) [''a''] 2 - {''a''}"
proof -
  let ?res = "fst (walk_with_added (snapshot_provider chain_packages) quiet_analysis ''a'' 2 [''c''] [''b''])"
  have "\<not> deps_not_scanned ?res [''b'']" by code_simp
  with walk_vets_closure [of chain_packages "''a''" "[''c'']" 2 quiet_analysis "[''b'']" ?res]
  show ?thesis by (simp add: chain_packages_def)
qed

text \<open>
  The set of names shared between the packages of one review hides part of a closure: \<^verbatim>\<open>x\<close> is reported at
  the last level of the first walk, so its own dependency is beyond that walk, and the second walk skips
  \<^verbatim>\<open>x\<close> as seen although \<^verbatim>\<open>y\<close> is within its two levels.  No gap is left.
\<close>

lemma shared_walk_skips_closure:
  "let p = snapshot_provider chain_packages;
       (first, seen) = walk_with_added p quiet_analysis ''a'' 2 [] [];
       (second, seen') = walk_with_added p quiet_analysis ''c'' 2 seen [] in
   map dr_name (dp_reports first) = [''b'', ''x''] \<and> dp_reports second = []
   \<and> \<not> deps_not_scanned first [] \<and> \<not> deps_not_scanned second []
   \<and> ''y'' \<in> set (reached p [''c''] 2)"
  by code_simp

section \<open>An RPC that does not answer\<close>

text \<open>
  The flag that tells an unreachable AUR from one without the package follows exceptions and the offline switch
  alone.  The built-in fetch raises at neither a failed query nor a record from the database cache, which has no
  dependencies: the first reads as a package the AUR does not have, the second as one without dependencies.
\<close>

definition unreachable :: discovery where
  "unreachable = (online JNull)\<lparr>de_net := (\<lambda>names k. Broken)\<rparr>"

lemma failed_request_counts_as_available:
  "let (yes, s) = rpc_is_aur False (builtin_fetch unreachable []) ''a'' rpc_start in \<not> yes \<and> rc_available s"
  by code_simp

lemma cached_record_lacks_dependencies:
  "let body = JObj [(''results'', JArr [JObj [(''Name'', JStr ''a''), (''Depends'', JArr [JStr ''b''])]])];
       old = [(''a'', \<lparr>ca_version = JNull, ca_modified = JNull, ca_at = 990\<rparr>)];
       (asked, s) = rpc_deps_of False (builtin_fetch (online body) []) ''a'' rpc_start;
       (cached, t) = rpc_deps_of False (builtin_fetch (online body) old) ''a'' rpc_start in
   asked = [''b''] \<and> cached = [] \<and> rc_available t"
  by code_simp

section \<open>Who needs what\<close>

record closure =
  dc_levels :: "(string \<times> nat) list"
  dc_dependents :: "string list dict"
  dc_truncated :: bool
  dc_reason :: string

record gather =
  ga_closure :: closure
  ga_visited :: "string list"
  ga_next :: "string list"
  ga_stopped :: bool

text \<open>\<^verbatim>\<open>setdefault(name, [])\<close>, and the parent appended once.\<close>

definition note_dependent :: "string \<Rightarrow> string \<Rightarrow> string list dict \<Rightarrow> string list dict" where
  "note_dependent parent name dependents =
     (let ps = (case map_of dependents name of None \<Rightarrow> [] | Some ps \<Rightarrow> ps) in
      dict_set dependents name (if parent \<in> set ps then ps else ps @ [parent]))"

definition gather_edge :: "string list \<Rightarrow> nat \<Rightarrow> string \<times> string \<Rightarrow> gather \<Rightarrow> gather" where
  "gather_edge roots level = (\<lambda>(parent, name) g.
     if ga_stopped g then g
     else
       (let c = (ga_closure g)\<lparr>dc_dependents := note_dependent parent name (dc_dependents (ga_closure g))\<rparr>;
            g1 = g\<lparr>ga_closure := c\<rparr> in
        if name \<in> set roots \<or> name \<in> set (ga_visited g) then g1
        else if length (dc_levels c) \<ge> MAX_DEPTH_NODES
        then g1\<lparr>ga_stopped := True,
               ga_closure := c\<lparr>dc_truncated := True,
                 dc_reason := ''stopped after '' @ show_nat MAX_DEPTH_NODES @
                   '' dependencies; the closure is larger than one run analyses''\<rparr>\<rparr>
        else g1\<lparr>ga_closure := c\<lparr>dc_levels := dc_levels c @ [(name, level)]\<rparr>,
               ga_visited := ga_visited g @ [name], ga_next := ga_next g @ [name]\<rparr>))"

definition edges_of :: "provider \<Rightarrow> string list \<Rightarrow> (string \<times> string) list" where
  "edges_of p parents = concat (map (\<lambda>a. map (\<lambda>b. (a, b)) (needs p a)) parents)"

definition gather_level :: "provider \<Rightarrow> string list \<Rightarrow> nat \<Rightarrow> gather \<Rightarrow> gather" where
  "gather_level p roots level g =
     List.fold (gather_edge roots level) (edges_of p (ga_next g)) (g\<lparr>ga_next := []\<rparr>)"

function gather_from :: "provider \<Rightarrow> string list \<Rightarrow> int \<Rightarrow> nat \<Rightarrow> gather \<Rightarrow> nat \<times> gather" where
  "gather_from p roots depth level g =
     (if ga_next g \<noteq> [] \<and> wanted level depth \<and> \<not> ga_stopped g
      then gather_from p roots depth (Suc level) (gather_level p roots level g)
      else (level, g))"
  by pat_completeness auto
termination
  by (relation "measure (\<lambda>(p, roots, depth, level, g). Suc MAX_DEPTH_LEVELS - level)")
    (auto simp: wanted_def split: if_splits)

declare gather_from.simps [simp del]

text \<open>The end of the closure; the early return at the node ceiling keeps every entry.\<close>

definition finish_closure :: "int \<Rightarrow> nat \<times> gather \<Rightarrow> closure" where
  "finish_closure depth = (\<lambda>(level, g).
     (let c = ga_closure g;
          deeper = (ga_next g \<noteq> [] \<and> level > MAX_DEPTH_LEVELS \<and> (depth = -1 \<or> depth > int MAX_DEPTH_LEVELS));
          c1 = (if deeper then c\<lparr>dc_truncated := True, dc_reason := ''stopped at '' @ show_nat MAX_DEPTH_LEVELS @
                '' levels; the closure is deeper than one run walks''\<rparr> else c) in
      if ga_stopped g then c
      else c1\<lparr>dc_dependents := filter (\<lambda>(n, ps). n \<in> fst ` set (dc_levels c)) (dc_dependents c)\<rparr>))"

definition no_closure :: closure where
  "no_closure = \<lparr>dc_levels = [], dc_dependents = [], dc_truncated = False, dc_reason = []\<rparr>"

definition dependency_closure :: "provider \<Rightarrow> string list \<Rightarrow> int \<Rightarrow> closure" where
  "dependency_closure p roots depth =
     (if depth = 0 then no_closure
      else finish_closure depth (gather_from p roots depth 1
        \<lparr>ga_closure = no_closure, ga_visited = roots, ga_next = roots, ga_stopped = False\<rparr>))"

text \<open>Shallowest first, then by name: two stable sorts.\<close>

definition closure_names :: "closure \<Rightarrow> string list" where
  "closure_names c = map fst (sort_key snd (sort_key fst (dc_levels c)))"

definition dependents_of :: "closure \<Rightarrow> string \<Rightarrow> string set" where
  "dependents_of c n = set (case map_of (dc_dependents c) n of None \<Rightarrow> [] | Some ps \<Rightarrow> ps)"

lemma note_dependent_of:
  "dependents_of (c\<lparr>dc_dependents := note_dependent a n (dc_dependents c)\<rparr>) m
   = dependents_of c m \<union> (if m = n then {a} else {})"
  by (auto simp: dependents_of_def note_dependent_def Let_def split: option.split)

lemma dependents_of_cong: "dc_dependents c = dc_dependents c' \<Longrightarrow> dependents_of c = dependents_of c'"
  by (simp add: dependents_of_def fun_eq_iff)

lemma gather_edge_cases:
  obtains (skip) "ga_stopped g" "gather_edge roots level (a, n) g = g"
  | (full) "dc_truncated (ga_closure (gather_edge roots level (a, n) g))" "ga_stopped (gather_edge roots level (a, n) g)"
      "dc_levels (ga_closure (gather_edge roots level (a, n) g)) = dc_levels (ga_closure g)"
  | (old) "gather_edge roots level (a, n) g
        = g\<lparr>ga_closure := (ga_closure g)\<lparr>dc_dependents := note_dependent a n (dc_dependents (ga_closure g))\<rparr>\<rparr>"
      "\<not> ga_stopped g" "n \<in> set roots \<or> n \<in> set (ga_visited g)"
  | (new) "gather_edge roots level (a, n) g
        = g\<lparr>ga_closure := (ga_closure g)\<lparr>dc_dependents := note_dependent a n (dc_dependents (ga_closure g)),
              dc_levels := dc_levels (ga_closure g) @ [(n, level)]\<rparr>,
            ga_visited := ga_visited g @ [n], ga_next := ga_next g @ [n]\<rparr>"
      "\<not> ga_stopped g" "n \<notin> set roots" "n \<notin> set (ga_visited g)" "length (dc_levels (ga_closure g)) < MAX_DEPTH_NODES"
  by (cases "ga_stopped g"; cases "n \<in> set roots \<or> n \<in> set (ga_visited g)";
      cases "length (dc_levels (ga_closure g)) < MAX_DEPTH_NODES")
    (auto simp: gather_edge_def Let_def)

lemma gather_truncated:
  "dc_truncated (ga_closure g) \<Longrightarrow> dc_truncated (ga_closure (List.fold (gather_edge roots level) es g))"
proof (induction es arbitrary: g)
  case (Cons e es)
  obtain a n where e: "e = (a, n)" by fastforce
  have "dc_truncated (ga_closure (gather_edge roots level e g))" unfolding e
    by (cases rule: gather_edge_cases [of g roots level a n]) (use Cons.prems in simp_all)
  from Cons.IH [OF this] show ?case by simp
qed simp

text \<open>One level of edges, all at once.\<close>

lemma gather_edges:
  "\<lbrakk>\<not> dc_truncated (ga_closure (List.fold (gather_edge roots level) es g)); set roots \<subseteq> set (ga_visited g);
    ga_stopped g \<longrightarrow> dc_truncated (ga_closure g); List.fold (gather_edge roots level) es g = g'\<rbrakk>
   \<Longrightarrow> set (ga_visited g') = set (ga_visited g) \<union> snd ` set es
     \<and> set (ga_next g') = set (ga_next g) \<union> (snd ` set es - set (ga_visited g))
     \<and> set (dc_levels (ga_closure g')) = set (dc_levels (ga_closure g)) \<union> (\<lambda>n. (n, level)) ` (snd ` set es - set (ga_visited g))
     \<and> (\<forall>m. dependents_of (ga_closure g') m = dependents_of (ga_closure g) m \<union> {a. (a, m) \<in> set es})
     \<and> (ga_stopped g' \<longrightarrow> dc_truncated (ga_closure g'))"
proof (induction es arbitrary: g)
  case (Cons e es)
  obtain a n where e: "e = (a, n)" by fastforce
  let ?g = "gather_edge roots level e g"
  have open_g: "\<not> dc_truncated (ga_closure ?g)" using Cons.prems(1) gather_truncated by fastforce
  have rest: "\<not> dc_truncated (ga_closure (List.fold (gather_edge roots level) es ?g))"
    "List.fold (gather_edge roots level) es ?g = g'" using Cons.prems(1,4) by simp_all
  show ?case
  proof (cases rule: gather_edge_cases [of g roots level a n])
    case skip
    with Cons.prems(3) open_g show ?thesis by (simp add: e)
  next
    case full
    with open_g show ?thesis by (simp add: e)
  next
    case old
    have dep: "dependents_of (ga_closure ?g) m = dependents_of (ga_closure g) m \<union> (if m = n then {a} else {})" for m
      using note_dependent_of [where c = "ga_closure g" and a = a and n = n and m = m] by (simp add: e old(1))
    have n: "n \<in> set (ga_visited g)" using old(3) Cons.prems(2) by auto
    have g: "ga_visited ?g = ga_visited g" "ga_next ?g = ga_next g" "ga_stopped ?g = ga_stopped g"
      "dc_levels (ga_closure ?g) = dc_levels (ga_closure g)"
      by (simp_all add: e old(1))
    have "set roots \<subseteq> set (ga_visited ?g)" "ga_stopped ?g \<longrightarrow> dc_truncated (ga_closure ?g)"
      using Cons.prems(2) old(2) by (simp_all add: g)
    from Cons.IH [OF rest(1) this rest(2), unfolded g dep] n show ?thesis by (auto simp: e insert_absorb)
  next
    case new
    have dep: "dependents_of (ga_closure ?g) m = dependents_of (ga_closure g) m \<union> (if m = n then {a} else {})" for m
      using note_dependent_of [where c = "ga_closure g" and a = a and n = n and m = m] by (simp add: e new(1) dependents_of_def)
    have g: "ga_visited ?g = ga_visited g @ [n]" "ga_next ?g = ga_next g @ [n]" "ga_stopped ?g = ga_stopped g"
      "dc_levels (ga_closure ?g) = dc_levels (ga_closure g) @ [(n, level)]"
      by (simp_all add: e new(1))
    have "set roots \<subseteq> set (ga_visited ?g)" "ga_stopped ?g \<longrightarrow> dc_truncated (ga_closure ?g)"
      using Cons.prems(2) new(2) by (auto simp: g)
    from Cons.IH [OF rest(1) this rest(2), unfolded g dep] new(4) show ?thesis by (auto simp: e)
  qed
qed simp

text \<open>Before a level: what is visited, what has been expanded, the levels and the dependents so far.\<close>

definition expanded :: "provider \<Rightarrow> string list \<Rightarrow> nat \<Rightarrow> string set" where
  "expanded p roots k = (case k of 0 \<Rightarrow> {} | Suc j \<Rightarrow> set (reached p roots j))"

definition gather_inv :: "provider \<Rightarrow> string list \<Rightarrow> nat \<Rightarrow> gather \<Rightarrow> bool" where
  "gather_inv p roots k g \<longleftrightarrow>
     set (ga_visited g) = set (reached p roots k)
     \<and> set (ga_next g) \<union> expanded p roots k = set (reached p roots k)
     \<and> set (ga_next g) \<inter> expanded p roots k = {}
     \<and> (\<forall>n l. (n, l) \<in> set (dc_levels (ga_closure g))
          \<longleftrightarrow> 1 \<le> l \<and> l \<le> k \<and> n \<in> set (reached p roots l) \<and> n \<notin> set (reached p roots (l - 1)))
     \<and> (\<forall>n. dependents_of (ga_closure g) n = {a \<in> expanded p roots k. n \<in> set (needs p a)})
     \<and> (ga_stopped g \<longrightarrow> dc_truncated (ga_closure g))"

lemma reached_Suc: "set (reached p roots (Suc k)) = set (reached p roots k) \<union> (\<Union>a \<in> set (reached p roots k). set (needs p a))"
  by auto

lemma expanded_needs: "a \<in> expanded p roots k \<Longrightarrow> set (needs p a) \<subseteq> set (reached p roots k)"
  by (cases k) (auto simp: expanded_def)

lemma gather_step:
  assumes inv: "gather_inv p roots k g" and g': "gather_level p roots (Suc k) g = g'"
    and ok: "\<not> dc_truncated (ga_closure g')"
  shows "gather_inv p roots (Suc k) g'"
proof -
  let ?R = "\<lambda>k. set (reached p roots k)" and ?es = "edges_of p (ga_next g)"
  have es: "(a, n) \<in> set ?es \<longleftrightarrow> a \<in> set (ga_next g) \<and> n \<in> set (needs p a)" for a n
    by (auto simp: edges_of_def)
  have targets: "snd ` set ?es \<union> ?R k = ?R (Suc k)"
  proof -
    have "snd ` set ?es = (\<Union>a \<in> set (ga_next g). set (needs p a))" by (auto simp: edges_of_def image_iff)
    moreover have "?R k = set (ga_next g) \<union> expanded p roots k" using inv by (simp add: gather_inv_def)
    ultimately show ?thesis unfolding reached_Suc using expanded_needs [of _ p roots k] by blast
  qed
  have "?R 0 \<subseteq> ?R k" using reached_mono [of p roots 0 k] by simp
  then have roots: "set roots \<subseteq> set (ga_visited (g\<lparr>ga_next := []\<rparr>))" using inv by (simp add: gather_inv_def)
  have stopped: "ga_stopped (g\<lparr>ga_next := []\<rparr>) \<longrightarrow> dc_truncated (ga_closure (g\<lparr>ga_next := []\<rparr>))"
    using inv by (simp add: gather_inv_def)
  have visited: "set (ga_visited g) = ?R k" using inv by (simp add: gather_inv_def)
  have new_targets: "snd ` set ?es - ?R k = ?R (Suc k) - ?R k" using targets by blast
  have all_targets: "?R k \<union> snd ` set ?es = ?R (Suc k)" using targets by blast
  from gather_edges [OF _ roots stopped g' [unfolded gather_level_def]] ok g'
  have new: "set (ga_visited g') = ?R (Suc k)" "set (ga_next g') = ?R (Suc k) - ?R k"
    "set (dc_levels (ga_closure g')) = set (dc_levels (ga_closure g)) \<union> (\<lambda>n. (n, Suc k)) ` (?R (Suc k) - ?R k)"
    "\<forall>m. dependents_of (ga_closure g') m = dependents_of (ga_closure g) m \<union> {a. (a, m) \<in> set ?es}"
    "ga_stopped g' \<longrightarrow> dc_truncated (ga_closure g')"
    by (simp_all add: visited new_targets all_targets gather_level_def del: reached.simps(2))
  have ex: "expanded p roots (Suc k) = ?R k" by (simp add: expanded_def)
  have frontier: "set (ga_next g) \<union> expanded p roots k = ?R k" using inv by (simp add: gather_inv_def)
  have "(n, l) \<in> set (dc_levels (ga_closure g')) \<longleftrightarrow> 1 \<le> l \<and> l \<le> Suc k \<and> n \<in> ?R l \<and> n \<notin> ?R (l - 1)" for n l
    using inv unfolding new(3) gather_inv_def by (auto simp: le_Suc_eq simp del: reached.simps(2))
  moreover have "dependents_of (ga_closure g') n = {a \<in> ?R k. n \<in> set (needs p a)}" for n
    using inv new(4) es frontier unfolding gather_inv_def by blast
  moreover have "?R k \<subseteq> ?R (Suc k)" by auto
  ultimately show ?thesis using new(1,2,5) unfolding gather_inv_def ex by blast
qed

lemma gather_from_truncated:
  "dc_truncated (ga_closure g) \<Longrightarrow> dc_truncated (ga_closure (snd (gather_from p roots depth level g)))"
proof (induction p roots depth level g rule: gather_from.induct)
  case (1 p roots depth level g)
  have "dc_truncated (ga_closure (gather_level p roots level g))"
    unfolding gather_level_def by (rule gather_truncated) (use 1 in simp)
  with 1 show ?case by (simp add: gather_from.simps [of p roots depth level g])
qed

lemma gather_from_inv:
  "\<lbrakk>gather_inv p roots k g; k = 0 \<or> wanted k depth; gather_from p roots depth (Suc k) g = (l, h);
    \<not> dc_truncated (ga_closure h)\<rbrakk>
   \<Longrightarrow> \<exists>j. l = Suc j \<and> gather_inv p roots j h \<and> (j = 0 \<or> wanted j depth) \<and> (ga_next h = [] \<or> \<not> wanted l depth)"
proof (induction "Suc MAX_DEPTH_LEVELS - k" arbitrary: k g rule: less_induct)
  case less
  let ?g = "gather_level p roots (Suc k) g"
  show ?case
  proof (cases "ga_next g \<noteq> [] \<and> wanted (Suc k) depth \<and> \<not> ga_stopped g")
    case True
    then have "Suc k \<le> MAX_DEPTH_LEVELS" by (auto simp: wanted_def split: if_splits)
    then have shorter: "Suc MAX_DEPTH_LEVELS - Suc k < Suc MAX_DEPTH_LEVELS - k" by simp
    have run: "gather_from p roots depth (Suc (Suc k)) ?g = (l, h)"
      using less.prems(3) True by (simp add: gather_from.simps [of p roots depth "Suc k" g])
    have "\<not> dc_truncated (ga_closure ?g)"
      using gather_from_truncated [of ?g p roots depth "Suc (Suc k)"] run less.prems(4) by auto
    from less.hyps [OF shorter gather_step [OF less.prems(1) refl this] _ run less.prems(4)] True
    show ?thesis by simp
  next
    case False
    with less.prems(3) have "l = Suc k" "h = g"
      by (auto simp: gather_from.simps [of p roots depth "Suc k" g])
    with False less.prems show ?thesis by (auto simp: gather_inv_def)
  qed
qed

lemma map_of_filter_keys: "map_of (filter (\<lambda>(n, v). P n) d) n = (if P n then map_of d n else None)"
  by (induction d) auto

text \<open>C29: an untruncated dependency closure assigns a level to exactly the AUR packages within the depth
  other than the roots, each its least distance from them, and lists as the dependents of each exactly
  the packages less than the depth away that need it.
\<close>

theorem dependency_closure_exact:
  assumes "-1 \<le> depth" "depth \<noteq> 0" "dependency_closure p roots depth = c" "\<not> dc_truncated c"
  shows "((n, l) \<in> set (dc_levels c) \<longleftrightarrow>
        1 \<le> l \<and> (depth = -1 \<or> int l \<le> depth) \<and> n \<in> set (reached p roots l) \<and> n \<notin> set (reached p roots (l - 1)))
    \<and> dependents_of c n =
        (if n \<in> fst ` set (dc_levels c)
         then {a \<in> in_reach p roots (if depth = -1 then -1 else depth - 1). n \<in> set (needs p a)} else {})"
proof -
  let ?g = "\<lparr>ga_closure = no_closure, ga_visited = roots, ga_next = roots, ga_stopped = False\<rparr>"
  let ?R = "\<lambda>k. set (reached p roots k)"
  obtain l' h where run: "gather_from p roots depth (Suc 0) ?g = (l', h)" by fastforce
  have c: "c = finish_closure depth (l', h)" using assms(2,3) run by (simp add: dependency_closure_def)
  with assms(4) have open_h: "\<not> dc_truncated (ga_closure h)"
    and deeper: "ga_stopped h \<or> ga_next h = [] \<or> l' \<le> MAX_DEPTH_LEVELS \<or> (depth \<noteq> -1 \<and> depth \<le> int MAX_DEPTH_LEVELS)"
    by (auto simp: finish_closure_def Let_def split: if_splits)
  have "gather_inv p roots 0 ?g" by (auto simp: gather_inv_def expanded_def no_closure_def dependents_of_def)
  from gather_from_inv [OF this _ run open_h] obtain j where
    j: "l' = Suc j" "gather_inv p roots j h" "j = 0 \<or> wanted j depth" "ga_next h = [] \<or> \<not> wanted l' depth" by auto
  have running: "\<not> ga_stopped h" using j(2) open_h by (simp add: gather_inv_def)
  have near: "depth = -1 \<or> int j \<le> depth" using j(3) assms(1,2) by (auto simp: wanted_def split: if_splits)
  have frontier: "set (ga_next h) \<union> expanded p roots j = ?R j" using j(2) by (simp add: gather_inv_def)
  have levels: "(n, l) \<in> set (dc_levels (ga_closure h)) \<longleftrightarrow> 1 \<le> l \<and> l \<le> j \<and> n \<in> ?R l \<and> n \<notin> ?R (l - 1)" for n l
    using j(2) by (simp add: gather_inv_def)
  have fields: "dc_levels c = dc_levels (ga_closure h)"
    "dependents_of c n = (if n \<in> fst ` set (dc_levels c) then dependents_of (ga_closure h) n else {})" for n
    using running by (auto simp: c finish_closure_def Let_def dependents_of_def map_of_filter_keys)
  have "(\<forall>n. (l \<le> j \<and> n \<in> ?R l \<and> n \<notin> ?R (l - 1)) \<longleftrightarrow> ((depth = -1 \<or> int l \<le> depth) \<and> n \<in> ?R l \<and> n \<notin> ?R (l - 1)))
      \<and> (j = 0 \<or> expanded p roots j = in_reach p roots (if depth = -1 then -1 else depth - 1))" if "1 \<le> l" for l
  proof (cases "ga_next h = []")
    case False
    with running j(1,4) deeper near have depth: "depth = int j"
      using assms(1,2) by (auto simp: wanted_def split: if_splits)
    then show ?thesis by (cases j) (auto simp: in_reach_def expanded_def)
  next
    case True
    have none: "?R l = ?R (l - 1)" if "j < l"
    proof (cases j)
      case 0
      have "?R k = {}" for k using True frontier 0 by (induction k) (simp_all add: expanded_def)
      then show ?thesis by simp
    next
      case (Suc i)
      then have "?R (Suc i) = ?R i" using True frontier by (simp add: expanded_def del: reached.simps(2))
      from reached_closed [OF this, of "l - i"] reached_closed [OF this, of "l - 1 - i"] that Suc
      show ?thesis by simp
    qed
    have "j = 0 \<or> expanded p roots j = in_reach p roots (if depth = -1 then -1 else depth - 1)"
    proof (cases j)
      case (Suc i)
      then have "?R (Suc i) = ?R i" using True frontier by (simp add: expanded_def del: reached.simps(2))
      from closed_in_reach [OF this, of "if depth = -1 then -1 else depth - 1"] near Suc
      show ?thesis by (auto simp: expanded_def split: if_splits)
    qed simp
    with none near show ?thesis by (metis le_less_linear of_nat_le_iff order_trans)
  qed
  note far = this
  have "(n, l) \<in> set (dc_levels c) \<longleftrightarrow> 1 \<le> l \<and> (depth = -1 \<or> int l \<le> depth) \<and> n \<in> ?R l \<and> n \<notin> ?R (l - 1)"
    unfolding fields levels using far [of l] by blast
  moreover have "dependents_of (ga_closure h) n = {a \<in> in_reach p roots (if depth = -1 then -1 else depth - 1). n \<in> set (needs p a)}"
    if "n \<in> fst ` set (dc_levels c)"
  proof -
    have "j \<noteq> 0" using that levels unfolding fields by force
    with far [of 1] j(2) show ?thesis unfolding gather_inv_def by auto
  qed
  ultimately show ?thesis using fields(2) [of n] by simp
qed

theorem dependency_closure_exact_witness:
  "dependents_of (dependency_closure (snapshot_provider chain_packages) [''b'', ''c''] 2) ''x''
   = {a \<in> in_reach (snapshot_provider chain_packages) [''b'', ''c''] 1. ''x'' \<in> set (needs (snapshot_provider chain_packages) a)}"
proof -
  let ?c = "dependency_closure (snapshot_provider chain_packages) [''b'', ''c''] 2"
  have "\<not> dc_truncated ?c" and "''x'' \<in> fst ` set (dc_levels ?c)" by code_simp+
  with dependency_closure_exact [of 2 "snapshot_provider chain_packages" "[''b'', ''c'']" ?c "''x''" 1]
  show ?thesis by simp
qed

end
