(* ===== verification/Dep_Order.thy ===== *)
theory Dep_Order
  imports Dep_Graph "HOL-Library.Multiset"
begin

text \<open>
  The order in which a corpus cycle analyses its packages (\<^verbatim>\<open>full_aur/_pipeline_limits.py\<close>): dependencies
  before their dependents by a stable search that pops the least ready name, and the dependencies outside
  the cycle that are read first.  The heap of ready names is its sorted list, the answer of the database
  for a name is an argument, and the metadata entries are those of \<open>Dep_Graph\<close>.
\<close>

section \<open>Dependencies first\<close>

definition MAX_ORDER_CANDIDATES :: nat where "MAX_ORDER_CANDIDATES = 200 * 50"

definition raw_edges :: "meta_entry dict \<Rightarrow> string list \<Rightarrow> (string \<times> string) list" where
  "raw_edges meta parents =
     concat (map (\<lambda>parent. map (Pair parent) (case map_of meta parent of None \<Rightarrow> [] | Some e \<Rightarrow> all_deps e)) parents)"

text \<open>The edges of the order: from a pending package to another one it needs, each once.\<close>

definition order_edges :: "meta_entry dict \<Rightarrow> string list \<Rightarrow> (string \<times> string) list" where
  "order_edges meta pend =
     uniq_first (filter (\<lambda>(parent, dep). dep \<noteq> [] \<and> dep \<in> set pend \<and> dep \<noteq> parent)
       (map (\<lambda>(parent, raw). (parent, normalize_dependency raw)) (raw_edges meta pend)))"

definition dependents_in :: "(string \<times> string) list \<Rightarrow> string \<Rightarrow> string list" where
  "dependents_in edges name = map fst (filter (\<lambda>(parent, dep). dep = name) edges)"

definition waits :: "(string \<times> string) list \<Rightarrow> string \<Rightarrow> bool" where
  "waits left parent \<longleftrightarrow> parent \<in> fst ` set left"

text \<open>A parent loses the edge to the name just emitted, and becomes ready when it has none left.\<close>

definition release_one ::
    "string \<Rightarrow> string \<Rightarrow> (string \<times> string) list \<times> string list \<Rightarrow> (string \<times> string) list \<times> string list" where
  "release_one name parent = (\<lambda>(left, ready).
     (let left1 = removeAll (parent, name) left in
      (left1, if waits left1 parent then ready else insort parent ready)))"

definition release :: "(string \<times> string) list \<Rightarrow> string \<Rightarrow> (string \<times> string) list \<Rightarrow> string list
    \<Rightarrow> (string \<times> string) list \<times> string list" where
  "release edges name left ready = List.fold (release_one name) (dependents_in edges name) (left, ready)"

lemma release_fold:
  assumes "List.fold (release_one name) ps (left, ready) = (left', ready')"
  shows "set left' = set left - (\<lambda>p. (p, name)) ` set ps
    \<and> (\<forall>n. n \<in> set ready' \<longleftrightarrow> n \<in> set ready \<or> (n \<in> set ps \<and> \<not> waits left' n))"
  using assms
proof (induction ps arbitrary: left ready)
  case (Cons a ps)
  let ?left = "removeAll (a, name) left"
  let ?ready = "if waits ?left a then ready else insort a ready"
  have "release_one name a (left, ready) = (?left, ?ready)" by (simp add: release_one_def)
  with Cons.prems have "List.fold (release_one name) ps (?left, ?ready) = (left', ready')" by simp
  note IH = Cons.IH [OF this]
  have "waits ?left a \<longleftrightarrow> waits left' a" using IH by (auto simp: waits_def image_iff)
  moreover have "n \<in> set ?ready \<longleftrightarrow> n \<in> set ready \<or> (n = a \<and> \<not> waits ?left a)" for n
    by (auto simp: set_insort_key)
  ultimately show ?case using IH by auto
qed simp

function kahn :: "(string \<times> string) list \<Rightarrow> string list \<Rightarrow> (string \<times> string) list \<Rightarrow> string list \<Rightarrow> string list" where
  "kahn edges ordered left [] = ordered"
| "kahn edges ordered left (name # ready) =
     (if name \<in> set ordered then kahn edges ordered left ready
      else (let (left1, ready1) = release edges name left ready in
            kahn edges (ordered @ [name]) left1 ready1))"
  by pat_completeness auto
termination
proof (relation "measures [\<lambda>(edges, ordered, left, ready). card ((set ready \<union> fst ` set edges) - set ordered),
     \<lambda>(edges, ordered, left, ready). length ready]", goal_cases)
  case (2 edges ordered left name ready)
  then have "(set ready \<union> fst ` set edges) - set ordered = (set (name # ready) \<union> fst ` set edges) - set ordered"
    by auto
  then show ?case by simp
next
  case (3 edges ordered left name ready x left1 ready1)
  then have "List.fold (release_one name) (dependents_in edges name) (left, ready) = (left1, ready1)"
    by (simp add: release_def)
  from release_fold [OF this] have "set ready1 \<subseteq> set ready \<union> set (dependents_in edges name)" by auto
  moreover have "set (dependents_in edges name) \<subseteq> fst ` set edges" by (auto simp: dependents_in_def image_iff)
  ultimately have "(set ready1 \<union> fst ` set edges) - set (ordered @ [name])
      \<subset> (set (name # ready) \<union> fst ` set edges) - set ordered" using 3(1) by auto
  then have "card ((set ready1 \<union> fst ` set edges) - set (ordered @ [name]))
      < card ((set (name # ready) \<union> fst ` set edges) - set ordered)" by (intro psubset_card_mono) auto
  then show ?case by simp
qed simp

definition dependencies_first :: "string list \<Rightarrow> meta_entry dict \<Rightarrow> string list" where
  "dependencies_first pend meta =
     (if length (raw_edges meta pend) > MAX_ORDER_CANDIDATES then pend
      else
        (let edges = order_edges meta pend;
             ordered = kahn edges [] edges (sort (filter (\<lambda>n. \<not> waits edges n) pend)) in
         if length ordered \<noteq> length pend then ordered @ sort (filter (\<lambda>n. n \<notin> set ordered) pend)
         else ordered))"

text \<open>\<^verbatim>\<open>x\<close> stands before \<^verbatim>\<open>y\<close> in the list.\<close>

definition earlier :: "'a list \<Rightarrow> 'a \<Rightarrow> 'a \<Rightarrow> bool" where
  "earlier xs x y \<longleftrightarrow> x \<in> set (takeWhile (\<lambda>z. z \<noteq> y) xs)"

definition kahn_inv :: "string list \<Rightarrow> (string \<times> string) list \<Rightarrow> string list \<Rightarrow> (string \<times> string) list \<Rightarrow> string list \<Rightarrow> bool" where
  "kahn_inv pend edges ordered left ready \<longleftrightarrow>
     set left = {(p, d) \<in> set edges. d \<notin> set ordered}
     \<and> distinct ordered \<and> set ordered \<subseteq> set pend \<and> set ready \<subseteq> set pend
     \<and> (\<forall>n \<in> set ready. \<not> waits left n)
     \<and> (\<forall>n \<in> set pend. n \<notin> set ordered \<and> \<not> waits left n \<longrightarrow> n \<in> set ready)
     \<and> (\<forall>(p, d) \<in> set edges. p \<in> set ordered \<longrightarrow> earlier ordered d p)"

lemma earlier_snoc: "\<lbrakk>y \<notin> set xs; x \<in> set xs\<rbrakk> \<Longrightarrow> earlier (xs @ [y]) x y"
  by (auto simp: earlier_def takeWhile_append)

lemma earlier_append: "\<lbrakk>earlier xs x y; y \<in> set xs\<rbrakk> \<Longrightarrow> earlier (xs @ zs) x y"
  by (auto simp: earlier_def takeWhile_append)

lemma set_dependents: "set (dependents_in edges name) = {p. (p, name) \<in> set edges}"
  by (auto simp: dependents_in_def image_iff)

lemma kahn_step:
  assumes inv: "kahn_inv pend edges ordered left (name # ready)" and new: "name \<notin> set ordered"
    and rel: "release edges name left ready = (left1, ready1)" and edges: "set edges \<subseteq> set pend \<times> set pend"
  shows "kahn_inv pend edges (ordered @ [name]) left1 ready1"
proof -
  from release_fold [OF rel [unfolded release_def]]
  have left1: "set left1 = set left - (\<lambda>p. (p, name)) ` {p. (p, name) \<in> set edges}"
    and ready1: "\<And>n. n \<in> set ready1 \<longleftrightarrow> n \<in> set ready \<or> ((n, name) \<in> set edges \<and> \<not> waits left1 n)"
    by (auto simp: set_dependents)
  have left: "set left = {(p, d) \<in> set edges. d \<notin> set ordered}" using inv by (simp add: kahn_inv_def)
  have free: "\<not> waits left name" and name: "name \<in> set pend" using inv by (simp_all add: kahn_inv_def)
  then have deps: "d \<in> set ordered" if "(name, d) \<in> set edges" for d
    using that left by (force simp: waits_def)
  have less: "waits left1 n \<Longrightarrow> waits left n" for n using left1 by (auto simp: waits_def)
  have order: "earlier (ordered @ [name]) d p" if "(p, d) \<in> set edges" "p \<in> set (ordered @ [name])" for p d
  proof (cases "p = name")
    case True
    with that deps new show ?thesis by (simp add: earlier_snoc)
  next
    case False
    with that inv show ?thesis by (auto simp: kahn_inv_def intro!: earlier_append)
  qed
  have "set left1 = {(p, d) \<in> set edges. d \<notin> set (ordered @ [name])}" unfolding left1 left by auto
  moreover have "\<not> waits left1 n" if "n \<in> set ready1" for n
    using that ready1 less inv by (auto simp: kahn_inv_def)
  moreover have "n \<in> set ready1" if n: "n \<in> set pend" "n \<notin> set (ordered @ [name])" "\<not> waits left1 n" for n
  proof (cases "waits left n")
    case True
    then obtain d where "(n, d) \<in> set left" by (auto simp: waits_def)
    moreover have "(n, d) \<notin> set left1" using n(3) by (force simp: waits_def)
    ultimately have "(n, name) \<in> set edges" using left1 by auto
    with n(3) ready1 show ?thesis by blast
  next
    case False
    with n inv have "n \<in> set (name # ready)" by (auto simp: kahn_inv_def)
    with n(2) ready1 show ?thesis by auto
  qed
  moreover have "set ready1 \<subseteq> set pend" using ready1 edges inv by (auto simp: kahn_inv_def)
  ultimately show ?thesis using inv new name order by (auto simp: kahn_inv_def)
qed

lemma kahn_result:
  "\<lbrakk>kahn_inv pend edges ordered left ready; set edges \<subseteq> set pend \<times> set pend\<rbrakk>
   \<Longrightarrow> \<exists>left1. kahn_inv pend edges (kahn edges ordered left ready) left1 []"
proof (induction edges ordered left ready rule: kahn.induct)
  case (2 edges ordered left name ready)
  show ?case
  proof (cases "name \<in> set ordered")
    case True
    with 2(3) have "kahn_inv pend edges ordered left ready" by (auto simp: kahn_inv_def)
    from 2(1) [OF True this 2(4)] True show ?thesis by simp
  next
    case False
    obtain left1 ready1 where rel: "release edges name left ready = (left1, ready1)" by fastforce
    from 2(2) [OF False rel [symmetric] refl kahn_step [OF 2(3) False rel 2(4)] 2(4)] False rel
    show ?thesis by simp
  qed
qed auto

lemma kahn_start:
  "kahn_inv pend edges [] edges (sort (filter (\<lambda>n. \<not> waits edges n) pend))"
  by (auto simp: kahn_inv_def)

text \<open>C26: ordering the packages of a cycle keeps them all, and when the edges are within the cap every
  package of the ordered part stands after the pending packages it needs; the packages left for the end
  each need another one left, so there are none without a dependency cycle, and they are sorted.
\<close>

theorem dependencies_precede:
  assumes "distinct pend"
  shows "mset (dependencies_first pend meta) = mset pend
    \<and> (if length (raw_edges meta pend) > MAX_ORDER_CANDIDATES then dependencies_first pend meta = pend
       else (\<exists>ordered rest. dependencies_first pend meta = ordered @ rest \<and> sorted rest
         \<and> list_all (\<lambda>(p, d). if p \<in> set ordered then earlier ordered d p else p \<in> set rest) (order_edges meta pend)
         \<and> list_all (\<lambda>p. list_ex (\<lambda>(q, d). q = p \<and> d \<in> set rest) (order_edges meta pend)) rest))"
proof (cases "length (raw_edges meta pend) > MAX_ORDER_CANDIDATES")
  case True
  then show ?thesis by (simp add: dependencies_first_def)
next
  case False
  let ?E = "order_edges meta pend"
  define ordered where "ordered = kahn ?E [] ?E (sort (filter (\<lambda>n. \<not> waits ?E n) pend))"
  define rest where "rest = sort (filter (\<lambda>n. n \<notin> set ordered) pend)"
  have edges: "set ?E \<subseteq> set pend \<times> set pend"
    by (auto simp: order_edges_def raw_edges_def set_uniq_first)
  from kahn_result [OF kahn_start edges] obtain left where
    left: "set left = {(p, d) \<in> set ?E. d \<notin> set ordered}" and ordered: "distinct ordered" "set ordered \<subseteq> set pend"
    and stuck: "\<forall>n \<in> set pend. n \<notin> set ordered \<longrightarrow> waits left n"
    and order: "\<forall>(p, d) \<in> set ?E. p \<in> set ordered \<longrightarrow> earlier ordered d p"
    unfolding kahn_inv_def ordered_def [symmetric] by auto
  have all: "mset (ordered @ rest) = mset pend"
  proof (rule iffD1 [OF set_eq_iff_mset_eq_distinct])
    show "set (ordered @ rest) = set pend" using ordered(2) by (auto simp: rest_def)
    show "distinct (ordered @ rest)" "distinct pend" using ordered(1) assms by (auto simp: rest_def)
  qed
  then have "length (ordered @ rest) = length pend" by (metis size_mset)
  then have result: "dependencies_first pend meta = ordered @ rest"
    using False by (auto simp: dependencies_first_def Let_def ordered_def [symmetric] rest_def [symmetric])
  have blocked: "\<exists>d. (p, d) \<in> set ?E \<and> d \<in> set rest" if "p \<in> set rest" for p
  proof -
    from that stuck obtain d where "(p, d) \<in> set left" by (auto simp: rest_def waits_def)
    with left edges show ?thesis by (auto simp: rest_def)
  qed
  have "list_all (\<lambda>(p, d). if p \<in> set ordered then earlier ordered d p else p \<in> set rest) ?E"
    using order edges by (auto simp: list_all_iff rest_def)
  moreover have "list_all (\<lambda>p. list_ex (\<lambda>(q, d). q = p \<and> d \<in> set rest) ?E) rest"
    using blocked by (force simp: list_all_iff list_ex_iff)
  moreover have "sorted rest" by (simp add: rest_def)
  ultimately show ?thesis unfolding result if_not_P [OF False] using all by blast
qed

definition order_meta :: "meta_entry dict" where
  "order_meta =
     [(''app'', \<lparr>me_provides = [], me_depends = [''lib>=2''], me_make_depends = [''gcc''], me_check_depends = [], me_maintainer = []\<rparr>),
      (''lib'', \<lparr>me_provides = [], me_depends = [], me_make_depends = [], me_check_depends = [], me_maintainer = []\<rparr>)]"

theorem dependencies_precede_witness:
  "mset (dependencies_first [''app'', ''lib''] order_meta) = mset [''app'', ''lib'']
   \<and> dependencies_first [''app'', ''lib''] order_meta = [''lib'', ''app'']"
proof
  show "mset (dependencies_first [''app'', ''lib''] order_meta) = mset [''app'', ''lib'']"
    by (rule conjunct1 [OF dependencies_precede]) simp
  show "dependencies_first [''app'', ''lib''] order_meta = [''lib'', ''app'']" by code_simp
qed

text \<open>Neither independent packages nor those of a cycle keep the order in which they came.\<close>

lemma cycle_order_sorted:
  "dependencies_first [''z'', ''a''] [] = [''a'', ''z'']"
  "dependencies_first [''z'', ''y'', ''a'']
     [(''z'', \<lparr>me_provides = [], me_depends = [''y''], me_make_depends = [], me_check_depends = [], me_maintainer = []\<rparr>),
      (''y'', \<lparr>me_provides = [], me_depends = [''z''], me_make_depends = [], me_check_depends = [], me_maintainer = []\<rparr>)]
   = [''a'', ''y'', ''z'']"
  by code_simp+

section \<open>Dependencies read first\<close>

definition MAX_PREFILL_CANDIDATES :: nat where "MAX_PREFILL_CANDIDATES = 200 * 10"

text \<open>
  A stored profile with or without a score, and the stored recipe text: what the database holds of a
  name.
\<close>

record stored_name =
  sn_profile :: "int option option"
  sn_recipe :: "string option"

definition needs_prefill :: "(string \<Rightarrow> stored_name) \<Rightarrow> string \<Rightarrow> bool" where
  "needs_prefill db name =
     (case sn_profile (db name) of
        Some (Some score) \<Rightarrow> False
      | _ \<Rightarrow> (case sn_recipe (db name) of None \<Rightarrow> True | Some recipe \<Rightarrow> recipe = []))"

text \<open>A name outside the cycle that the corpus has no stored result for.\<close>

definition to_prefill :: "meta_entry dict \<Rightarrow> (string \<Rightarrow> stored_name) \<Rightarrow> string list \<Rightarrow> string \<Rightarrow> bool" where
  "to_prefill meta db to_process dep \<longleftrightarrow>
     map_of meta dep \<noteq> None \<and> dep \<notin> set to_process \<and> needs_prefill db dep"

fun scan_missing ::
    "(string \<Rightarrow> bool) \<Rightarrow> nat \<Rightarrow> string list \<Rightarrow> string list \<Rightarrow> string list \<Rightarrow> string list \<times> bool" where
  "scan_missing wanted_dep bound seen missing [] = (missing, False)"
| "scan_missing wanted_dep bound seen missing (raw # raws) =
     (let dep = normalize_dependency raw in
      if dep = [] \<or> dep \<in> set seen then scan_missing wanted_dep bound seen missing raws
      else if length seen + 1 > MAX_PREFILL_CANDIDATES then (missing, True)
      else if \<not> wanted_dep dep then scan_missing wanted_dep bound (seen @ [dep]) missing raws
      else if length missing \<ge> bound then (missing, True)
      else scan_missing wanted_dep bound (seen @ [dep]) (missing @ [dep]) raws)"

definition missing_direct_dependencies ::
    "meta_entry dict \<Rightarrow> (string \<Rightarrow> stored_name) \<Rightarrow> string list \<Rightarrow> string list \<Rightarrow> nat \<Rightarrow> string list \<times> bool" where
  "missing_direct_dependencies meta db pend to_process bound =
     scan_missing (to_prefill meta db to_process) bound [] [] (map snd (raw_edges meta pend))"

text \<open>What a scan over the names \<open>N\<close> delivers, from the names seen and the ones collected so far.\<close>

definition scan_claim ::
    "(string \<Rightarrow> bool) \<Rightarrow> nat \<Rightarrow> string set \<Rightarrow> string set \<Rightarrow> string set \<Rightarrow> string list \<Rightarrow> bool \<Rightarrow> bool" where
  "scan_claim W bound S M N res capped \<longleftrightarrow>
     distinct res \<and> length res \<le> bound \<and> M \<subseteq> set res \<and> set res \<subseteq> M \<union> {d \<in> N. W d}
     \<and> (if capped then length res = bound \<or> card (S \<union> N) > MAX_PREFILL_CANDIDATES
        else set res = M \<union> {d \<in> N. W d})"

lemma scan_claim_step:
  assumes "scan_claim W bound S' M' N' res capped" "S' \<union> N' = S \<union> N"
    "M' \<union> {d \<in> N'. W d} = M \<union> {d \<in> N. W d}" "M \<subseteq> M'"
  shows "scan_claim W bound S M N res capped"
  using assms unfolding scan_claim_def by auto

definition names_of :: "string list \<Rightarrow> string set" where
  "names_of raws = normalize_dependency ` set raws - {[]}"

lemma scan_missing_inv:
  "\<lbrakk>scan_missing W bound seen missing raws = (res, capped); missing = filter W seen; distinct seen;
    length missing \<le> bound\<rbrakk>
   \<Longrightarrow> scan_claim W bound (set seen) (set missing) (names_of raws) res capped"
proof (induction raws arbitrary: seen missing)
  case Nil
  then show ?case by (auto simp: scan_claim_def names_of_def)
next
  case (Cons raw raws)
  let ?d = "normalize_dependency raw" and ?more = "length seen + 1 > MAX_PREFILL_CANDIDATES"
  consider (skip) "?d = [] \<or> ?d \<in> set seen" | (many) "?d \<noteq> []" "?d \<notin> set seen" ?more
    | (other) "?d \<noteq> []" "?d \<notin> set seen" "\<not> ?more" "\<not> W ?d"
    | (full) "?d \<noteq> []" "?d \<notin> set seen" "\<not> ?more" "W ?d" "length missing \<ge> bound"
    | (new) "?d \<noteq> []" "?d \<notin> set seen" "\<not> ?more" "W ?d" "\<not> length missing \<ge> bound"
    by blast
  then show ?case
  proof cases
    case skip
    with Cons.prems(1) have "scan_missing W bound seen missing raws = (res, capped)" by (auto simp: Let_def)
    from Cons.IH [OF this Cons.prems(2-4)] skip Cons.prems(2) show ?thesis
      by (elim scan_claim_step) (auto simp: names_of_def)
  next
    case many
    with Cons.prems(1) have "res = missing" "capped" by (auto simp: Let_def)
    moreover have "card (insert ?d (set seen)) \<le> card (set seen \<union> names_of (raw # raws))"
      using many(1) by (intro card_mono) (auto simp: names_of_def)
    moreover have "card (insert ?d (set seen)) = length seen + 1" using many(2) Cons.prems(3) by (simp add: distinct_card)
    ultimately show ?thesis using many(3) Cons.prems by (auto simp: scan_claim_def)
  next
    case other
    with Cons.prems(1) have "scan_missing W bound (seen @ [?d]) missing raws = (res, capped)" by (auto simp: Let_def)
    then have "scan_claim W bound (set (seen @ [?d])) (set missing) (names_of raws) res capped"
      using Cons.IH [of "seen @ [?d]" missing] other Cons.prems(2-4) by simp
    with other show ?thesis by (elim scan_claim_step) (auto simp: names_of_def)
  next
    case full
    with Cons.prems show ?thesis by (auto simp: Let_def scan_claim_def)
  next
    case new
    with Cons.prems(1) have "scan_missing W bound (seen @ [?d]) (missing @ [?d]) raws = (res, capped)" by (auto simp: Let_def)
    then have "scan_claim W bound (set (seen @ [?d])) (set (missing @ [?d])) (names_of raws) res capped"
      using Cons.IH [of "seen @ [?d]" "missing @ [?d]"] new Cons.prems(2-4) by simp
    with new show ?thesis by (elim scan_claim_step) (auto simp: names_of_def)
  qed
qed

text \<open>the dependencies read before the cycle are names outside it that lack a stored result, each once
  and at most the bound; unless the scan reports that it was cut off they are all such names the pending
  packages need, and it is cut off only at the bound or after two thousand distinct names.
\<close>

theorem prefill_exact:
  assumes "missing_direct_dependencies meta db pend to_process bound = (missing, capped)"
  shows "distinct missing \<and> length missing \<le> bound
    \<and> list_all (to_prefill meta db to_process) missing
    \<and> (if capped
       then length missing = bound \<or> card (names_of (map snd (raw_edges meta pend))) > MAX_PREFILL_CANDIDATES
       else set missing = {d \<in> names_of (map snd (raw_edges meta pend)). to_prefill meta db to_process d})"
  using scan_missing_inv [OF assms [unfolded missing_direct_dependencies_def]] by (auto simp: scan_claim_def list_all_iff)

theorem prefill_exact_witness:
  "distinct (fst (missing_direct_dependencies order_meta (\<lambda>n. \<lparr>sn_profile = None, sn_recipe = None\<rparr>) [''app''] [''app''] 5))"
  using prefill_exact [OF prod.collapse [symmetric], of order_meta "\<lambda>n. \<lparr>sn_profile = None, sn_recipe = None\<rparr>" "[''app'']" "[''app'']" 5]
  by simp

section \<open>Fetching ahead\<close>

text \<open>
  The window of fetches in flight: \<^verbatim>\<open>submitted\<close> are the names handed to the pool, in order, not yet
  consumed.  A fetch that raised yields the result of a vanished package.
\<close>

definition fetch_window :: "nat \<Rightarrow> nat" where "fetch_window workers = max (workers * 3) 24"

function consume :: "('n \<Rightarrow> 'r option) \<Rightarrow> 'r \<Rightarrow> 'n list \<Rightarrow> 'n list \<Rightarrow> ('n \<times> 'r) list" where
  "consume fetch vanished [] rest = []"
| "consume fetch vanished (n # submitted) rest =
     (n, case fetch n of None \<Rightarrow> vanished | Some r \<Rightarrow> r)
     # (case rest of [] \<Rightarrow> consume fetch vanished submitted []
        | m # rest1 \<Rightarrow> consume fetch vanished (submitted @ [m]) rest1)"
  by pat_completeness auto
termination by (relation "measure (\<lambda>(f, v, submitted, rest). length submitted + length rest)") auto

definition iter_prefetched :: "('n \<Rightarrow> 'r option) \<Rightarrow> 'r \<Rightarrow> nat \<Rightarrow> 'n list \<Rightarrow> ('n \<times> 'r) list" where
  "iter_prefetched fetch vanished workers names =
     consume fetch vanished (take (fetch_window workers) names) (drop (fetch_window workers) names)"

lemma consume_order:
  "submitted \<noteq> [] \<or> rest = [] \<Longrightarrow> consume fetch vanished submitted rest
   = map (\<lambda>n. (n, case fetch n of None \<Rightarrow> vanished | Some r \<Rightarrow> r)) (submitted @ rest)"
  by (induction fetch vanished submitted rest rule: consume.induct) (auto split: list.split)

lemma prefetch_keeps_order:
  "iter_prefetched fetch vanished workers names
   = map (\<lambda>n. (n, case fetch n of None \<Rightarrow> vanished | Some r \<Rightarrow> r)) names"
proof -
  have "take (fetch_window workers) names \<noteq> [] \<or> drop (fetch_window workers) names = []"
    by (auto simp: fetch_window_def)
  from consume_order [OF this] show ?thesis by (simp add: iter_prefetched_def)
qed

end
