(* ===== verification/Property_Track.thy ===== *)
theory Property_Track
  imports Complex_Main Score_Schema
begin

text \<open>
  The properties of a package tracked from one analysis to the next (\<^verbatim>\<open>full_aur/properties.py\<close>): their
  canonical texts, the stability weight, and the update that records a value, counts how long it held and
  reports the break when it changes.  The tables are lists of rows in the order of their insertion.  The
  digest is an argument (SHA-256), and so is the ramp of the weight, a power in the host's floating point.
  The extraction of the values from a recipe is regular-expression search and is an argument as well,
  but for the classification of a version and the buckets of a line count.
\<close>

section \<open>Canonical texts\<close>

text \<open>
  A tracked value is a set of strings (here a list), a truth value, or a string.  \<^verbatim>\<open>json.dumps\<close> with
  \<^verbatim>\<open>ensure_ascii=False\<close> escapes quotes, backslashes and control characters.
\<close>

datatype prop_value = PSet "string list" | PBool bool | PText string

definition hex_char :: "nat \<Rightarrow> char" where
  "hex_char n = (if n < 10 then char_of (48 + n) else char_of (87 + n))"

definition json_char :: "char \<Rightarrow> string" where
  "json_char c =
     (if c = DQ then [BSL, DQ]
      else if c = BSL then [BSL, BSL]
      else if c = NL then [BSL, CHR ''n'']
      else if c = CR then [BSL, CHR ''r'']
      else if c = TAB then [BSL, CHR ''t'']
      else if c = CHR 0x08 then [BSL, CHR ''b'']
      else if c = CHR 0x0C then [BSL, CHR ''f'']
      else if (of_char c :: nat) < 32
      then [BSL, CHR ''u'', CHR ''0'', CHR ''0'', hex_char (of_char c div 16), hex_char (of_char c mod 16)]
      else [c])"

definition json_string :: "string \<Rightarrow> string" where
  "json_string s = DQ # concat (map json_char s) @ [DQ]"

definition json_list :: "string list \<Rightarrow> string" where
  "json_list xs = ''['' @ py_join '','' (map json_string xs) @ '']''"

fun canonical :: "prop_value \<Rightarrow> string" where
  "canonical (PSet xs) = json_list (sorted_set xs)"
| "canonical (PBool b) = (if b then ''true'' else ''false'')"
| "canonical (PText s) = json_string s"

text \<open>Two values are the same when they are equal as Python values; a set has no order.\<close>

fun same_value :: "prop_value \<Rightarrow> prop_value \<Rightarrow> bool" where
  "same_value (PSet xs) (PSet ys) = (set xs = set ys)"
| "same_value (PBool a) (PBool b) = (a = b)"
| "same_value (PText s) (PText t) = (s = t)"
| "same_value _ _ = False"

text \<open>
  Reading such a text back, as \<^verbatim>\<open>json.loads\<close> does on the texts \<open>canonical\<close> writes: the characters of a
  string up to its closing quote, then a list of strings.  Other texts are not read (\<open>None\<close>).
\<close>

definition hex_nibble :: "char \<Rightarrow> nat option" where
  "hex_nibble c = (if is_digit c then Some (of_char c - 48)
     else if c \<in> set ''abcdef'' then Some (of_char c - 87) else None)"

fun json_scan :: "string \<Rightarrow> (string \<times> string) option" where
  "json_scan [] = None"
| "json_scan (c # r) =
     (if c = DQ then Some ([], r)
      else if c \<noteq> BSL then map_option (\<lambda>(s, t). (c # s, t)) (json_scan r)
      else (case r of
          [] \<Rightarrow> None
        | e # r1 \<Rightarrow>
            (if e = CHR ''u''
             then (case r1 of
                 z1 # z2 # h # l # r2 \<Rightarrow>
                   (case (hex_nibble z1, hex_nibble z2, hex_nibble h, hex_nibble l) of
                      (Some 0, Some 0, Some a, Some b) \<Rightarrow> map_option (\<lambda>(s, t). (char_of (16 * a + b) # s, t)) (json_scan r2)
                    | _ \<Rightarrow> None)
               | _ \<Rightarrow> None)
             else (case map_of [(DQ, DQ), (BSL, BSL), (CHR ''n'', NL), (CHR ''r'', CR), (CHR ''t'', TAB),
                     (CHR ''b'', CHR 0x08), (CHR ''f'', CHR 0x0C), (CHR ''/'', CHR ''/'')] e of
                 None \<Rightarrow> None
               | Some d \<Rightarrow> map_option (\<lambda>(s, t). (d # s, t)) (json_scan r1)))))"

fun json_items :: "nat \<Rightarrow> string \<Rightarrow> string list option" where
  "json_items 0 t = None"
| "json_items (Suc n) t =
     (case t of
        c # r \<Rightarrow> (if c \<noteq> DQ then None
          else (case json_scan r of
              None \<Rightarrow> None
            | Some (s, u) \<Rightarrow>
                (case u of
                   [] \<Rightarrow> None
                 | d # v \<Rightarrow> (if d = CHR '']'' \<and> v = [] then Some [s]
                     else if d = CHR '','' then map_option (Cons s) (json_items n v) else None))))
      | [] \<Rightarrow> None)"

definition loads :: "string \<Rightarrow> prop_value option" where
  "loads t =
     (if t = ''true'' then Some (PBool True)
      else if t = ''false'' then Some (PBool False)
      else if t = ''[]'' then Some (PSet [])
      else (case t of
          [] \<Rightarrow> None
        | c # r \<Rightarrow>
            (if c = DQ then (case json_scan r of Some (s, []) \<Rightarrow> Some (PText s) | _ \<Rightarrow> None)
             else if c = CHR ''['' then map_option PSet (json_items (length t) r)
             else None)))"

lemma hex_round: "n < 16 \<Longrightarrow> hex_nibble (hex_char n) = Some n"
proof -
  have "list_all (\<lambda>n. hex_nibble (hex_char n) = Some n) [0..<16]" by code_simp
  then show "n < 16 \<Longrightarrow> hex_nibble (hex_char n) = Some n" by (simp add: list_all_iff)
qed

lemma json_scan_char: "json_scan (json_char c @ r) = map_option (\<lambda>(s, t). (c # s, t)) (json_scan r)"
proof (cases "c \<in> {DQ, BSL, NL, CR, TAB, CHR 0x08, CHR 0x0C}")
  case True
  then show ?thesis by (elim insertE emptyE) (simp_all add: json_char_def)
next
  case False
  show ?thesis
  proof (cases "(of_char c :: nat) < 32")
    case True
    have "(of_char c :: nat) div 16 < 16" "(of_char c :: nat) mod 16 < 16" using True by simp_all
    moreover have "char_of (16 * (of_char c div 16) + of_char c mod 16 :: nat) = c" by simp
    moreover have "hex_nibble (CHR ''0'') = Some 0" by code_simp
    ultimately show ?thesis using False True by (simp add: json_char_def hex_round)
  next
    case big: False
    with False show ?thesis by (simp add: json_char_def)
  qed
qed

lemma json_scan_string: "json_scan (concat (map json_char s) @ DQ # r) = Some (s, r)"
  by (induction s) (simp_all add: json_scan_char)

lemma json_items_list:
  "\<lbrakk>xs \<noteq> []; length xs \<le> n\<rbrakk> \<Longrightarrow> json_items n (py_join '','' (map json_string xs) @ '']'') = Some xs"
proof (induction n arbitrary: xs)
  case (Suc n)
  then obtain x ys where xs: "xs = x # ys" by (cases xs) auto
  show ?case
  proof (cases ys)
    case Nil
    then show ?thesis by (simp add: xs json_string_def json_scan_string)
  next
    case (Cons y zs)
    with Suc.prems xs have "ys \<noteq> []" "length ys \<le> n" by simp_all
    note Suc.IH [OF this]
    moreover have "py_join '','' (map json_string xs) @ '']''
        = DQ # concat (map json_char x) @ DQ # CHR '','' # py_join '','' (map json_string ys) @ '']''"
      by (simp add: xs Cons json_string_def)
    ultimately show ?thesis by (simp add: json_scan_string xs del: py_join.simps)
  qed
qed simp

lemma join_length: "xs \<noteq> [] \<Longrightarrow> length xs \<le> length (py_join '','' (map json_string xs))"
proof (induction "'','' :: string" "map json_string xs" arbitrary: xs rule: py_join.induct)
  case (2 x)
  then show ?case by (cases xs) (auto simp: json_string_def)
next
  case (3 x y ys)
  then obtain a b bs where "xs = a # b # bs" "map json_string (b # bs) = y # ys" by auto
  with 3(1) [of "b # bs"] show ?case by simp
qed simp

lemma same_value_canonical: "same_value v w \<Longrightarrow> canonical v = canonical w"
  by (cases v; cases w)
    (auto simp: sorted_set_def intro!: arg_cong [of _ _ json_list] sorted_distinct_set_unique)

text \<open>reading a canonical text back gives the value, a set in sorted order, so that two values have
  the same canonical text exactly when they are the same.
\<close>

theorem canonical_roundtrip:
  "loads (canonical v) = Some (case v of PSet xs \<Rightarrow> PSet (sorted_set xs) | _ \<Rightarrow> v)
   \<and> (canonical v = canonical w \<longleftrightarrow> same_value v w)"
proof -
  have load: "loads (canonical v) = Some (case v of PSet xs \<Rightarrow> PSet (sorted_set xs) | _ \<Rightarrow> v)" for v
  proof (cases v)
    case (PSet xs)
    show ?thesis
    proof (cases "sorted_set xs = []")
      case True
      then show ?thesis by (simp add: PSet json_list_def loads_def)
    next
      case False
      let ?t = "py_join '','' (map json_string (sorted_set xs)) @ '']''"
      have "hd ?t = DQ" using False
        by (cases "sorted_set xs"; cases "tl (sorted_set xs)") (auto simp: json_string_def)
      then have "?t \<noteq> '']''" by auto
      moreover have "json_items (length (CHR ''['' # ?t)) ?t = Some (sorted_set xs)"
        using False join_length [OF False] by (intro json_items_list) auto
      ultimately show ?thesis by (simp add: PSet json_list_def loads_def)
    qed
  next
    case (PBool b)
    then show ?thesis by (simp add: loads_def)
  next
    case (PText s)
    then show ?thesis by (simp add: loads_def json_string_def json_scan_string)
  qed
  have "canonical v = canonical w \<longleftrightarrow> same_value v w"
  proof
    assume "canonical v = canonical w"
    then have "loads (canonical v) = loads (canonical w)" by simp
    then show "same_value v w" unfolding load
      by (cases v; cases w) (auto dest: arg_cong [of _ _ set])
  next
    assume "same_value v w"
    then show "canonical v = canonical w" by (rule same_value_canonical)
  qed
  with load show ?thesis by simp
qed

section \<open>Bounds and buckets\<close>

definition MAX_PROPERTY_ITEMS :: nat where "MAX_PROPERTY_ITEMS = 512"
definition MAX_TRANSITIONS :: nat where "MAX_TRANSITIONS = 256"
definition STABILITY_FLOOR :: nat where "STABILITY_FLOOR = 10"

text \<open>\<^verbatim>\<open>_bounded\<close>: the values as they come, a set or a list, and the set that is kept.\<close>

definition bounded :: "string list \<Rightarrow> string list" where
  "bounded values =
     (if length values \<le> MAX_PROPERTY_ITEMS then remdups values
      else remdups (take MAX_PROPERTY_ITEMS (sort values)))"

text \<open>
  A description of six hundred words of which two are different: the bound counts repetitions, so the
  second word is lost although the set has two items.
\<close>

lemma bounded_counts_repetitions:
  "bounded (replicate 599 ''app'' @ [''web'']) = [''app'']"
proof -
  have "sort (replicate 599 ''app'' @ [''web'']) = replicate 599 ''app'' @ [''web'']"
    by (intro sorted_sort_id) (simp add: sorted_append sorted_replicate)
  moreover have "take 512 (replicate 599 ''app'' @ [''web'']) = replicate 512 ''app''" by simp
  moreover have "remdups (replicate (Suc n) x) = [x]" for n and x :: string by (induction n) auto
  from this [of 511] have "remdups (replicate 512 ''app'') = [''app'']" by simp
  ultimately show ?thesis by (simp add: bounded_def MAX_PROPERTY_ITEMS_def)
qed

definition LINE_COUNT_BUCKETS :: "(nat \<times> nat option) list" where
  "LINE_COUNT_BUCKETS = [(0, Some 5), (6, Some 15), (16, Some 40), (41, Some 100), (101, Some 300),
     (301, Some 1000), (1001, None)]"

definition bucket_text :: "nat \<times> nat option \<Rightarrow> string" where
  "bucket_text b = (case b of (lo, Some hi) \<Rightarrow> show_nat lo @ ''-'' @ show_nat hi | (lo, None) \<Rightarrow> show_nat lo @ ''+'')"

definition in_bucket :: "nat \<Rightarrow> nat \<times> nat option \<Rightarrow> bool" where
  "in_bucket n b \<longleftrightarrow> fst b \<le> n \<and> (case snd b of None \<Rightarrow> True | Some hi \<Rightarrow> n \<le> hi)"

definition bucket_line_count :: "nat \<Rightarrow> string" where
  "bucket_line_count n =
     (case List.find (in_bucket n) LINE_COUNT_BUCKETS of None \<Rightarrow> ''unknown'' | Some b \<Rightarrow> bucket_text b)"

text \<open>Every line count is in exactly one bucket.\<close>

lemma buckets_partition: "length (filter (in_bucket n) LINE_COUNT_BUCKETS) = 1"
  by (auto simp: LINE_COUNT_BUCKETS_def in_bucket_def)

text \<open>\<^verbatim>\<open>^[a-f0-9]{7,40}$\<close> and the other shapes, where \<^verbatim>\<open>$\<close> also matches before a final newline.\<close>

definition chop_newline :: "string \<Rightarrow> string" where
  "chop_newline s = (if s \<noteq> [] \<and> last s = NL then butlast s else s)"

definition digits_of :: "string \<Rightarrow> string \<times> string" where
  "digits_of s = (takeWhile is_digit s, dropWhile is_digit s)"

definition hash_shape :: "string \<Rightarrow> bool" where
  "hash_shape s \<longleftrightarrow>
     (let h = chop_newline s in
      7 \<le> length h \<and> length h \<le> 40 \<and> list_all (\<lambda>c. c \<in> set ''abcdef'' \<or> is_digit c) h \<and> \<not> is_digit (hd s))"

text \<open>The lengths of the parts between the dots of a text of digits and dots.\<close>

definition part_lengths :: "string \<Rightarrow> nat list option" where
  "part_lengths s =
     (let parts = py_split CHR ''.'' s in
      if list_all (list_all is_digit) parts then Some (map length parts) else None)"

definition calver_shape :: "string \<Rightarrow> bool" where
  "calver_shape s \<longleftrightarrow>
     (case part_lengths (chop_newline s) of
        Some [y, m] \<Rightarrow> y = 4 \<and> 1 \<le> m \<and> m \<le> 2
      | Some [y, m, d] \<Rightarrow> y = 4 \<and> 1 \<le> m \<and> m \<le> 2 \<and> 1 \<le> d
      | _ \<Rightarrow> False)"

definition date_shape :: "string \<Rightarrow> bool" where
  "date_shape s \<longleftrightarrow> length (chop_newline s) = 8 \<and> list_all is_digit (chop_newline s)"

fun number_dot :: "string \<Rightarrow> string option" where
  "number_dot s =
     (case digits_of s of
        ([], r) \<Rightarrow> None
      | (d # ds, c # r) \<Rightarrow> (if c = CHR ''.'' then Some r else None)
      | _ \<Rightarrow> None)"

definition semver_shape :: "string \<Rightarrow> bool" where
  "semver_shape s \<longleftrightarrow>
     (case number_dot s of
        None \<Rightarrow> False
      | Some r \<Rightarrow> (case number_dot r of None \<Rightarrow> False | Some r1 \<Rightarrow> r1 \<noteq> [] \<and> is_digit (hd r1)))"

definition classify_version :: "string \<Rightarrow> string" where
  "classify_version v =
     (if v = [] then ''other''
      else if hash_shape v then ''hash''
      else if calver_shape v then ''calver''
      else if date_shape v then ''date''
      else if semver_shape v then ''semver''
      else ''other'')"

section \<open>Stability\<close>

text \<open>\<^verbatim>\<open>min(1.0, ...)\<close> of the ramp, which is positive from one on.\<close>

definition stability_weight :: "(nat \<Rightarrow> rat) \<Rightarrow> nat \<Rightarrow> nat \<Rightarrow> rat" where
  "stability_weight ramp held least =
     (if held = 0 \<or> held < least then 0 else min 1 (ramp (held - least + 1)))"

lemma weight_positive:
  "(\<And>n. 1 \<le> n \<Longrightarrow> 0 < ramp n) \<Longrightarrow> 0 < stability_weight ramp held least \<longleftrightarrow> 0 < held \<and> least \<le> held"
  by (auto simp: stability_weight_def)

section \<open>The update\<close>

record prop_row =
  pr_hash :: string
  pr_value :: string
  pr_stable :: nat
  pr_first :: string
  pr_changed :: string

record transition =
  tr_package :: string
  tr_key :: string
  tr_old :: string
  tr_new :: string
  tr_at :: string

record prop_db =
  db_rows :: "string \<times> string \<rightharpoonup> prop_row"
  db_transitions :: "transition list"
  db_gained :: "(string \<times> string \<times> string) list"

record prop_break =
  pb_key :: string
  pb_old :: string
  pb_new :: string
  pb_stable :: nat
  pb_weight :: rat

definition SRCINFO_KEYS :: "string list" where "SRCINFO_KEYS = [''depends'', ''license'']"

text \<open>The value of the property in the preceding recipe, where that one may be compared.\<close>

definition prior_value :: "prop_value dict option \<Rightarrow> string \<Rightarrow> prop_value option" where
  "prior_value previous key =
     (case previous of None \<Rightarrow> None
      | Some prev \<Rightarrow> (if key \<in> set SRCINFO_KEYS then None else map_of prev key))"

text \<open>The branches of the loop body; a change carries the text of its old side.\<close>

datatype row_action = FirstSeen | Held | Repaired | Changed string nat

definition decide :: "(string \<Rightarrow> string) \<Rightarrow> prop_value option \<Rightarrow> prop_value \<Rightarrow> prop_row option \<Rightarrow> row_action" where
  "decide digest prior new row =
     (case row of
        None \<Rightarrow> FirstSeen
      | Some r \<Rightarrow>
          (if pr_hash r = digest (canonical new) then Held
           else (case prior of
               None \<Rightarrow> Changed (pr_value r) (pr_stable r)
             | Some v \<Rightarrow> (if digest (canonical v) = digest (canonical new) then Repaired
                 else Changed (canonical v) (pr_stable r)))))"

text \<open>\<^verbatim>\<open>set(json.loads(text or "[]"))\<close>: the items of a list, the characters of a string, or an exception.\<close>

definition hosts_of :: "string \<Rightarrow> string list option" where
  "hosts_of t =
     (case loads (if t = [] then ''[]'' else t) of
        Some (PSet xs) \<Rightarrow> Some xs
      | Some (PText s) \<Rightarrow> Some (map (\<lambda>c. [c]) s)
      | _ \<Rightarrow> None)"

definition gained_hosts :: "string \<Rightarrow> string \<Rightarrow> string list" where
  "gained_hosts old new =
     (case (hosts_of old, hosts_of new) of
        (Some os, Some ns) \<Rightarrow> sorted_set (filter (\<lambda>h. h \<notin> set os) ns)
      | _ \<Rightarrow> [])"

text \<open>The feed of gained hosts; a write that raises is logged and dropped.\<close>

definition record_gained_hosts ::
    "string \<Rightarrow> string list \<Rightarrow> string \<Rightarrow> (string \<times> string \<times> string) list \<Rightarrow> (string \<times> string \<times> string) list" where
  "record_gained_hosts package hosts moment feed =
     (if py_strip package = [] then feed
      else feed @ map (\<lambda>h. (py_strip package, h, moment)) (filter (\<lambda>h. h \<noteq> []) hosts))"

text \<open>The newest rows of a key are kept.\<close>

definition of_key :: "string \<Rightarrow> string \<Rightarrow> transition \<Rightarrow> bool" where
  "of_key package key tr \<longleftrightarrow> tr_package tr = package \<and> tr_key tr = key"

fun drop_matching :: "('a \<Rightarrow> bool) \<Rightarrow> nat \<Rightarrow> 'a list \<Rightarrow> 'a list" where
  "drop_matching P 0 xs = xs"
| "drop_matching P (Suc n) [] = []"
| "drop_matching P (Suc n) (x # xs) = (if P x then drop_matching P n xs else x # drop_matching P (Suc n) xs)"

definition trim_transitions :: "string \<Rightarrow> string \<Rightarrow> transition list \<Rightarrow> transition list" where
  "trim_transitions package key trs =
     drop_matching (of_key package key) (length (filter (of_key package key) trs) - MAX_TRANSITIONS) trs"

text \<open>
  One analysis: the package, the extracted values, the values of the preceding recipe, the moment, the
  local clock and whether the feed takes the write.
\<close>

record observation =
  ob_values :: "prop_value dict"
  ob_previous :: "prop_value dict option"
  ob_at :: string
  ob_clock :: string
  ob_feed_ok :: bool

definition set_row :: "string \<times> string \<Rightarrow> prop_row \<Rightarrow> prop_db \<Rightarrow> prop_db" where
  "set_row k r db = db\<lparr>db_rows := (db_rows db)(k \<mapsto> r)\<rparr>"

definition log_change :: "string \<Rightarrow> observation \<Rightarrow> string \<Rightarrow> string \<Rightarrow> string \<Rightarrow> prop_db \<Rightarrow> prop_db" where
  "log_change package obs key old new db =
     db\<lparr>db_transitions := trim_transitions package key (db_transitions db @
          [\<lparr>tr_package = package, tr_key = key, tr_old = old, tr_new = new, tr_at = ob_at obs\<rparr>]),
        db_gained := (if key = ''source_hosts'' \<and> gained_hosts old new \<noteq> [] \<and> ob_feed_ok obs
          then record_gained_hosts package (gained_hosts old new) (ob_clock obs) (db_gained db)
          else db_gained db)\<rparr>"

definition update_one ::
    "(string \<Rightarrow> string) \<Rightarrow> (nat \<Rightarrow> rat) \<Rightarrow> nat \<Rightarrow> string \<Rightarrow> observation
     \<Rightarrow> string \<times> prop_value \<Rightarrow> prop_break list \<times> prop_db \<Rightarrow> prop_break list \<times> prop_db" where
  "update_one digest ramp least package obs = (\<lambda>(key, new) (breaks, db).
     (let ser = canonical new; h = digest ser; row = db_rows db (package, key);
          fresh = \<lparr>pr_hash = h, pr_value = ser, pr_stable = 0, pr_first = ob_at obs, pr_changed = ob_at obs\<rparr>;
          r = (case row of None \<Rightarrow> fresh | Some r \<Rightarrow> r) in
      case decide digest (prior_value (ob_previous obs) key) new row of
        FirstSeen \<Rightarrow> (breaks, set_row (package, key) fresh db)
      | Held \<Rightarrow> (breaks, set_row (package, key) (r\<lparr>pr_stable := pr_stable r + 1\<rparr>) db)
      | Repaired \<Rightarrow> (breaks, set_row (package, key) (r\<lparr>pr_hash := h, pr_value := ser, pr_stable := pr_stable r + 1\<rparr>) db)
      | Changed old n \<Rightarrow>
          (let w = stability_weight ramp n least in
           (if w > 0 then breaks @ [\<lparr>pb_key = key, pb_old = old, pb_new = ser, pb_stable = n, pb_weight = w\<rparr>] else breaks,
            set_row (package, key) (r\<lparr>pr_hash := h, pr_value := ser, pr_stable := 0, pr_changed := ob_at obs\<rparr>)
              (log_change package obs key old ser db)))))"

definition update_properties ::
    "(string \<Rightarrow> string) \<Rightarrow> (nat \<Rightarrow> rat) \<Rightarrow> nat \<Rightarrow> string \<Rightarrow> observation \<Rightarrow> prop_db \<Rightarrow> prop_break list \<times> prop_db" where
  "update_properties digest ramp least package obs db =
     List.fold (update_one digest ramp least package obs) (ob_values obs) ([], db)"

section \<open>A break is a value that held\<close>

text \<open>What an update does to the row of its key, and the breaks it adds.\<close>

definition row_effect ::
    "(string \<Rightarrow> string) \<Rightarrow> (nat \<Rightarrow> rat) \<Rightarrow> nat \<Rightarrow> observation \<Rightarrow> string \<Rightarrow> prop_value \<Rightarrow> prop_row option
     \<Rightarrow> prop_break list \<times> prop_row" where
  "row_effect digest ramp least obs key new row =
     (let ser = canonical new; h = digest ser;
          fresh = \<lparr>pr_hash = h, pr_value = ser, pr_stable = 0, pr_first = ob_at obs, pr_changed = ob_at obs\<rparr>;
          r = (case row of None \<Rightarrow> fresh | Some r \<Rightarrow> r) in
      case decide digest (prior_value (ob_previous obs) key) new row of
        FirstSeen \<Rightarrow> ([], fresh)
      | Held \<Rightarrow> ([], r\<lparr>pr_stable := pr_stable r + 1\<rparr>)
      | Repaired \<Rightarrow> ([], r\<lparr>pr_hash := h, pr_value := ser, pr_stable := pr_stable r + 1\<rparr>)
      | Changed old n \<Rightarrow>
          (if stability_weight ramp n least > 0
           then [\<lparr>pb_key = key, pb_old = old, pb_new = ser, pb_stable = n, pb_weight = stability_weight ramp n least\<rparr>] else [],
           r\<lparr>pr_hash := h, pr_value := ser, pr_stable := 0, pr_changed := ob_at obs\<rparr>))"

lemma update_one_effect:
  assumes "row_effect digest ramp least obs key new (db_rows db (package, key)) = (bs1, r1)"
    and "update_one digest ramp least package obs (key, new) (bs, db) = (bs', db')"
  shows "bs' = bs @ bs1" "db_rows db' = (db_rows db)((package, key) \<mapsto> r1)" "list_all (\<lambda>b. pb_key b = key) bs1"
  using assms
  by (auto simp: update_one_def row_effect_def Let_def set_row_def log_change_def split: row_action.splits if_splits)

lemma update_fold_other:
  "\<lbrakk>key \<notin> fst ` set kvs; List.fold (update_one digest ramp least package obs) kvs (bs, db) = (bs', db')\<rbrakk>
   \<Longrightarrow> filter (\<lambda>b. pb_key b = key) bs' = filter (\<lambda>b. pb_key b = key) bs
     \<and> db_rows db' (package, key) = db_rows db (package, key)"
proof (induction kvs arbitrary: bs db)
  case (Cons kv kvs)
  obtain k v where kv: "kv = (k, v)" by fastforce
  obtain bs1 r1 where e: "row_effect digest ramp least obs k v (db_rows db (package, k)) = (bs1, r1)" by fastforce
  obtain bs2 db2 where u: "update_one digest ramp least package obs (k, v) (bs, db) = (bs2, db2)" by fastforce
  note eff = update_one_effect [OF e u]
  have "filter (\<lambda>b. pb_key b = key) bs1 = []" using eff(3) Cons.prems(1) by (auto simp: filter_empty_conv list_all_iff kv)
  with Cons.IH [of bs2 db2] Cons.prems eff(1,2) show ?case by (auto simp: kv u)
qed simp

lemma update_fold_own:
  "\<lbrakk>distinct (map fst kvs); map_of kvs key = Some v;
    row_effect digest ramp least obs key v (db_rows db (package, key)) = (bs1, r1);
    List.fold (update_one digest ramp least package obs) kvs (bs, db) = (bs', db')\<rbrakk>
   \<Longrightarrow> filter (\<lambda>b. pb_key b = key) bs' = filter (\<lambda>b. pb_key b = key) bs @ bs1
     \<and> db_rows db' (package, key) = Some r1"
proof (induction kvs arbitrary: bs db)
  case (Cons kv kvs)
  obtain k v' where kv: "kv = (k, v')" by fastforce
  obtain bs2 r2 where e: "row_effect digest ramp least obs k v' (db_rows db (package, k)) = (bs2, r2)" by fastforce
  obtain bs3 db3 where u: "update_one digest ramp least package obs (k, v') (bs, db) = (bs3, db3)" by fastforce
  note eff = update_one_effect [OF e u]
  have rest: "List.fold (update_one digest ramp least package obs) kvs (bs3, db3) = (bs', db')"
    using Cons.prems(4) by (simp add: kv u)
  show ?case
  proof (cases "k = key")
    case True
    with Cons.prems(2,3) e have own: "bs2 = bs1" "r2 = r1" by (auto simp: kv)
    have "key \<notin> fst ` set kvs" using Cons.prems(1) True by (simp add: kv)
    from update_fold_other [OF this rest] eff own True show ?thesis
      by (auto simp: list_all_iff filter_id_conv)
  next
    case False
    then have "filter (\<lambda>b. pb_key b = key) bs2 = []" using eff(3) by (auto simp: filter_empty_conv list_all_iff)
    with Cons.IH [OF _ _ _ rest] Cons.prems(1-3) False eff(1,2) show ?thesis by (auto simp: kv)
  qed
qed simp

text \<open>The observations of a package, one after the other, and how long the last value has held.\<close>

definition observe :: "(string \<Rightarrow> string) \<Rightarrow> (nat \<Rightarrow> rat) \<Rightarrow> nat \<Rightarrow> string \<Rightarrow> prop_db \<Rightarrow> observation list \<Rightarrow> prop_db" where
  "observe digest ramp least package db os =
     foldl (\<lambda>db obs. snd (update_properties digest ramp least package obs db)) db os"

definition run_length :: "'a list \<Rightarrow> nat" where
  "run_length ts = length (takeWhile (\<lambda>t. t = last ts) (rev ts))"

lemma run_length_snoc: "run_length (ts @ [t]) = (if ts \<noteq> [] \<and> last ts = t then run_length ts + 1 else 1)"
  by (cases ts rule: rev_cases) (auto simp: run_length_def)

definition text_of :: "string \<Rightarrow> observation \<Rightarrow> string" where
  "text_of key obs = (case map_of (ob_values obs) key of None \<Rightarrow> [] | Some v \<Rightarrow> canonical v)"

text \<open>Each analysis extracts the key once, and compares with what the one before it extracted.\<close>

definition well_observed :: "string \<Rightarrow> observation list \<Rightarrow> bool" where
  "well_observed key os \<longleftrightarrow>
     list_all (\<lambda>obs. distinct (map fst (ob_values obs)) \<and> map_of (ob_values obs) key \<noteq> None) os
     \<and> list_all (\<lambda>(earlier_obs, obs). case prior_value (ob_previous obs) key of None \<Rightarrow> True
          | Some v \<Rightarrow> canonical v = text_of key earlier_obs) (zip os (tl os))"

lemma zip_tl_snoc: "os \<noteq> [] \<Longrightarrow> zip (os @ [x]) (tl (os @ [x])) = zip os (tl os) @ [(last os, x)]"
proof (induction os)
  case (Cons a os)
  then show ?case by (cases os) auto
qed simp

lemma well_observed_snoc:
  "well_observed key (os @ [obs]) \<Longrightarrow> well_observed key os
   \<and> distinct (map fst (ob_values obs)) \<and> map_of (ob_values obs) key \<noteq> None
   \<and> (os \<noteq> [] \<longrightarrow> (case prior_value (ob_previous obs) key of None \<Rightarrow> True | Some v \<Rightarrow> canonical v = text_of key (last os)))"
  by (cases "os = []") (auto simp: well_observed_def zip_tl_snoc simp del: tl_append2)

text \<open>No two of the texts observed collide under the digest.\<close>

lemma apart_last:
  "\<lbrakk>inj_on f (g ` set (xs @ [x])); xs \<noteq> []\<rbrakk> \<Longrightarrow> f (g (last xs)) = f (g x) \<longleftrightarrow> g (last xs) = g x"
  using inj_on_eq_iff [of f "g ` set (xs @ [x])" "g (last xs)" "g x"] by simp

lemma row_effect_next:
  assumes row: "row = Some r" "pr_value r = t" "pr_hash r = digest t"
    and prior: "case prior_value (ob_previous obs) key of None \<Rightarrow> True | Some v \<Rightarrow> canonical v = t"
    and digest: "digest t = digest (canonical new) \<longleftrightarrow> t = canonical new"
  shows "row_effect digest ramp least obs key new row =
    (if t = canonical new then ([], r\<lparr>pr_stable := pr_stable r + 1\<rparr>)
     else (if stability_weight ramp (pr_stable r) least > 0
           then [\<lparr>pb_key = key, pb_old = t, pb_new = canonical new, pb_stable = pr_stable r,
                  pb_weight = stability_weight ramp (pr_stable r) least\<rparr>] else [],
           r\<lparr>pr_hash := digest (canonical new), pr_value := canonical new, pr_stable := 0, pr_changed := ob_at obs\<rparr>))"
  using assms by (auto simp: row_effect_def decide_def Let_def split: option.splits)

lemma observed_row:
  assumes "well_observed key os" "os \<noteq> []" "inj_on digest (text_of key ` set os)" "db_rows db (package, key) = None"
  shows "\<exists>r. db_rows (observe digest ramp least package db os) (package, key) = Some r
    \<and> pr_value r = text_of key (last os) \<and> pr_hash r = digest (text_of key (last os))
    \<and> pr_stable r + 1 = run_length (map (text_of key) os)"
  using assms
proof (induction os rule: rev_induct)
  case (snoc obs os)
  note well = well_observed_snoc [OF snoc.prems(1)]
  then obtain v where v: "map_of (ob_values obs) key = Some v" by auto
  let ?db = "observe digest ramp least package db os"
  obtain bs r where e: "row_effect digest ramp least obs key v (db_rows ?db (package, key)) = (bs, r)" by fastforce
  obtain bs' db' where u: "update_properties digest ramp least package obs ?db = (bs', db')" by fastforce
  from update_fold_own [OF _ v e u [unfolded update_properties_def]] well
  have row: "db_rows (observe digest ramp least package db (os @ [obs])) (package, key) = Some r"
    by (simp add: observe_def u [unfolded observe_def])
  have ser: "text_of key obs = canonical v" by (simp add: text_of_def v)
  show ?case
  proof (cases "os = []")
    case True
    with e snoc.prems(4) show ?thesis using row
      by (auto simp: observe_def row_effect_def decide_def ser run_length_def Let_def)
  next
    case False
    have inj: "inj_on digest (text_of key ` set os)" using snoc.prems(3) by (auto intro: inj_on_subset)
    from snoc.IH [OF _ False inj snoc.prems(4)] well obtain r0 where
      r0: "db_rows ?db (package, key) = Some r0" "pr_value r0 = text_of key (last os)"
        "pr_hash r0 = digest (text_of key (last os))" "pr_stable r0 + 1 = run_length (map (text_of key) os)" by auto
    have dig: "digest (text_of key (last os)) = digest (canonical v) \<longleftrightarrow> text_of key (last os) = canonical v"
      using apart_last [OF snoc.prems(3) False] by (simp only: ser)
    have prior: "case prior_value (ob_previous obs) key of None \<Rightarrow> True | Some v \<Rightarrow> canonical v = text_of key (last os)"
      using well False by blast
    from row_effect_next [OF r0(1-3) prior dig] e r0(2-4) row False show ?thesis
      by (auto simp: ser run_length_snoc last_map split: if_splits)
  qed
qed simp

text \<open>C21: whatever properties are tracked, an analysis reports a break of a property exactly when its text
  differs from the last one observed and that one had been observed, without a change, more often than the
  floor (and at least twice); the break carries both texts and how often the old one was repeated.
\<close>

theorem breaks_are_long_runs:
  assumes "well_observed key (os @ [obs])" "os \<noteq> []" "inj_on digest (text_of key ` set (os @ [obs]))"
    and "db_rows db (package, key) = None" "\<forall>n \<ge> 1. 0 < ramp n"
  shows "map (\<lambda>b. (pb_old b, pb_new b, pb_stable b))
      (filter (\<lambda>b. pb_key b = key) (fst (update_properties digest ramp least package obs (observe digest ramp least package db os))))
    = (let held = run_length (map (text_of key) os) - 1 in
       if text_of key (last os) \<noteq> text_of key obs \<and> 0 < held \<and> least \<le> held
       then [(text_of key (last os), text_of key obs, held)] else [])"
proof -
  note well = well_observed_snoc [OF assms(1)]
  then obtain v where v: "map_of (ob_values obs) key = Some v" by auto
  let ?db = "observe digest ramp least package db os"
  have inj: "inj_on digest (text_of key ` set os)" using assms(3) by (auto intro: inj_on_subset)
  from observed_row [OF _ assms(2) inj assms(4)] well obtain r where
    r: "db_rows ?db (package, key) = Some r" "pr_value r = text_of key (last os)"
      "pr_hash r = digest (text_of key (last os))" "pr_stable r + 1 = run_length (map (text_of key) os)" by blast
  obtain bs r' where e: "row_effect digest ramp least obs key v (db_rows ?db (package, key)) = (bs, r')" by fastforce
  obtain bs' db' where u: "update_properties digest ramp least package obs ?db = (bs', db')" by fastforce
  from update_fold_own [OF _ v e u [unfolded update_properties_def]] well
  have own: "filter (\<lambda>b. pb_key b = key) bs' = bs" by simp
  have ser: "text_of key obs = canonical v" by (simp add: text_of_def v)
  have dig: "digest (text_of key (last os)) = digest (canonical v) \<longleftrightarrow> text_of key (last os) = canonical v"
    using apart_last [OF assms(3,2)] by (simp only: ser)
  have prior: "case prior_value (ob_previous obs) key of None \<Rightarrow> True | Some v \<Rightarrow> canonical v = text_of key (last os)"
    using well assms(2) by blast
  have held: "run_length (map (text_of key) os) - 1 = pr_stable r" using r(4) by simp
  have pos: "0 < stability_weight ramp (pr_stable r) least \<longleftrightarrow> 0 < pr_stable r \<and> least \<le> pr_stable r"
    using weight_positive assms(5) by blast
  from row_effect_next [OF r(1-3) prior dig] e
  show ?thesis unfolding u fst_conv own held Let_def ser by (auto simp: pos split: if_splits)
qed

definition same_again :: "string \<Rightarrow> observation" where
  "same_again licence = \<lparr>ob_values = [(''license'', PSet [licence])], ob_previous = None, ob_at = ''t'', ob_clock = ''t'', ob_feed_ok = True\<rparr>"

definition empty_db :: prop_db where
  "empty_db = \<lparr>db_rows = (\<lambda>k. None), db_transitions = [], db_gained = []\<rparr>"

theorem breaks_are_long_runs_witness:
  "map (\<lambda>b. (pb_old b, pb_new b, pb_stable b))
     (filter (\<lambda>b. pb_key b = ''license'') (fst (update_properties (\<lambda>t. t) (\<lambda>n. 1) 2 ''p'' (same_again ''GPL'')
        (observe (\<lambda>t. t) (\<lambda>n. 1) 2 ''p'' empty_db [same_again ''MIT'', same_again ''MIT'', same_again ''MIT'']))))
   = [(canonical (PSet [''MIT'']), canonical (PSet [''GPL'']), 2)]"
proof -
  have "text_of ''license'' (same_again l) = canonical (PSet [l])" for l
    by (simp add: text_of_def same_again_def)
  moreover have "canonical (PSet [''MIT'']) \<noteq> canonical (PSet [''GPL''])" by code_simp
  moreover have "well_observed ''license'' ([same_again ''MIT'', same_again ''MIT'', same_again ''MIT''] @ [same_again ''GPL''])"
    by (simp add: well_observed_def same_again_def prior_value_def)
  moreover have "db_rows empty_db (''p'', ''license'') = None" by (simp add: empty_db_def)
  ultimately show ?thesis
    using breaks_are_long_runs [of "''license''" "[same_again ''MIT'', same_again ''MIT'', same_again ''MIT'']" "same_again ''GPL''"
        "\<lambda>t. t" empty_db "''p''" "\<lambda>n. 1" 2]
    by (simp add: run_length_def)
qed

text \<open>
  With the floor of ten, a value observed ten times in a row is not yet stable: the first observation is
  not counted.
\<close>

lemma floor_needs_one_more:
  "fst (update_properties (\<lambda>t. t) (\<lambda>n. 1) STABILITY_FLOOR ''p'' (same_again ''GPL'')
     (observe (\<lambda>t. t) (\<lambda>n. 1) STABILITY_FLOOR ''p'' empty_db (replicate 10 (same_again ''MIT'')))) = []"
  "fst (update_properties (\<lambda>t. t) (\<lambda>n. 1) STABILITY_FLOOR ''p'' (same_again ''GPL'')
     (observe (\<lambda>t. t) (\<lambda>n. 1) STABILITY_FLOOR ''p'' empty_db (replicate 11 (same_again ''MIT'')))) \<noteq> []"
  by code_simp+

section \<open>The timeline is bounded\<close>

lemma filter_drop_matching: "filter P (drop_matching P n xs) = drop n (filter P xs)"
  by (induction P n xs rule: drop_matching.induct) auto

lemma filter_drop_other: "(\<And>x. P x \<Longrightarrow> \<not> Q x) \<Longrightarrow> filter Q (drop_matching P n xs) = filter Q xs"
  by (induction P n xs rule: drop_matching.induct) auto

definition bounded_timeline :: "prop_db \<Rightarrow> bool" where
  "bounded_timeline db \<longleftrightarrow>
     (\<forall>package key. length (filter (of_key package key) (db_transitions db)) \<le> MAX_TRANSITIONS)"

lemma trim_own: "length (filter (of_key package key) (trim_transitions package key trs)) \<le> MAX_TRANSITIONS"
  by (simp add: trim_transitions_def filter_drop_matching)

lemma trim_other:
  assumes "(p, k) \<noteq> (package, key)"
  shows "filter (of_key p k) (trim_transitions package key trs) = filter (of_key p k) trs"
proof -
  have "of_key package key x \<Longrightarrow> \<not> of_key p k x" for x using assms by (auto simp: of_key_def)
  then show ?thesis by (simp add: trim_transitions_def filter_drop_other)
qed

lemma log_change_bounded:
  assumes "bounded_timeline db"
  shows "bounded_timeline (log_change package obs key old new db)"
proof -
  have "length (filter (of_key p k) (db_transitions (log_change package obs key old new db))) \<le> MAX_TRANSITIONS" for p k
  proof (cases "(p, k) = (package, key)")
    case True
    then show ?thesis using trim_own by (simp add: log_change_def)
  next
    case False
    then show ?thesis using assms by (auto simp: log_change_def trim_other bounded_timeline_def of_key_def)
  qed
  then show ?thesis by (simp add: bounded_timeline_def)
qed

lemma update_one_bounded:
  "bounded_timeline db \<Longrightarrow> bounded_timeline (snd (update_one digest ramp least package obs kv (bs, db)))"
  using log_change_bounded [of db]
  by (cases kv) (auto simp: update_one_def Let_def set_row_def bounded_timeline_def split: row_action.split)

lemma update_bounded:
  assumes "bounded_timeline db"
  shows "bounded_timeline (snd (update_properties digest ramp least package obs db))"
proof -
  have "bounded_timeline (snd (List.fold (update_one digest ramp least package obs) kvs (bs, db)))"
    if "bounded_timeline db" for kvs bs db
    using that
  proof (induction kvs arbitrary: bs db)
    case (Cons kv kvs)
    obtain bs1 db1 where u: "update_one digest ramp least package obs kv (bs, db) = (bs1, db1)" by fastforce
    with update_one_bounded [OF Cons.prems, of digest ramp least package obs kv bs] have "bounded_timeline db1" by simp
    with Cons.IH u show ?case by simp
  qed simp
  with assms show ?thesis by (simp add: update_properties_def)
qed

lemma observe_bounded: "bounded_timeline db \<Longrightarrow> bounded_timeline (observe digest ramp least package db os)"
  unfolding observe_def by (induction os arbitrary: db) (simp_all add: update_bounded)

text \<open>A stale baseline is repaired: no break, no transition, and the count goes on.\<close>

lemma stale_baseline_repaired:
  assumes "db_rows db (package, key) = Some r" "key \<notin> set SRCINFO_KEYS" "ob_previous obs = Some prev"
    "map_of prev key = Some old" "same_value old new" "pr_hash r \<noteq> digest (canonical new)"
  shows "update_one digest ramp least package obs (key, new) (bs, db)
    = (bs, set_row (package, key) (r\<lparr>pr_hash := digest (canonical new), pr_value := canonical new, pr_stable := pr_stable r + 1\<rparr>) db)"
  using assms same_value_canonical [OF assms(5)] by (simp add: update_one_def decide_def prior_value_def Let_def)

end
