(* ===== verification/Longitudinal.thy ===== *)
theory Longitudinal
  imports Property_Track Version
begin

text \<open>
  The rules over property breaks (\<^verbatim>\<open>analysis/longitudinal.py\<close>): H037 and H047 to H051, H054.  The floor, the
  security-relevant flags and libraries, the templates and the URLs a diff adds are arguments, and so is the parsed diff.  A value
  is read back by \<open>loads\<close>, which covers the texts \<open>canonical\<close> writes; another text is taken as it
  stands.  The trigger rows nested in the parameters of H049 are \<open>h049_triggers\<close>.
\<close>

section \<open>Texts\<close>

text \<open>\<^verbatim>\<open>repr\<close> of a string and of a list of strings, as a format string shows them.\<close>

definition repr_char :: "char \<Rightarrow> char \<Rightarrow> string" where
  "repr_char quote c =
     (let n = (of_char c :: nat) in
      if c = quote \<or> c = BSL then [BSL, c]
      else if c = TAB then [BSL, CHR ''t'']
      else if c = NL then [BSL, CHR ''n'']
      else if c = CR then [BSL, CHR ''r'']
      else if n < 32 \<or> (127 \<le> n \<and> n \<le> 160) \<or> n = 173
      then [BSL, CHR ''x'', hex_char (n div 16), hex_char (n mod 16)]
      else [c])"

definition py_repr :: "string \<Rightarrow> string" where
  "py_repr s =
     (let quote = (if SQ \<in> set s \<and> DQ \<notin> set s then DQ else SQ) in
      quote # concat (map (repr_char quote) s) @ [quote])"

definition py_repr_list :: "string list \<Rightarrow> string" where
  "py_repr_list xs = ''['' @ py_join '', '' (map py_repr xs) @ '']''"

section \<open>What changed\<close>

text \<open>\<^verbatim>\<open>set(_deserialize(value) or ())\<close>; the set of a truth value raises.\<close>

definition items_of :: "string \<Rightarrow> string list option" where
  "items_of value_text =
     (case loads value_text of
        Some (PSet xs) \<Rightarrow> Some xs
      | Some (PText s) \<Rightarrow> Some (map (\<lambda>c. [c]) s)
      | Some (PBool b) \<Rightarrow> (if b then None else Some [])
      | None \<Rightarrow> Some (map (\<lambda>c. [c]) value_text))"

definition changed_by :: "prop_break \<Rightarrow> (string list \<times> string list) option" where
  "changed_by b =
     (case (items_of (pb_old b), items_of (pb_new b)) of
        (Some old, Some new) \<Rightarrow>
          (if pb_key b = ''source_orgs'' then Some (map py_lower old, map py_lower new) else Some (old, new))
      | _ \<Rightarrow> None)"

definition minus_set :: "string list \<Rightarrow> string list \<Rightarrow> string list" where
  "minus_set xs ys = filter (\<lambda>x. x \<notin> set ys) xs"

definition ARCHIVE_SUFFIXES :: "string list" where
  "ARCHIVE_SUFFIXES = [''.tar.gz'', ''.tar.bz2'', ''.tar.xz'', ''.tar.zst'', ''.tar.lz'', ''.tgz'',
     ''.tar'', ''.zip'', ''.gz'', ''.bz2'', ''.xz'', ''.zst'', ''.7z'', ''.Z'', ''.lzma'']"

definition has_suffix :: "string \<Rightarrow> string \<Rightarrow> bool" where
  "has_suffix s suf \<longleftrightarrow> length suf \<le> length s \<and> drop (length s - length suf) s = suf"

definition first_part :: "char \<Rightarrow> string \<Rightarrow> string" where
  "first_part c s = takeWhile (\<lambda>x. x \<noteq> c) s"

definition source_name :: "string \<Rightarrow> string" where
  "source_name url =
     (let base = first_part CHR ''#'' (first_part CHR ''?'' (last (py_split CHR ''/'' url)));
          cut_base = (case List.find (has_suffix base) ARCHIVE_SUFFIXES of
             None \<Rightarrow> base | Some suf \<Rightarrow> take (length base - length suf) base) in
      first_part CHR ''_'' (first_part CHR ''-'' cut_base))"

text \<open>The removed dependencies whose name an added source carries.\<close>

definition vendored :: "string list \<Rightarrow> string list \<Rightarrow> string list" where
  "vendored added_urls removed =
     remdups (filter (\<lambda>dep. dep \<noteq> [] \<and> list_ex (\<lambda>url. source_name url = dep) added_urls) removed)"

section \<open>The findings\<close>

record long_config =
  lc_floor :: nat
  lc_flags :: "string list"
  lc_libs :: "string list"
  lc_templates :: "string dict"

definition long_finding ::
    "long_config \<Rightarrow> string \<Rightarrow> string \<Rightarrow> string \<Rightarrow> string \<Rightarrow> string \<Rightarrow> py_value dict \<Rightarrow> finding" where
  "long_finding cfg rid name severity category match_text params =
     stamp (lc_templates cfg)
       ((bare_finding rid name severity category)\<lparr>f_match := Some match_text, f_params := Some params\<rparr>) None"

abbreviation held_text :: "nat \<Rightarrow> string" where
  "held_text n \<equiv> '' after '' @ show_nat n @ '' stable obs''"

definition H049_KEYS :: "string list" where "H049_KEYS = [''source_hosts'', ''source_orgs'']"

text \<open>The source changes that count: a change to the empty set does not, nor do owners only lost.\<close>

definition h049_changed :: "prop_break list \<Rightarrow> (prop_break \<times> string list \<times> string list) list option" where
  "h049_changed breaks =
     (case those (map (\<lambda>b. map_option (Pair b) (changed_by b)) breaks) of
        None \<Rightarrow> None
      | Some cs \<Rightarrow>
          (let changed = filter (\<lambda>(b, old, new). new \<noteq> []) cs in
           if list_ex (\<lambda>(b, old, new). pb_key b = ''source_hosts'') changed then Some changed
           else Some (filter (\<lambda>(b, old, new). \<not> (pb_key b = ''source_orgs'' \<and> set new \<subseteq> set old)) changed)))"

definition h049_triggers :: "(prop_break \<times> string list \<times> string list) list \<Rightarrow> (string \<times> nat \<times> string list \<times> string list) list" where
  "h049_triggers changed =
     map (\<lambda>(b, old, new). (pb_key b, pb_stable b, sorted_set old, sorted_set new)) changed"

definition h049_findings :: "long_config \<Rightarrow> prop_break list \<Rightarrow> finding list option" where
  "h049_findings cfg breaks =
     map_option (\<lambda>changed.
       if changed = [] then []
       else
         (let keys = filter (\<lambda>k. list_ex (\<lambda>(b, old, new). pb_key b = k) changed) H049_KEYS;
              held = Min (set (map (\<lambda>(b, old, new). pb_stable b) changed)) in
          [long_finding cfg ''H049'' ''Source Origin Changed'' ''MEDIUM'' ''source''
             (''source '' @ py_join '', '' keys @ '' changed'' @ held_text held)
             [(''key'', VStr (py_join '', '' keys)), (''keys'', VStrs keys), (''stable_for_n'', VInt (int held))]]))
       (h049_changed breaks)"

definition h047 :: "long_config \<Rightarrow> prop_break \<Rightarrow> finding list option" where
  "h047 cfg b =
     map_option (\<lambda>(old, new).
       (let sec = lc_flags cfg;
            moved = sorted_set (filter (\<lambda>f. f \<in> set sec) (minus_set old new @ minus_set new old)) in
        if moved = [] then []
        else [long_finding cfg ''H047'' ''Security-Relevant Build Flag Change''
                (if list_ex (\<lambda>f. f \<in> set sec) (minus_set old new) then ''HIGH'' else ''MEDIUM'') ''build''
                (''configure_flags changed security flags'' @ held_text (pb_stable b) @ '': '' @ py_repr_list moved)
                [(''flags'', VStr (py_join '', '' moved)), (''stable_for_n'', VInt (int (pb_stable b)))]]))
       (changed_by b)"

definition h048 :: "long_config \<Rightarrow> string list \<Rightarrow> prop_break \<Rightarrow> finding list option" where
  "h048 cfg added_urls b =
     map_option (\<lambda>(old, new).
       (let found = vendored added_urls (minus_set old new) in
        if found = [] then []
        else [long_finding cfg ''H048'' ''Dependency Vendored Into Source''
                (if list_ex (\<lambda>d. d \<in> set (lc_libs cfg)) found then ''HIGH'' else ''MEDIUM'') ''dependency''
                (''removed dep(s) '' @ py_repr_list (sorted_set found) @ '' now sourced in-tree'' @ held_text (pb_stable b))
                [(''vendored'', VStr (py_join '', '' (sorted_set found))), (''stable_for_n'', VInt (int (pb_stable b)))]]))
       (changed_by b)"

definition finding_for_break :: "long_config \<Rightarrow> string list \<Rightarrow> prop_break \<Rightarrow> finding list option" where
  "finding_for_break cfg added_urls b =
     (let key = pb_key b; held = pb_stable b; n = VInt (int held) in
      if key = ''depends'' then h048 cfg added_urls b
      else if key = ''configure_flags'' then h047 cfg b
      else if key = ''version_scheme'' then
        Some [long_finding cfg ''H050'' ''Version Scheme Changed'' ''INFO'' ''context''
          (''version scheme changed '' @ pb_old b @ '' -> '' @ pb_new b)
          [(''old_scheme'', VStr (pb_old b)), (''new_scheme'', VStr (pb_new b)), (''stable_for_n'', n)]]
      else if key = ''pkgdesc_tokens'' then
        Some [long_finding cfg ''H051'' ''Package Description Changed'' ''MEDIUM'' ''integrity''
          (''pkgdesc changed'' @ held_text held) [(''stable_for_n'', n)]]
      else if key \<in> {''build_system_markers'', ''build_line_count''} then
        Some [long_finding cfg ''H054'' ''Build System Changed'' ''MEDIUM'' ''build''
          (''build '' @ key @ '' changed'' @ held_text held @ '': '' @ pb_old b @ '' -> '' @ pb_new b)
          [(''key'', VStr key), (''stable_for_n'', n), (''old_value'', VStr (pb_old b)), (''new_value'', VStr (pb_new b))]]
      else if key \<in> {''license'', ''install_hook_present''} then
        Some [long_finding cfg ''H037'' ''Long-Stable Property Changed'' ''MEDIUM'' ''temporal''
          (key @ '' changed'' @ held_text held) [(''key'', VStr key), (''stable_for_n'', n)]]
      else Some [])"

definition gated :: "long_config \<Rightarrow> prop_break \<Rightarrow> bool" where
  "gated cfg b \<longleftrightarrow> pb_weight b > 0 \<and> pb_stable b \<ge> lc_floor cfg"

definition STAND_DOWN :: "string list" where
  "STAND_DOWN = [''pkgdesc_tokens'', ''build_system_markers'', ''build_line_count'']"

text \<open>An exception of any part leaves the whole: \<open>None\<close>.\<close>

definition longitudinal_findings ::
    "long_config \<Rightarrow> diff_doc \<Rightarrow> string \<Rightarrow> string list \<Rightarrow> prop_break list \<Rightarrow> finding list option" where
  "longitudinal_findings cfg doc current added_urls breaks =
     (let gs = filter (gated cfg) breaks in
      case any_version_scalar_moved doc current of
        None \<Rightarrow> None
      | Some moved \<Rightarrow>
          (case h049_findings cfg (filter (\<lambda>b. pb_key b \<in> set H049_KEYS) gs) of
             None \<Rightarrow> None
           | Some source_findings \<Rightarrow>
               map_option (\<lambda>fss. source_findings @ concat fss)
                 (those (map (finding_for_break cfg added_urls)
                    (filter (\<lambda>b. pb_key b \<notin> set H049_KEYS \<and> \<not> (moved \<and> pb_key b \<in> set STAND_DOWN)) gs)))))"

section \<open>Every finding stands on a stable break\<close>

definition RULE_KEYS :: "(string \<times> string list) list" where
  "RULE_KEYS = [(''H037'', [''license'', ''install_hook_present'']), (''H047'', [''configure_flags'']),
     (''H048'', [''depends'']), (''H049'', H049_KEYS), (''H050'', [''version_scheme'']),
     (''H051'', [''pkgdesc_tokens'']), (''H054'', [''build_system_markers'', ''build_line_count''])]"

definition owns :: "string \<Rightarrow> string \<Rightarrow> bool" where
  "owns rule key \<longleftrightarrow> (case map_of RULE_KEYS rule of None \<Rightarrow> False | Some keys \<Rightarrow> key \<in> set keys)"

lemma long_finding_id [simp]: "f_rule_id (long_finding cfg rid name severity category m ps) = rid"
  by (simp add: long_finding_def stamp_keeps bare_finding_def)

lemma finding_for_break_owned:
  "\<lbrakk>finding_for_break cfg urls b = Some fs; f \<in> set fs\<rbrakk>
   \<Longrightarrow> owns (f_rule_id f) (pb_key b) \<and> f_rule_id f \<noteq> ''H049''"
  by (auto simp: finding_for_break_def h047_def h048_def Let_def owns_def RULE_KEYS_def split: if_splits)

lemma those_Some: "those xs = Some ys \<Longrightarrow> xs = map Some ys"
proof (induction xs arbitrary: ys)
  case (Cons x xs)
  then show ?case by (cases x; cases "those xs") auto
qed simp

lemma h049_changed_from:
  assumes "h049_changed breaks = Some changed" "(b, old, new) \<in> set changed"
  shows "b \<in> set breaks"
proof -
  obtain cs where cs: "those (map (\<lambda>b. map_option (Pair b) (changed_by b)) breaks) = Some cs" "(b, old, new) \<in> set cs"
    using assms by (auto simp: h049_changed_def Let_def split: option.splits if_splits)
  then have "Some (b, old, new) \<in> set (map (\<lambda>b. map_option (Pair b) (changed_by b)) breaks)"
    using those_Some by fastforce
  then show ?thesis by (auto simp: eq_commute [of "Some (b, old, new)"] map_option_case split: option.splits)
qed

lemma h049_one:
  assumes "h049_findings cfg breaks = Some fs"
  shows "length fs \<le> 1" "f \<in> set fs \<Longrightarrow> f_rule_id f = ''H049'' \<and> breaks \<noteq> []"
proof -
  obtain changed where c: "h049_changed breaks = Some changed" using assms by (auto simp: h049_findings_def)
  show "length fs \<le> 1" using assms by (auto simp: h049_findings_def Let_def split: if_splits)
  assume f: "f \<in> set fs"
  then have "changed \<noteq> []" using assms c by (auto simp: h049_findings_def)
  then have "breaks \<noteq> []" using h049_changed_from [OF c] by (cases changed) force+
  moreover have "f_rule_id f = ''H049''" using f assms by (auto simp: h049_findings_def Let_def split: if_splits)
  ultimately show "f_rule_id f = ''H049'' \<and> breaks \<noteq> []" by simp
qed

text \<open>every longitudinal finding belongs to a break of a property its rule owns, which held for at least
  the floor and carries weight; there is at most one source-origin finding, and when the diff moves the
  version no finding of a changed description or build system is made.
\<close>

theorem longitudinal_gated:
  assumes "longitudinal_findings cfg doc current urls breaks = Some fs"
  shows "list_all (\<lambda>f. list_ex (\<lambda>b. gated cfg b \<and> owns (f_rule_id f) (pb_key b)
        \<and> (any_version_scalar_moved doc current = Some True \<longrightarrow> pb_key b \<notin> set STAND_DOWN)) breaks) fs
    \<and> length (filter (\<lambda>f. f_rule_id f = ''H049'') fs) \<le> 1"
proof -
  let ?gs = "filter (gated cfg) breaks" and ?src = "\<lambda>b. pb_key b \<in> set H049_KEYS"
  obtain moved where moved: "any_version_scalar_moved doc current = Some moved"
    using assms by (auto simp: longitudinal_findings_def Let_def split: option.splits)
  let ?rest = "filter (\<lambda>b. \<not> ?src b \<and> \<not> (moved \<and> pb_key b \<in> set STAND_DOWN)) ?gs"
  obtain sf fss where parts: "h049_findings cfg (filter ?src ?gs) = Some sf"
    "those (map (finding_for_break cfg urls) ?rest) = Some fss" "fs = sf @ concat fss"
    using assms moved by (auto simp: longitudinal_findings_def Let_def split: option.splits)
  have other: "\<exists>b \<in> set ?rest. owns (f_rule_id f) (pb_key b) \<and> f_rule_id f \<noteq> ''H049''" if f: "f \<in> set (concat fss)" for f
  proof -
    from f obtain gs where "gs \<in> set fss" "f \<in> set gs" by auto
    then have "Some gs \<in> set (map (finding_for_break cfg urls) ?rest)" unfolding those_Some [OF parts(2)] by simp
    then have "Some gs \<in> finding_for_break cfg urls ` set ?rest" by (simp only: set_map)
    then obtain b where b: "Some gs = finding_for_break cfg urls b" "b \<in> set ?rest" by (rule imageE)
    from finding_for_break_owned [OF b(1) [symmetric] \<open>f \<in> set gs\<close>] b(2) show ?thesis by blast
  qed
  have source: "\<exists>b \<in> set (filter ?src ?gs). owns (f_rule_id f) (pb_key b)" if f: "f \<in> set sf" for f
  proof -
    from h049_one(2) [OF parts(1) f] obtain b where "f_rule_id f = ''H049''" "b \<in> set (filter ?src ?gs)"
      by (metis list.set_sel(1))
    moreover from this have "owns ''H049'' (pb_key b)" by (simp add: owns_def RULE_KEYS_def)
    ultimately show ?thesis by auto
  qed
  have apart: "\<not> (?src b \<and> pb_key b \<in> set STAND_DOWN)" for b by (auto simp: H049_KEYS_def STAND_DOWN_def)
  have "list_ex (\<lambda>b. gated cfg b \<and> owns (f_rule_id f) (pb_key b)
      \<and> (any_version_scalar_moved doc current = Some True \<longrightarrow> pb_key b \<notin> set STAND_DOWN)) breaks"
    if "f \<in> set fs" for f
  proof -
    from that consider "f \<in> set sf" | "f \<in> set (concat fss)" by (auto simp: parts(3))
    then show ?thesis
    proof cases
      case 1
      with source apart moved show ?thesis by (force simp: list_ex_iff)
    next
      case 2
      with other moved show ?thesis by (force simp: list_ex_iff)
    qed
  qed
  moreover have "filter (\<lambda>f. f_rule_id f = ''H049'') (concat fss) = []" using other by (force simp: filter_empty_conv)
  moreover have "length (filter (\<lambda>f. f_rule_id f = ''H049'') sf) \<le> 1"
    using h049_one(1) [OF parts(1)] length_filter_le [of "\<lambda>f. f_rule_id f = ''H049''" sf] by linarith
  ultimately show ?thesis by (simp add: list_all_iff parts(3))
qed

definition desc_break :: prop_break where
  "desc_break = \<lparr>pb_key = ''pkgdesc_tokens'', pb_old = canonical (PSet [''fast'']), pb_new = canonical (PSet [''slow'']),
     pb_stable = 12, pb_weight = 1\<rparr>"

definition small_config :: long_config where
  "small_config = \<lparr>lc_floor = 10, lc_flags = [], lc_libs = [], lc_templates = []\<rparr>"

theorem longitudinal_gated_witness:
  "list_all (\<lambda>f. f_rule_id f = ''H051'') (the (longitudinal_findings small_config \<lparr>dd_files = [], dd_lines = []\<rparr> [] [] [desc_break]))
   \<and> length (filter (\<lambda>f. f_rule_id f = ''H049'') (the (longitudinal_findings small_config \<lparr>dd_files = [], dd_lines = []\<rparr> [] [] [desc_break]))) \<le> 1"
proof -
  let ?r = "longitudinal_findings small_config \<lparr>dd_files = [], dd_lines = []\<rparr> [] [] [desc_break]"
  have "map_option (map f_rule_id) ?r = Some [''H051'']" by code_simp
  then obtain fs where fs: "?r = Some fs" "map f_rule_id fs = [''H051'']" by (cases ?r) simp_all
  from longitudinal_gated [OF fs(1)] have "length (filter (\<lambda>f. f_rule_id f = ''H049'') fs) \<le> 1" by (rule conjunct2)
  moreover have "list_all (\<lambda>f. f_rule_id f = ''H051'') fs" using fs(2) by (cases fs) simp_all
  ultimately show ?thesis by (simp add: fs(1))
qed

section \<open>A cold database is silent\<close>

lemma row_effect_held:
  assumes "row_effect digest ramp fl obs key new row = (bs, r')" "\<And>r. row = Some r \<Longrightarrow> pr_stable r + 1 \<le> n"
  shows "pr_stable r' \<le> n \<and> (\<forall>b \<in> set bs. pb_stable b + 1 \<le> n \<and> 0 < stability_weight ramp (pb_stable b) fl)"
  using assms
  by (auto simp: row_effect_def decide_def Let_def split: option.splits if_splits)

lemma update_held:
  assumes "distinct (map fst (ob_values obs))" "\<And>k r. db_rows db (package, k) = Some r \<Longrightarrow> pr_stable r + 1 \<le> n"
    and "update_properties digest ramp fl package obs db = (bs, db')"
  shows "db_rows db' (package, k) = Some r \<Longrightarrow> pr_stable r + 1 \<le> n + 1"
    and "b \<in> set bs \<Longrightarrow> pb_stable b + 1 \<le> n \<and> 0 < stability_weight ramp (pb_stable b) fl"
proof -
  have key: "(db_rows db' (package, k) = Some r \<longrightarrow> pr_stable r + 1 \<le> n + 1)
      \<and> (\<forall>b \<in> set (filter (\<lambda>b. pb_key b = k) bs). pb_stable b + 1 \<le> n \<and> 0 < stability_weight ramp (pb_stable b) fl)" for k r
  proof (cases "map_of (ob_values obs) k")
    case None
    then have "k \<notin> fst ` set (ob_values obs)" by (simp add: map_of_eq_None_iff)
    from update_fold_other [OF this assms(3) [unfolded update_properties_def]]
    have "filter (\<lambda>b. pb_key b = k) bs = []" "db_rows db' (package, k) = db_rows db (package, k)" by simp_all
    then show ?thesis using assms(2) [of k r] by auto
  next
    case (Some v)
    obtain bs1 r1 where e: "row_effect digest ramp fl obs k v (db_rows db (package, k)) = (bs1, r1)" by fastforce
    have "pr_stable r1 \<le> n \<and> (\<forall>b \<in> set bs1. pb_stable b + 1 \<le> n \<and> 0 < stability_weight ramp (pb_stable b) fl)"
      by (rule row_effect_held [OF e]) (rule assms(2))
    with update_fold_own [OF assms(1) Some e assms(3) [unfolded update_properties_def]] show ?thesis by auto
  qed
  show "db_rows db' (package, k) = Some r \<Longrightarrow> pr_stable r + 1 \<le> n + 1" using key by blast
  show "b \<in> set bs \<Longrightarrow> pb_stable b + 1 \<le> n \<and> 0 < stability_weight ramp (pb_stable b) fl"
    using key [of "pb_key b"] by simp
qed

lemma observe_held:
  "\<lbrakk>list_all (\<lambda>obs. distinct (map fst (ob_values obs))) os;
    db_rows (observe digest ramp fl package empty_db os) (package, k) = Some r\<rbrakk> \<Longrightarrow> pr_stable r + 1 \<le> length os"
proof (induction os arbitrary: k r rule: rev_induct)
  case Nil
  then show ?case by (simp add: observe_def empty_db_def)
next
  case (snoc obs os)
  let ?db = "observe digest ramp fl package empty_db os"
  obtain bs db' where u: "update_properties digest ramp fl package obs ?db = (bs, db')" by fastforce
  then have "db_rows db' (package, k) = Some r" using snoc.prems(2) by (simp add: observe_def)
  with update_held(1) [OF _ snoc.IH u] snoc.prems(1) show ?case by simp
qed

text \<open>a package observed at most as often as the floor before, from an empty database, makes no
  longitudinal finding, whatever its recipes hold and however they change.
\<close>

theorem cold_database_silent:
  assumes "list_all (\<lambda>obs. distinct (map fst (ob_values obs))) (os @ [obs])" "length os \<le> lc_floor cfg"
  shows "longitudinal_findings cfg doc current urls
      (fst (update_properties digest ramp (lc_floor cfg) package obs (observe digest ramp (lc_floor cfg) package empty_db os)))
    = map_option (\<lambda>moved. []) (any_version_scalar_moved doc current)"
proof -
  let ?db = "observe digest ramp (lc_floor cfg) package empty_db os"
  obtain bs db' where u: "update_properties digest ramp (lc_floor cfg) package obs ?db = (bs, db')" by fastforce
  have "bs = []"
  proof (rule ccontr)
    assume "bs \<noteq> []"
    then obtain b where b: "b \<in> set bs" by (cases bs) auto
    have rows: "db_rows ?db (package, k) = Some r \<Longrightarrow> pr_stable r + 1 \<le> length os" for k r
      using observe_held assms(1) by simp
    from update_held(2) [OF _ rows u b] assms(1)
    have "pb_stable b + 1 \<le> length os" "0 < stability_weight ramp (pb_stable b) (lc_floor cfg)" by auto
    with assms(2) show False by (simp add: stability_weight_def)
  qed
  then show ?thesis
    by (cases "any_version_scalar_moved doc current")
      (simp_all add: u longitudinal_findings_def h049_findings_def h049_changed_def)
qed

theorem cold_database_silent_witness:
  "longitudinal_findings small_config \<lparr>dd_files = [], dd_lines = []\<rparr> [] []
     (fst (update_properties (\<lambda>t. t) (\<lambda>n. 1) (lc_floor small_config) ''p'' (same_again ''GPL'')
        (observe (\<lambda>t. t) (\<lambda>n. 1) (lc_floor small_config) ''p'' empty_db (replicate 3 (same_again ''MIT'')))))
   = map_option (\<lambda>moved. []) (any_version_scalar_moved \<lparr>dd_files = [], dd_lines = []\<rparr> [])"
  by (rule cold_database_silent) (simp_all add: same_again_def small_config_def list_all_iff)

end
