(* ===== verification/Edit_Distance.thy ===== *)
theory Edit_Distance
  imports TS_Prelude
begin

text \<open>
  The edit distance behind the typosquat rules (\<^verbatim>\<open>_damerau_levenshtein\<close> of \<^verbatim>\<open>novelty.py\<close>): the table
  filled row by row with two rows kept, abandoned as soon as a whole row is past the limit.  The
  specification is the relation \<open>edits\<close>: how many single-place edits turn one text into another.
\<close>

section \<open>The table\<close>

text \<open>\<^verbatim>\<open>cur[j]\<close> from the two rows above and the entry on its left.\<close>

definition dl_cell :: "'a list \<Rightarrow> 'a list \<Rightarrow> nat \<Rightarrow> nat list \<Rightarrow> nat list \<Rightarrow> nat list \<Rightarrow> nat \<Rightarrow> nat" where
  "dl_cell a b i prev2 prev cur j =
     (let cost = (if a ! (i - 1) = b ! (j - 1) then 0 else 1);
          c = min (min (cur ! (j - 1) + 1) (prev ! j + 1)) (prev ! (j - 1) + cost)
      in if i > 1 \<and> j > 1 \<and> a ! (i - 1) = b ! (j - 2) \<and> a ! (i - 2) = b ! (j - 1)
         then min c (prev2 ! (j - 2) + cost) else c)"

definition dl_row :: "'a list \<Rightarrow> 'a list \<Rightarrow> nat \<Rightarrow> nat list \<Rightarrow> nat list \<Rightarrow> nat list" where
  "dl_row a b i prev2 prev =
     foldl (\<lambda>cur j. cur[j := dl_cell a b i prev2 prev cur j]) (i # replicate (length b) 0) [1..<Suc (length b)]"

function dl_rows :: "'a list \<Rightarrow> 'a list \<Rightarrow> nat \<Rightarrow> nat \<Rightarrow> nat list \<Rightarrow> nat list \<Rightarrow> nat" where
  "dl_rows a b limit i prev2 prev =
     (if i > length a then prev ! length b
      else (let cur = dl_row a b i prev2 prev in
            if min_list cur > limit then limit + 1 else dl_rows a b limit (Suc i) prev cur))"
  by pat_completeness auto
termination by (relation "measure (\<lambda>(a, b, limit, i, prev2, prev). Suc (length a) - i)") auto

declare dl_rows.simps [simp del]

definition damerau_levenshtein :: "'a list \<Rightarrow> 'a list \<Rightarrow> nat \<Rightarrow> nat" where
  "damerau_levenshtein a b limit =
     (if length a - length b > limit \<or> length b - length a > limit then limit + 1
      else dl_rows a b limit 1 [] [0..<Suc (length b)])"

section \<open>What it measures\<close>

text \<open>
  \<open>edits a b n\<close>: reading from the left, \<open>a\<close> becomes \<open>b\<close> by \<open>n\<close> edits, each of which replaces, drops or
  adds one character or swaps two neighbours; no place is edited twice.
\<close>

inductive edits :: "'a list \<Rightarrow> 'a list \<Rightarrow> nat \<Rightarrow> bool" where
  edits_none: "edits [] [] 0"
| edits_keep: "edits a b n \<Longrightarrow> edits (a @ [x]) (b @ [x]) n"
| edits_replace: "edits a b n \<Longrightarrow> edits (a @ [x]) (b @ [y]) (Suc n)"
| edits_drop: "edits a b n \<Longrightarrow> edits (a @ [x]) b (Suc n)"
| edits_add: "edits a b n \<Longrightarrow> edits a (b @ [y]) (Suc n)"
| edits_swap: "edits a b n \<Longrightarrow> edits (a @ [x, y]) (b @ [y, x]) (Suc n)"

definition distance :: "'a list \<Rightarrow> 'a list \<Rightarrow> nat" where
  "distance a b = (LEAST n. edits a b n)"

lemma edits_lengths: "edits a b n \<Longrightarrow> length a \<le> length b + n \<and> length b \<le> length a + n"
  by (induction rule: edits.induct) auto

section \<open>The recurrence\<close>

text \<open>The cost of the first \<open>i\<close> characters of \<open>a\<close> against the first \<open>j\<close> of \<open>b\<close>.\<close>

function osa :: "'a list \<Rightarrow> 'a list \<Rightarrow> nat \<Rightarrow> nat \<Rightarrow> nat" where
  "osa a b i j =
     (if i = 0 then j else if j = 0 then i
      else (let cost = (if a ! (i - 1) = b ! (j - 1) then 0 else 1);
                c = min (min (osa a b i (j - 1) + 1) (osa a b (i - 1) j + 1)) (osa a b (i - 1) (j - 1) + cost)
            in if i > 1 \<and> j > 1 \<and> a ! (i - 1) = b ! (j - 2) \<and> a ! (i - 2) = b ! (j - 1)
               then min c (osa a b (i - 2) (j - 2) + cost) else c))"
  by pat_completeness auto
termination by (relation "measure (\<lambda>(a, b, i, j). i + j)") auto

declare osa.simps [simp del]

lemma osa_first: "osa a b 0 j = j" "osa a b i 0 = i"
  by (simp_all add: osa.simps [of a b 0] osa.simps [of a b i 0])

lemma osa_Suc:
  "osa a b (Suc i) (Suc j) =
     (let cost = (if a ! i = b ! j then 0 else 1);
          c = min (min (osa a b (Suc i) j + 1) (osa a b i (Suc j) + 1)) (osa a b i j + cost)
      in if 0 < i \<and> 0 < j \<and> a ! i = b ! (j - 1) \<and> a ! (i - 1) = b ! j
         then min c (osa a b (i - 1) (j - 1) + cost) else c)"
  by (subst osa.simps) (simp add: Let_def)

lemma osa_least_three:
  "osa a b (Suc i) (Suc j) \<le> min (min (osa a b (Suc i) j + 1) (osa a b i (Suc j) + 1)) (osa a b i j + (if a ! i = b ! j then 0 else 1))"
  unfolding osa_Suc Let_def by (rule if_split [THEN iffD2]) (intro conjI impI min.cobounded1 order_refl)

lemma osa_bounds:
  "osa a b (Suc i) (Suc j) \<le> osa a b (Suc i) j + 1"
  "osa a b (Suc i) (Suc j) \<le> osa a b i (Suc j) + 1"
  "osa a b (Suc i) (Suc j) \<le> osa a b i j + (if a ! i = b ! j then 0 else 1)"
  using osa_least_three [of a b i j] by (simp_all only: min.bounded_iff)

lemma osa_step:
  "osa a b (Suc i) j \<le> osa a b i j + 1" "osa a b i (Suc j) \<le> osa a b i j + 1"
proof -
  show "osa a b (Suc i) j \<le> osa a b i j + 1"
    using osa_bounds(2) [of a b i "j - 1"] by (cases j) (simp_all add: osa_first)
  show "osa a b i (Suc j) \<le> osa a b i j + 1"
    using osa_bounds(1) [of a b "i - 1" j] by (cases i) (simp_all add: osa_first)
qed

lemma osa_swap:
  "a ! Suc i = b ! j \<Longrightarrow> a ! i = b ! Suc j \<Longrightarrow>
   osa a b (Suc (Suc i)) (Suc (Suc j)) \<le> osa a b i j + (if a ! Suc i = b ! Suc j then 0 else 1)"
  unfolding osa_Suc [of a b "Suc i" "Suc j"] Let_def by simp

text \<open>An entry is one of the four values it is the least of.\<close>

lemma osa_cases:
  obtains (add) "osa a b (Suc i) (Suc j) = osa a b (Suc i) j + 1"
  | (drop) "osa a b (Suc i) (Suc j) = osa a b i (Suc j) + 1"
  | (replace) "osa a b (Suc i) (Suc j) = osa a b i j + (if a ! i = b ! j then 0 else 1)"
  | (swap) i' j' where "i = Suc i'" "j = Suc j'" "a ! i = b ! j'" "a ! i' = b ! j"
      "osa a b (Suc i) (Suc j) = osa a b i' j' + (if a ! i = b ! j then 0 else 1)"
proof -
  let ?cost = "if a ! i = b ! j then 0 else 1"
  let ?c = "min (min (osa a b (Suc i) j + 1) (osa a b i (Suc j) + 1)) (osa a b i j + ?cost)"
  let ?s = "0 < i \<and> 0 < j \<and> a ! i = b ! (j - 1) \<and> a ! (i - 1) = b ! j"
  have step: "osa a b (Suc i) (Suc j) = (if ?s then min ?c (osa a b (i - 1) (j - 1) + ?cost) else ?c)"
    unfolding osa_Suc Let_def by (rule refl)
  have one: "min x y = x \<or> min x y = y" for x y :: nat by linarith
  have "osa a b (Suc i) (Suc j) = ?c \<or> ?s \<and> osa a b (Suc i) (Suc j) = osa a b (i - 1) (j - 1) + ?cost"
    unfolding step using one [of ?c "osa a b (i - 1) (j - 1) + ?cost"] by (cases ?s) (simp_all only: if_True if_False simp_thms)
  then consider "osa a b (Suc i) (Suc j) = ?c" | "?s" "osa a b (Suc i) (Suc j) = osa a b (i - 1) (j - 1) + ?cost"
    by blast
  then show thesis
  proof cases
    case 1
    then have "osa a b (Suc i) (Suc j) \<in> {osa a b (Suc i) j + 1, osa a b i (Suc j) + 1, osa a b i j + ?cost}"
      using one [of "min (osa a b (Suc i) j + 1) (osa a b i (Suc j) + 1)" "osa a b i j + ?cost"]
        one [of "osa a b (Suc i) j + 1" "osa a b i (Suc j) + 1"] by auto
    then show thesis using that(1-3) by blast
  next
    case 2
    then show thesis using that(4) [of "i - 1" "j - 1"] by simp
  qed
qed

text \<open>It is attained by edits.\<close>

lemma edits_drop_all: "edits a [] (length a)"
  by (induction a rule: rev_induct) (auto intro: edits.intros simp: edits_none)

lemma edits_add_all: "edits [] b (length b)"
  by (induction b rule: rev_induct) (auto intro: edits.intros simp: edits_none)

lemma osa_attained:
  "i \<le> length a \<Longrightarrow> j \<le> length b \<Longrightarrow> edits (take i a) (take j b) (osa a b i j)"
proof (induction "i + j" arbitrary: i j rule: less_induct)
  case less
  note IH = less.hyps
  show ?case
  proof (cases "i = 0 \<or> j = 0")
    case True
    then show ?thesis
      using edits_drop_all [of "take i a"] edits_add_all [of "take j b"] less.prems
      by (auto simp: osa_first)
  next
    case False
    then obtain i0 j0 where ij: "i = Suc i0" "j = Suc j0" by (cases i; cases j) auto
    have ta: "take i a = take i0 a @ [a ! i0]" and tb: "take j b = take j0 b @ [b ! j0]"
      using less.prems by (simp_all add: ij take_Suc_conv_app_nth)
    show ?thesis
    proof (cases rule: osa_cases [of a b i0 j0])
      case add
      then show ?thesis using edits_add [OF IH [of i j0]] less.prems by (simp add: tb) (simp add: ij)
    next
      case drop
      then show ?thesis using edits_drop [OF IH [of i0 j]] less.prems by (simp add: ta) (simp add: ij)
    next
      case replace
      then show ?thesis
        using edits_keep [OF IH [of i0 j0], of "a ! i0"] edits_replace [OF IH [of i0 j0], of "a ! i0" "b ! j0"] less.prems
        by (simp add: ta tb) (auto simp: ij split: if_splits)
    next
      case (swap i1 j1)
      have ta: "take i a = take i1 a @ [a ! i1, a ! i0]" and tb: "take j b = take j1 b @ [b ! j1, b ! j0]"
        using less.prems by (simp_all add: ij swap take_Suc_conv_app_nth)
      have pre: "edits (take i1 a) (take j1 b) (osa a b i1 j1)"
        using IH [of i1 j1] less.prems by (simp add: ij swap)
      show ?thesis
        using edits_swap [OF pre, of "a ! i1" "a ! i0"] edits_keep [OF edits_keep [OF pre, of "a ! i1"], of "a ! i0"] swap(3-5)
        unfolding ta tb by (auto simp: ij split: if_splits)
    qed
  qed
qed

text \<open>And no edits do with fewer.\<close>

lemma osa_least: "edits p q n \<Longrightarrow> osa (p @ p') (q @ q') (length p) (length q) \<le> n"
proof (induction arbitrary: p' q' rule: edits.induct)
  case (edits_keep a b n x)
  show ?case
    using edits_keep.IH [of "x # p'" "x # q'"] osa_bounds(3) [of "a @ x # p'" "b @ x # q'" "length a" "length b"]
    by (simp add: nth_append)
next
  case (edits_replace a b n x y)
  show ?case
    using edits_replace.IH [of "x # p'" "y # q'"] osa_bounds(3) [of "a @ x # p'" "b @ y # q'" "length a" "length b"]
    by (simp split: if_splits)
next
  case (edits_drop a b n x)
  show ?case
    using edits_drop.IH [of "x # p'" q'] osa_step(1) [of "a @ x # p'" "b @ q'" "length a" "length b"] by simp
next
  case (edits_add a b n y)
  show ?case
    using edits_add.IH [of p' "y # q'"] osa_step(2) [of "a @ p'" "b @ y # q'" "length a" "length b"] by simp
next
  case (edits_swap a b n x y)
  show ?case
    using edits_swap.IH [of "x # y # p'" "y # x # q'"]
      osa_swap [of "a @ x # y # p'" "length a" "b @ y # x # q'" "length b"]
    by (simp add: nth_append split: if_splits)
qed (simp add: osa_first)

lemma distance_osa: "distance a b = osa a b (length a) (length b)"
  unfolding distance_def
proof (rule Least_equality)
  show "edits a b (osa a b (length a) (length b))"
    using osa_attained [of "length a" a "length b" b] by simp
  show "osa a b (length a) (length b) \<le> n" if "edits a b n" for n
    using osa_least [OF that, of "[]" "[]"] by simp
qed

lemma distance_lengths: "length a - length b \<le> distance a b" "length b - length a \<le> distance a b"
  using edits_lengths [OF osa_attained [of "length a" a "length b" b]] by (auto simp: distance_osa)

lemma distance_attained: "edits a b (distance a b)"
  using osa_attained [of "length a" a "length b" b] by (simp add: distance_osa)

lemma distance_least: "edits a b n \<Longrightarrow> distance a b \<le> n"
  unfolding distance_def by (rule Least_le)

lemma edits_zero: "edits a b n \<Longrightarrow> n = 0 \<Longrightarrow> a = b"
  by (induction rule: edits.induct) auto

lemma distance_zero: "distance a b = 0 \<longleftrightarrow> a = b"
proof
  assume "distance a b = 0"
  with edits_zero [OF distance_attained [of a b]] show "a = b" by simp
next
  have "edits a a 0" by (induction a rule: rev_induct) (auto intro: edits_none edits_keep)
  then show "a = b \<Longrightarrow> distance a b = 0" using distance_least [of a a 0] by simp
qed

section \<open>The table holds the recurrence\<close>

definition osa_row :: "'a list \<Rightarrow> 'a list \<Rightarrow> nat \<Rightarrow> nat list" where
  "osa_row a b i = map (osa a b i) [0..<Suc (length b)]"

lemma row_of_nth: "j \<le> length b \<Longrightarrow> osa_row a b i ! j = osa a b i j"
  unfolding osa_row_def by (subst nth_map) (simp_all del: upt_Suc)

lemma row_of_length: "length (osa_row a b i) = Suc (length b)"
  by (simp add: osa_row_def)

lemma dl_cell_osa:
  assumes "0 < i" "0 < j" "j \<le> length b" "cur ! (j - 1) = osa a b i (j - 1)" "1 < i \<Longrightarrow> prev2 = osa_row a b (i - 2)"
  shows "dl_cell a b i prev2 (osa_row a b (i - 1)) cur j = osa a b i j"
  using assms by (subst osa.simps) (auto simp: dl_cell_def Let_def row_of_nth)

lemma dl_row_prefix:
  assumes "0 < i" "1 < i \<Longrightarrow> prev2 = osa_row a b (i - 2)" "k \<le> length b"
  shows "foldl (\<lambda>cur j. cur[j := dl_cell a b i prev2 (osa_row a b (i - 1)) cur j])
      (i # replicate (length b) 0) [1..<Suc k] = map (osa a b i) [0..<Suc k] @ replicate (length b - k) 0"
  using assms(3)
proof (induction k)
  case 0
  then show ?case by (simp add: osa_first)
next
  case (Suc k)
  let ?cur = "map (osa a b i) [0..<Suc k] @ replicate (length b - k) 0"
  have "?cur ! (Suc k - 1) = osa a b i (Suc k - 1)" by (simp add: nth_append del: upt_Suc)
  then have cell: "dl_cell a b i prev2 (osa_row a b (i - 1)) ?cur (Suc k) = osa a b i (Suc k)"
    using dl_cell_osa [of i "Suc k" b ?cur a prev2] assms(1,2) Suc.prems by simp
  have "replicate (length b - k) (0::nat) = 0 # replicate (length b - Suc k) 0"
    using Suc.prems by (simp add: Suc_diff_Suc flip: replicate_Suc)
  then have "?cur[Suc k := osa a b i (Suc k)] = map (osa a b i) [0..<Suc (Suc k)] @ replicate (length b - Suc k) 0"
    by (simp add: list_update_append)
  moreover have "[1..<Suc (Suc k)] = [1..<Suc k] @ [Suc k]" by simp
  ultimately show ?case using Suc.IH Suc.prems cell by (simp del: upt_Suc)
qed

lemma dl_row_of:
  "0 < i \<Longrightarrow> (1 < i \<Longrightarrow> prev2 = osa_row a b (i - 2)) \<Longrightarrow> dl_row a b i prev2 (osa_row a b (i - 1)) = osa_row a b i"
  using dl_row_prefix [of i prev2 a b "length b"] by (simp add: dl_row_def osa_row_def del: upt_Suc)

section \<open>A row past the limit stays past it\<close>

lemma osa_swap_back:
  assumes "a ! Suc i = b ! j" "a ! i = b ! Suc j"
  shows "osa a b (Suc i) (Suc j) \<le> osa a b i j + (if a ! Suc i = b ! Suc j then 0 else 1)"
  using osa_bounds(3) [of a b i j] assms by (simp split: if_splits)

lemma row_past_limit:
  assumes "\<And>j. j \<le> length b \<Longrightarrow> limit < osa a b i j" "j \<le> length b"
  shows "limit < osa a b (Suc i) j"
  using assms(2)
proof (induction j)
  case 0
  then show ?case using assms(1) [of 0] by (simp add: osa_first)
next
  case (Suc j)
  show ?case
  proof (cases rule: osa_cases [of a b i j])
    case add
    then show ?thesis using Suc by simp
  next
    case drop
    then show ?thesis using assms(1) [of "Suc j"] Suc.prems by simp
  next
    case replace
    then show ?thesis using assms(1) [of j] Suc.prems by simp
  next
    case (swap i' j')
    then show ?thesis using osa_swap_back [of a i' b j'] assms(1) [of j] Suc.prems by simp
  qed
qed

lemma rows_past_limit:
  "(\<And>j. j \<le> length b \<Longrightarrow> limit < osa a b i j) \<Longrightarrow> j \<le> length b \<Longrightarrow> limit < osa a b (i + k) j"
proof (induction k arbitrary: j)
  case (Suc k)
  then show ?case using row_past_limit [of b limit a "i + k" j] by simp
qed simp

lemma min_row: "limit < min_list (osa_row a b i) \<longleftrightarrow> (\<forall>j \<le> length b. limit < osa a b i j)"
proof -
  have "min_list (osa_row a b i) = Min (osa a b i ` {0..<Suc (length b)})"
    by (subst min_list_Min) (simp_all add: osa_row_def del: upt_Suc)
  then show ?thesis by (auto simp: less_Suc_eq_le)
qed

lemma dl_rows_exact:
  assumes "0 < i" "i \<le> Suc (length a)" "1 < i \<Longrightarrow> prev2 = osa_row a b (i - 2)"
  shows "if distance a b \<le> limit then dl_rows a b limit i prev2 (osa_row a b (i - 1)) = distance a b
    else limit < dl_rows a b limit i prev2 (osa_row a b (i - 1))"
  using assms
proof (induction "Suc (length a) - i" arbitrary: i prev2)
  case 0
  then have i: "i = Suc (length a)" by simp
  then show ?case by (simp add: dl_rows.simps [of a b limit "Suc (length a)"] row_of_nth distance_osa)
next
  case (Suc k)
  then have i: "i \<le> length a" by simp
  let ?cur = "osa_row a b i"
  have row: "dl_row a b i prev2 (osa_row a b (i - 1)) = ?cur" using dl_row_of Suc.prems(1,3) by blast
  have step: "dl_rows a b limit i prev2 (osa_row a b (i - 1)) =
      (if min_list ?cur > limit then limit + 1 else dl_rows a b limit (Suc i) (osa_row a b (i - 1)) ?cur)"
    using i row by (simp add: dl_rows.simps [of a b limit i] Let_def)
  show ?case
  proof (cases "min_list ?cur > limit")
    case True
    then have "limit < osa a b (i + (length a - i)) (length b)"
      using rows_past_limit [of b limit a i "length b" "length a - i"] by (simp add: min_row)
    then have "limit < distance a b" using i by (simp add: distance_osa)
    with True step show ?thesis by simp
  next
    case False
    from Suc.hyps(2) have "k = Suc (length a) - Suc i" by simp
    from Suc.hyps(1) [OF this, of "osa_row a b (i - 1)"] i False show ?thesis unfolding step
      by (simp split: if_splits)
  qed
qed

text \<open>C11: the bounded table computes the edit distance exactly: when some sequence of at most \<open>limit\<close>
  edits exists the result is the least number of edits, and otherwise it is past the limit.\<close>

theorem damerau_exact:
  "if distance a b \<le> limit then damerau_levenshtein a b limit = distance a b
   else damerau_levenshtein a b limit > limit"
proof -
  have first: "[0..<Suc (length b)] = osa_row a b (1 - 1)"
    by (simp add: osa_row_def osa_first map_idI del: upt_Suc)
  show ?thesis
    using distance_lengths(1) [of a b] distance_lengths(2) [of b a] dl_rows_exact [of 1 a "[]" b limit]
    unfolding damerau_levenshtein_def first by (simp split: if_splits)
qed

end
