(* ===== verification/Typosquat.thy ===== *)
theory Typosquat
  imports Edit_Distance Dep_Graph "HOL-Library.Product_Lexorder"
begin

text \<open>
  The name rules of \<^verbatim>\<open>novelty.py\<close>: the popular dependency a globally unknown name is close to
  (\<open>typosquat_target\<close>), the far more popular package a name resembles (\<open>package_typosquat_match\<close>) and the
  kind of edit between them.  The table of dependency names (\<^verbatim>\<open>db/_dependencies.py\<close>) is a list of rows in
  table order; the \<^verbatim>\<open>naming.toml\<close> settings are the record \<open>naming\<close>.
\<close>

section \<open>The least element of a list, first come first served\<close>

fun first_least :: "('a \<Rightarrow> 'b::linorder) \<Rightarrow> 'a option \<Rightarrow> 'a list \<Rightarrow> 'a option" where
  "first_least f best [] = best"
| "first_least f best (x # xs) =
     first_least f (case best of None \<Rightarrow> Some x | Some y \<Rightarrow> (if f x < f y then Some x else Some y)) xs"

lemma first_least_Some:
  "first_least f (Some y) xs = Some z \<Longrightarrow> z \<in> insert y (set xs) \<and> (\<forall>x \<in> insert y (set xs). f z \<le> f x)"
proof (induction xs arbitrary: y)
  case (Cons x xs)
  show ?case
  proof (cases "f x < f y")
    case True
    with Cons.prems have "first_least f (Some x) xs = Some z" by simp
    from Cons.IH [OF this] True show ?thesis by (auto dest: bspec)
  next
    case False
    with Cons.prems have "first_least f (Some y) xs = Some z" by simp
    from Cons.IH [OF this] False show ?thesis by (auto dest: bspec)
  qed
qed simp

lemma first_least_total: "\<exists>z. first_least f (Some y) xs = Some z"
proof (induction xs arbitrary: y)
  case (Cons x xs)
  then show ?case by (cases "f x < f y") auto
qed simp

lemma first_least_least:
  "case first_least f None xs of None \<Rightarrow> xs = [] | Some z \<Rightarrow> z \<in> set xs \<and> (\<forall>x \<in> set xs. f z \<le> f x)"
proof (cases xs)
  case (Cons x ys)
  then show ?thesis
    using first_least_total [of f x ys] first_least_Some [of f x ys] by auto
qed simp

section \<open>A dependency close to a popular one\<close>

text \<open>\<^verbatim>\<open>dependency_names\<close>: names with their observation counts, in table order.\<close>

type_synonym name_table = "(string \<times> nat) list"

definition dependency_observation_count :: "name_table \<Rightarrow> string \<Rightarrow> nat" where
  "dependency_observation_count table name = dict_get table name 0"

definition top_dependency_pairs :: "name_table \<Rightarrow> nat \<Rightarrow> (string \<times> nat) list" where
  "top_dependency_pairs table n = take n (sort_key (\<lambda>(name, c). - int c) table)"

definition top_dependency_names :: "name_table \<Rightarrow> nat \<Rightarrow> string list" where
  "top_dependency_names table n = map fst (top_dependency_pairs table n)"

definition is_dependency_novel :: "name_table \<Rightarrow> string \<Rightarrow> bool" where
  "is_dependency_novel table name =
     (if table = [] then False
      else (let normalized = normalize_dependency name in
            if normalized = [] then False else dependency_observation_count table normalized = 0))"

definition name_limit :: "string \<Rightarrow> nat" where
  "name_limit name = (if length name < 8 then 1 else 2)"

fun target_scan :: "string \<Rightarrow> nat \<Rightarrow> bool \<Rightarrow> string list \<Rightarrow> (nat \<times> string) option \<Rightarrow> (nat \<times> string) option" where
  "target_scan name limit same_length_only [] best = best"
| "target_scan name limit same_length_only (c # cs) best =
     (if c = name \<or> length c - length name > limit \<or> length name - length c > limit
      then target_scan name limit same_length_only cs best
      else if same_length_only \<and> length c \<noteq> length name then target_scan name limit same_length_only cs best
      else (let d = damerau_levenshtein name c limit in
            if d \<le> limit \<and> (case best of None \<Rightarrow> True | Some b \<Rightarrow> d < fst b)
            then (if d = 1 then Some (d, c) else target_scan name limit same_length_only cs (Some (d, c)))
            else target_scan name limit same_length_only cs best))"

definition typosquat_target :: "string \<Rightarrow> string list \<Rightarrow> string option" where
  "typosquat_target name candidates =
     (if length name < 4 then None
      else map_option snd (target_scan name (name_limit name) (length name < 5) candidates None))"

text \<open>The candidates the scan can return.\<close>

definition rival :: "string \<Rightarrow> string \<Rightarrow> bool" where
  "rival name c \<longleftrightarrow> c \<noteq> name \<and> \<not> (length name < 5 \<and> length c \<noteq> length name) \<and> distance name c \<le> name_limit name"

lemma first_least_stays: "\<forall>x \<in> set xs. f y \<le> f x \<Longrightarrow> first_least f (Some y) xs = Some y"
  by (induction xs) auto

lemma damerau_within: "damerau_levenshtein a b limit \<le> limit \<longleftrightarrow> distance a b \<le> limit"
  using damerau_exact [of a b limit] by (auto split: if_splits)

lemma damerau_value: "distance a b \<le> limit \<Longrightarrow> damerau_levenshtein a b limit = distance a b"
  using damerau_exact [of a b limit] by simp

definition with_distance :: "string \<Rightarrow> string \<Rightarrow> nat \<times> string" where
  "with_distance name c = (distance name c, c)"

lemma rival_gap: "rival name c \<Longrightarrow> \<not> (length c - length name > name_limit name \<or> length name - length c > name_limit name)"
  using distance_lengths(1) [of name c] distance_lengths(2) [of c name] by (auto simp: rival_def)

lemma target_scan_least:
  "target_scan name (name_limit name) (length name < 5) cs (map_option (with_distance name) best) =
     map_option (with_distance name) (first_least (distance name) best (filter (rival name) cs))"
proof (induction cs arbitrary: best)
  case (Cons c cs)
  let ?l = "name_limit name"
  have skip: ?case if "\<not> rival name c"
    using that Cons.IH [of best] damerau_within [of name c ?l] by (auto simp: rival_def Let_def)
  show ?case
  proof (cases "rival name c")
    case True
    have c: "c \<noteq> name" "distance name c \<le> ?l" "\<not> (length name < 5 \<and> length c \<noteq> length name)"
      using True by (auto simp: rival_def)
    have d: "damerau_levenshtein name c ?l = distance name c" by (rule damerau_value [OF c(2)])
    have n1: "\<not> (c = name \<or> length c - length name > ?l \<or> length name - length c > ?l)"
      using c(1) rival_gap [OF True] by blast
    have pos: "\<forall>x \<in> set (filter (rival name) cs). 1 \<le> distance name x"
      using distance_zero [of name] by (fastforce simp: rival_def Suc_le_eq)
    show ?thesis
    proof (cases "case best of None \<Rightarrow> True | Some b \<Rightarrow> distance name c < distance name b")
      case better: True
      then have new: "(case best of None \<Rightarrow> Some c | Some y \<Rightarrow> (if distance name c < distance name y then Some c else Some y)) = Some c"
        by (simp split: option.splits)
      have fst: "case map_option (with_distance name) best of None \<Rightarrow> True | Some b \<Rightarrow> distance name c < fst b"
        using better by (cases best) (simp_all add: with_distance_def)
      have scan: "target_scan name ?l (length name < 5) (c # cs) (map_option (with_distance name) best) =
          (if distance name c = 1 then Some (with_distance name c)
           else target_scan name ?l (length name < 5) cs (map_option (with_distance name) (Some c)))"
        by (simp only: target_scan.simps Let_def d n1 c(3) c(2) fst simp_thms if_True if_False option.map with_distance_def [of name c])
      show ?thesis
      proof (cases "distance name c = 1")
        case one: True
        then have "first_least (distance name) (Some c) (filter (rival name) cs) = Some c"
          using pos by (intro first_least_stays) simp
        then show ?thesis using scan one new True by simp
      next
        case False
        then show ?thesis using scan new True Cons.IH [of "Some c"] by simp
      qed
    next
      case False
      then obtain b where b: "best = Some b" "\<not> distance name c < distance name b" by (cases best) auto
      then have worse: "\<not> (case map_option (with_distance name) best of None \<Rightarrow> True | Some b \<Rightarrow> distance name c < fst b)"
        by (simp add: with_distance_def)
      have "target_scan name ?l (length name < 5) (c # cs) (map_option (with_distance name) best) =
          target_scan name ?l (length name < 5) cs (map_option (with_distance name) best)"
        by (simp only: target_scan.simps Let_def d n1 c(3) worse simp_thms if_True if_False)
      then show ?thesis using True Cons.IH [of best] b by simp
    qed
  qed (rule skip)
qed simp

text \<open>the target of an unknown name is a nearest one.  A name of at least four characters has a target
  exactly when some candidate other than itself (of its own length, for a name of four) is within its
  limit of edits, one below eight characters and two from there on; the target is such a candidate and
  none of them is nearer.\<close>

theorem target_is_nearest:
  "case typosquat_target name candidates of
     None \<Rightarrow> length name < 4 \<or> filter (rival name) candidates = []
   | Some c \<Rightarrow> 4 \<le> length name \<and> c \<in> set (filter (rival name) candidates)
       \<and> list_all (\<lambda>d. distance name c \<le> distance name d) (filter (rival name) candidates)"
  using target_scan_least [of name candidates None] first_least_least [where f = "distance name" and xs = "filter (rival name) candidates"]
  by (cases "first_least (distance name) None (filter (rival name) candidates)")
    (auto simp: typosquat_target_def with_distance_def list_all_iff)

section \<open>A package name close to a far more popular one\<close>

record naming =
  nm_suffixes :: "string list"
  nm_confusable :: "string list"
  nm_min_length :: int
  nm_popularity_min_length :: int
  nm_min_observations :: int
  nm_plain_min :: int

fun strip_variant_suffix :: "string list \<Rightarrow> string \<Rightarrow> string" where
  "strip_variant_suffix [] name = name"
| "strip_variant_suffix (s # ss) name =
     (if py_endswith name s then (if s = [] then [] else take (length name - length s) name)
      else strip_variant_suffix ss name)"

definition is_confusable_pair :: "string list \<Rightarrow> char \<Rightarrow> char \<Rightarrow> bool" where
  "is_confusable_pair groups a b \<longleftrightarrow> a = b \<or> list_ex (\<lambda>g. a \<in> set g \<and> b \<in> set g) groups"

definition strip_separators :: "string \<Rightarrow> string" where
  "strip_separators name = filter (\<lambda>c. c \<notin> set ''-_. '') name"

definition differing :: "string \<Rightarrow> string \<Rightarrow> nat list" where
  "differing a b = filter (\<lambda>i. a ! i \<noteq> b ! i) [0..<min (length a) (length b)]"

definition is_adjacent_transposition :: "string \<Rightarrow> string \<Rightarrow> bool" where
  "is_adjacent_transposition a b =
     (if length a \<noteq> length b then False
      else (case differing a b of
          [i, j] \<Rightarrow> (if j \<noteq> i + 1 then False else a ! i = b ! j \<and> a ! j = b ! i)
        | _ \<Rightarrow> False))"

datatype tier = Confusable | Plain

definition classify_typosquat_edit :: "string list \<Rightarrow> string \<Rightarrow> string \<Rightarrow> tier" where
  "classify_typosquat_edit groups name candidate =
     (if length name = length candidate
      then (if is_adjacent_transposition name candidate then Confusable
            else if list_all (\<lambda>i. is_confusable_pair groups (name ! i) (candidate ! i)) (differing name candidate)
            then Confusable else Plain)
      else if strip_separators name = strip_separators candidate then Confusable
      else Plain)"

text \<open>The candidates a name is compared with, and whether one passes the floors and the variant test.\<close>

definition popularity_threshold :: "int \<Rightarrow> int" where "popularity_threshold pop = max pop 1 * 10"

definition is_skipped :: "naming \<Rightarrow> string \<Rightarrow> int \<Rightarrow> string \<times> int \<Rightarrow> bool" where
  "is_skipped nm pkg pop = (\<lambda>(cand, cand_pop).
     length cand - length pkg > name_limit pkg \<or> length pkg - length cand > name_limit pkg
     \<or> cand_pop < popularity_threshold pop \<or> cand_pop < nm_min_observations nm
     \<or> cand = pkg \<or> strip_variant_suffix (nm_suffixes nm) cand = strip_variant_suffix (nm_suffixes nm) pkg)"

text \<open>\<^verbatim>\<open>(distance, -cand_pop) < (best[0], -best[1])\<close>.\<close>

definition nearer :: "nat \<Rightarrow> int \<Rightarrow> nat \<times> int \<times> string \<Rightarrow> bool" where
  "nearer d pop b \<longleftrightarrow> d < fst b \<or> d = fst b \<and> - pop < - fst (snd b)"

fun match_scan :: "naming \<Rightarrow> string \<Rightarrow> int \<Rightarrow> (string \<times> int) list \<Rightarrow> (nat \<times> int \<times> string) option
    \<Rightarrow> (nat \<times> int \<times> string) option" where
  "match_scan nm pkg pop [] best = best"
| "match_scan nm pkg pop ((cand, cand_pop) # cs) best =
     (if is_skipped nm pkg pop (cand, cand_pop) then match_scan nm pkg pop cs best
      else (let d = damerau_levenshtein pkg cand (name_limit pkg) in
            if d > name_limit pkg then match_scan nm pkg pop cs best
            else match_scan nm pkg pop cs
              (if (case best of None \<Rightarrow> True | Some b \<Rightarrow> nearer d cand_pop b) then Some (d, cand_pop, cand) else best)))"

text \<open>
  \<open>source\<close>: the popularity list and the own votes of the corpus path, or \<open>None\<close> for the dependency table.
\<close>

definition min_name_length :: "naming \<Rightarrow> bool \<Rightarrow> int option \<Rightarrow> int" where
  "min_name_length nm popularity_path min_length =
     (case min_length of Some n \<Rightarrow> n
      | None \<Rightarrow> (if popularity_path then nm_popularity_min_length nm else nm_min_length nm))"

definition compared_names :: "name_table \<Rightarrow> string \<Rightarrow> (string \<times> int) list option \<Rightarrow> int option \<Rightarrow> (string \<times> int) list \<times> int" where
  "compared_names table pkg candidates self_popularity =
     (case candidates of
        None \<Rightarrow> (map (\<lambda>(n, c). (n, int c)) (top_dependency_pairs table 5000), int (dependency_observation_count table pkg))
      | Some cs \<Rightarrow> (cs, (case self_popularity of None \<Rightarrow> 0 | Some v \<Rightarrow> v)))"

definition base_edit :: "naming \<Rightarrow> string \<Rightarrow> string \<Rightarrow> tier" where
  "base_edit nm pkg cand =
     classify_typosquat_edit (nm_confusable nm)
       (strip_variant_suffix (nm_suffixes nm) pkg) (strip_variant_suffix (nm_suffixes nm) cand)"

definition package_typosquat_match ::
    "naming \<Rightarrow> name_table \<Rightarrow> string \<Rightarrow> (string \<times> int) list option \<Rightarrow> int option \<Rightarrow> int option \<Rightarrow> (string \<times> tier) option" where
  "package_typosquat_match nm table pkg candidates self_popularity min_length =
     (if int (length pkg) < min_name_length nm (candidates \<noteq> None) min_length then None
      else (let (pairs, pop) = compared_names table pkg candidates self_popularity in
            case match_scan nm pkg pop pairs None of
              None \<Rightarrow> None
            | Some (d, cand_pop, cand) \<Rightarrow>
                (let tier = base_edit nm pkg cand in
                 if tier = Plain \<and> cand_pop < nm_plain_min nm then None else Some (cand, tier))))"

text \<open>The scan keeps the nearest of the qualified candidates, the most popular of those.\<close>

definition qualifies :: "naming \<Rightarrow> string \<Rightarrow> int \<Rightarrow> string \<times> int \<Rightarrow> bool" where
  "qualifies nm pkg pop x \<longleftrightarrow> \<not> is_skipped nm pkg pop x \<and> distance pkg (fst x) \<le> name_limit pkg"

definition rank_of :: "string \<Rightarrow> string \<times> int \<Rightarrow> nat \<times> int" where
  "rank_of pkg x = (distance pkg (fst x), - snd x)"

definition ranked :: "string \<Rightarrow> string \<times> int \<Rightarrow> nat \<times> int \<times> string" where
  "ranked pkg x = (distance pkg (fst x), snd x, fst x)"

lemma nearer_rank: "nearer (distance pkg c) p (ranked pkg y) \<longleftrightarrow> rank_of pkg (c, p) < rank_of pkg y"
  by (auto simp: nearer_def ranked_def rank_of_def less_prod_def)

lemma match_scan_least:
  "match_scan nm pkg pop cs (map_option (ranked pkg) best) =
     map_option (ranked pkg) (first_least (rank_of pkg) best (filter (qualifies nm pkg pop) cs))"
proof (induction cs arbitrary: best)
  case (Cons x cs)
  obtain c p where x: "x = (c, p)" by fastforce
  show ?case
  proof (cases "qualifies nm pkg pop x")
    case True
    then have q: "\<not> is_skipped nm pkg pop (c, p)" "\<not> distance pkg c > name_limit pkg"
      and d: "damerau_levenshtein pkg c (name_limit pkg) = distance pkg c"
      using damerau_value by (auto simp: qualifies_def x)
    let ?new = "case best of None \<Rightarrow> Some x | Some y \<Rightarrow> (if rank_of pkg x < rank_of pkg y then Some x else Some y)"
    have "(if (case map_option (ranked pkg) best of None \<Rightarrow> True | Some b \<Rightarrow> nearer (distance pkg c) p b)
        then Some (distance pkg c, p, c) else map_option (ranked pkg) best) = map_option (ranked pkg) ?new"
      by (cases best) (simp_all add: nearer_rank x ranked_def [of pkg "(c, p)"])
    then have "match_scan nm pkg pop (x # cs) (map_option (ranked pkg) best)
        = match_scan nm pkg pop cs (map_option (ranked pkg) ?new)"
      by (simp only: x match_scan.simps Let_def d q if_False)
    also have "\<dots> = map_option (ranked pkg) (first_least (rank_of pkg) ?new (filter (qualifies nm pkg pop) cs))"
      by (rule Cons.IH)
    finally show ?thesis using True by (simp only: filter.simps if_True first_least.simps)
  next
    case False
    then have "is_skipped nm pkg pop (c, p) \<or> damerau_levenshtein pkg c (name_limit pkg) > name_limit pkg"
      using damerau_within [of pkg c "name_limit pkg"] by (auto simp: qualifies_def x)
    with False Cons.IH [of best] show ?thesis by (auto simp: x Let_def)
  qed
qed simp

lemma qualifies_popular: "qualifies nm pkg pop (cand, cand_pop) \<Longrightarrow> 10 * max pop 1 \<le> cand_pop \<and> cand \<noteq> pkg"
  by (auto simp: qualifies_def is_skipped_def popularity_threshold_def)

text \<open>the H029 match, exactly.  A reported candidate passes every floor, is at least ten times as popular
  as the package (counted at least once), is no variant of it, is within the limit of edits, and no qualified
  candidate is nearer, or as near and more popular; its tier is that of the edit, and a plain edit clears
  the higher floor.  Nothing is reported only for a short name, when no candidate qualifies, or when the
  nearest is a plain edit below that floor.\<close>

theorem match_exact:
  "case compared_names table pkg candidates self_popularity of (pairs, pop) \<Rightarrow>
     (case package_typosquat_match nm table pkg candidates self_popularity min_length of
        Some (cand, tier) \<Rightarrow> \<exists>cand_pop. (cand, cand_pop) \<in> set (filter (qualifies nm pkg pop) pairs)
          \<and> 10 * max pop 1 \<le> cand_pop \<and> distance pkg cand \<le> name_limit pkg
          \<and> list_all (\<lambda>x. rank_of pkg (cand, cand_pop) \<le> rank_of pkg x) (filter (qualifies nm pkg pop) pairs)
          \<and> tier = base_edit nm pkg cand \<and> (tier = Confusable \<or> nm_plain_min nm \<le> cand_pop)
      | None \<Rightarrow> int (length pkg) < min_name_length nm (candidates \<noteq> None) min_length
          \<or> filter (qualifies nm pkg pop) pairs = []
          \<or> (\<exists>cand cand_pop. (cand, cand_pop) \<in> set (filter (qualifies nm pkg pop) pairs)
              \<and> list_all (\<lambda>x. rank_of pkg (cand, cand_pop) \<le> rank_of pkg x) (filter (qualifies nm pkg pop) pairs)
              \<and> base_edit nm pkg cand = Plain \<and> cand_pop < nm_plain_min nm))"
proof -
  obtain pairs pop where names: "compared_names table pkg candidates self_popularity = (pairs, pop)" by fastforce
  let ?q = "filter (qualifies nm pkg pop) pairs"
  let ?best = "first_least (rank_of pkg) None ?q"
  have scan: "match_scan nm pkg pop pairs None = map_option (ranked pkg) ?best"
    using match_scan_least [of nm pkg pop pairs None] by simp
  show ?thesis
  proof (cases "int (length pkg) < min_name_length nm (candidates \<noteq> None) min_length")
    case True
    then show ?thesis by (simp add: names package_typosquat_match_def)
  next
    case long: False
    show ?thesis
    proof (cases ?best)
      case None
      with first_least_least [where f = "rank_of pkg" and xs = ?q] have "?q = []" by simp
      moreover have "package_typosquat_match nm table pkg candidates self_popularity min_length = None"
        using long None scan by (simp add: names package_typosquat_match_def)
      ultimately show ?thesis by (simp add: names)
    next
      case (Some x)
      obtain cand cand_pop where x: "x = (cand, cand_pop)" by fastforce
      from first_least_least [where f = "rank_of pkg" and xs = ?q] Some
      have mem: "(cand, cand_pop) \<in> set ?q" and least: "list_all (\<lambda>y. rank_of pkg (cand, cand_pop) \<le> rank_of pkg y) ?q"
        by (auto simp: x list_all_iff)
      have q: "10 * max pop 1 \<le> cand_pop \<and> distance pkg cand \<le> name_limit pkg"
        using mem qualifies_popular [of nm pkg pop cand cand_pop] by (simp add: qualifies_def)
      have res: "package_typosquat_match nm table pkg candidates self_popularity min_length =
          (if base_edit nm pkg cand = Plain \<and> cand_pop < nm_plain_min nm then None else Some (cand, base_edit nm pkg cand))"
        using long scan Some by (simp add: names package_typosquat_match_def ranked_def x Let_def)
      show ?thesis
      proof (cases "base_edit nm pkg cand = Plain \<and> cand_pop < nm_plain_min nm")
        case True
        with mem least show ?thesis unfolding names res by auto
      next
        case False
        then have "base_edit nm pkg cand = Confusable \<or> nm_plain_min nm \<le> cand_pop"
          by (cases "base_edit nm pkg cand") auto
        with False mem least q show ?thesis unfolding names res by auto
      qed
    qed
  qed
qed

text \<open>
  The floor of a plain edit is asked of the nearest candidate only, and at the same distance the more popular
  one is the nearest: a name written with a confusable digit is reported against \<^verbatim>\<open>openssl\<close> alone, and no
  longer once another name one plain edit away is somewhat more popular.
\<close>

definition shipped_naming :: naming where
  "shipped_naming = \<lparr>nm_suffixes = [''-git'', ''-bin'', ''-debug'', ''-lts'', ''-stable'', ''-beta'', ''-svn'', ''-hg'',
       ''-bzr'', ''-cvs'', ''-wine'', ''-appimage'', ''-flatpak'', ''-nightly'', ''-devel'', ''-common''],
     nm_confusable = [''0oO'', ''1lIi'', ''2zZ'', ''3eE'', ''4aA'', ''5sS'', ''6bBG'', ''7tT'', ''8bB'', ''9gq''],
     nm_min_length = 4, nm_popularity_min_length = 3, nm_min_observations = 100, nm_plain_min = 1000\<rparr>"

lemma nearer_plain_name_masks:
  "package_typosquat_match shipped_naming [] ''openss1'' (Some [(''openssl'', 400)]) (Some 0) None = Some (''openssl'', Confusable)"
  "package_typosquat_match shipped_naming [] ''openss1'' (Some [(''openssh'', 500), (''openssl'', 400)]) (Some 0) None = None"
  by code_simp+

end
