(* ===== verification/Composition.thy ===== *)
theory Composition
  imports Typosquat Override
begin

text \<open>
  Rules over the findings of one scan (\<^verbatim>\<open>analysis/composition.py\<close>) and the two places that append them: the end
  of the shared scan (\<^verbatim>\<open>analysis/pipeline/_core.py\<close>) and of the first-seen analysis of the corpus
  (\<^verbatim>\<open>full_aur/analyze/_fact.py\<close>).  Findings that other modules emit are arguments; the scan for
  reconnaissance commands (H040) is a regular-expression rule and is not modelled.
\<close>

section \<open>Stages of an attack\<close>

definition STAGE_OF :: "string dict" where
  "STAGE_OF = [
    (''H026'', ''takeover''), (''H044'', ''takeover''), (''H074'', ''takeover''), (''H086'', ''takeover''),
     (''H088'', ''takeover''), (''H105'', ''takeover''), (''H087'', ''integrity_removed''),
     (''W002'', ''registry''), (''H106'', ''registry''), (''H107'', ''exfil''), (''H108'', ''persistence''),
     (''H045'', ''mass_adoption''), (''H073'', ''mass_adoption''), (''H023'', ''install_hook''),
     (''H017'', ''install_hook''), (''H100'', ''install_hook''), (''R001'', ''foreign_fetch''),
     (''H035'', ''foreign_fetch''), (''H066'', ''foreign_fetch''), (''H075'', ''foreign_fetch''),
     (''H068'', ''payload''), (''H069'', ''payload''), (''H036'', ''obfuscation''),
     (''H065'', ''obfuscation''), (''H067'', ''anti_analysis''), (''H080'', ''anti_analysis''),
     (''H072'', ''write_then_exec''), (''H081'', ''write_then_exec''), (''C032'', ''write_then_exec''),
     (''H038'', ''staging''), (''H040'', ''recon''), (''H039'', ''persistence''), (''H062'', ''persistence''),
     (''H076'', ''persistence''), (''H093'', ''persistence''), (''H095'', ''persistence''),
     (''H041'', ''exfil''), (''H071'', ''exfil''), (''H042'', ''hidden_drop''), (''H034'', ''foreign_fetch''),
     (''R041'', ''foreign_fetch''), (''H082'', ''write_then_exec''), (''H083'', ''write_then_exec''),
     (''H090'', ''foreign_fetch''), (''R144'', ''persistence''), (''H089'', ''persistence''),
     (''R054'', ''persistence''), (''H091'', ''integrity_removed''), (''X001'', ''obfuscation''),
     (''X002'', ''obfuscation''), (''X003'', ''obfuscation''), (''X005'', ''obfuscation''),
     (''X008'', ''obfuscation''), (''X018'', ''obfuscation''), (''X004'', ''anti_analysis''),
     (''X006'', ''foreign_fetch''), (''X009'', ''foreign_fetch''), (''X010'', ''foreign_fetch''),
     (''X013'', ''foreign_fetch''), (''X016'', ''foreign_fetch''), (''X011'', ''payload''),
     (''X017'', ''payload''), (''X012'', ''write_then_exec''), (''X014'', ''write_then_exec''),
     (''X015'', ''persistence''), (''X019'', ''exfil''), (''S001'', ''sabotage''), (''S002'', ''sabotage''),
     (''S003'', ''sabotage''), (''S004'', ''sabotage''), (''S005'', ''sabotage''), (''S006'', ''sabotage''),
     (''S007'', ''sabotage''), (''S008'', ''anti_analysis'')
    ]"

definition CASCADE_ONLY :: "string list" where "CASCADE_ONLY = []"

definition add_stage :: "string list dict \<Rightarrow> string \<Rightarrow> string list dict" where
  "add_stage stages rid =
     (if rid \<in> set CASCADE_ONLY then stages
      else (case map_of STAGE_OF rid of
          None \<Rightarrow> stages
        | Some stage \<Rightarrow> dict_set stages stage (dict_get stages stage [] @ [rid])))"

definition attack_chain_stages :: "finding list \<Rightarrow> string list dict" where
  "attack_chain_stages fs = foldl add_stage [] (map f_rule_id fs)"

record compose_config =
  cc_templates :: "string dict"
  cc_attack_stages :: nat
  cc_min_signals :: int
  cc_naming :: naming

definition compose_finding :: "compose_config \<Rightarrow> string \<Rightarrow> string \<Rightarrow> string \<Rightarrow> string \<Rightarrow> string \<Rightarrow> py_value dict \<Rightarrow> finding" where
  "compose_finding cfg rid name severity category match_text params =
     stamp (cc_templates cfg)
       ((bare_finding rid name severity category)\<lparr>f_match := Some match_text, f_params := Some params\<rparr>) None"

definition categories_of :: "finding list \<Rightarrow> string list" where
  "categories_of fs =
     remdups (List.map_filter (\<lambda>f. case f_category f of None \<Rightarrow> None
       | Some c \<Rightarrow> (if c \<noteq> [] \<and> f_rule_id f \<noteq> ''H027'' then Some c else None)) fs)"

definition meta_annotations :: "compose_config \<Rightarrow> finding list \<Rightarrow> finding list" where
  "meta_annotations cfg fs =
     (let n = length (categories_of fs); stages = attack_chain_stages fs;
          names = py_join '', '' (sort (map fst stages)) in
      (if n \<ge> 3 then [compose_finding cfg ''H027'' ''Capability Density Anomaly'' ''INFO'' ''meta''
           (''rule hits span '' @ show_nat n @ '' distinct capability categories'') [(''n_categories'', VInt (int n))]] else []) @
      (if length stages \<ge> cc_attack_stages cfg then [compose_finding cfg ''H043'' ''Attack-Chain Composition'' ''INFO'' ''meta''
           (''rule hits span '' @ show_nat (length stages) @ '' distinct kill-chain stages: '' @ names)
           [(''n_stages'', VInt (int (length stages))), (''stages'', VStr names)]] else []))"

section \<open>Names\<close>

definition tier_text :: "tier \<Rightarrow> string" where
  "tier_text t = (case t of Confusable \<Rightarrow> ''confusable'' | Plain \<Rightarrow> ''plain'')"

definition naming_typosquat_finding ::
    "compose_config \<Rightarrow> name_table \<Rightarrow> string \<Rightarrow> (string \<times> int) list option \<Rightarrow> int option \<Rightarrow> int option \<Rightarrow> finding option" where
  "naming_typosquat_finding cfg table pkg candidates self_popularity min_length =
     map_option (\<lambda>(squatted, t). compose_finding cfg ''H029'' ''Package-Name Typosquat'' ''HIGH'' ''naming''
         ([SQ] @ pkg @ [SQ] @ '' resembles the far more popular '' @ [SQ] @ squatted @ [SQ])
         [(''pkg_name'', VStr pkg), (''squatted'', VStr squatted), (''tier'', VStr (tier_text t))])
       (package_typosquat_match (cc_naming cfg) table pkg candidates self_popularity min_length)"

definition NAMING_CLUSTER_MEMBERS :: "string dict" where
  "NAMING_CLUSTER_MEMBERS = [
    (''H029'', ''name resemblance''), (''D001'', ''novel dependency''),
     (''D002'', ''typosquatted dependency''), (''D004'', ''dependency hijack''),
     (''H064'', ''provides/replaces scope''), (''C012'', ''source domain lookalike''),
     (''U003'', ''new upstream source host''), (''U004'', ''registry redirect''),
     (''U011'', ''upstream origin change''), (''H053'', ''name/host divergence''),
     (''H059'', ''name/repo divergence''), (''H026'', ''new maintainer without prior history'')
    ]"

definition cluster_present :: "finding list \<Rightarrow> string list" where
  "cluster_present fs =
     map (\<lambda>(rid, label). rid @ '' ('' @ label @ '')'')
       (filter (\<lambda>(rid, label). list_ex (\<lambda>f. f_rule_id f = rid) fs) NAMING_CLUSTER_MEMBERS)"

definition naming_cluster_annotation :: "compose_config \<Rightarrow> finding list \<Rightarrow> finding option" where
  "naming_cluster_annotation cfg fs =
     (let present = cluster_present fs in
      if int (length present) < cc_min_signals cfg then None
      else Some (compose_finding cfg ''H098'' ''Naming/Deception Cluster'' ''HIGH'' ''meta''
        (show_nat (length present) @ '' naming/deception signals: '' @ py_join '', '' present)
        [(''count'', VInt (int (length present))), (''members'', VStr (py_join '', '' present))]))"

definition maintainer_keyring_composition :: "compose_config \<Rightarrow> finding list \<Rightarrow> bool \<Rightarrow> finding option" where
  "maintainer_keyring_composition cfg fs maintainer_changed =
     (if \<not> maintainer_changed then None
      else if \<not> list_ex (\<lambda>f. f_rule_id f = ''H078'') fs then None
      else Some (compose_finding cfg ''H102'' ''Maintainer Change With Signing Key Change'' ''HIGH'' ''meta''
        ''maintainer changed and validpgpkeys moved in the same diff'' [(''members'', VStr ''maintainer, H078'')]))"

section \<open>The end of a scan\<close>

text \<open>\<^verbatim>\<open>triggered_rules.append\<close> of a finding there may be.\<close>

definition append_some :: "finding list \<Rightarrow> finding option \<Rightarrow> finding list" where
  "append_some fs f = (case f of None \<Rightarrow> fs | Some x \<Rightarrow> fs @ [x])"

definition append_naming :: "compose_config \<Rightarrow> bool \<Rightarrow> finding option \<Rightarrow> finding list \<Rightarrow> finding list" where
  "append_naming cfg warmed squat fs =
     (if warmed then (let fs1 = append_some fs squat in append_some fs1 (naming_cluster_annotation cfg fs1)) else fs)"

text \<open>
  \<open>early\<close> are the findings before the override filter, \<open>late\<close> those other modules add between the filter and
  the annotations.
\<close>

definition live_tail :: "compose_config \<Rightarrow> bool \<Rightarrow> finding option \<Rightarrow> bool \<Rightarrow> string \<Rightarrow> int option \<Rightarrow> store
    \<Rightarrow> finding list \<Rightarrow> finding list \<Rightarrow> override_error + finding list" where
  "live_tail cfg warmed squat maintainer_changed pkg now st early late =
     (case filter_triggered_rules early (Some pkg) False now st of
        Inl e \<Rightarrow> Inl e
      | Inr r \<Rightarrow>
          (let fs = map fst (fl_kept r) @ late;
               fs = append_naming cfg warmed squat (fs @ meta_annotations cfg fs)
           in Inr (append_some fs (maintainer_keyring_composition cfg fs maintainer_changed))))"

definition first_seen_tail :: "compose_config \<Rightarrow> bool \<Rightarrow> finding option \<Rightarrow> string \<Rightarrow> int option \<Rightarrow> store
    \<Rightarrow> finding list \<Rightarrow> override_error + finding list" where
  "first_seen_tail cfg warmed squat pkg now st early =
     (case filter_triggered_rules early (Some pkg) False now st of
        Inl e \<Rightarrow> Inl e
      | Inr r \<Rightarrow>
          (let fs = append_naming cfg warmed squat (map fst (fl_kept r)) in Inr (fs @ meta_annotations cfg fs)))"

section \<open>The stages, exactly\<close>

definition stage_ids :: "string \<Rightarrow> string list \<Rightarrow> string list" where
  "stage_ids stage rids = filter (\<lambda>r. map_of STAGE_OF r = Some stage) rids"

lemma add_stages:
  "distinct (map fst (foldl add_stage [] rids))
   \<and> (\<forall>stage. map_of (foldl add_stage [] rids) stage =
        (if stage_ids stage rids = [] then None else Some (stage_ids stage rids)))"
proof (induction rids rule: rev_induct)
  case (snoc rid rids)
  then show ?case
    by (cases "map_of STAGE_OF rid")
      (auto simp: add_stage_def CASCADE_ONLY_def stage_ids_def dict_get_def dict_set_distinct)
qed (simp add: stage_ids_def)

text \<open>H043 counts the stages of an attack, exactly.  A stage is listed once, with the ids of its rules in
  the order they fired, and only when one fired; the annotation is made exactly when the number of stages
  among the ids of the findings reaches the threshold.\<close>

theorem attack_chain_exact:
  "let stages = attack_chain_stages fs; rids = map f_rule_id fs in
     distinct (map fst stages)
     \<and> (\<forall>stage. map_of stages stage = (if stage_ids stage rids = [] then None else Some (stage_ids stage rids)))
     \<and> (list_ex (\<lambda>f. f_rule_id f = ''H043'') (meta_annotations cfg fs)
          \<longleftrightarrow> cc_attack_stages cfg \<le> card (set (List.map_filter (map_of STAGE_OF) rids)))"
proof -
  let ?stages = "attack_chain_stages fs" and ?rids = "map f_rule_id fs"
  have parts: "distinct (map fst ?stages)"
      "map_of ?stages s = (if stage_ids s ?rids = [] then None else Some (stage_ids s ?rids))" for s
    using add_stages [of ?rids] by (simp_all add: attack_chain_stages_def)
  have "s \<in> set (map fst ?stages) \<longleftrightarrow> s \<in> set (List.map_filter (map_of STAGE_OF) ?rids)" for s
  proof -
    have "s \<in> set (map fst ?stages) \<longleftrightarrow> map_of ?stages s \<noteq> None" by (simp add: map_of_eq_None_iff)
    also have "\<dots> \<longleftrightarrow> stage_ids s ?rids \<noteq> []" by (simp add: parts(2))
    also have "\<dots> \<longleftrightarrow> s \<in> set (List.map_filter (map_of STAGE_OF) ?rids)"
      by (simp only: map_filter_set stage_ids_def filter_empty_conv) blast
    finally show ?thesis .
  qed
  then have "set (map fst ?stages) = set (List.map_filter (map_of STAGE_OF) ?rids)" by blast
  then have "length ?stages = card (set (List.map_filter (map_of STAGE_OF) ?rids))"
    using distinct_card [OF parts(1)] by simp
  moreover have "list_ex (\<lambda>f. f_rule_id f = ''H043'') (meta_annotations cfg fs) \<longleftrightarrow> cc_attack_stages cfg \<le> length ?stages"
    by (simp add: meta_annotations_def Let_def compose_finding_def stamp_keeps bare_finding_def)
  ultimately show ?thesis using parts by (simp add: Let_def)
qed

section \<open>What the tail of a scan adds\<close>

lemma naming_ids:
  "\<exists>named. append_naming cfg warmed (naming_typosquat_finding cfg table pkg cands votes least) fs = fs @ named
     \<and> set (map f_rule_id named) \<subseteq> {''H029'', ''H098''}"
  by (auto simp: append_naming_def append_some_def naming_typosquat_finding_def naming_cluster_annotation_def
      compose_finding_def stamp_keeps bare_finding_def Let_def split: option.splits prod.splits)

lemma keyring_id:
  "\<exists>named. append_some fs (maintainer_keyring_composition cfg fs changed) = fs @ named \<and> set (map f_rule_id named) \<subseteq> {''H102''}"
  by (simp add: append_some_def maintainer_keyring_composition_def compose_finding_def stamp_keeps bare_finding_def)

text \<open>C27: what the end of a scan keeps and adds.  The result is the findings no override hides, then everything
  the late stages brought, whatever the overrides say, then the annotations over exactly these, then at
  most naming and keyring findings, which no annotation counted.\<close>

theorem tail_exact:
  "case live_tail cfg warmed (naming_typosquat_finding cfg table pkg cands votes least) changed pkg now st early late of
     Inl e \<Rightarrow> e = TypeError
   | Inr fs \<Rightarrow> (let shown = filter (\<lambda>f. \<not> is_hidden (Some pkg) now st f) early @ late in
       \<exists>named. fs = shown @ meta_annotations cfg shown @ named
         \<and> set (map f_rule_id named) \<subseteq> {''H029'', ''H098'', ''H102''})"
proof (cases "filter_triggered_rules early (Some pkg) False now st")
  case (Inl e)
  with filter_triggered_split [where fs = early and pkg = "Some pkg" and corroborated = False and now = now and st = st] show ?thesis by (simp add: live_tail_def)
next
  case (Inr r)
  let ?shown = "filter (\<lambda>f. \<not> is_hidden (Some pkg) now st f) early @ late"
  let ?squat = "naming_typosquat_finding cfg table pkg cands votes least"
  have kept: "map fst (fl_kept r) @ late = ?shown"
    using filter_triggered_split [where fs = early and pkg = "Some pkg" and corroborated = False and now = now and st = st] Inr by (simp add: split_exactly_def)
  obtain n1 where n1: "append_naming cfg warmed ?squat (?shown @ meta_annotations cfg ?shown) = (?shown @ meta_annotations cfg ?shown) @ n1"
      "set (map f_rule_id n1) \<subseteq> {''H029'', ''H098''}" using naming_ids by blast
  obtain n2 where n2: "append_some ((?shown @ meta_annotations cfg ?shown) @ n1)
        (maintainer_keyring_composition cfg ((?shown @ meta_annotations cfg ?shown) @ n1) changed)
      = ((?shown @ meta_annotations cfg ?shown) @ n1) @ n2" "set (map f_rule_id n2) \<subseteq> {''H102''}" using keyring_id by blast
  have "live_tail cfg warmed ?squat changed pkg now st early late = Inr (((?shown @ meta_annotations cfg ?shown) @ n1) @ n2)"
    unfolding live_tail_def Inr sum.case Let_def kept n1(1) n2(1) by (rule refl)
  moreover have "set (map f_rule_id (n1 @ n2)) \<subseteq> {''H029'', ''H098'', ''H102''}" using n1(2) n2(2) by auto
  ultimately show ?thesis
    unfolding Let_def by (simp only: sum.case append_assoc) (intro exI [of _ "n1 @ n2"] conjI refl)
qed

text \<open>
  The first-seen analysis annotates after the naming rules: two naming signals of two categories make the
  cluster, the cluster's own category is the third, and the capability annotation appears.  The shared
  scan of the same findings has none.
\<close>

definition small_compose :: compose_config where
  "small_compose = \<lparr>cc_templates = [], cc_attack_stages = 3, cc_min_signals = 2, cc_naming = shipped_naming\<rparr>"

definition two_signals :: "finding list" where
  "two_signals = [bare_finding ''C012'' ''a'' ''HIGH'' ''source'', bare_finding ''D002'' ''b'' ''HIGH'' ''dependency'']"

lemma first_seen_feeds_back:
  "map_sum id (map f_rule_id) (live_tail small_compose True None False ''p'' None Missing two_signals [])
     = Inr [''C012'', ''D002'', ''H098'']"
  "map_sum id (map f_rule_id) (first_seen_tail small_compose True None ''p'' None Missing two_signals)
     = Inr [''C012'', ''D002'', ''H098'', ''H027'']"
  by code_simp+

end
