(* ===== verification/Checksums.thy ===== *)
theory Checksums
  imports Diff_Doc Coverage "HOL-Library.Multiset"
begin

text \<open>
  The checksum arrays of a diff (\<^verbatim>\<open>differ/_checksums.py\<close>): the arrays a diff touches with what it adds to
  and removes from each, the verdict on the change, the removal of a declaration, and the comparison of
  the lengths of the source and checksum arrays.  Each reader parses the
  diff first; here it takes the parsed document, and on a diff that \<open>parse_diff_lines\<close> refuses it raises
  with the parser.  The variable
  table of the added lines is the answer of the tokenizer worker, an argument here; it is taken to give the
  same answer to the same lines, as its memo does.  The lemmas show that the arrays of one file do not
  depend on another file, and which verdict a diff gets.
\<close>

section \<open>Names and patterns\<close>

definition CHECKSUM_VAR_NAMES :: "string list" where
  "CHECKSUM_VAR_NAMES = [''sha256sums'', ''sha512sums'', ''sha1sums'', ''sha224sums'', ''sha384sums'',
     ''b2sums'', ''md5sums'']"

definition ascii_alnum :: "char \<Rightarrow> bool" where
  "ascii_alnum c = (let n = (of_char c :: nat) in
     48 \<le> n \<and> n \<le> 57 \<or> 65 \<le> n \<and> n \<le> 90 \<or> 97 \<le> n \<and> n \<le> 122)"

text \<open>\<^verbatim>\<open>str.isalnum\<close> of one character: \<open>\w\<close> without the underscore.\<close>

definition py_isalnum :: "char \<Rightarrow> bool" where
  "py_isalnum c = (is_word c \<and> c \<noteq> CHR ''_'')"

text \<open>The optional suffix \<open>_x86_64\<close> of an array name, over a class of characters.\<close>

definition arch_suffix :: "(char \<Rightarrow> bool) \<Rightarrow> string \<Rightarrow> string" where
  "arch_suffix P s = (if py_startswith s ''_'' \<and> takeWhile P (drop 1 s) \<noteq> []
     then CHR ''_'' # takeWhile P (drop 1 s) else [])"

text \<open>\<^verbatim>\<open>_CHK_DECL_RE.match(body)\<close>: the declared name and what follows the match.\<close>

definition chk_decl :: "string \<Rightarrow> (string \<times> string) option" where
  "chk_decl body =
     (let s = py_lstrip body in
      case find (\<lambda>n. py_startswith (py_lower s) n) CHECKSUM_VAR_NAMES of None \<Rightarrow> None
      | Some n \<Rightarrow>
          (let suffix = arch_suffix (\<lambda>c. ascii_alnum c \<or> c = CHR ''_'') (drop (length n) s);
               name = take (length n + length suffix) s;
               t = py_lstrip (drop (length name) s)
           in if py_startswith t ''='' then Some (name, py_lstrip (drop 1 t)) else None))"

text \<open>\<^verbatim>\<open>_CHECKSUM_LINE_RE.search(raw)\<close>: a checksum name followed by an equals sign, anywhere.\<close>

definition checksum_line_here :: "string \<Rightarrow> bool" where
  "checksum_line_here s = list_ex (\<lambda>n. py_startswith (py_lower s) n \<and>
     py_startswith (py_lstrip (drop (length n) s)) ''='') CHECKSUM_VAR_NAMES"

fun checksum_line :: "string \<Rightarrow> bool" where
  "checksum_line [] = False"
| "checksum_line (c # s) = (checksum_line_here (c # s) \<or> checksum_line s)"

text \<open>\<^verbatim>\<open>_CHK_SKIP_WORD_RE\<close>, \<^verbatim>\<open>_CHK_HASH_CHAR_RE\<close> and \<^verbatim>\<open>_CHK_REAL_HASH_RE\<close>, searched in a text.\<close>

definition has_skip_word :: "string \<Rightarrow> bool" where
  "has_skip_word s = (py_in ''SKIP'' s \<or> py_in ''NONE'' s)"

definition has_hash_char :: "string \<Rightarrow> bool" where
  "has_hash_char s = list_ex (\<lambda>c. ascii_alnum c \<or> c \<in> set ''+/='') s"

definition digest_char :: "char \<Rightarrow> bool" where
  "digest_char c = (c \<in> set ''0123456789abcdefABCDEF'')"

definition real_hash_here :: "string \<Rightarrow> bool" where
  "real_hash_here s =
     (let h = takeWhile digest_char s in
      16 \<le> length h \<and> (case drop (length h) s of [] \<Rightarrow> True | d # _ \<Rightarrow> \<not> is_word d))"

fun real_hash_after :: "bool \<Rightarrow> string \<Rightarrow> bool" where
  "real_hash_after in_word [] = False"
| "real_hash_after in_word (c # s) =
     (\<not> in_word \<and> real_hash_here (c # s) \<or> real_hash_after (is_word c) s)"

definition has_real_hash :: "string \<Rightarrow> bool" where
  "has_real_hash s = real_hash_after False s"

section \<open>The elements of an array\<close>

definition item_of :: "string \<Rightarrow> string list" where
  "item_of cur = (if cur = [] then [] else [cur])"

text \<open>
  The loop of \<^verbatim>\<open>_checksum_items\<close> and of \<^verbatim>\<open>_quoted_items\<close>: the element under construction, the open quote,
  and the text ahead.  The two differ in the characters that end an element.
\<close>

fun scan_items :: "(char \<Rightarrow> bool) \<Rightarrow> string \<Rightarrow> char option \<Rightarrow> string \<Rightarrow> string list" where
  "scan_items sep cur q [] = item_of cur"
| "scan_items sep cur (Some q) (c # s) = scan_items sep (cur @ [c]) (if c = q then None else Some q) s"
| "scan_items sep cur None (c # s) =
     (if c = SQ \<or> c = DQ then scan_items sep (cur @ [c]) (Some c) s
      else if sep c then item_of cur @ scan_items sep [] None s
      else if c = CHR ''#'' then item_of cur
      else scan_items sep (cur @ [c]) None s)"

definition checksum_sep :: "char \<Rightarrow> bool" where
  "checksum_sep c = (c \<in> set ''(),'' \<or> py_isspace c)"

definition checksum_items :: "string \<Rightarrow> string list" where
  "checksum_items body = filter (list_ex py_isalnum) (scan_items checksum_sep [] None body)"

definition quoted_items :: "string \<Rightarrow> string list option" where
  "quoted_items contents =
     (case (py_find contents ''('', py_rfind contents '')'') of
        (Some i, Some j) \<Rightarrow> Some (scan_items py_isspace [] None (take (j - (i + 1)) (drop (i + 1) contents)))
      | _ \<Rightarrow> None)"

section \<open>The arrays a diff touches\<close>

record checksum_array =
  ca_var :: string
  ca_added_text :: string
  ca_removed_text :: string
  ca_added_items :: "string list"
  ca_removed_items :: "string list"
  ca_added_any :: bool
  ca_removed_any :: bool
  ca_decl_removed :: bool

text \<open>The local variables of \<^verbatim>\<open>_touched_checksum_arrays\<close>.\<close>

record chk_state =
  ck_arrays :: "checksum_array list"
  ck_var :: "string option"
  ck_added :: "string list"
  ck_removed :: "string list"
  ck_added_any :: bool
  ck_removed_any :: bool
  ck_decl_removed :: bool

definition chk_start :: chk_state where
  "chk_start = \<lparr>ck_arrays = [], ck_var = None, ck_added = [], ck_removed = [],
     ck_added_any = False, ck_removed_any = False, ck_decl_removed = False\<rparr>"

definition array_of :: "string \<Rightarrow> chk_state \<Rightarrow> checksum_array" where
  "array_of var st =
     (let added_text = py_join [NL] (ck_added st); removed_text = py_join [NL] (ck_removed st) in
      \<lparr>ca_var = var, ca_added_text = added_text, ca_removed_text = removed_text,
       ca_added_items = checksum_items added_text, ca_removed_items = checksum_items removed_text,
       ca_added_any = ck_added_any st, ca_removed_any = ck_removed_any st,
       ca_decl_removed = ck_decl_removed st\<rparr>)"

definition chk_flush :: "chk_state \<Rightarrow> chk_state" where
  "chk_flush st = \<lparr>ck_arrays = ck_arrays st @
       (case ck_var st of None \<Rightarrow> [] | Some var \<Rightarrow> [array_of var st]),
     ck_var = None, ck_added = [], ck_removed = [],
     ck_added_any = False, ck_removed_any = False, ck_decl_removed = False\<rparr>"

text \<open>A line that belongs to the open array, on the side the diff gives it.\<close>

definition collect :: "side \<Rightarrow> string \<Rightarrow> chk_state \<Rightarrow> chk_state" where
  "collect sd body st =
     (if sd = Add then st\<lparr>ck_added := ck_added st @ [body], ck_added_any := True\<rparr>
      else if sd = Remove then st\<lparr>ck_removed := ck_removed st @ [body], ck_removed_any := True\<rparr>
      else st)"

definition close_if :: "side \<Rightarrow> string \<Rightarrow> chk_state \<Rightarrow> chk_state" where
  "close_if sd body st = (if CHR '')'' \<in> set body \<and> sd \<noteq> Remove then chk_flush st else st)"

definition on_declaration :: "string \<Rightarrow> string \<Rightarrow> side \<Rightarrow> chk_state \<Rightarrow> chk_state" where
  "on_declaration var rest sd st =
     (if CHR ''('' \<notin> set rest then chk_flush st
      else (let st1 = (chk_flush st)\<lparr>ck_var := Some var\<rparr>;
                st2 = collect sd rest st1;
                st3 = (if sd = Remove then st2\<lparr>ck_decl_removed := True\<rparr> else st2)
            in close_if sd rest st3))"

definition touch_line :: "diff_line \<Rightarrow> chk_state \<Rightarrow> chk_state" where
  "touch_line l st =
     (let st1 = (if dl_file_boundary l then chk_flush st else st) in
      if \<not> is_content l \<and> py_startswith (dl_raw l) ''@@'' then st1
      else (let body = (if is_content l then dl_content l else dl_raw l) in
            case chk_decl body of
              Some (var, rest) \<Rightarrow> on_declaration var rest (dl_side l) st1
            | None \<Rightarrow>
                (if ck_var st1 = None then st1
                 else close_if (dl_side l) body (collect (dl_side l) body st1))))"

definition touched_arrays :: "diff_line list \<Rightarrow> checksum_array list" where
  "touched_arrays ls = ck_arrays (chk_flush (fold touch_line ls chk_start))"

definition touched_checksum_arrays :: "diff_doc \<Rightarrow> checksum_array list" where
  "touched_checksum_arrays doc = touched_arrays (dd_lines doc)"

section \<open>Resolving the text of an array\<close>

text \<open>
  What the tokenizer worker answers for the added lines: a table whose values may not be texts, that it is
  not there, or any other failure.
\<close>

datatype table_answer =
    Answer "(string \<times> string option) list"
  | Tokenizer_Unavailable
  | Other_Failure

text \<open>\<^verbatim>\<open>s.replace(old, new)\<close> for a non-empty \<open>old\<close>: a text to skip, then the leftmost occurrences.\<close>

fun replace_from :: "nat \<Rightarrow> string \<Rightarrow> string \<Rightarrow> string \<Rightarrow> string" where
  "replace_from k old new [] = []"
| "replace_from (Suc k) old new (c # s) = replace_from k old new s"
| "replace_from 0 old new (c # s) =
     (if py_startswith (c # s) old then new @ replace_from (length old - 1) old new s
      else c # replace_from 0 old new s)"

definition substitute :: "string \<Rightarrow> string option \<Rightarrow> string \<Rightarrow> string" where
  "substitute name val out =
     (case val of None \<Rightarrow> out
      | Some v \<Rightarrow> fold (\<lambda>spelling t. if py_in spelling t then replace_from 0 spelling v t else t)
          [''${'' @ name @ ''}'', CHR ''$'' # name] out)"

definition readable_lines :: "diff_doc \<Rightarrow> string list" where
  "readable_lines doc = map dl_content (filter (\<lambda>l. dl_side l = Add \<and> \<not> py_startswith (dl_raw l) ''+++'')
     (dd_lines doc))"

text \<open>The resolved text with the stage record after it, or nothing when the worker is not there.\<close>

definition resolve_checksum_text ::
    "(string list \<Rightarrow> table_answer) \<Rightarrow> diff_doc \<Rightarrow> string \<Rightarrow> stages \<Rightarrow> (string \<times> stages) option" where
  "resolve_checksum_text worker doc contents st =
     (if CHR ''$'' \<notin> set contents then Some (contents, st)
      else (case worker (readable_lines doc) of
              Tokenizer_Unavailable \<Rightarrow> None
            | Other_Failure \<Rightarrow> Some (contents, note_stage_failure ''checksum-resolution'' st)
            | Answer table \<Rightarrow> Some (fold (\<lambda>(name, val) out. substitute name val out) table contents, st)))"

section \<open>The verdict\<close>

record chk_flags =
  cf_seen :: bool
  cf_emptied :: bool
  cf_entry_removed :: bool

definition SKIPPED :: string where "SKIPPED = ''changed_from_sha256_to_skip''"
definition EMPTIED :: string where "EMPTIED = ''checksum_array_emptied''"
definition ENTRY_REMOVED :: string where "ENTRY_REMOVED = ''checksum_entry_removed''"
definition CHANGED :: string where "CHANGED = ''checksum_added_or_changed''"
definition UNCHANGED :: string where "UNCHANGED = ''unchanged''"

text \<open>An array that moved and does not hold the same items on both sides.\<close>

definition array_moved :: "checksum_array \<Rightarrow> bool" where
  "array_moved a = ((ca_added_any a \<or> ca_removed_any a) \<and>
     \<not> (mset (ca_added_items a) = mset (ca_removed_items a) \<and> ca_added_items a \<noteq> []))"

definition array_disabled :: "string \<Rightarrow> bool" where
  "array_disabled contents = (has_skip_word contents \<and> \<not> has_real_hash contents)"

definition array_emptied :: "checksum_array \<Rightarrow> string \<Rightarrow> bool" where
  "array_emptied a contents = (CHR ''('' \<in> set (ca_added_text a) \<and> \<not> has_hash_char contents)"

definition array_shrunk :: "checksum_array \<Rightarrow> bool" where
  "array_shrunk a = (\<not> ca_decl_removed a \<and>
     size (mset (ca_added_items a)) < size (mset (ca_removed_items a)))"

definition verdict_of :: "chk_flags \<Rightarrow> string" where
  "verdict_of f = (if cf_emptied f then EMPTIED else if cf_entry_removed f then ENTRY_REMOVED
     else if cf_seen f then CHANGED else UNCHANGED)"

text \<open>The loop over the arrays, with the flags seen so far; the first disabled array ends it.\<close>

fun judge ::
    "(string list \<Rightarrow> table_answer) \<Rightarrow> diff_doc \<Rightarrow> chk_flags \<Rightarrow> stages \<Rightarrow> checksum_array list \<Rightarrow> (string \<times> stages) option" where
  "judge worker doc f st [] = Some (verdict_of f, st)"
| "judge worker doc f st (a # as) =
     (if \<not> array_moved a then judge worker doc f st as
      else (case resolve_checksum_text worker doc (ca_added_text a) st of
              None \<Rightarrow> None
            | Some (contents, st1) \<Rightarrow>
                (if array_disabled contents then Some (SKIPPED, st1)
                 else judge worker doc
                   \<lparr>cf_seen = True,
                    cf_emptied = cf_emptied f \<or> array_emptied a contents,
                    cf_entry_removed = cf_entry_removed f \<or> array_shrunk a\<rparr> st1 as)))"

definition detect_checksum_changes ::
    "(string list \<Rightarrow> table_answer) \<Rightarrow> stages \<Rightarrow> diff_doc \<Rightarrow> (string \<times> stages) option" where
  "detect_checksum_changes worker st doc =
     judge worker doc \<lparr>cf_seen = False, cf_emptied = False, cf_entry_removed = False\<rparr> st
       (touched_checksum_arrays doc)"

definition detect_checksum_removed :: "diff_doc \<Rightarrow> bool" where
  "detect_checksum_removed doc =
     (let raws = map dl_raw (dd_lines doc) in
      list_ex (\<lambda>r. py_startswith r ''-'' \<and> checksum_line r) raws \<and>
      \<not> list_ex (\<lambda>r. py_startswith r ''+'' \<and> checksum_line r) raws)"

section \<open>Source and checksum arrays of different lengths\<close>

text \<open>
  The two array patterns, as the length of their match at the head of a text:
  \<^verbatim>\<open>_SOURCE_ARRAY_START_RE\<close> (\<^verbatim>\<open>buckets.py\<close>) and the pattern of one checksum name.
\<close>

definition opener_after :: "string \<Rightarrow> bool \<Rightarrow> nat \<Rightarrow> nat option" where
  "opener_after s may_plus k =
     (let t = py_lstrip (drop k s);
          t1 = (if may_plus \<and> py_startswith t ''+'' then drop 1 t else t);
          t2 = py_lstrip (drop 1 t1)
      in if py_startswith t1 ''='' \<and> py_startswith t2 ''('' then Some (length s - length t2 + 1) else None)"

definition source_start :: "string \<Rightarrow> nat option" where
  "source_start s =
     (let k = length s - length (py_lstrip s); t = drop k s in
      if py_startswith t ''source''
      then opener_after s True (k + 6 + length (arch_suffix
             (\<lambda>c. is_digit c \<or> c \<in> set ''abcdefghijklmnopqrstuvwxyz_'') (drop 6 t)))
      else None)"

definition sums_start :: "string \<Rightarrow> string \<Rightarrow> nat option" where
  "sums_start var s =
     (let k = length s - length (py_lstrip s) in
      if py_startswith (drop k s) var then opener_after s False (k + length var) else None)"

definition the_or_zero :: "nat option \<Rightarrow> nat" where
  "the_or_zero i = (case i of None \<Rightarrow> 0 | Some n \<Rightarrow> n)"

text \<open>The local variables of \<^verbatim>\<open>_added_array_items\<close>.\<close>

record adder =
  ad_latest :: "string list option"
  ad_wanted :: "string option"
  ad_collecting :: "string option"
  ad_parts :: "string list"

definition opened :: "string \<Rightarrow> adder \<Rightarrow> adder" where
  "opened body a =
     (let i = the_or_zero (py_find body ''('');
          name = py_strip (take i body);
          wanted = (case ad_wanted a of None \<Rightarrow> name | Some w \<Rightarrow> w);
          part = drop i body
      in if CHR '')'' \<in> set part
         then a\<lparr>ad_latest := (if name = wanted then quoted_items (''('' @ drop 1 part) else ad_latest a),
                ad_wanted := Some wanted, ad_collecting := None, ad_parts := [part]\<rparr>
         else a\<lparr>ad_wanted := Some wanted, ad_collecting := Some name, ad_parts := [part]\<rparr>)"

definition continued :: "string \<Rightarrow> adder \<Rightarrow> adder" where
  "continued body a =
     (let parts = ad_parts a @ [body] in
      if CHR '')'' \<in> set body
      then a\<lparr>ad_latest := (if ad_collecting a = ad_wanted a
               then quoted_items (''('' @ drop 1 (py_join [NL] parts)) else ad_latest a),
             ad_collecting := None, ad_parts := []\<rparr>
      else a\<lparr>ad_parts := parts\<rparr>)"

fun added_array_items_from ::
    "(string \<Rightarrow> nat option) \<Rightarrow> adder \<Rightarrow> diff_line list \<Rightarrow> string list option" where
  "added_array_items_from m a [] = ad_latest a"
| "added_array_items_from m a (l # ls) =
     (let body = (if is_content l then dl_content l else dl_raw l) in
      if py_startswith (dl_raw l) ''+++'' \<or> py_startswith (dl_raw l) ''---'' then added_array_items_from m a ls
      else if ad_collecting a = None
      then added_array_items_from m
             (if dl_side l = Add \<and> m body \<noteq> None then opened body a else a) ls
      else if dl_side l \<noteq> Add
      then (if ad_collecting a = ad_wanted a then None
            else added_array_items_from m (a\<lparr>ad_collecting := None, ad_parts := []\<rparr>) ls)
      else added_array_items_from m (continued body a) ls)"

definition added_array_items :: "diff_doc \<Rightarrow> (string \<Rightarrow> nat option) \<Rightarrow> string list option" where
  "added_array_items doc m = added_array_items_from m
     \<lparr>ad_latest = None, ad_wanted = None, ad_collecting = None, ad_parts = []\<rparr>
     (dd_lines doc)"

text \<open>The first checksum array, in the order of the names, that is shorter than the sources.\<close>

fun short_array :: "((string \<Rightarrow> nat option) \<Rightarrow> string list option) \<Rightarrow> nat \<Rightarrow> string list \<Rightarrow> (nat \<times> nat \<times> string) option" where
  "short_array items n [] = None"
| "short_array items n (var # vars) =
     (case items (sums_start var) of
        None \<Rightarrow> short_array items n vars
      | Some sums \<Rightarrow> if length sums < n then Some (n, length sums, var) else short_array items n vars)"

definition checksum_array_parity :: "diff_doc \<Rightarrow> (nat \<times> nat \<times> string) option" where
  "checksum_array_parity doc =
     (case added_array_items doc source_start of None \<Rightarrow> None
      | Some sources \<Rightarrow> short_array (added_array_items doc) (length sources) CHECKSUM_VAR_NAMES)"

text \<open>\<^verbatim>\<open>_unquoted_close\<close>, from a position of the text on.\<close>

fun close_from :: "char option \<Rightarrow> nat \<Rightarrow> string \<Rightarrow> nat option" where
  "close_from q i [] = None"
| "close_from (Some q) i (c # s) = close_from (if c = q then None else Some q) (Suc i) s"
| "close_from None i (c # s) =
     (if c = SQ \<or> c = DQ then close_from (Some c) (Suc i) s
      else if c = CHR '')'' then Some i else close_from None (Suc i) s)"

definition unquoted_close :: "string \<Rightarrow> nat \<Rightarrow> nat option" where
  "unquoted_close t start = close_from None start (drop start t)"

text \<open>\<^verbatim>\<open>start_re.finditer(text)\<close> with \<^verbatim>\<open>re.MULTILINE\<close>: the positions of the matches, none inside another.\<close>

fun match_starts :: "(string \<Rightarrow> nat option) \<Rightarrow> bool \<Rightarrow> nat \<Rightarrow> nat \<Rightarrow> string \<Rightarrow> nat list" where
  "match_starts m bol skip i [] = []"
| "match_starts m bol (Suc skip) i (c # s) = match_starts m (c = NL) skip (Suc i) s"
| "match_starts m bol 0 i (c # s) =
     (case (if bol then m (c # s) else None) of
        Some k \<Rightarrow> i # match_starts m (c = NL) (k - 1) (Suc i) s
      | None \<Rightarrow> match_starts m (c = NL) 0 (Suc i) s)"

fun text_array_from ::
    "string \<Rightarrow> string option \<Rightarrow> string list option \<Rightarrow> nat list \<Rightarrow> string list option" where
  "text_array_from t wanted latest [] = latest"
| "text_array_from t wanted latest (p # ps) =
     (case py_find (drop p t) ''('' of None \<Rightarrow> text_array_from t wanted latest ps
      | Some d \<Rightarrow>
          (let open_idx = p + d;
               declaration = py_strip (take d (drop p t));
               w = (case wanted of None \<Rightarrow> declaration | Some w \<Rightarrow> w)
           in if declaration \<noteq> w then text_array_from t (Some w) latest ps
              else (case unquoted_close t (open_idx + 1) of None \<Rightarrow> None
                    | Some close_idx \<Rightarrow> text_array_from t (Some w)
                        (quoted_items (take (close_idx + 1 - open_idx) (drop open_idx t))) ps)))"

definition text_array_items :: "string \<Rightarrow> (string \<Rightarrow> nat option) \<Rightarrow> string list option" where
  "text_array_items t m = text_array_from t None None (match_starts m True 0 0 t)"

definition checksum_array_parity_in_text :: "string \<Rightarrow> (nat \<times> nat \<times> string) option" where
  "checksum_array_parity_in_text recipe_text =
     (case text_array_items recipe_text source_start of None \<Rightarrow> None
      | Some sources \<Rightarrow> short_array (text_array_items recipe_text) (length sources) CHECKSUM_VAR_NAMES)"

text \<open>\<^verbatim>\<open>source_array_grew_in_diff\<close>: whether the walk is inside a source array, and the lines counted.\<close>

definition grew_step :: "diff_line \<Rightarrow> bool \<times> nat \<times> nat \<Rightarrow> bool \<times> nat \<times> nat" where
  "grew_step l = (\<lambda>(inside, added, removed).
     if py_startswith (dl_raw l) ''+++'' \<or> py_startswith (dl_raw l) ''---'' \<or> py_startswith (dl_raw l) ''@@''
     then (False, added, removed)
     else (let body = (if is_content l then dl_content l else dl_raw l) in
           if \<not> inside \<and> source_start body = None then (False, added, removed)
           else (unquoted_close body 0 = None,
                 (if dl_side l = Add then added + 1 else added),
                 (if dl_side l = Remove then removed + 1 else removed))))"

definition source_array_grew_in_diff :: "diff_doc \<Rightarrow> bool" where
  "source_array_grew_in_diff doc =
     (let (inside, added, removed) = fold grew_step
        (dd_lines doc) (False, 0, 0) in removed < added)"

section \<open>One file's arrays do not depend on another file\<close>

named_theorems checksum_simps

definition prepend :: "checksum_array list \<Rightarrow> chk_state \<Rightarrow> chk_state" where
  "prepend as st = st\<lparr>ck_arrays := as @ ck_arrays st\<rparr>"

lemma prepend_fields [checksum_simps]:
  "ck_arrays (prepend as st) = as @ ck_arrays st" "ck_var (prepend as st) = ck_var st"
  by (simp_all add: prepend_def)

lemma prepend_flush [checksum_simps]: "chk_flush (prepend as st) = prepend as (chk_flush st)"
  by (simp add: prepend_def chk_flush_def array_of_def split: option.splits)

lemma prepend_collect [checksum_simps]: "collect sd body (prepend as st) = prepend as (collect sd body st)"
  by (simp add: prepend_def collect_def)

lemma prepend_close [checksum_simps]: "close_if sd body (prepend as st) = prepend as (close_if sd body st)"
  by (simp add: close_if_def checksum_simps)

lemma prepend_update [checksum_simps]:
  "(prepend as st)\<lparr>ck_var := v\<rparr> = prepend as (st\<lparr>ck_var := v\<rparr>)"
  "(prepend as st)\<lparr>ck_decl_removed := b\<rparr> = prepend as (st\<lparr>ck_decl_removed := b\<rparr>)"
  by (simp_all add: prepend_def)

lemma prepend_declaration [checksum_simps]:
  "on_declaration var rest sd (prepend as st) = prepend as (on_declaration var rest sd st)"
  by (simp add: on_declaration_def Let_def checksum_simps)

lemma touch_prepend: "touch_line l (prepend as st) = prepend as (touch_line l st)"
  by (simp add: touch_line_def Let_def checksum_simps split: option.splits)

lemma fold_touch_prepend: "fold touch_line ls (prepend as st) = prepend as (fold touch_line ls st)"
  by (induction ls arbitrary: st) (simp_all add: touch_prepend)

lemma flush_start: "chk_flush st = prepend (ck_arrays (chk_flush st)) chk_start"
  by (simp add: chk_flush_def prepend_def chk_start_def)

lemma flush_flush: "chk_flush (chk_flush st) = chk_flush st"
  by (simp add: chk_flush_def)

lemma touch_boundary: "dl_file_boundary l \<Longrightarrow> touch_line l st = touch_line l (chk_flush st)"
  by (simp add: touch_line_def flush_flush)

section \<open>The verdict of a diff\<close>

text \<open>The text of an array as the verdict reads it, and the verdict of a list of arrays by rank.\<close>

definition array_text :: "(string list \<Rightarrow> table_answer) \<Rightarrow> diff_doc \<Rightarrow> checksum_array \<Rightarrow> string" where
  "array_text worker doc a =
     (case resolve_checksum_text worker doc (ca_added_text a) None of
        None \<Rightarrow> [] | Some (contents, _) \<Rightarrow> contents)"

definition ranked_verdict :: "(checksum_array \<Rightarrow> string) \<Rightarrow> checksum_array list \<Rightarrow> string" where
  "ranked_verdict rd moved =
     (if \<exists>a \<in> set moved. array_disabled (rd a) then SKIPPED
      else if \<exists>a \<in> set moved. array_emptied a (rd a) then EMPTIED
      else if \<exists>a \<in> set moved. array_shrunk a then ENTRY_REMOVED
      else if moved \<noteq> [] then CHANGED else UNCHANGED)"

lemma resolve_text:
  assumes "worker (readable_lines d) \<noteq> Tokenizer_Unavailable"
  shows "\<exists>st1. resolve_checksum_text worker d (ca_added_text a) st = Some (array_text worker d a, st1)
    \<and> st1 \<in> {st, note_stage_failure ''checksum-resolution'' st}
    \<and> (worker (readable_lines d) \<noteq> Other_Failure \<longrightarrow> st1 = st)
    \<and> (worker (readable_lines d) = Other_Failure \<and> CHR ''$'' \<in> set (ca_added_text a) \<longrightarrow>
         st1 = note_stage_failure ''checksum-resolution'' st)"
  using assms by (cases "worker (readable_lines d)") (auto simp: resolve_checksum_text_def array_text_def)

lemma note_twice: "note_stage_failure s (note_stage_failure s st) = note_stage_failure s st"
  by (auto simp: note_stage_failure_def split: option.splits)

lemma judge_verdict:
  assumes ok: "worker (readable_lines d) \<noteq> Tokenizer_Unavailable"
  shows "\<exists>st1. judge worker d f st as = Some (
      (if \<exists>a \<in> set (filter array_moved as). array_disabled (array_text worker d a) then SKIPPED
       else verdict_of \<lparr>cf_seen = cf_seen f \<or> filter array_moved as \<noteq> [],
         cf_emptied = cf_emptied f \<or>
           (\<exists>a \<in> set (filter array_moved as). array_emptied a (array_text worker d a)),
         cf_entry_removed = cf_entry_removed f \<or> (\<exists>a \<in> set (filter array_moved as). array_shrunk a)\<rparr>), st1)
    \<and> st1 \<in> {st, note_stage_failure ''checksum-resolution'' st}
    \<and> (worker (readable_lines d) \<noteq> Other_Failure \<longrightarrow> st1 = st)
    \<and> (worker (readable_lines d) = Other_Failure \<and>
         (\<exists>a \<in> set (filter array_moved as). CHR ''$'' \<in> set (ca_added_text a)) \<and>
         \<not> (\<exists>a \<in> set (filter array_moved as). array_disabled (array_text worker d a)) \<longrightarrow>
         st1 = note_stage_failure ''checksum-resolution'' st)"
proof (induction as arbitrary: f st)
  case Nil
  show ?case by (simp add: verdict_of_def)
next
  case (Cons a as)
  obtain st1 where r: "resolve_checksum_text worker d (ca_added_text a) st = Some (array_text worker d a, st1)"
    and st1: "st1 \<in> {st, note_stage_failure ''checksum-resolution'' st}"
      "worker (readable_lines d) \<noteq> Other_Failure \<longrightarrow> st1 = st"
      "worker (readable_lines d) = Other_Failure \<and> CHR ''$'' \<in> set (ca_added_text a) \<longrightarrow>
         st1 = note_stage_failure ''checksum-resolution'' st"
    using resolve_text [where worker = worker and d = d and a = a and st = st] ok by blast
  let ?f = "\<lparr>cf_seen = True, cf_emptied = cf_emptied f \<or> array_emptied a (array_text worker d a),
     cf_entry_removed = cf_entry_removed f \<or> array_shrunk a\<rparr>"
  show ?case
  proof (cases "array_moved a")
    case False
    then have "judge worker d f st (a # as) = judge worker d f st as"
      "filter array_moved (a # as) = filter array_moved as" by simp_all
    then show ?thesis by (simp only:) (rule Cons.IH)
  next
    case True
    show ?thesis
    proof (cases "array_disabled (array_text worker d a)")
      case True
      with \<open>array_moved a\<close> r st1 show ?thesis by simp
    next
      case False
      obtain st2 where j: "judge worker d ?f st1 as = Some (
          (if \<exists>a \<in> set (filter array_moved as). array_disabled (array_text worker d a) then SKIPPED
           else verdict_of \<lparr>cf_seen = cf_seen ?f \<or> filter array_moved as \<noteq> [],
             cf_emptied = cf_emptied ?f \<or>
               (\<exists>a \<in> set (filter array_moved as). array_emptied a (array_text worker d a)),
             cf_entry_removed = cf_entry_removed ?f \<or> (\<exists>a \<in> set (filter array_moved as). array_shrunk a)\<rparr>), st2)"
        and st2: "st2 \<in> {st1, note_stage_failure ''checksum-resolution'' st1}"
          "worker (readable_lines d) \<noteq> Other_Failure \<longrightarrow> st2 = st1"
          "worker (readable_lines d) = Other_Failure \<and>
             (\<exists>a \<in> set (filter array_moved as). CHR ''$'' \<in> set (ca_added_text a)) \<and>
             \<not> (\<exists>a \<in> set (filter array_moved as). array_disabled (array_text worker d a)) \<longrightarrow>
             st2 = note_stage_failure ''checksum-resolution'' st1"
        using Cons.IH [of ?f st1] by blast
      have "st2 \<in> {st, note_stage_failure ''checksum-resolution'' st}"
        "worker (readable_lines d) \<noteq> Other_Failure \<longrightarrow> st2 = st"
        "worker (readable_lines d) = Other_Failure \<and>
           (\<exists>b \<in> set (filter array_moved (a # as)). CHR ''$'' \<in> set (ca_added_text b)) \<and>
           \<not> (\<exists>b \<in> set (filter array_moved (a # as)). array_disabled (array_text worker d b)) \<longrightarrow>
           st2 = note_stage_failure ''checksum-resolution'' st"
        using st1 st2 \<open>array_moved a\<close> by (auto simp: note_twice)
      with False \<open>array_moved a\<close> r j show ?thesis by (auto simp: disj_assoc)
    qed
  qed
qed

lemma ranked_as_flags:
  "ranked_verdict rd moved = (if \<exists>a \<in> set moved. array_disabled (rd a) then SKIPPED
     else verdict_of \<lparr>cf_seen = moved \<noteq> [], cf_emptied = (\<exists>a \<in> set moved. array_emptied a (rd a)),
       cf_entry_removed = (\<exists>a \<in> set moved. array_shrunk a)\<rparr>)"
  by (simp add: ranked_verdict_def verdict_of_def)

text \<open>the arrays of a diff are those of its files, one file after the other: an array left open at the
  end of a file neither takes a line of the next file nor hides an array of it.\<close>

theorem files_independent:
  "dl_file_boundary l \<Longrightarrow> touched_arrays (ls @ l # ls') = touched_arrays ls @ touched_arrays (l # ls')"
proof -
  assume b: "dl_file_boundary l"
  have "fold touch_line (l # ls') (fold touch_line ls chk_start)
      = fold touch_line (l # ls') (chk_flush (fold touch_line ls chk_start))"
    using touch_boundary [OF b, of "fold touch_line ls chk_start"] by simp
  also have "\<dots> = fold touch_line (l # ls') (prepend (touched_arrays ls) chk_start)"
    using flush_start [of "fold touch_line ls chk_start"] by (simp add: touched_arrays_def)
  also have "\<dots> = prepend (touched_arrays ls) (fold touch_line (l # ls') chk_start)"
    by (rule fold_touch_prepend)
  finally show ?thesis
    by (simp add: touched_arrays_def checksum_simps)
qed

text \<open>C17: as long as the tokenizer worker is there, the verdict is decided by the arrays that moved, by
  rank: disabled, emptied, an entry removed, changed, and unchanged only when none moved.\<close>

theorem verdict_by_rank:
  "worker (readable_lines d) \<noteq> Tokenizer_Unavailable \<Longrightarrow>
   \<exists>st1. detect_checksum_changes worker st d =
       Some (ranked_verdict (array_text worker d) (filter array_moved (touched_checksum_arrays d)), st1)
     \<and> (worker (readable_lines d) \<noteq> Other_Failure \<longrightarrow> st1 = st)
     \<and> (worker (readable_lines d) = Other_Failure \<and>
          (\<exists>a \<in> set (filter array_moved (touched_checksum_arrays d)). CHR ''$'' \<in> set (ca_added_text a)) \<and>
          \<not> (\<exists>a \<in> set (filter array_moved (touched_checksum_arrays d)). array_disabled (array_text worker d a)) \<longrightarrow>
          st1 = note_stage_failure ''checksum-resolution'' st)"
  using judge_verdict [of worker d "\<lparr>cf_seen = False, cf_emptied = False, cf_entry_removed = False\<rparr>" st
      "touched_checksum_arrays d"]
  by (simp only: detect_checksum_changes_def ranked_as_flags chk_flags.simps simp_thms) blast

section \<open>Comments in an array\<close>

text \<open>A comment ends the reading of the whole array, not of its line.\<close>

lemma comment_ends_scan:
  "SQ \<notin> set s \<Longrightarrow> DQ \<notin> set s \<Longrightarrow> CHR ''#'' \<notin> set s \<Longrightarrow>
   scan_items sep cur None (s @ CHR ''#'' # rest) =
     (if sep (CHR ''#'') then scan_items sep cur None s @ scan_items sep [] None rest
      else scan_items sep cur None s)"
  by (induction s arbitrary: cur) auto

lemma comment_hides_rest:
  "SQ \<notin> set s \<Longrightarrow> DQ \<notin> set s \<Longrightarrow> CHR ''#'' \<notin> set s \<Longrightarrow>
   checksum_items (s @ CHR ''#'' # rest) = checksum_items s"
  by (simp add: checksum_items_def comment_ends_scan checksum_sep_def py_isspace_def)

definition hunk_text :: "string list \<Rightarrow> string" where
  "hunk_text ls = py_join [NL] ([''--- a/PKGBUILD'', ''+++ b/PKGBUILD'', ''@@ -1,4 +1,4 @@''] @ ls) @ [NL]"

definition hunk_doc :: "string list \<Rightarrow> diff_doc" where
  "hunk_doc ls = the (parse_diff (hunk_text ls))"

lemma comment_hides_skip:
  "detect_checksum_changes (\<lambda>_. Answer []) (Some [])
     (hunk_doc ['' sha256sums=('', ''-  0123456789abcdef # main'', ''-  fedcba9876543210'',
        ''+ 0123456789abcdef # main'', ''+  SKIP'', '' )'']) = Some (UNCHANGED, Some [])
   \<and> detect_checksum_changes (\<lambda>_. Answer []) (Some [])
     (hunk_doc ['' sha256sums=('', ''-  0123456789abcdef'', ''-  fedcba9876543210'',
        ''+ 0123456789abcdef'', ''+  SKIP'', '' )'']) = Some (CHANGED, Some [])"
  by code_simp

lemma comment_digest_masks_skip:
  "detect_checksum_changes (\<lambda>_. Answer []) (Some [])
     (hunk_doc [''-sha256sums=(0123456789abcdef)'', ''+sha256sums=(SKIP) # 0123456789abcdef'']) = Some (CHANGED, Some [])
   \<and> detect_checksum_changes (\<lambda>_. Answer []) (Some [])
     (hunk_doc [''-sha256sums=(0123456789abcdef)'', ''+sha256sums=(SKIP)'']) = Some (SKIPPED, Some [])"
  by code_simp

lemma arch_array_removal_unseen:
  "\<not> detect_checksum_removed (hunk_doc [''-sha256sums_x86_64=(0123456789abcdef)''])
   \<and> detect_checksum_removed (hunk_doc [''-sha256sums=(0123456789abcdef)''])"
  by code_simp

lemma arch_sources_against_plain_sums:
  "checksum_array_parity (hunk_doc [''+source_x86_64=(a b)'', ''+sha256sums_x86_64=(1 2)'',
     ''+source=(c)'', ''+sha256sums=(3)'']) = Some (2, 1, ''sha256sums'')"
  by code_simp

lemma verdict_by_rank_witness:
  "detect_checksum_changes (\<lambda>_. Answer [(''_c'', Some ''SKIP'')]) None
     (hunk_doc [''-sha256sums=(0123456789abcdef)'', ''+sha256sums=(${_c})'']) = Some (SKIPPED, None)"
proof -
  let ?w = "\<lambda>_. Answer [(''_c'', Some ''SKIP'')]"
  let ?d = "hunk_doc [''-sha256sums=(0123456789abcdef)'', ''+sha256sums=(${_c})'']"
  have "ranked_verdict (array_text ?w ?d) (filter array_moved (touched_checksum_arrays ?d)) = SKIPPED"
    by code_simp
  with verdict_by_rank [where worker = ?w and d = ?d and st = None] show ?thesis
    by simp
qed

definition boundary_line :: diff_line where
  "boundary_line = \<lparr>dl_index = 5, dl_side = Add, dl_content = ''md5sums=(b)'', dl_raw = ''+md5sums=(b)'',
     dl_file = ''x'', dl_old_lineno = None, dl_new_lineno = Some 1, dl_in_hunk = True,
     dl_file_boundary = True, dl_hunk_boundary = False\<rparr>"

lemma files_independent_witness:
  "map ca_var (touched_arrays ([boundary_line\<lparr>dl_content := ''b2sums=(a''\<rparr>] @ boundary_line # []))
     = [''b2sums'', ''md5sums'']"
proof -
  have "dl_file_boundary boundary_line" by (simp add: boundary_line_def)
  from files_independent [OF this, where ls = "[boundary_line\<lparr>dl_content := ''b2sums=(a''\<rparr>]" and ls' = "[]"]
  have "map ca_var (touched_arrays ([boundary_line\<lparr>dl_content := ''b2sums=(a''\<rparr>] @ boundary_line # []))
      = map ca_var (touched_arrays [boundary_line\<lparr>dl_content := ''b2sums=(a''\<rparr>])
        @ map ca_var (touched_arrays [boundary_line])" by simp
  moreover have "map ca_var (touched_arrays [boundary_line\<lparr>dl_content := ''b2sums=(a''\<rparr>]) = [''b2sums'']"
    "map ca_var (touched_arrays [boundary_line]) = [''md5sums'']" by code_simp+
  ultimately show ?thesis by simp
qed

lemma comment_hides_source:
  "checksum_array_parity_in_text (''source=(a # first'' @ [NL] @ ''  b)'' @ [NL] @ ''sha256sums=(1)'') = None
   \<and> checksum_array_parity_in_text (''source=(a'' @ [NL] @ ''  b)'' @ [NL] @ ''sha256sums=(1)'')
       = Some (2, 1, ''sha256sums'')"
  by code_simp

section \<open>Only arrays that are wholly added are counted\<close>

definition header_like :: "diff_line \<Rightarrow> bool" where
  "header_like l = (py_startswith (dl_raw l) ''+++'' \<or> py_startswith (dl_raw l) ''---'')"

definition line_body :: "diff_line \<Rightarrow> string" where
  "line_body l = (if is_content l then dl_content l else dl_raw l)"

text \<open>The text of an array that opens on one line and goes on over others.\<close>

definition array_parts :: "diff_line \<Rightarrow> diff_line list \<Rightarrow> string list" where
  "array_parts l mid = drop (the_or_zero (py_find (line_body l) ''('')) (line_body l) #
     map line_body (filter (\<lambda>x. \<not> header_like x) mid)"

definition added_block :: "(string \<Rightarrow> nat option) \<Rightarrow> diff_line \<Rightarrow> diff_line list \<Rightarrow> bool" where
  "added_block m l mid = (\<not> header_like l \<and> dl_side l = Add \<and> m (line_body l) \<noteq> None \<and>
     list_all (\<lambda>x. header_like x \<or> dl_side x = Add) mid)"

definition shows_array :: "(string \<Rightarrow> nat option) \<Rightarrow> diff_line list \<Rightarrow> string list \<Rightarrow> bool" where
  "shows_array m ls items = (\<exists>pre l mid post. ls = pre @ l # mid @ post \<and> added_block m l mid \<and>
     quoted_items (''('' @ drop 1 (py_join [NL] (array_parts l mid))) = Some items)"

definition adder_inv :: "(string \<Rightarrow> nat option) \<Rightarrow> diff_line list \<Rightarrow> adder \<Rightarrow> bool" where
  "adder_inv m seen a = ((\<forall>items. ad_latest a = Some items \<longrightarrow> shows_array m seen items) \<and>
     (ad_collecting a \<noteq> None \<longrightarrow> (\<exists>pre l mid. seen = pre @ l # mid \<and> added_block m l mid \<and>
        ad_parts a = array_parts l mid)))"

lemma shows_more: "shows_array m ls items \<Longrightarrow> shows_array m (ls @ [x]) items"
  unfolding shows_array_def by (metis append.assoc append_Cons)

lemma shows_last:
  "added_block m l mid \<Longrightarrow> quoted_items (''('' @ drop 1 (py_join [NL] (array_parts l mid))) = Some items \<Longrightarrow>
   shows_array m (pre @ l # mid) items"
  unfolding shows_array_def by (metis append_Nil2)

lemma array_parts_snoc:
  "array_parts l (mid @ [x]) = array_parts l mid @ (if header_like x then [] else [line_body x])"
  by (simp add: array_parts_def)

lemma added_block_snoc:
  "added_block m l (mid @ [x]) \<longleftrightarrow> added_block m l mid \<and> (header_like x \<or> dl_side x = Add)"
  by (auto simp: added_block_def)

lemma adder_idle:
  "adder_inv m seen a \<Longrightarrow> ad_collecting a = None \<Longrightarrow> adder_inv m (seen @ [x]) a"
  by (auto simp: adder_inv_def intro: shows_more)

lemma adder_skip: "adder_inv m seen a \<Longrightarrow> header_like x \<Longrightarrow> adder_inv m (seen @ [x]) a"
  by (fastforce simp: adder_inv_def array_parts_snoc added_block_snoc intro: shows_more)

lemma adder_opened:
  assumes "adder_inv m seen a" "ad_collecting a = None" "\<not> header_like x" "dl_side x = Add"
    "m (line_body x) \<noteq> None"
  shows "adder_inv m (seen @ [x]) (opened (line_body x) a)"
proof -
  have block: "added_block m x []" using assms by (simp add: added_block_def)
  have parts: "array_parts x [] = [drop (the_or_zero (py_find (line_body x) ''('')) (line_body x)]"
    by (simp add: array_parts_def)
  have latest: "ad_latest a = Some items \<Longrightarrow> shows_array m (seen @ [x]) items" for items
    using assms(1) by (auto simp: adder_inv_def intro: shows_more)
  have grown: "\<exists>p k n. seen @ [x] = p @ k # n \<and> added_block m k n \<and>
      [drop (the_or_zero (py_find (line_body x) ''('')) (line_body x)] = array_parts k n"
    using block parts by (intro exI [of _ seen] exI [of _ x] exI [of _ "[]"]) simp
  show ?thesis
    using shows_last [OF block, of _ seen] parts latest grown
    by (auto simp: adder_inv_def opened_def Let_def)
qed

lemma adder_continued:
  assumes "adder_inv m seen a" "ad_collecting a \<noteq> None" "\<not> header_like x" "dl_side x = Add"
  shows "adder_inv m (seen @ [x]) (continued (line_body x) a)"
proof -
  obtain pre l mid where seen: "seen = pre @ l # mid" and block: "added_block m l mid"
    and parts: "ad_parts a = array_parts l mid"
    using assms(1,2) by (auto simp: adder_inv_def)
  have block': "added_block m l (mid @ [x])" using block assms(4) by (simp add: added_block_snoc)
  have parts': "ad_parts a @ [line_body x] = array_parts l (mid @ [x])"
    using parts assms(3) by (simp add: array_parts_snoc)
  have latest: "ad_latest a = Some items \<Longrightarrow> shows_array m (seen @ [x]) items" for items
    using assms(1) by (auto simp: adder_inv_def intro: shows_more)
  have last: "quoted_items (''('' @ drop 1 (py_join [NL] (ad_parts a @ [line_body x]))) = Some items \<Longrightarrow>
      shows_array m (seen @ [x]) items" for items
    using shows_last [OF block', of items pre] parts' seen by simp
  have grown: "\<exists>p k n. seen @ [x] = p @ k # n \<and> added_block m k n \<and> ad_parts a @ [line_body x] = array_parts k n"
    using block' parts' seen by (intro exI [of _ pre] exI [of _ l] exI [of _ "mid @ [x]"]) simp
  show ?thesis
    using latest last grown by (auto simp: adder_inv_def continued_def Let_def)
qed

lemma added_array_shown:
  "adder_inv m seen a \<Longrightarrow> added_array_items_from m a ls = Some items \<Longrightarrow> shows_array m (seen @ ls) items"
proof (induction ls arbitrary: seen a)
  case Nil
  then show ?case by (simp add: adder_inv_def)
next
  case (Cons x ls)
  have dropped: "adder_inv m (seen @ [x]) (a\<lparr>ad_collecting := None, ad_parts := []\<rparr>)"
    using Cons.prems(1) by (auto simp: adder_inv_def intro: shows_more)
  have go: "shows_array m (seen @ x # ls) items"
    if "adder_inv m (seen @ [x]) a'" "added_array_items_from m a' ls = Some items" for a'
    using Cons.IH [OF that] by simp
  note fold_names = Let_def header_like_def [symmetric] line_body_def [symmetric]
  show ?case
  proof (cases "header_like x")
    case True
    then have "added_array_items_from m a ls = Some items"
      using Cons.prems(2) by (simp add: fold_names)
    then show ?thesis by (rule go [OF adder_skip [OF Cons.prems(1) True]])
  next
    case False
    show ?thesis
    proof (cases "ad_collecting a = None")
      case True
      then have "added_array_items_from m
          (if dl_side x = Add \<and> m (line_body x) \<noteq> None then opened (line_body x) a else a) ls = Some items"
        using False Cons.prems(2) by (simp add: fold_names)
      moreover have "adder_inv m (seen @ [x])
          (if dl_side x = Add \<and> m (line_body x) \<noteq> None then opened (line_body x) a else a)"
        using adder_opened [OF Cons.prems(1) True False] adder_idle [OF Cons.prems(1) True, of x]
        by presburger
      ultimately show ?thesis using go by blast
    next
      case False
      show ?thesis
      proof (cases "dl_side x = Add")
        case True
        then have "added_array_items_from m (continued (line_body x) a) ls = Some items"
          using False \<open>\<not> header_like x\<close> Cons.prems(2) by (simp add: fold_names split: if_splits)
        then show ?thesis
          using go adder_continued [OF Cons.prems(1) False \<open>\<not> header_like x\<close> True] by blast
      next
        case other: False
        then have "added_array_items_from m (a\<lparr>ad_collecting := None, ad_parts := []\<rparr>) ls = Some items"
          using False \<open>\<not> header_like x\<close> Cons.prems(2) by (simp add: fold_names split: if_splits)
        then show ?thesis using go dropped by blast
      qed
    qed
  qed
qed

text \<open>C28: the lengths of the source and checksum arrays are compared only where the diff shows both
  arrays whole: each opens on an added line and continues through added lines alone to its close, and
  the reported array is shorter.\<close>

theorem parity_reads_whole_arrays:
  "checksum_array_parity d = Some (n, k, var) \<Longrightarrow>
   k < n \<and> var \<in> set CHECKSUM_VAR_NAMES \<and>
   (\<exists>sources sums. n = length sources \<and> k = length sums \<and>
      shows_array source_start (dd_lines d) sources \<and>
      shows_array (sums_start var) (dd_lines d) sums)"
proof -
  assume p: "checksum_array_parity d = Some (n, k, var)"
  have start: "adder_inv m [] \<lparr>ad_latest = None, ad_wanted = None, ad_collecting = None, ad_parts = []\<rparr>" for m
    by (simp add: adder_inv_def)
  have shown: "shows_array m (dd_lines d) items"
    if "added_array_items d m = Some items" for m items
    using added_array_shown [OF start that [unfolded added_array_items_def]] by simp
  obtain sources where src: "added_array_items d source_start = Some sources"
    and sh: "short_array (added_array_items d) (length sources) CHECKSUM_VAR_NAMES = Some (n, k, var)"
    using p by (auto simp: checksum_array_parity_def split: option.splits)
  have found: "short_array f c vars = Some (n, k, var) \<Longrightarrow>
      n = c \<and> var \<in> set vars \<and> (\<exists>sums. f (sums_start var) = Some sums \<and> k = length sums \<and> k < n)"
    for f :: "(string \<Rightarrow> nat option) \<Rightarrow> string list option" and c vars
    by (induction vars) (auto split: option.splits if_splits)
  from found [OF sh] src shown show ?thesis by blast
qed

lemma parity_reads_whole_arrays_witness:
  "\<exists>sources. length sources = 2 \<and>
     shows_array source_start (dd_lines (hunk_doc [''+source=(a'', ''+ b)'', ''+sha256sums=(1)''])) sources"
proof -
  have "checksum_array_parity (hunk_doc [''+source=(a'', ''+ b)'', ''+sha256sums=(1)''])
      = Some (2, 1, ''sha256sums'')" by code_simp
  from parity_reads_whole_arrays [OF this] show ?thesis by metis
qed

end
