(* ===== verification/Relatedness.thy ===== *)
theory Relatedness
  imports TS_Prelude "HOL-Library.Char_ord" "HOL-Library.List_Lexorder"
begin

text \<open>
  Which package names belong together: the relation of two names (\<^verbatim>\<open>is_related_package\<close>, \<^verbatim>\<open>_package_stem\<close>
  of \<^verbatim>\<open>deps.py\<close>) and the union-find pass that asks whether a set of names is one family
  (\<^verbatim>\<open>_one_related_cluster\<close> of \<^verbatim>\<open>analysis/correlation.py\<close>).  The naming settings are arguments.  The search
  for a root shortens the paths it walks and is a partial function; the lemmas show that it always
  returns and that the pass decides connectedness.
\<close>

section \<open>Two names of one project\<close>

definition cut_suffix :: "string \<Rightarrow> string \<Rightarrow> string" where
  "cut_suffix s x = (if x = [] then [] else take (length s - length x) s)"

fun strip_pass :: "string list \<Rightarrow> string \<Rightarrow> string \<times> bool" where
  "strip_pass [] s = (s, False)"
| "strip_pass (x # xs) s =
     (if py_endswith s x \<and> length x < length s then (fst (strip_pass xs (cut_suffix s x)), True)
      else strip_pass xs s)"

lemma strip_pass_shorter:
  "length (fst (strip_pass xs s)) \<le> length s \<and> (snd (strip_pass xs s) \<longrightarrow> length (fst (strip_pass xs s)) < length s)"
proof (induction xs s rule: strip_pass.induct)
  case (2 x xs s)
  show ?case
  proof (cases "py_endswith s x \<and> length x < length s")
    case True
    then have "length (cut_suffix s x) < length s" by (cases x) (auto simp: cut_suffix_def)
    with 2(1) True show ?thesis by auto
  next
    case False
    with 2(2) show ?thesis by auto
  qed
qed simp

function stem_from :: "string list \<Rightarrow> string \<Rightarrow> string" where
  "stem_from variants stem =
     (if snd (strip_pass variants stem) then stem_from variants (fst (strip_pass variants stem)) else stem)"
  by auto
termination by (relation "measure (\<lambda>(xs, s). length s)") (use strip_pass_shorter in auto)

declare stem_from.simps [simp del]

definition package_stem :: "string list \<Rightarrow> string \<Rightarrow> string" where
  "package_stem variants pkgbase = stem_from variants (py_lower pkgbase)"

definition is_related_package :: "string list \<Rightarrow> string list \<Rightarrow> string \<Rightarrow> string \<Rightarrow> bool" where
  "is_related_package variants ecosystem name pkgbase =
     (if pkgbase = [] \<or> name = [] then False
      else (let stem = package_stem variants pkgbase; other = package_stem variants name in
        if stem = [] \<or> other = [] then False
        else if py_startswith stem other \<or> py_startswith other stem then True
        else (let head = hd (py_split (CHR ''-'') stem) in
          head = hd (py_split (CHR ''-'') other) \<and> head \<notin> set ecosystem \<and> 3 \<le> length head)))"

lemma is_related_sym: "is_related_package xs es a b = is_related_package xs es b a"
  by (auto simp: is_related_package_def Let_def)

section \<open>One family of names\<close>

definition MAX_RELATEDNESS_MEMBERS :: nat where "MAX_RELATEDNESS_MEMBERS = 64"

type_synonym parents = "string \<Rightarrow> string"

text \<open>\<^verbatim>\<open>find\<close>: every second node on the path is hung onto its grandparent.\<close>

partial_function (option) find_root :: "parents \<Rightarrow> string \<Rightarrow> (string \<times> parents) option" where
  "find_root p x =
     (if p x = x then Some (x, p)
      else find_root (p(x := p (p x))) (p (p x)))"

fun unite_row :: "(string \<Rightarrow> string \<Rightarrow> bool) \<Rightarrow> string \<Rightarrow> string list \<Rightarrow> parents \<Rightarrow> parents option" where
  "unite_row related a [] p = Some p"
| "unite_row related a (b # bs) p =
     (if related a b
      then (case find_root p b of None \<Rightarrow> None
            | Some (rb, p1) \<Rightarrow>
                (case find_root p1 a of None \<Rightarrow> None
                 | Some (ra, p2) \<Rightarrow> unite_row related a bs (p2(ra := rb))))
      else unite_row related a bs p)"

fun unite_rows :: "(string \<Rightarrow> string \<Rightarrow> bool) \<Rightarrow> string list \<Rightarrow> parents \<Rightarrow> parents option" where
  "unite_rows related [] p = Some p"
| "unite_rows related (a # as) p =
     (case unite_row related a as p of None \<Rightarrow> None | Some p1 \<Rightarrow> unite_rows related as p1)"

fun find_roots :: "string list \<Rightarrow> parents \<Rightarrow> string list option" where
  "find_roots [] p = Some []"
| "find_roots (x # xs) p =
     (case find_root p x of None \<Rightarrow> None
      | Some (r, p1) \<Rightarrow> map_option ((#) r) (find_roots xs p1))"

definition one_related_cluster :: "(string \<Rightarrow> string \<Rightarrow> bool) \<Rightarrow> string list \<Rightarrow> bool option" where
  "one_related_cluster related members =
     (let names = sort members in
      if MAX_RELATEDNESS_MEMBERS < length names then Some False
      else (case unite_rows related names (\<lambda>x. x) of None \<Rightarrow> None
            | Some p \<Rightarrow> (case find_roots names p of None \<Rightarrow> None
                | Some rs \<Rightarrow> Some (length (remdups rs) = 1))))"

section \<open>The search returns the root\<close>

text \<open>\<open>R\<close> gives the root of every node; \<open>r\<close> orders parents before children.\<close>

definition forest :: "parents \<Rightarrow> (string \<Rightarrow> string) \<Rightarrow> bool" where
  "forest p R = ((\<exists>r. wf r \<and> trans r \<and> (\<forall>x. p x \<noteq> x \<longrightarrow> (p x, x) \<in> r)) \<and>
     (\<forall>x. R x = (if p x = x then x else R (p x))))"

lemma find_root_ordered:
  assumes "wf r" "trans r"
  shows "(\<forall>y. p y \<noteq> y \<longrightarrow> (p y, y) \<in> r) \<Longrightarrow> (\<forall>y. R y = (if p y = y then y else R (p y))) \<Longrightarrow>
    \<exists>p'. find_root p x = Some (R x, p') \<and> (\<forall>y. p' y \<noteq> y \<longrightarrow> (p' y, y) \<in> r) \<and>
      (\<forall>y. R y = (if p' y = y then y else R (p' y))) \<and> p' (R x) = R x"
  using assms(1)
proof (induction x arbitrary: p rule: wf_induct_rule)
  case (less x)
  show ?case
  proof (cases "p x = x")
    case True
    with less.prems show ?thesis by (subst find_root.simps) auto
  next
    case False
    let ?q = "p(x := p (p x))"
    have up: "(p x, x) \<in> r" using False less.prems(1) by blast
    have y: "(p (p x), x) \<in> r"
      using up less.prems(1) assms(2) by (metis transD)
    have irrefl: "(x, x) \<notin> r" using assms(1) by auto
    have ord: "\<forall>z. ?q z \<noteq> z \<longrightarrow> (?q z, z) \<in> r" using less.prems(1) y by auto
    have Rx: "R x = R (p (p x))" using False less.prems(2) by metis
    have root: "\<forall>z. R z = (if ?q z = z then z else R (?q z))"
      using less.prems(2) Rx y irrefl by (metis fun_upd_apply)
    have step: "find_root p x = find_root ?q (p (p x))"
      using False by (subst find_root.simps) (simp only: if_False)
    show ?thesis unfolding step Rx by (rule less.IH [OF y ord root])
  qed
qed

lemma find_root_forest:
  assumes "forest p R"
  shows "\<exists>p'. find_root p x = Some (R x, p') \<and> forest p' R \<and> p' (R x) = R x"
proof -
  obtain r where "wf r" "trans r" "\<forall>y. p y \<noteq> y \<longrightarrow> (p y, y) \<in> r" "\<forall>y. R y = (if p y = y then y else R (p y))"
    using assms by (auto simp: forest_def)
  from find_root_ordered [OF this(1,2) this(3,4), of x] this(1,2) show ?thesis
    by (auto simp: forest_def)
qed

lemma forest_root: "forest p R \<Longrightarrow> p x = x \<Longrightarrow> R x = x"
  by (auto simp: forest_def)

lemma roots_stay: "forest p R \<Longrightarrow> R (R x) = R x"
  using find_root_forest [of p R x] forest_root by blast

lemma forest_unite:
  assumes f: "forest p R" and a: "p (R a) = R a" and b: "p (R b) = R b"
  shows "forest (p(R a := R b)) (\<lambda>y. if R y = R a then R b else R y)"
proof (cases "R a = R b")
  case True
  then have "p(R a := R b) = p" using a by (auto simp: fun_eq_iff)
  with True f show ?thesis by (auto simp: forest_def if_distrib cong: if_cong)
next
  case False
  let ?q = "p(R a := R b)" and ?E = "{(p x, x) | x. p x \<noteq> x}"
  have wfE: "wf ?E"
    using f unfolding forest_def by (elim conjE exE) (erule wf_subset, auto)
  have "(R a, R b) \<notin> ?E\<^sup>*"
  proof
    assume "(R a, R b) \<in> ?E\<^sup>*"
    then show False using False b by (cases rule: rtranclE) auto
  qed
  then have "wf (insert (R b, R a) ?E)" using wfE by (simp add: wf_insert)
  then have wft: "wf ((insert (R b, R a) ?E)\<^sup>+)" by (rule wf_trancl)
  have "\<forall>x. ?q x \<noteq> x \<longrightarrow> (?q x, x) \<in> (insert (R b, R a) ?E)\<^sup>+"
    by (auto intro!: r_into_trancl)
  moreover have "(if R y = R a then R b else R y) =
      (if ?q y = y then y else (if R (?q y) = R a then R b else R (?q y)))" for y
  proof (cases "y = R a")
    case True
    with False forest_root [OF f a] forest_root [OF f b] show ?thesis by simp
  next
    case other: False
    have "R y = (if p y = y then y else R (p y))" using f unfolding forest_def by blast
    with other show ?thesis by (cases "p y = y") simp_all
  qed
  ultimately show ?thesis
    unfolding forest_def using wft trans_trancl by blast
qed

section \<open>The pass decides connectedness\<close>

definition linked :: "(string \<times> string) set \<Rightarrow> (string \<times> string) set" where
  "linked S = (S \<union> S\<inverse>)\<^sup>*"

definition tracks :: "(string \<Rightarrow> string) \<Rightarrow> (string \<times> string) set \<Rightarrow> bool" where
  "tracks R S = (\<forall>x y. R x = R y \<longleftrightarrow> (x, y) \<in> linked S)"

lemma linked_insert:
  "(x, y) \<in> linked (insert (a, b) S) \<longleftrightarrow> (x, y) \<in> linked S \<or>
     (x, a) \<in> linked S \<and> (b, y) \<in> linked S \<or> (x, b) \<in> linked S \<and> (a, y) \<in> linked S"
proof -
  have eq: "insert (a, b) S \<union> (insert (a, b) S)\<inverse> = insert (b, a) (insert (a, b) (S \<union> S\<inverse>))" by auto
  have sym: "(u, v) \<in> (S \<union> S\<inverse>)\<^sup>* \<Longrightarrow> (v, u) \<in> (S \<union> S\<inverse>)\<^sup>*" for u v
    by (meson sym_Un_converse sym_rtrancl symD)
  show ?thesis
    unfolding linked_def eq by (auto simp: rtrancl_insert intro: rtrancl_trans sym)
qed

lemma linked_mono: "S \<subseteq> T \<Longrightarrow> linked S \<subseteq> linked T"
  unfolding linked_def by (intro rtrancl_mono) auto

lemma tracks_unite:
  assumes "tracks R S"
  shows "tracks (\<lambda>y. if R y = R a then R b else R y) (insert (a, b) S)"
  unfolding tracks_def linked_insert using assms unfolding tracks_def by metis

lemma forest_rooted: "forest p R \<Longrightarrow> p (R x) = R x"
proof -
  assume f: "forest p R"
  then obtain r where "wf r" and up: "\<And>x. p x \<noteq> x \<Longrightarrow> (p x, x) \<in> r" by (auto simp: forest_def)
  have eq: "R x = (if p x = x then x else R (p x))" for x using f unfolding forest_def by blast
  from \<open>wf r\<close> show ?thesis
  proof (induction x rule: wf_induct_rule)
    case (less x)
    show ?case
    proof (cases "p x = x")
      case True
      with eq [of x] show ?thesis by simp
    next
      case False
      with less [OF up] eq [of x] show ?thesis by simp
    qed
  qed
qed

lemma unite_row_tracks:
  "forest p R \<Longrightarrow> tracks R S \<Longrightarrow>
   \<exists>p' R'. unite_row related a bs p = Some p' \<and> forest p' R' \<and>
     tracks R' (S \<union> {(a, b) | b. b \<in> set bs \<and> related a b})"
proof (induction bs arbitrary: p R S)
  case Nil
  then show ?case by auto
next
  case (Cons b bs)
  show ?case
  proof (cases "related a b")
    case True
    obtain p1 where 1: "find_root p b = Some (R b, p1)" "forest p1 R"
      using find_root_forest [OF Cons.prems(1)] by blast
    obtain p2 where 2: "find_root p1 a = Some (R a, p2)" "forest p2 R"
      using find_root_forest [OF 1(2)] by blast
    let ?R = "\<lambda>y. if R y = R a then R b else R y"
    have "forest (p2(R a := R b)) ?R"
      by (rule forest_unite [OF 2(2) forest_rooted [OF 2(2)] forest_rooted [OF 2(2)]])
    from Cons.IH [OF this tracks_unite [OF Cons.prems(2)]] obtain p' R' where
      3: "unite_row related a bs (p2(R a := R b)) = Some p'" "forest p' R'"
        "tracks R' (insert (a, b) S \<union> {(a, c) | c. c \<in> set bs \<and> related a c})" by blast
    have eq: "insert (a, b) S \<union> {(a, c) | c. c \<in> set bs \<and> related a c} =
        S \<union> {(a, c) | c. c \<in> set (b # bs) \<and> related a c}" using True by auto
    have "unite_row related a (b # bs) p = Some p'" using 1(1) 2(1) 3(1) True by simp
    then show ?thesis using 3(2,3) unfolding eq by blast
  next
    case False
    have "S \<union> {(a, c) | c. c \<in> set (b # bs) \<and> related a c} = S \<union> {(a, c) | c. c \<in> set bs \<and> related a c}"
      using False by auto
    with Cons.IH [OF Cons.prems] False show ?thesis by simp
  qed
qed

fun later_pairs :: "(string \<Rightarrow> string \<Rightarrow> bool) \<Rightarrow> string list \<Rightarrow> (string \<times> string) set" where
  "later_pairs related [] = {}"
| "later_pairs related (a # as) = {(a, b) | b. b \<in> set as \<and> related a b} \<union> later_pairs related as"

lemma unite_rows_tracks:
  "forest p R \<Longrightarrow> tracks R S \<Longrightarrow>
   \<exists>p' R'. unite_rows related ns p = Some p' \<and> forest p' R' \<and> tracks R' (S \<union> later_pairs related ns)"
proof (induction ns arbitrary: p R S)
  case Nil
  then show ?case by auto
next
  case (Cons a as)
  obtain p1 R1 where 1: "unite_row related a as p = Some p1" "forest p1 R1"
    "tracks R1 (S \<union> {(a, b) | b. b \<in> set as \<and> related a b})"
    using unite_row_tracks [OF Cons.prems] by blast
  from Cons.IH [OF 1(2,3)] 1(1) show ?case by (simp add: Un_assoc)
qed

lemma find_roots_forest: "forest p R \<Longrightarrow> find_roots ns p = Some (map R ns)"
proof (induction ns arbitrary: p)
  case (Cons x xs)
  obtain p1 where "find_root p x = Some (R x, p1)" "forest p1 R"
    using find_root_forest [OF Cons.prems] by blast
  with Cons.IH show ?case by simp
qed simp

lemma later_pairs_linked:
  assumes "\<And>a b. related a b = related b a"
  shows "(x, y) \<in> linked (later_pairs related ns) \<longleftrightarrow>
    (x, y) \<in> {(a, b). a \<in> set ns \<and> b \<in> set ns \<and> related a b}\<^sup>*"
proof -
  let ?T = "{(a, b). a \<in> set ns \<and> b \<in> set ns \<and> related a b}"
  have sub: "later_pairs related ns \<subseteq> {(a, b). a \<in> set ns \<and> b \<in> set ns \<and> related a b}" for ns
    by (induction ns) auto
  have "{(a, b). a \<in> set ns \<and> b \<in> set ns \<and> related a b}
      \<subseteq> (later_pairs related ns \<union> (later_pairs related ns)\<inverse>)\<^sup>=" for ns
  proof (induction ns)
    case (Cons c cs)
    show ?case
    proof (rule subsetI)
      fix z
      assume "z \<in> {(a, b). a \<in> set (c # cs) \<and> b \<in> set (c # cs) \<and> related a b}"
      then obtain a b where z: "z = (a, b)" "a = c \<or> a \<in> set cs" "b = c \<or> b \<in> set cs" "related a b" by auto
      show "z \<in> (later_pairs related (c # cs) \<union> (later_pairs related (c # cs))\<inverse>)\<^sup>="
      proof (cases "a = c \<or> b = c")
        case True
        with z assms [of a b] show ?thesis by auto
      next
        case False
        with z have "(a, b) \<in> {(a, b). a \<in> set cs \<and> b \<in> set cs \<and> related a b}" by simp
        with Cons z(1) show ?thesis by auto
      qed
    qed
  qed simp
  then have "?T\<^sup>* \<subseteq> ((later_pairs related ns \<union> (later_pairs related ns)\<inverse>)\<^sup>=)\<^sup>*"
    by (rule rtrancl_mono)
  then have "?T\<^sup>* \<subseteq> linked (later_pairs related ns)"
    by (simp add: linked_def)
  moreover have "linked (later_pairs related ns) \<subseteq> ?T\<^sup>*"
    unfolding linked_def by (rule rtrancl_mono) (use sub assms in fastforce)
  ultimately show ?thesis by blast
qed

lemma cluster_decides:
  assumes "\<And>a b. related a b = related b a"
  shows "one_related_cluster related members = Some (members \<noteq> [] \<and>
    length members \<le> MAX_RELATEDNESS_MEMBERS \<and>
    set members \<times> set members \<subseteq> {(a, b). a \<in> set members \<and> b \<in> set members \<and> related a b}\<^sup>*)"
proof (cases "MAX_RELATEDNESS_MEMBERS < length members")
  case True
  then show ?thesis by (simp add: one_related_cluster_def)
next
  case False
  have id_forest: "forest (\<lambda>x. x) (\<lambda>x. x)"
    unfolding forest_def by (intro conjI exI [of _ "{}"]) (auto simp: trans_def)
  have id_tracks: "tracks (\<lambda>x. x) {}" by (simp add: tracks_def linked_def)
  obtain p R where p: "unite_rows related (sort members) (\<lambda>x. x) = Some p" "forest p R"
    "tracks R (later_pairs related (sort members))"
    using unite_rows_tracks [OF id_forest id_tracks, where related = related and ns = "sort members"] by auto
  have same: "R x = R y \<longleftrightarrow> (x, y) \<in> {(a, b). a \<in> set members \<and> b \<in> set members \<and> related a b}\<^sup>*" for x y
    using p(3) later_pairs_linked [of related x y "sort members", OF assms] by (simp add: tracks_def)
  have one: "length (remdups (map R ns)) = 1 \<longleftrightarrow> ns \<noteq> [] \<and> (\<forall>x \<in> set ns. \<forall>y \<in> set ns. R x = R y)" for ns
  proof -
    have len: "length (remdups (map R ns)) = card (R ` set ns)" by (simp add: length_remdups_card_conv)
    have le: "card (R ` set ns) \<le> Suc 0 \<longleftrightarrow> (\<forall>x \<in> set ns. \<forall>y \<in> set ns. R x = R y)"
      using card_le_Suc0_iff_eq [of "R ` set ns"] by simp
    have zero: "card (R ` set ns) = 0 \<longleftrightarrow> ns = []" by simp
    have "card (R ` set ns) = 1 \<longleftrightarrow> card (R ` set ns) \<noteq> 0 \<and> card (R ` set ns) \<le> Suc 0" by linarith
    then show ?thesis unfolding len le zero .
  qed
  have nil: "(sort members = []) = (members = [])" by (metis length_0_conv length_sort)
  have "one_related_cluster related members = Some (length (remdups (map R (sort members))) = 1)"
    using False p(1) find_roots_forest [OF p(2), of "sort members"] by (simp add: one_related_cluster_def)
  also have "\<dots> = Some (members \<noteq> [] \<and> (\<forall>x \<in> set members. \<forall>y \<in> set members. R x = R y))"
    using one [of "sort members"] by (simp only: set_sort nil)
  also have "(\<forall>x \<in> set members. \<forall>y \<in> set members. R x = R y) \<longleftrightarrow> set members \<times> set members \<subseteq>
      {(a, b). a \<in> set members \<and> b \<in> set members \<and> related a b}\<^sup>*"
    unfolding same by blast
  finally show ?thesis using False by simp
qed

text \<open>C12: a group of package names counts as one family exactly when it is not empty, not larger than
  the bound, and every two names are joined by a chain of related names of the group; the search for
  the roots always returns.\<close>

theorem cluster_is_connected:
  "one_related_cluster (is_related_package variants ecosystem) members = Some (members \<noteq> [] \<and>
     length members \<le> MAX_RELATEDNESS_MEMBERS \<and>
     set members \<times> set members \<subseteq>
       {(a, b). a \<in> set members \<and> b \<in> set members \<and> is_related_package variants ecosystem a b}\<^sup>*)"
  by (rule cluster_decides) (rule is_related_sym)

declare find_root.simps [code]

text \<open>One name that begins every other one makes a family of names that have nothing else in common.\<close>

lemma short_name_bridges:
  "one_related_cluster (is_related_package [''-bin'', ''-git''] [''python'']) [''mutt'', ''mpv'', ''mesa''] = Some False
   \<and> one_related_cluster (is_related_package [''-bin'', ''-git''] [''python'']) [''mutt'', ''mpv'', ''mesa'', ''m''] = Some True"
  by code_simp

end
