(* ===== verification/Correlation.thy ===== *)
theory Correlation
  imports Relatedness Override Scoring "HOL-Library.Product_Lexorder"
begin

text \<open>
  The correlation of one cycle's analyses (\<^verbatim>\<open>analysis/correlation.py\<close>): the joins G001 to G005, G008, G009
  and G011 to G014 over the records of the packages a sweep processed, and \<open>correlate\<close>, which runs them.
  The bucket of a URL, the canonical spelling of a payload URL, the clock, the maintainer timeline, the
  parsed watchlist file, the imported watchlist rows, the salt and the naming settings are arguments (the
  record \<open>corr_env\<close>), with \<open>None\<close> where reading raises; the fields of a record have the types its writer gives
  them, and the length of a literal is that of a string.  A configuration is a parsed value as in \<open>Override\<close>.
  The errors are those the code lets through: a threshold section read without a guard that is no table, an
  integer of days past the largest double, a watchlist whose entries cannot be walked, a salt that cannot be read.
\<close>

section \<open>Records and settings\<close>

record corr_record =
  cr_package :: string
  cr_pkgbase :: string
  cr_hosts :: "string list"
  cr_literals :: "(string \<times> int) list"
  cr_upstream :: "(string \<times> string) list"
  cr_maintainer :: string
  cr_adoption :: bool
  cr_predicates :: "string list"
  cr_repos :: "string list"
  cr_target :: string
  cr_modified :: "rat option"
  cr_observed :: string
  cr_rules :: "string list"
  cr_urls :: "string list"

record corr_env =
  ce_variants :: "string list"
  ce_ecosystem :: "string list"
  ce_classify :: "string \<Rightarrow> string option"
  ce_payload_url :: "string \<Rightarrow> string"
  ce_now :: rat
  ce_first_seen :: "string \<Rightarrow> rat option"
  ce_parse_ts :: "string \<Rightarrow> rat option"
  ce_file :: "string option \<Rightarrow> (string \<times> json) list option"
  ce_text :: "json \<Rightarrow> string"
  ce_release_maintainers :: "string dict"
  ce_release_packages :: "string dict"
  ce_salted :: "(string \<Rightarrow> string) option option"
  ce_float :: "string \<Rightarrow> rat option"

type_synonym config = "(string \<times> json) list"

datatype corr_error = Not_A_Table string | Overflow_Error | Watchlist_Raises | Salt_Raises

text \<open>\<^verbatim>\<open>int(value)\<close>: nothing where it raises.\<close>

fun json_int :: "json \<Rightarrow> int option" where
  "json_int (JBool b) = Some (if b then 1 else 0)"
| "json_int (JInt i) = Some i"
| "json_int (JFloat r) = map_option (\<lambda>q. if q \<ge> 0 then \<lfloor>q\<rfloor> else \<lceil>q\<rceil>) r"
| "json_int (JStr s) = clock_int s"
| "json_int _ = None"

definition safe_int :: "json \<Rightarrow> int \<Rightarrow> int" where
  "safe_int v d = (case json_int v of None \<Rightarrow> d | Some i \<Rightarrow> i)"

definition maintainer_key :: "string \<Rightarrow> string" where
  "maintainer_key m = py_lower (py_strip m)"

definition section_of :: "json \<Rightarrow> config" where
  "section_of v = (case v of JObj d \<Rightarrow> d | _ \<Rightarrow> [])"

definition thresholds :: "config \<Rightarrow> config" where
  "thresholds cfg = section_of (dict_get cfg ''thresholds'' (JObj []))"

definition guarded :: "config \<Rightarrow> string \<Rightarrow> config" where
  "guarded cfg k = section_of (dict_get (thresholds cfg) k (JObj []))"

text \<open>A section read without \<^verbatim>\<open>_section\<close>: the first access raises when it is no table.\<close>

definition unguarded :: "config \<Rightarrow> string \<Rightarrow> corr_error + config" where
  "unguarded cfg k =
     (case dict_get (thresholds cfg) k (JObj []) of JObj d \<Rightarrow> Inr d | _ \<Rightarrow> Inl (Not_A_Table k))"

definition setting :: "int \<Rightarrow> config \<Rightarrow> string \<Rightarrow> int \<Rightarrow> int" where
  "setting lo d k deflt = max lo (safe_int (dict_get d k (JInt deflt)) deflt)"

text \<open>
  A number as a double: rounded to 53 bits, an error from the largest double and half a step on.  \<open>ago\<close> is
  \<^verbatim>\<open>now - n * 86400\<close>, a double and an integer.
\<close>

definition dbl_rat :: "dbl \<Rightarrow> rat" where "dbl_rat d = of_nat (fst d) / 2 ^ snd d"

definition rounded :: "rat \<Rightarrow> rat" where
  "rounded q = (let (a, b) = quotient_of q; r = dbl_rat (round53 (nat \<bar>a\<bar>) (nat b)) in if a < 0 then - r else r)"

definition past_float :: "rat \<Rightarrow> bool" where
  "past_float q \<longleftrightarrow> 2 ^ 1024 - 2 ^ 970 \<le> \<bar>q\<bar>"

definition as_float :: "rat \<Rightarrow> corr_error + rat" where
  "as_float q = (if past_float q then Inl Overflow_Error else Inr (rounded q))"

definition ago :: "corr_env \<Rightarrow> int \<Rightarrow> corr_error + rat" where
  "ago env n = (case as_float (of_int (n * 86400)) of Inl e \<Rightarrow> Inl e | Inr s \<Rightarrow> Inr (rounded (ce_now env - s)))"

section \<open>Clusters\<close>

datatype pval = PStr string | PInt int | PBool bool | PList "string list"

record cluster_finding =
  cl_rule :: string
  cl_name :: string
  cl_severity :: string
  cl_category :: string
  cl_match :: string
  cl_params :: "pval dict"

definition mk_cluster :: "string \<Rightarrow> string \<Rightarrow> string \<Rightarrow> string \<Rightarrow> pval dict \<Rightarrow> cluster_finding" where
  "mk_cluster rid name sev m params = \<lparr>cl_rule = rid, cl_name = name, cl_severity = sev,
     cl_category = ''correlation'', cl_match = m, cl_params = params\<rparr>"

text \<open>Packages grouped under a key, as nested dictionaries: the last record of a package stands.\<close>

fun put :: "'k \<Rightarrow> string \<Rightarrow> 'v \<Rightarrow> ('k \<times> 'v dict) list \<Rightarrow> ('k \<times> 'v dict) list" where
  "put k p v [] = [(k, [(p, v)])]"
| "put k p v ((k', d) # g) = (if k' = k then (k', dict_set d p v) # g else (k', d) # put k p v g)"

definition grouped :: "('v \<Rightarrow> 'k list) \<Rightarrow> ('v \<Rightarrow> string) \<Rightarrow> 'v list \<Rightarrow> ('k \<times> 'v dict) list" where
  "grouped keys pkg rs = fold (\<lambda>r g. fold (\<lambda>k. put k (pkg r) r) (keys r) g) rs []"

definition one_project :: "corr_record list \<Rightarrow> bool" where
  "one_project rs = (rs \<noteq> [] \<and> length (remdups (filter (\<lambda>b. b \<noteq> []) (map cr_pkgbase rs))) = 1 \<and>
     list_all (\<lambda>r. cr_pkgbase r \<noteq> []) rs)"

text \<open>One family by the naming pass; \<open>cluster_is_connected\<close> shows that it always answers.\<close>

definition one_family :: "corr_env \<Rightarrow> string list \<Rightarrow> bool" where
  "one_family env names =
     (one_related_cluster (is_related_package (ce_variants env) (ce_ecosystem env)) names = Some True)"

definition count_text :: "'a list \<Rightarrow> string" where "count_text xs = show_nat (length xs)"

definition members_param :: "string list \<Rightarrow> string \<times> pval" where
  "members_param ms = (''members'', PList (sort ms))"

section \<open>G001: a gained host\<close>

function shrink :: "string \<Rightarrow> string \<Rightarrow> string" where
  "shrink p name = (if p = [] \<or> py_startswith name p then p else shrink (butlast p) name)"
  by auto
termination by (relation "measure (\<lambda>(p, n). length p)") auto

declare shrink.simps [simp del]

definition one_name_family :: "string list \<Rightarrow> bool" where
  "one_name_family members =
     (let names = sort members in
      if length names < 2 then False
      else (let p = fold (\<lambda>n p. shrink p n) (tl names) (hd names)
            in 8 \<le> length p \<and> py_endswith p ''-''))"

definition UBIQUITOUS_BUCKETS :: "string list" where "UBIQUITOUS_BUCKETS = [''trusted_forge'', ''official'']"

definition host_key :: "string \<Rightarrow> string" where
  "host_key h = (if h = [] then [] else canonical_host h)"

definition gained_keys :: "corr_record \<Rightarrow> string list" where
  "gained_keys r = filter (\<lambda>h. h \<noteq> []) (map host_key (cr_hosts r))"

definition accounts_of :: "corr_record list \<Rightarrow> string list" where
  "accounts_of rs = remdups (filter (\<lambda>m. m \<noteq> []) (map (maintainer_key \<circ> cr_maintainer) rs))"

definition bucket_of :: "corr_env \<Rightarrow> string \<Rightarrow> string" where
  "bucket_of env host = (case ce_classify env (''https://'' @ host) of None \<Rightarrow> ''unknown'' | Some b \<Rightarrow> b)"

definition host_stands :: "corr_env \<Rightarrow> int \<Rightarrow> int \<Rightarrow> string \<Rightarrow> corr_record dict \<Rightarrow> bool" where
  "host_stands env min_packages min_maintainers host members =
     (min_packages \<le> int (length members) \<and> \<not> one_project (map snd members) \<and>
      \<not> (let ms = accounts_of (map snd members) in
          ms \<noteq> [] \<and> int (length ms) < min_maintainers \<and> one_name_family (map fst members)) \<and>
      bucket_of env host \<notin> set UBIQUITOUS_BUCKETS)"

definition host_cluster :: "string \<Rightarrow> string list \<Rightarrow> cluster_finding" where
  "host_cluster host ms = mk_cluster ''G001'' ''Shared Gained Host'' ''HIGH''
     (''gained host '' @ host @ '' appears in '' @ count_text ms @ '' packages in the window'')
     [members_param ms, (''host'', PStr host)]"

definition shared_gained_host :: "corr_env \<Rightarrow> int \<Rightarrow> int \<Rightarrow> corr_record list \<Rightarrow> cluster_finding list" where
  "shared_gained_host env min_packages min_maintainers rs =
     map (\<lambda>(host, members). host_cluster host (map fst members))
       (filter (\<lambda>(host, members). host_stands env min_packages min_maintainers host members)
         (sort_key fst (grouped gained_keys cr_package rs)))"

section \<open>G002 and G004: an added literal, an upstream dependency\<close>

definition literal_token :: "string \<times> int \<Rightarrow> (string \<times> int) option" where
  "literal_token e = (if fst e \<noteq> [] \<and> 0 \<le> snd e then Some e else None)"

definition long_literals :: "int \<Rightarrow> corr_record \<Rightarrow> (string \<times> int) list" where
  "long_literals min_length r = filter (\<lambda>e. min_length \<le> snd e) (List.map_filter literal_token (cr_literals r))"

definition literal_length :: "int \<Rightarrow> corr_record list \<Rightarrow> string \<Rightarrow> int" where
  "literal_length min_length rs token =
     fold max (map snd (filter (\<lambda>e. fst e = token) (concat (map (long_literals min_length) rs)))) 0"

definition shared_added_literal :: "int \<Rightarrow> int \<Rightarrow> corr_record list \<Rightarrow> cluster_finding list" where
  "shared_added_literal min_packages min_length rs =
     map (\<lambda>(token, members). let n = literal_length min_length rs token; ms = map fst members in
         mk_cluster ''G002'' ''Shared Added Literal'' ''HIGH''
           (''an added literal of '' @ show_int n @ '' chars appears in '' @ count_text ms @ '' packages in the window'')
           [members_param ms, (''literal_length'', PInt n), (''literal_sha256'', PStr token)])
       (filter (\<lambda>(token, members). min_packages \<le> int (length members) \<and> \<not> one_project (map snd members))
         (grouped (\<lambda>r. map fst (long_literals min_length r)) cr_package rs))"

definition shared_upstream_dependency :: "int \<Rightarrow> corr_record list \<Rightarrow> cluster_finding list" where
  "shared_upstream_dependency min_packages rs =
     map (\<lambda>((name, host), members). let ms = map fst members in
         mk_cluster ''G004'' ''Shared Upstream Dependency'' ''HIGH''
           (''upstream dependency '' @ name @ (if host \<noteq> [] then '' from '' @ host else []) @
            '' appears in '' @ count_text ms @ '' packages in the window'')
           [members_param ms, (''dependency'', PStr name), (''host'', PStr host)])
       (filter (\<lambda>(dep, members). min_packages \<le> int (length members) \<and> \<not> one_project (map snd members))
         (sort_key fst (grouped (\<lambda>r. filter (\<lambda>e. fst e \<noteq> []) (cr_upstream r)) cr_package rs)))"

section \<open>G003: one maintainer's adoptions\<close>

definition adopters :: "corr_record list \<Rightarrow> string list" where
  "adopters rs = sort (remdups (filter (\<lambda>m. m \<noteq> [])
     (map (maintainer_key \<circ> cr_maintainer) (filter cr_adoption rs))))"

definition adopted_by :: "string \<Rightarrow> corr_record list \<Rightarrow> corr_record list" where
  "adopted_by m rs = filter (\<lambda>r. cr_adoption r \<and> maintainer_key (cr_maintainer r) = m) rs"

definition common_repo :: "string list list \<Rightarrow> bool" where
  "common_repo reposs = (list_all (\<lambda>rs. rs \<noteq> []) reposs \<and>
     (case reposs of [] \<Rightarrow> False | rs # rest \<Rightarrow> list_ex (\<lambda>x. list_all (\<lambda>s. x \<in> set s) rest) rs))"

definition dormant_times :: "rat \<Rightarrow> corr_record list \<Rightarrow> rat list" where
  "dormant_times cutoff rs =
     filter (\<lambda>t. t \<noteq> 0 \<and> t < cutoff) (List.map_filter cr_modified rs)"

definition adoption_cluster ::
    "corr_env \<Rightarrow> config \<Rightarrow> rat \<Rightarrow> rat \<Rightarrow> string \<Rightarrow> corr_record list \<Rightarrow> cluster_finding" where
  "adoption_cluster env g novel_cutoff dormant_cutoff m rows =
     (let members = remdups (map cr_package rows);
          dormant = length (dormant_times dormant_cutoff rows);
          novel = (case ce_first_seen env m of None \<Rightarrow> False | Some t \<Rightarrow> novel_cutoff \<le> t);
          escalated = (novel \<and> setting 0 g ''min_dormant'' 2 \<le> int dormant)
      in mk_cluster ''G003'' ''Coordinated Adoption'' (if escalated then ''HIGH'' else ''MEDIUM'')
           (''maintainer adopted '' @ count_text members @ '' unrelated packages in the window'' @
            (if escalated then '' (first-seen account, '' @ show_nat dormant @ '' dormant targets)'' else []))
           [members_param members, (''predicates'', PList (sort (remdups (concat (map cr_predicates rows))))),
            (''repos'', PList (sort (remdups (concat (map cr_repos rows))))), (''novel'', PBool novel),
            (''dormant_count'', PInt (int dormant))])"

definition adoption_stands :: "corr_env \<Rightarrow> int \<Rightarrow> corr_record list \<Rightarrow> bool" where
  "adoption_stands env min_members rows =
     (let members = remdups (map cr_package rows) in
      min_members \<le> int (length members) \<and> \<not> common_repo (map cr_repos rows) \<and> \<not> one_family env members)"

definition coordinated_adoption ::
    "corr_env \<Rightarrow> int \<Rightarrow> config \<Rightarrow> corr_record list \<Rightarrow> corr_error + cluster_finding list" where
  "coordinated_adoption env min_members cfg rs =
     (case unguarded cfg ''g003'' of Inl e \<Rightarrow> Inl e
      | Inr g \<Rightarrow>
      (case ago env (setting 0 g ''novel_days'' 30) of Inl e \<Rightarrow> Inl e
       | Inr novel_cutoff \<Rightarrow>
       (case ago env (setting 0 g ''dormant_days'' 180) of Inl e \<Rightarrow> Inl e
        | Inr dormant_cutoff \<Rightarrow>
            Inr (map (\<lambda>m. adoption_cluster env g novel_cutoff dormant_cutoff m (adopted_by m rs))
              (filter (\<lambda>m. adoption_stands env min_members (adopted_by m rs)) (adopters rs))))))"

section \<open>G005: clones of popular names\<close>

definition clones_of :: "corr_record list \<Rightarrow> string \<Rightarrow> corr_record list" where
  "clones_of rs m = filter (\<lambda>r. cr_target r \<noteq> [] \<and> maintainer_key (cr_maintainer r) = m) rs"

definition impersonation_campaign :: "int \<Rightarrow> corr_record list \<Rightarrow> cluster_finding list" where
  "impersonation_campaign min_members rs =
     map (\<lambda>m. let members = sort (remdups (map cr_package (clones_of rs m)));
                  targets = sort (remdups (map cr_target (clones_of rs m))) in
         mk_cluster ''G005'' ''Impersonation Campaign'' ''HIGH''
           (''maintainer '' @ m @ '' published '' @ count_text members @ '' name-clones of popular packages ('' @
            py_join '', '' (take 5 targets) @ '')'')
           [(''members'', PList members), (''maintainer'', PStr m), (''targets'', PList targets),
            (''count'', PInt (int (length members)))])
       (filter (\<lambda>m. min_members \<le> int (length (remdups (map cr_package (clones_of rs m)))))
         (sort (remdups (filter (\<lambda>m. m \<noteq> []) (map (maintainer_key \<circ> cr_maintainer)
            (filter (\<lambda>r. cr_target r \<noteq> []) rs))))))"

section \<open>G008: a first-seen account's burst\<close>

text \<open>One adoption event, into the dictionary of the packages and their last change (zero when unknown).\<close>

definition burst_event :: "corr_env \<Rightarrow> rat \<Rightarrow> corr_record \<Rightarrow> corr_error + rat dict \<Rightarrow> corr_error + rat dict" where
  "burst_event env window_start r acc =
     (case acc of Inl e \<Rightarrow> Inl e
      | Inr pkgs \<Rightarrow>
     (if cr_observed r = [] then Inr pkgs
      else (case ce_parse_ts env (cr_observed r) of None \<Rightarrow> Inr pkgs
        | Some t \<Rightarrow>
            (if t < window_start \<or> cr_package r = [] then Inr pkgs
             else (case cr_modified r of
                     Some lm \<Rightarrow> (case as_float lm of Inl e \<Rightarrow> Inl e
                       | Inr q \<Rightarrow> Inr (dict_set pkgs (cr_package r) q))
                   | None \<Rightarrow> if cr_package r \<in> fst ` set pkgs then Inr pkgs
                       else Inr (dict_set pkgs (cr_package r) 0))))))"

definition burst_cluster ::
    "corr_env \<Rightarrow> config \<Rightarrow> rat \<Rightarrow> rat \<Rightarrow> string \<Rightarrow> corr_record list \<Rightarrow> corr_error + cluster_finding option" where
  "burst_cluster env g window_start dormant_cutoff m events =
     (case ce_first_seen env m of None \<Rightarrow> Inr None
      | Some t \<Rightarrow>
          (if t < window_start then Inr None
           else (case fold (burst_event env window_start) events (Inr []) of Inl e \<Rightarrow> Inl e
             | Inr pkgs \<Rightarrow>
                 (let dormant = length (filter (\<lambda>(p, lm). lm \<noteq> 0 \<and> lm < dormant_cutoff) pkgs);
                      window_days = setting 0 g ''window_days'' 7
                  in if setting 1 g ''min_packages'' 5 \<le> int (length pkgs) \<and> setting 0 g ''min_dormant'' 3 \<le> int dormant
                     then Inr (Some (mk_cluster ''G008'' ''First-Seen Account Adoption Burst'' ''HIGH''
                       (''first-seen account '' @ m @ '' adopted '' @ count_text pkgs @ '' packages ('' @
                        show_nat dormant @ '' dormant) within '' @ show_int window_days @ '' days'')
                       [(''maintainer'', PStr m), members_param (map fst pkgs),
                        (''dormant_count'', PInt (int dormant)), (''window_days'', PInt window_days)]))
                     else Inr None))))"

fun burst_scan ::
    "corr_env \<Rightarrow> config \<Rightarrow> rat \<Rightarrow> rat \<Rightarrow> corr_record list \<Rightarrow> string list \<Rightarrow> corr_error + cluster_finding list" where
  "burst_scan env g window_start dormant_cutoff rs [] = Inr []"
| "burst_scan env g window_start dormant_cutoff rs (m # ms) =
     (case burst_cluster env g window_start dormant_cutoff m (adopted_by m rs) of Inl e \<Rightarrow> Inl e
      | Inr c \<Rightarrow>
      (case burst_scan env g window_start dormant_cutoff rs ms of Inl e \<Rightarrow> Inl e
       | Inr cs \<Rightarrow> Inr ((case c of None \<Rightarrow> [] | Some f \<Rightarrow> [f]) @ cs)))"

definition first_seen_adoption_burst :: "corr_env \<Rightarrow> config \<Rightarrow> corr_record list \<Rightarrow> corr_error + cluster_finding list" where
  "first_seen_adoption_burst env cfg rs =
     (case unguarded cfg ''g008'' of Inl e \<Rightarrow> Inl e
      | Inr g \<Rightarrow>
      (case ago env (setting 0 g ''window_days'' 7) of Inl e \<Rightarrow> Inl e
       | Inr window_start \<Rightarrow>
       (case ago env (setting 0 g ''dormant_days'' 180) of Inl e \<Rightarrow> Inl e
        | Inr dormant_cutoff \<Rightarrow> burst_scan env g window_start dormant_cutoff rs (adopters rs))))"

section \<open>G009: the operator's watchlist\<close>

text \<open>
  The file as parsed, an empty table when it is unreadable or no table.  Walking the entries raises when they
  are a number or \<^verbatim>\<open>true\<close>; the members of a table or of a string are strings, which are skipped.
\<close>

definition value_text :: "corr_env \<Rightarrow> json \<Rightarrow> string" where
  "value_text env j = (case j of JStr s \<Rightarrow> s | _ \<Rightarrow> ce_text env j)"

definition label_of :: "corr_env \<Rightarrow> json \<Rightarrow> string" where
  "label_of env j = (if json_truthy j then value_text env j else [])"

definition file_entries :: "json \<Rightarrow> json list option" where
  "file_entries j =
     (if \<not> json_truthy j then Some []
      else (case j of JArr es \<Rightarrow> Some es | JObj d \<Rightarrow> Some [] | JStr s \<Rightarrow> Some [] | _ \<Rightarrow> None))"

definition list_entry :: "corr_env \<Rightarrow> json \<Rightarrow> string dict \<Rightarrow> string dict" where
  "list_entry env e out =
     (case e of
        JObj d \<Rightarrow>
          (let h = py_strip (value_text env (dict_get d ''name_hash'' (JStr []))) in
           if h = [] then out else dict_set out h (label_of env (dict_get d ''label'' (JStr []))))
      | _ \<Rightarrow> out)"

definition load_watchlist :: "corr_env \<Rightarrow> string option \<Rightarrow> string dict option" where
  "load_watchlist env path =
     (case ce_file env path of None \<Rightarrow> None
      | Some d \<Rightarrow>
          map_option (\<lambda>es. let out = fold (list_entry env) es [] in
              if path = None then fold (\<lambda>(k, v) o1. set_default o1 k v) (ce_release_maintainers env) out else out)
            (file_entries (dict_get d ''entries'' JNull)))"

definition load_packages :: "corr_env \<Rightarrow> string option \<Rightarrow> string dict option" where
  "load_packages env path =
     map_option (\<lambda>d.
         let out = fold (\<lambda>(name, label) out. if py_strip name = [] then out
                 else dict_set out (py_strip name) (label_of env label)) (section_of (dict_get d ''packages'' JNull)) [] in
         if path = None then fold (\<lambda>(k, v) o1. set_default o1 k v) (ce_release_packages env) out else out)
       (ce_file env path)"

text \<open>The salted hashes of the accounts; the salt is read only when an account is named.\<close>

definition local_hash_many :: "corr_env \<Rightarrow> string list \<Rightarrow> corr_error + string dict" where
  "local_hash_many env names =
     (let ks = filter (\<lambda>k. k \<noteq> []) (map py_strip names) in
      if ks = [] then Inr []
      else (case ce_salted env of None \<Rightarrow> Inl Salt_Raises
        | Some None \<Rightarrow> Inr []
        | Some (Some hash) \<Rightarrow> Inr (map (\<lambda>k. (k, hash k)) ks)))"

definition watch_label :: "string dict \<Rightarrow> string dict \<Rightarrow> string dict \<Rightarrow> corr_record \<Rightarrow> (string \<times> string) option" where
  "watch_label entries packages hashes r =
     (case map_of packages (cr_package r) of
        Some label \<Rightarrow> Some (''package'', label)
      | None \<Rightarrow>
          (let m = maintainer_key (cr_maintainer r) in
           if m = [] then None
           else (case map_of hashes m of None \<Rightarrow> None
             | Some h \<Rightarrow> if h = [] then None
                 else map_option (\<lambda>label. (''maintainer'', label)) (map_of entries h))))"

definition watch_cluster :: "string \<Rightarrow> string \<times> string \<Rightarrow> cluster_finding" where
  "watch_cluster package sl = mk_cluster ''G009'' ''Watchlisted Subject'' ''INFO''
     (fst sl @ '' is on the operator watchlist'' @ (if snd sl \<noteq> [] then '' ('' @ snd sl @ '')'' else []))
     [(''members'', PList [package]), (''label'', PStr (snd sl)), (''subject'', PStr (fst sl))]"

fun watch_scan ::
    "string dict \<Rightarrow> string dict \<Rightarrow> string dict \<Rightarrow> string list \<Rightarrow> corr_record list \<Rightarrow> cluster_finding list" where
  "watch_scan entries packages hashes seen [] = []"
| "watch_scan entries packages hashes seen (r # rs) =
     (if cr_package r \<in> set seen then watch_scan entries packages hashes seen rs
      else (case watch_label entries packages hashes r of
              None \<Rightarrow> watch_scan entries packages hashes seen rs
            | Some sl \<Rightarrow> watch_cluster (cr_package r) sl # watch_scan entries packages hashes (cr_package r # seen) rs))"

definition watch_path :: "config \<Rightarrow> string option" where
  "watch_path g = (case dict_get g ''path'' JNull of JStr s \<Rightarrow> (if s = [] then None else Some s) | _ \<Rightarrow> None)"

definition watchlisted_maintainer :: "corr_env \<Rightarrow> config \<Rightarrow> corr_record list \<Rightarrow> corr_error + cluster_finding list" where
  "watchlisted_maintainer env cfg rs =
     (case unguarded cfg ''g009'' of Inl e \<Rightarrow> Inl e
      | Inr g \<Rightarrow>
      (if \<not> json_truthy (dict_get g ''enabled'' (JBool True)) then Inr []
       else (case (load_watchlist env (watch_path g), load_packages env (watch_path g)) of
           (Some entries, Some packages) \<Rightarrow>
             (if entries = [] \<and> packages = [] then Inr []
              else (case (if entries = [] then Inr []
                     else local_hash_many env (map (maintainer_key \<circ> cr_maintainer) rs)) of
                  Inl e \<Rightarrow> Inl e
                | Inr hashes \<Rightarrow> Inr (watch_scan entries packages hashes [] rs)))
         | _ \<Rightarrow> Inl Watchlist_Raises)))"

section \<open>G012, G013 and G014: shared signals, targets and windows\<close>

definition shared_keys :: "(corr_record \<Rightarrow> string list) \<Rightarrow> (string \<Rightarrow> string) \<Rightarrow> corr_record \<Rightarrow> string list" where
  "shared_keys fld nrm r = (if cr_package r = [] then [] else filter (\<lambda>k. k \<noteq> []) (map nrm (fld r)))"

definition shared_accounts :: "(corr_record \<Rightarrow> string list) \<Rightarrow> (string \<Rightarrow> string) \<Rightarrow> corr_record list \<Rightarrow> string \<Rightarrow> string list" where
  "shared_accounts fld nrm rs k = sort (accounts_of (filter (\<lambda>r. k \<in> set (shared_keys fld nrm r)) rs))"

definition shared_groups ::
    "corr_env \<Rightarrow> (corr_record \<Rightarrow> string list) \<Rightarrow> (string \<Rightarrow> string) \<Rightarrow> int \<Rightarrow> int \<Rightarrow> corr_record list \<Rightarrow>
     (string \<times> string list \<times> string list) list" where
  "shared_groups env fld nrm min_packages min_maintainers rs =
     map (\<lambda>(k, members). (k, map fst members, shared_accounts fld nrm rs k))
       (filter (\<lambda>(k, members). min_packages \<le> int (length members) \<and>
            min_maintainers \<le> int (length (shared_accounts fld nrm rs k)) \<and>
            \<not> one_project (map snd members) \<and> \<not> one_family env (map fst members))
         (sort_key fst (grouped (shared_keys fld nrm) cr_package rs)))"

definition SHARED_PAYLOAD_RULES :: "string list" where
  "SHARED_PAYLOAD_RULES = [''R001'', ''R002'', ''R003'', ''R008'', ''H017'', ''H035'', ''H041'', ''H075'', ''H090'',
     ''C016'', ''C032'', ''S001'', ''S002'', ''S003'', ''S004'', ''S005'', ''S006'', ''S007'', ''S008'']"

definition payload_signal :: "string \<Rightarrow> string" where
  "payload_signal rid = (if rid \<in> set SHARED_PAYLOAD_RULES then rid else [])"

definition accounts_params :: "string list \<Rightarrow> pval dict" where
  "accounts_params accounts = [(''maintainers'', PList accounts), (''maintainer_count'', PInt (int (length accounts)))]"

definition shared_payload_signal :: "corr_env \<Rightarrow> int \<Rightarrow> int \<Rightarrow> corr_record list \<Rightarrow> cluster_finding list" where
  "shared_payload_signal env min_packages min_maintainers rs =
     map (\<lambda>(signal, ms, accounts). mk_cluster ''G012'' ''Shared Payload Signal'' ''HIGH''
         (count_text ms @ '' packages from '' @ count_text accounts @ '' maintainer(s) all fired '' @ signal @ '' in the window'')
         ([members_param ms, (''signal'', PStr signal)] @ accounts_params accounts))
       (shared_groups env cr_rules payload_signal (max 1 min_packages) (max 1 min_maintainers) rs)"

definition shared_fetch_target :: "corr_env \<Rightarrow> int \<Rightarrow> int \<Rightarrow> corr_record list \<Rightarrow> cluster_finding list" where
  "shared_fetch_target env min_packages min_maintainers rs =
     map (\<lambda>(url, ms, accounts). mk_cluster ''G013'' ''Shared Fetch Target'' ''HIGH''
         (count_text ms @ '' packages from '' @ count_text accounts @ '' maintainer(s) fetch '' @ url)
         ([members_param ms, (''url'', PStr url)] @ accounts_params accounts))
       (shared_groups env cr_urls (ce_payload_url env) (max 1 min_packages) (max 1 min_maintainers) rs)"

text \<open>The adoptions of the window, one record per package.\<close>

fun window_members :: "string list \<Rightarrow> corr_record list \<Rightarrow> corr_record list" where
  "window_members seen [] = []"
| "window_members seen (r # rs) =
     (if cr_adoption r \<and> cr_package r \<noteq> [] \<and> cr_package r \<notin> set seen
      then r # window_members (cr_package r # seen) rs else window_members seen rs)"

definition shared_adoption_window ::
    "corr_env \<Rightarrow> int \<Rightarrow> int \<Rightarrow> int \<Rightarrow> int \<Rightarrow> corr_record list \<Rightarrow> corr_error + cluster_finding list" where
  "shared_adoption_window env min_packages min_maintainers min_dormant dormant_days rs =
     (case ago env (max 0 dormant_days) of Inl e \<Rightarrow> Inl e
      | Inr dormant_cutoff \<Rightarrow> Inr
     (let members = window_members [] rs; ms = map cr_package members; accounts = sort (accounts_of members);
          dormant = length (dormant_times dormant_cutoff members)
      in if int (length members) < max 1 min_packages then []
         else if int (length accounts) < max 1 min_maintainers then []
         else if int dormant < max 0 min_dormant then []
         else if one_project members \<or> one_family env ms then []
         else [mk_cluster ''G014'' ''Shared Adoption Window'' ''HIGH''
           (count_text ms @ '' unrelated packages adopted by '' @ count_text accounts @ '' maintainer(s) ('' @
            show_nat dormant @ '' dormant) in the window'')
           ([members_param ms] @ accounts_params accounts @ [(''dormant_count'', PInt (int dormant))])]))"

section \<open>All joins of a cycle\<close>

definition correlate :: "corr_env \<Rightarrow> config \<Rightarrow> corr_record list \<Rightarrow> corr_error + cluster_finding list" where
  "correlate env cfg rs =
     (let g = guarded cfg in
      case coordinated_adoption env (setting 1 (g ''g_adopt'') ''min_members'' 3) cfg rs of Inl e \<Rightarrow> Inl e
      | Inr g003 \<Rightarrow>
      (case shared_adoption_window env (setting 1 (g ''g014'') ''min_packages'' 3)
          (setting 1 (g ''g014'') ''min_maintainers'' 2) (setting 0 (g ''g014'') ''min_dormant'' 2)
          (setting 0 (g ''g014'') ''dormant_days'' 180) rs of Inl e \<Rightarrow> Inl e
       | Inr g014 \<Rightarrow>
      (case watchlisted_maintainer env cfg rs of Inl e \<Rightarrow> Inl e
       | Inr g009 \<Rightarrow>
           Inr (shared_gained_host env (setting 1 (g ''g_host'') ''min_packages'' 5) 2 rs
             @ shared_added_literal (setting 1 (g ''g_blob'') ''min_packages'' 2)
                 (setting 0 (g ''g_blob'') ''min_length'' 256) rs
             @ g003
             @ shared_upstream_dependency (setting 1 (g ''g_dep'') ''min_packages'' 2) rs
             @ impersonation_campaign (setting 1 (g ''g_impersonation'') ''min_members'' 3) rs
             @ shared_payload_signal env (setting 1 (g ''g012'') ''min_packages'' 3)
                 (setting 1 (g ''g012'') ''min_maintainers'' 2) rs
             @ shared_fetch_target env (setting 1 (g ''g013'') ''min_packages'' 2)
                 (setting 1 (g ''g013'') ''min_maintainers'' 2) rs
             @ g014
             @ g009))))"

section \<open>G011: packages created in one window\<close>

record creation_row =
  cw_package :: string
  cw_maintainer :: string
  cw_brand_new :: bool
  cw_established :: bool
  cw_placeholder :: bool

text \<open>\<^verbatim>\<open>float(value)\<close>, nothing where it raises or is not finite: an integer past the largest double overflows.\<close>

fun json_float :: "corr_env \<Rightarrow> json \<Rightarrow> rat option" where
  "json_float env (JBool b) = Some (if b then 1 else 0)"
| "json_float env (JInt i) = (if \<bar>i\<bar> < 2 ^ 1024 - 2 ^ 970 then Some (of_int i) else None)"
| "json_float env (JFloat r) = r"
| "json_float env (JStr s) = ce_float env s"
| "json_float env _ = None"

definition share_floor :: "corr_env \<Rightarrow> config \<Rightarrow> rat" where
  "share_floor env g =
     (case json_float env (dict_get g ''placeholder_share'' (JFloat (Some (1 / 2)))) of None \<Rightarrow> 1 / 2
      | Some q \<Rightarrow> min 1 (max 0 q))"

definition created :: "creation_row list \<Rightarrow> (string \<times> creation_row dict) list" where
  "created rows = grouped (\<lambda>r. [maintainer_key (cw_maintainer r)]) cw_package
     (filter (\<lambda>r. cw_brand_new r \<and> maintainer_key (cw_maintainer r) \<noteq> [] \<and> cw_package r \<noteq> [] \<and> \<not> cw_established r) rows)"

definition creation_cluster :: "corr_env \<Rightarrow> config \<Rightarrow> string \<Rightarrow> creation_row dict \<Rightarrow> cluster_finding" where
  "creation_cluster env g m packages =
     (let members = sort (map fst packages);
          placeholders = length (filter (cw_placeholder \<circ> snd) packages);
          share = dbl_rat (round53 placeholders (length members))
      in mk_cluster ''G011'' ''Maintainer Package Creation Burst''
           (if json_truthy (dict_get g ''placeholder_escalation'' (JBool True)) \<and> share_floor env g \<le> share
            then ''HIGH'' else ''MEDIUM'')
           (''first-seen maintainer '' @ m @ '' created '' @ count_text members @ '' packages in the window ('' @
            show_nat placeholders @ '' placeholder)'')
           [(''maintainer'', PStr m), (''maintainers'', PList [m]), (''members'', PList members),
            (''placeholder_count'', PInt (int placeholders))])"

definition package_creation_burst :: "corr_env \<Rightarrow> config \<Rightarrow> creation_row list \<Rightarrow> cluster_finding list" where
  "package_creation_burst env cfg rows =
     (let g = guarded cfg ''g011'' in
      map (\<lambda>(m, packages). creation_cluster env g m packages)
        (filter (\<lambda>(m, packages). setting 1 g ''min_packages'' 5 \<le> int (length packages) \<and>
             \<not> one_family env (sort (map fst packages)))
          (sort_key fst (created rows))))"

section \<open>Cluster weights in the profiles\<close>

record profile_row =
  pf_observations :: nat
  pf_score :: int
  pf_risk :: string

definition IMPERSONATION_GATED_RULES :: "string list" where
  "IMPERSONATION_GATED_RULES = [''H052'', ''H055'']"

definition is_reserved_name :: "string \<Rightarrow> bool" where
  "is_reserved_name name = (name = ''__seed__'' \<or> py_startswith name ''__'')"

definition profile_score :: "int dict \<Rightarrow> (string \<Rightarrow> profile_row option) \<Rightarrow> string \<Rightarrow> int" where
  "profile_score scores db name =
     (case map_of scores name of Some s \<Rightarrow> s
      | None \<Rightarrow> (case db name of None \<Rightarrow> 0 | Some row \<Rightarrow> pf_score row))"

definition save_package_profile ::
    "string \<Rightarrow> int \<Rightarrow> string \<Rightarrow> (string \<Rightarrow> profile_row option) \<Rightarrow> (string \<Rightarrow> profile_row option)" where
  "save_package_profile name score risk db =
     db(name \<mapsto> \<lparr>pf_observations = (case db name of None \<Rightarrow> 1 | Some row \<Rightarrow> pf_observations row + 1),
       pf_score = score, pf_risk = risk\<rparr>)"

definition cluster_members :: "cluster_finding \<Rightarrow> string list" where
  "cluster_members c = (case map_of (cl_params c) ''members'' of Some (PList ms) \<Rightarrow> ms | _ \<Rightarrow> [])"

definition weigh_member :: "int dict \<Rightarrow> int \<Rightarrow> string \<Rightarrow> (string \<Rightarrow> profile_row option) \<Rightarrow> (string \<Rightarrow> profile_row option)" where
  "weigh_member scores delta m db =
     (if is_reserved_name m then db
      else (let s = max 0 (min 100 (profile_score scores db m + delta))
            in save_package_profile m s (risk_level s) db))"

text \<open>Whether a finding scores, and the finding as it is left: a gated one says whether it impersonates.\<close>

definition joins_only :: "cluster_finding \<Rightarrow> bool" where
  "joins_only c = (py_startswith (cl_rule c) ''G'' \<and> cl_rule c \<noteq> ''G005'')"

definition gated_finding :: "cluster_finding \<Rightarrow> bool" where
  "gated_finding c = (\<not> joins_only c \<and> cl_rule c \<in> set IMPERSONATION_GATED_RULES)"

definition annotate :: "(string \<Rightarrow> bool) \<Rightarrow> cluster_finding \<Rightarrow> cluster_finding" where
  "annotate impersonates c =
     (if gated_finding c then c\<lparr>cl_params := dict_set (cl_params c) ''impersonated''
        (PBool (list_ex impersonates (cluster_members c)))\<rparr> else c)"

definition cluster_delta :: "int dict \<Rightarrow> (string \<Rightarrow> bool) \<Rightarrow> cluster_finding \<Rightarrow> int" where
  "cluster_delta weights impersonates c =
     (if joins_only c \<or> gated_finding c \<and> \<not> list_ex impersonates (cluster_members c) then 0
      else max 0 (dict_get weights (cl_severity c) 0))"

definition apply_cluster_weights ::
    "int dict \<Rightarrow> (string \<Rightarrow> bool) \<Rightarrow> int dict \<Rightarrow> cluster_finding list \<Rightarrow> (string \<Rightarrow> profile_row option) \<Rightarrow>
     cluster_finding list \<times> (string \<Rightarrow> profile_row option)" where
  "apply_cluster_weights weights impersonates scores findings db =
     (map (annotate impersonates) findings,
      fold (\<lambda>c. if cluster_delta weights impersonates c \<le> 0 then id
                else fold (weigh_member scores (cluster_delta weights impersonates c)) (cluster_members c)) findings db)"

section \<open>What a grouping holds\<close>

lemma put_lookup: "map_of (put k p v g) k' =
    (if k' = k then Some (dict_set (case map_of g k of None \<Rightarrow> [] | Some d \<Rightarrow> d) p v) else map_of g k')"
  by (induction k p v g rule: put.induct) auto

lemma put_keys: "fst ` set (put k p v g) = insert k (fst ` set g)"
  by (induction k p v g rule: put.induct) auto

lemma put_distinct: "distinct (map fst g) \<Longrightarrow> distinct (map fst (put k p v g))"
proof (induction k p v g rule: put.induct)
  case (2 k p v k' d g)
  then show ?case using put_keys [of k p v g] by (auto simp: image_iff)
qed simp

text \<open>The dictionary of one key.\<close>

definition members_at :: "('v \<Rightarrow> 'k list) \<Rightarrow> ('v \<Rightarrow> string) \<Rightarrow> 'v list \<Rightarrow> 'k \<Rightarrow> 'v dict" where
  "members_at keys pkg rs k = fold (\<lambda>r d. dict_set d (pkg r) r) (filter (\<lambda>r. k \<in> set (keys r)) rs) []"

lemma dict_set_twice [simp]: "dict_set (dict_set d p v) p v = dict_set d p v"
  by (induction d p v rule: dict_set.induct) auto

lemma put_all_lookup:
  "map_of (fold (\<lambda>k. put k p v) ks g) k =
    (if k \<in> set ks then Some (dict_set (case map_of g k of None \<Rightarrow> [] | Some d \<Rightarrow> d) p v) else map_of g k)"
  by (induction ks arbitrary: g) (auto simp: put_lookup)

lemma put_all_keys: "fst ` set (fold (\<lambda>k. put k p v) ks g) = set ks \<union> fst ` set g"
  by (induction ks arbitrary: g) (auto simp: put_keys)

lemma put_all_distinct: "distinct (map fst g) \<Longrightarrow> distinct (map fst (fold (\<lambda>k. put k p v) ks g))"
  by (induction ks arbitrary: g) (auto simp: put_distinct)

lemma grouped_snoc: "grouped keys pkg (rs @ [r]) = fold (\<lambda>k. put k (pkg r) r) (keys r) (grouped keys pkg rs)"
  by (simp add: grouped_def)

lemma grouped_distinct: "distinct (map fst (grouped keys pkg rs))"
  by (induction rs rule: rev_induct) (auto simp: grouped_snoc put_all_distinct, simp add: grouped_def)

lemma grouped_keys: "fst ` set (grouped keys pkg rs) = (\<Union>r \<in> set rs. set (keys r))"
  by (induction rs rule: rev_induct) (auto simp: grouped_snoc put_all_keys, auto simp: grouped_def)

lemma grouped_lookup:
  "map_of (grouped keys pkg rs) k =
     (if \<exists>r \<in> set rs. k \<in> set (keys r) then Some (members_at keys pkg rs k) else None)"
proof (induction rs rule: rev_induct)
  case Nil
  show ?case by (simp add: grouped_def)
next
  case (snoc r rs)
  have none: "\<not> (\<exists>r \<in> set rs. k \<in> set (keys r)) \<Longrightarrow> members_at keys pkg rs k = []"
    by (auto simp: members_at_def filter_empty_conv cong: filter_cong)
  have snoc_at: "members_at keys pkg (rs @ [r]) k =
      (if k \<in> set (keys r) then dict_set (members_at keys pkg rs k) (pkg r) r else members_at keys pkg rs k)"
    by (simp add: members_at_def)
  from snoc none show ?case by (auto simp: grouped_snoc put_all_lookup snoc_at)
qed

lemma members_at_keys: "fst ` set (members_at keys pkg rs k) = pkg ` {r \<in> set rs. k \<in> set (keys r)}"
  unfolding members_at_def by (induction rs rule: rev_induct) (auto simp: dict_set_keys)

lemma members_at_distinct: "distinct (map fst (members_at keys pkg rs k))"
  unfolding members_at_def by (induction rs rule: rev_induct) (auto simp: dict_set_distinct)

text \<open>When no two records have one package, the members are the records that carry the key, in their order.\<close>

lemma dict_set_fresh: "p \<notin> fst ` set d \<Longrightarrow> dict_set d p v = d @ [(p, v)]"
  by (induction d p v rule: dict_set.induct) auto

lemma members_at_unique:
  "distinct (map pkg rs) \<Longrightarrow>
   members_at keys pkg rs k = map (\<lambda>r. (pkg r, r)) (filter (\<lambda>r. k \<in> set (keys r)) rs)"
proof (induction rs rule: rev_induct)
  case Nil
  show ?case by (simp add: members_at_def)
next
  case (snoc r rs)
  have at: "members_at keys pkg (rs @ [r]) k =
      (if k \<in> set (keys r) then dict_set (members_at keys pkg rs k) (pkg r) r else members_at keys pkg rs k)"
    by (simp add: members_at_def)
  from snoc have "pkg r \<notin> fst ` set (members_at keys pkg rs k)"
    by (auto simp: members_at_keys)
  with snoc at show ?case by (auto simp: dict_set_fresh)
qed

lemma in_grouped:
  "(k, d) \<in> set (grouped keys pkg rs) \<longleftrightarrow> (\<exists>r \<in> set rs. k \<in> set (keys r)) \<and> d = members_at keys pkg rs k"
  using grouped_lookup [of keys pkg rs k] map_of_eq_Some_iff [OF grouped_distinct, of keys pkg rs k d]
  by (auto split: if_splits)

section \<open>What the joins report\<close>

lemma one_family_connected:
  "one_family env names \<longleftrightarrow> names \<noteq> [] \<and> length names \<le> MAX_RELATEDNESS_MEMBERS \<and>
     set names \<times> set names \<subseteq> {(a, b). a \<in> set names \<and> b \<in> set names \<and>
       is_related_package (ce_variants env) (ce_ecosystem env) a b}\<^sup>*"
  unfolding one_family_def by (subst cluster_decides) (auto simp: is_related_sym)

text \<open>The records that carry a key.\<close>

definition carriers :: "('v \<Rightarrow> 'k list) \<Rightarrow> 'v list \<Rightarrow> 'k \<Rightarrow> 'v list" where
  "carriers keys rs k = filter (\<lambda>r. k \<in> set (keys r)) rs"

lemma carriers_nonempty: "carriers keys rs k \<noteq> [] \<longleftrightarrow> (\<exists>r \<in> set rs. k \<in> set (keys r))"
  by (auto simp: carriers_def filter_empty_conv)

lemma in_grouped_unique:
  "distinct (map pkg rs) \<Longrightarrow> (k, d) \<in> set (grouped keys pkg rs) \<longleftrightarrow>
     carriers keys rs k \<noteq> [] \<and> d = map (\<lambda>r. (pkg r, r)) (carriers keys rs k)"
  unfolding in_grouped carriers_nonempty by (simp add: members_at_unique carriers_def)

lemma pairs: "map snd (map (\<lambda>r. (cr_package r, r)) gs) = gs"
  "map fst (map (\<lambda>r. (cr_package r, r)) gs) = map cr_package gs"
  by (induction gs) simp_all

text \<open>with one record for each package, the gained-host join reports exactly the hosts that enough
  packages gained, that are not one project's, not one account's name family, and not in an ubiquitous
  bucket, each with all the packages that gained it.\<close>

theorem gained_host_exact:
  "distinct (map cr_package rs) \<Longrightarrow>
   set (shared_gained_host env n m rs) = {host_cluster host (map cr_package gs) | host gs.
     gs = carriers gained_keys rs host \<and> gs \<noteq> [] \<and> n \<le> int (length gs) \<and> \<not> one_project gs \<and>
     \<not> (accounts_of gs \<noteq> [] \<and> int (length (accounts_of gs)) < m \<and> one_name_family (map cr_package gs)) \<and>
     bucket_of env host \<notin> set UBIQUITOUS_BUCKETS}"
  (is "_ \<Longrightarrow> ?L = ?R")
proof -
  assume d: "distinct (map cr_package rs)"
  have "c \<in> ?L \<longleftrightarrow> c \<in> ?R" for c
  proof -
    have "c \<in> ?L \<longleftrightarrow> (\<exists>host members. (host, members) \<in> set (grouped gained_keys cr_package rs) \<and>
        host_stands env n m host members \<and> c = host_cluster host (map fst members))"
      by (auto simp: shared_gained_host_def)
    also have "\<dots> \<longleftrightarrow> (\<exists>host. carriers gained_keys rs host \<noteq> [] \<and>
        host_stands env n m host (map (\<lambda>r. (cr_package r, r)) (carriers gained_keys rs host)) \<and>
        c = host_cluster host (map cr_package (carriers gained_keys rs host)))"
      unfolding in_grouped_unique [OF d] using pairs(2) by (auto simp: comp_def)
    also have "\<dots> \<longleftrightarrow> c \<in> ?R"
      unfolding host_stands_def pairs Let_def length_map by blast
    finally show ?thesis .
  qed
  then show ?thesis by blast
qed

text \<open>C34: with one record for each package, the joins over shared signals and targets report exactly
  the keys that enough packages carry for enough accounts, unless these packages are one project or are
  joined by a chain of related names.\<close>

theorem shared_groups_exact:
  "distinct (map cr_package rs) \<Longrightarrow>
   (k, ms, accounts) \<in> set (shared_groups env fld nrm n m rs) \<longleftrightarrow>
     (let gs = carriers (shared_keys fld nrm) rs k in
      gs \<noteq> [] \<and> ms = map cr_package gs \<and> accounts = sort (accounts_of gs) \<and>
      n \<le> int (length gs) \<and> m \<le> int (length (accounts_of gs)) \<and> \<not> one_project gs \<and>
      (MAX_RELATEDNESS_MEMBERS < length gs \<or>
       (\<exists>x \<in> set ms. \<exists>y \<in> set ms. (x, y) \<notin> {(a, b). a \<in> set ms \<and> b \<in> set ms \<and>
          is_related_package (ce_variants env) (ce_ecosystem env) a b}\<^sup>*)))"
proof -
  assume d: "distinct (map cr_package rs)"
  let ?gs = "carriers (shared_keys fld nrm) rs k"
  have accounts: "shared_accounts fld nrm rs k = sort (accounts_of ?gs)"
    by (simp add: shared_accounts_def carriers_def)
  have "(k, ms, accounts) \<in> set (shared_groups env fld nrm n m rs) \<longleftrightarrow>
      (\<exists>members. (k, members) \<in> set (grouped (shared_keys fld nrm) cr_package rs) \<and> ms = map fst members \<and>
        accounts = shared_accounts fld nrm rs k \<and> n \<le> int (length members) \<and>
        m \<le> int (length (shared_accounts fld nrm rs k)) \<and> \<not> one_project (map snd members) \<and>
        \<not> one_family env (map fst members))"
    by (auto simp: shared_groups_def)
  also have "\<dots> \<longleftrightarrow> ?gs \<noteq> [] \<and> ms = map cr_package ?gs \<and> accounts = sort (accounts_of ?gs) \<and>
      n \<le> int (length ?gs) \<and> m \<le> int (length (accounts_of ?gs)) \<and> \<not> one_project ?gs \<and>
      \<not> one_family env (map cr_package ?gs)"
    unfolding in_grouped_unique [OF d] accounts using pairs by (auto simp: comp_def)
  finally show ?thesis
    unfolding one_family_connected Let_def by (auto simp: subset_iff not_le)
qed

definition is_table :: "config \<Rightarrow> string \<Rightarrow> bool" where
  "is_table cfg k = (case dict_get (thresholds cfg) k (JObj []) of JObj _ \<Rightarrow> True | _ \<Rightarrow> False)"

lemma unguarded_table: "unguarded cfg k = (if is_table cfg k
    then Inr (section_of (dict_get (thresholds cfg) k (JObj []))) else Inl (Not_A_Table k))"
  by (auto simp: unguarded_def is_table_def section_of_def split: json.splits)

text \<open>
  What a run needs: days that a double can hold, a file that can be read and its entries walked, and a salt that
  can be read when an entry is to be compared with an account.
\<close>

definition too_long :: "config \<Rightarrow> string \<Rightarrow> int \<Rightarrow> bool" where
  "too_long d k deflt \<longleftrightarrow> past_float (of_int (setting 0 d k deflt * 86400))"

definition raw_section :: "config \<Rightarrow> string \<Rightarrow> config" where
  "raw_section cfg k = section_of (dict_get (thresholds cfg) k (JObj []))"

definition watch_on :: "config \<Rightarrow> bool" where
  "watch_on cfg \<longleftrightarrow> json_truthy (dict_get (raw_section cfg ''g009'') ''enabled'' (JBool True))"

definition watch_readable :: "corr_env \<Rightarrow> config \<Rightarrow> bool" where
  "watch_readable env cfg =
     (case ce_file env (watch_path (raw_section cfg ''g009'')) of None \<Rightarrow> False
      | Some d \<Rightarrow> (case dict_get d ''entries'' JNull of
          JBool b \<Rightarrow> \<not> b | JInt i \<Rightarrow> i = 0 | JFloat r \<Rightarrow> r = Some 0 | _ \<Rightarrow> True))"

definition salt_needed :: "corr_env \<Rightarrow> config \<Rightarrow> corr_record list \<Rightarrow> bool" where
  "salt_needed env cfg rs \<longleftrightarrow>
     (case load_watchlist env (watch_path (raw_section cfg ''g009'')) of None \<Rightarrow> False | Some entries \<Rightarrow> entries \<noteq> [])
     \<and> list_ex (\<lambda>r. py_strip (maintainer_key (cr_maintainer r)) \<noteq> []) rs"

lemma setting_nonneg: "0 \<le> setting 0 d k deflt" by (simp add: setting_def)

lemma ago_fails: "ago env (setting 0 d k deflt) = Inl e \<longleftrightarrow> too_long d k deflt \<and> e = Overflow_Error"
  by (auto simp: ago_def as_float_def too_long_def)

lemma adoption_fails:
  "coordinated_adoption env n cfg rs = Inl e \<longleftrightarrow>
     (if \<not> is_table cfg ''g003'' then e = Not_A_Table ''g003''
      else e = Overflow_Error \<and> (too_long (raw_section cfg ''g003'') ''novel_days'' 30
        \<or> too_long (raw_section cfg ''g003'') ''dormant_days'' 180))"
proof (cases "is_table cfg ''g003''")
  case True
  let ?g = "raw_section cfg ''g003''"
  have g: "unguarded cfg ''g003'' = Inr ?g" using True by (simp add: unguarded_table raw_section_def)
  note fails = ago_fails [of env ?g "''novel_days''" 30] ago_fails [of env ?g "''dormant_days''" 180]
  show ?thesis
  proof (cases "ago env (setting 0 ?g ''novel_days'' 30)")
    case (Inl d)
    with fails(1) [of d] g True show ?thesis by (auto simp: coordinated_adoption_def)
  next
    case novel: (Inr t)
    then have n: "\<not> too_long ?g ''novel_days'' 30" using fails(1) by auto
    show ?thesis
    proof (cases "ago env (setting 0 ?g ''dormant_days'' 180)")
      case (Inl d)
      with fails(2) [of d] g True novel n show ?thesis by (auto simp: coordinated_adoption_def)
    next
      case (Inr u)
      then have "\<not> too_long ?g ''dormant_days'' 180" using fails(2) by auto
      with Inr g True novel n show ?thesis by (simp add: coordinated_adoption_def)
    qed
  qed
qed (auto simp: coordinated_adoption_def unguarded_table)

lemma window_fails:
  "shared_adoption_window env a b c (setting 0 d k deflt) rs = Inl e \<longleftrightarrow> too_long d k deflt \<and> e = Overflow_Error"
proof -
  have m: "max 0 (setting 0 d k deflt) = setting 0 d k deflt" using setting_nonneg by (simp add: max_absorb2)
  show ?thesis
  proof (cases "ago env (setting 0 d k deflt)")
    case (Inl f)
    with ago_fails [of env d k deflt f] show ?thesis by (auto simp: shared_adoption_window_def m)
  next
    case (Inr t)
    then have "\<not> too_long d k deflt" using ago_fails [of env d k deflt] by auto
    with Inr show ?thesis by (simp add: shared_adoption_window_def m)
  qed
qed

lemma watchlist_loads:
  "(case (load_watchlist env (watch_path (raw_section cfg ''g009'')), load_packages env (watch_path (raw_section cfg ''g009''))) of
      (Some entries, Some packages) \<Rightarrow> True | _ \<Rightarrow> False) \<longleftrightarrow> watch_readable env cfg"
  by (auto simp: load_watchlist_def load_packages_def watch_readable_def file_entries_def split: option.splits json.splits)

lemma hashing_fails: "local_hash_many env names = Inl e \<longleftrightarrow>
    list_ex (\<lambda>k. py_strip k \<noteq> []) names \<and> ce_salted env = None \<and> e = Salt_Raises"
  by (auto simp: local_hash_many_def Let_def list_ex_iff filter_empty_conv split: option.splits)

lemma watching_fails:
  "watchlisted_maintainer env cfg rs = Inl e \<longleftrightarrow>
     (if \<not> is_table cfg ''g009'' then e = Not_A_Table ''g009''
      else watch_on cfg \<and>
        (if watch_readable env cfg then salt_needed env cfg rs \<and> ce_salted env = None \<and> e = Salt_Raises
         else e = Watchlist_Raises))"
proof (cases "is_table cfg ''g009'' \<and> watch_on cfg")
  case True
  let ?p = "watch_path (raw_section cfg ''g009'')"
  have g: "unguarded cfg ''g009'' = Inr (raw_section cfg ''g009'')"
    using True by (simp add: unguarded_table raw_section_def)
  show ?thesis
  proof (cases "watch_readable env cfg")
    case readable: True
    then obtain entries packages where l: "load_watchlist env ?p = Some entries" "load_packages env ?p = Some packages"
      using watchlist_loads [of env cfg] by (auto split: option.splits)
    with g True readable show ?thesis
      using hashing_fails [of env "map (maintainer_key \<circ> cr_maintainer) rs" e]
      by (auto simp: watchlisted_maintainer_def watch_on_def salt_needed_def list_ex_iff split: sum.splits if_splits)
  next
    case False
    then have "load_watchlist env ?p = None \<or> load_packages env ?p = None"
      using watchlist_loads [of env cfg] by (auto split: option.splits)
    with g True False show ?thesis
      by (auto simp: watchlisted_maintainer_def watch_on_def split: option.splits)
  qed
qed (auto simp: watchlisted_maintainer_def unguarded_table watch_on_def raw_section_def)

lemma correlate_failures:
  "correlate env cfg rs = Inl e \<longleftrightarrow>
     (if \<not> is_table cfg ''g003'' then e = Not_A_Table ''g003''
      else if too_long (raw_section cfg ''g003'') ''novel_days'' 30 \<or> too_long (raw_section cfg ''g003'') ''dormant_days'' 180
        \<or> too_long (guarded cfg ''g014'') ''dormant_days'' 180 then e = Overflow_Error
      else if \<not> is_table cfg ''g009'' then e = Not_A_Table ''g009''
      else watch_on cfg \<and>
        (if watch_readable env cfg then salt_needed env cfg rs \<and> ce_salted env = None \<and> e = Salt_Raises
         else e = Watchlist_Raises))"
proof (cases "coordinated_adoption env (setting 1 (guarded cfg ''g_adopt'') ''min_members'' 3) cfg rs")
  case (Inl d)
  with adoption_fails [of env "setting 1 (guarded cfg ''g_adopt'') ''min_members'' 3" cfg rs d] show ?thesis
    by (auto simp: correlate_def split: if_splits)
next
  case (Inr g003)
  then have no: "coordinated_adoption env (setting 1 (guarded cfg ''g_adopt'') ''min_members'' 3) cfg rs \<noteq> Inl d" for d
    by simp
  note none = no [unfolded adoption_fails]
  then have ok: "is_table cfg ''g003''" "\<not> too_long (raw_section cfg ''g003'') ''novel_days'' 30"
    "\<not> too_long (raw_section cfg ''g003'') ''dormant_days'' 180" by metis+
  let ?w = "shared_adoption_window env (setting 1 (guarded cfg ''g014'') ''min_packages'' 3)
    (setting 1 (guarded cfg ''g014'') ''min_maintainers'' 2) (setting 0 (guarded cfg ''g014'') ''min_dormant'' 2)
    (setting 0 (guarded cfg ''g014'') ''dormant_days'' 180) rs"
  show ?thesis
  proof (cases ?w)
    case (Inl d)
    with window_fails [of env _ _ _ "guarded cfg ''g014''" "''dormant_days''" 180 rs d] Inr ok show ?thesis
      by (auto simp: correlate_def)
  next
    case (Inr g014)
    then have "?w \<noteq> Inl Overflow_Error" by simp
    then have "\<not> too_long (guarded cfg ''g014'') ''dormant_days'' 180" unfolding window_fails by simp
    moreover have "correlate env cfg rs = Inl e \<longleftrightarrow> watchlisted_maintainer env cfg rs = Inl e"
      using Inr \<open>coordinated_adoption _ _ _ _ = Inr g003\<close> by (auto simp: correlate_def Let_def split: sum.splits)
    ultimately show ?thesis using ok watching_fails [of env cfg rs e] by auto
  qed
qed


section \<open>What a cycle writes into the profiles\<close>

definition clamp_score :: "int \<Rightarrow> int" where "clamp_score s = max 0 (min 100 s)"

definition score_in :: "(string \<Rightarrow> profile_row option) \<Rightarrow> string \<Rightarrow> int option" where
  "score_in db p = map_option pf_score (db p)"

lemma weigh_other: "m \<noteq> p \<Longrightarrow> weigh_member scores dlt m db p = db p"
  by (simp add: weigh_member_def save_package_profile_def Let_def)

lemma weigh_reserved: "is_reserved_name p \<Longrightarrow> weigh_member scores dlt m db p = db p"
  by (cases "m = p") (simp_all add: weigh_member_def save_package_profile_def Let_def)

lemma weigh_self: "\<not> is_reserved_name p \<Longrightarrow>
    score_in (weigh_member scores dlt p db) p = Some (clamp_score (profile_score scores db p + dlt))"
  by (simp add: weigh_member_def save_package_profile_def Let_def score_in_def clamp_score_def)

lemma weigh_all_reserved: "is_reserved_name p \<Longrightarrow> fold (weigh_member scores dlt) ms db p = db p"
  by (induction ms arbitrary: db) (simp_all add: weigh_reserved)

lemma weigh_all_known:
  "map_of scores p = Some s \<Longrightarrow> \<not> is_reserved_name p \<Longrightarrow>
   score_in (fold (weigh_member scores dlt) ms db) p =
     (if p \<in> set ms then Some (clamp_score (s + dlt)) else score_in db p)"
proof (induction ms arbitrary: db)
  case (Cons m ms)
  show ?case
  proof (cases "m = p")
    case True
    then have "score_in (weigh_member scores dlt m db) p = Some (clamp_score (s + dlt))"
      using weigh_self [OF Cons.prems(2), of scores dlt db] Cons.prems(1) by (simp add: profile_score_def)
    with Cons.IH [OF Cons.prems, of "weigh_member scores dlt m db"] True show ?thesis by simp
  next
    case False
    with Cons.IH [OF Cons.prems, of "weigh_member scores dlt m db"] show ?thesis
      by (auto simp: score_in_def weigh_other)
  qed
qed simp

definition finding_weight :: "int dict \<Rightarrow> cluster_finding \<Rightarrow> int" where
  "finding_weight weights c = dict_get weights (cl_severity c) 0"

text \<open>The findings that score a package: no join but the impersonation campaign, and the gated ones only
  with an impersonating member.\<close>

definition scoring_findings :: "int dict \<Rightarrow> (string \<Rightarrow> bool) \<Rightarrow> string \<Rightarrow> cluster_finding list \<Rightarrow> cluster_finding list" where
  "scoring_findings weights impersonates p findings =
     filter (\<lambda>c. (py_startswith (cl_rule c) ''G'' \<longrightarrow> cl_rule c = ''G005'') \<and>
       (cl_rule c \<in> {''H052'', ''H055''} \<longrightarrow> list_ex impersonates (cluster_members c)) \<and>
       0 < finding_weight weights c \<and> p \<in> set (cluster_members c)) findings"

lemma delta_scores:
  "cluster_delta weights impersonates c =
    (if (py_startswith (cl_rule c) ''G'' \<longrightarrow> cl_rule c = ''G005'') \<and>
        (cl_rule c \<in> {''H052'', ''H055''} \<longrightarrow> list_ex impersonates (cluster_members c))
     then max 0 (finding_weight weights c) else 0)"
  by (auto simp: cluster_delta_def joins_only_def gated_finding_def IMPERSONATION_GATED_RULES_def finding_weight_def)

lemma scoring_snoc:
  "scoring_findings weights impersonates p (cs @ [c]) = scoring_findings weights impersonates p cs @
     (if 0 < cluster_delta weights impersonates c \<and> p \<in> set (cluster_members c) then [c] else [])"
  by (simp add: scoring_findings_def delta_scores)

lemma delta_positive: "0 < cluster_delta weights impersonates c \<Longrightarrow>
    cluster_delta weights impersonates c = finding_weight weights c"
  by (auto simp: delta_scores split: if_splits)

text \<open>C22: a package whose score the cycle holds in memory ends with that score and the weight of the last
  finding that scores it, however many do; without one its profile is as before, and so is that of a
  reserved name.\<close>

theorem cluster_weights_exact:
  "map_of scores p = Some s \<Longrightarrow>
   score_in (snd (apply_cluster_weights weights impersonates scores findings db)) p =
     (if is_reserved_name p \<or> scoring_findings weights impersonates p findings = [] then score_in db p
      else Some (clamp_score (s + finding_weight weights
             (last (scoring_findings weights impersonates p findings)))))"
proof (induction findings rule: rev_induct)
  case Nil
  show ?case by (simp add: apply_cluster_weights_def scoring_findings_def)
next
  case (snoc c cs)
  let ?db = "snd (apply_cluster_weights weights impersonates scores cs db)"
  let ?dlt = "cluster_delta weights impersonates c"
  have step: "snd (apply_cluster_weights weights impersonates scores (cs @ [c]) db) =
      (if ?dlt \<le> 0 then ?db else fold (weigh_member scores ?dlt) (cluster_members c) ?db)"
    by (simp add: apply_cluster_weights_def)
  show ?case
  proof (cases "is_reserved_name p")
    case True
    then have "score_in (snd (apply_cluster_weights weights impersonates scores (cs @ [c]) db)) p = score_in ?db p"
      unfolding step by (auto simp: score_in_def weigh_all_reserved)
    with True snoc show ?thesis by simp
  next
    case False
    have "score_in (snd (apply_cluster_weights weights impersonates scores (cs @ [c]) db)) p =
        (if 0 < ?dlt \<and> p \<in> set (cluster_members c) then Some (clamp_score (s + ?dlt)) else score_in ?db p)"
      unfolding step using weigh_all_known [OF snoc.prems False, of ?dlt "cluster_members c" ?db] by auto
    with False snoc delta_positive [of weights impersonates c] show ?thesis by (auto simp: scoring_snoc)
  qed
qed

section \<open>On concrete cycles\<close>

definition sample_env :: corr_env where
  "sample_env = \<lparr>ce_variants = [''-bin'', ''-git''], ce_ecosystem = [''python''], ce_classify = (\<lambda>_. Some ''unknown''),
     ce_payload_url = (\<lambda>u. u), ce_now = 0, ce_first_seen = (\<lambda>_. None), ce_parse_ts = (\<lambda>_. None),
     ce_file = (\<lambda>_. Some []), ce_text = (\<lambda>_. []),
     ce_release_maintainers = [], ce_release_packages = [], ce_salted = Some None, ce_float = (\<lambda>_. None)\<rparr>"

definition sample :: "string \<Rightarrow> string \<Rightarrow> corr_record" where
  "sample name maintainer = \<lparr>cr_package = name, cr_pkgbase = name, cr_hosts = [''cdn.example''], cr_literals = [],
     cr_upstream = [], cr_maintainer = maintainer, cr_adoption = False, cr_predicates = [], cr_repos = [],
     cr_target = [], cr_modified = None, cr_observed = [], cr_rules = [''R001''], cr_urls = []\<rparr>"

lemma gained_host_exact_witness:
  "host_cluster ''cdn.example'' [''mutt'', ''mpv''] \<in>
     set (shared_gained_host sample_env 2 2 [sample ''mutt'' ''ann'', sample ''mpv'' ''bob''])"
proof -
  let ?rs = "[sample ''mutt'' ''ann'', sample ''mpv'' ''bob'']"
  have d: "distinct (map cr_package ?rs)" by code_simp
  have gs: "carriers gained_keys ?rs ''cdn.example'' = ?rs" by code_simp
  have ok: "\<not> one_project ?rs" "\<not> int (length (accounts_of ?rs)) < 2"
    "bucket_of sample_env ''cdn.example'' \<notin> set UBIQUITOUS_BUCKETS" "map cr_package ?rs = [''mutt'', ''mpv'']"
    "(2::int) \<le> int (length ?rs)" "?rs \<noteq> []" by code_simp+
  show ?thesis
    unfolding gained_host_exact [OF d] using gs ok by (intro CollectI exI [of _ "''cdn.example''"] exI [of _ ?rs]) simp
qed

lemma shared_groups_exact_witness:
  "(''R001'', [''mutt'', ''mpv'', ''m''], [''ann'', ''bob'']) \<notin> set (shared_groups sample_env cr_rules payload_signal 3 2
     [sample ''mutt'' ''ann'', sample ''mpv'' ''bob'', sample ''m'' ''bob''])"
proof -
  let ?rs = "[sample ''mutt'' ''ann'', sample ''mpv'' ''bob'', sample ''m'' ''bob'']"
  let ?T = "{(a, b). a \<in> set [''mutt'', ''mpv'', ''m''] \<and> b \<in> set [''mutt'', ''mpv'', ''m''] \<and>
     is_related_package (ce_variants sample_env) (ce_ecosystem sample_env) a b}"
  have d: "distinct (map cr_package ?rs)" by code_simp
  have gs: "length (carriers (shared_keys cr_rules payload_signal) ?rs ''R001'') \<le> MAX_RELATEDNESS_MEMBERS"
    by code_simp
  have "one_family sample_env [''mutt'', ''mpv'', ''m'']" by code_simp
  then have linked: "set [''mutt'', ''mpv'', ''m''] \<times> set [''mutt'', ''mpv'', ''m''] \<subseteq> ?T\<^sup>*"
    unfolding one_family_connected by blast
  show ?thesis
    unfolding shared_groups_exact [OF d] Let_def using gs linked by (meson SigmaI not_less subset_iff)
qed

lemma cluster_weights_exact_witness:
  "score_in (snd (apply_cluster_weights [(''HIGH'', 30)] (\<lambda>_. True) [(''mpv'', 20)]
     [mk_cluster ''G005'' [] ''HIGH'' [] [members_param [''mpv'']], mk_cluster ''H052'' [] ''HIGH'' [] [members_param [''mpv'']]]
     (\<lambda>_. None))) ''mpv'' = Some 50"
proof -
  let ?w = "[(''HIGH'', 30)]" and ?i = "\<lambda>_. True"
  let ?f = "[mk_cluster ''G005'' [] ''HIGH'' [] [members_param [''mpv'']],
    mk_cluster ''H052'' [] ''HIGH'' [] [members_param [''mpv'']]]"
  have known: "map_of [(''mpv'', 20::int)] ''mpv'' = Some 20" by simp
  have "(if is_reserved_name ''mpv'' \<or> scoring_findings ?w ?i ''mpv'' ?f = [] then None
      else Some (clamp_score (20 + finding_weight ?w (last (scoring_findings ?w ?i ''mpv'' ?f))))) = Some 50"
    by code_simp
  moreover have "score_in (\<lambda>_. None) ''mpv'' = None" by (simp add: score_in_def)
  ultimately show ?thesis
    unfolding cluster_weights_exact [OF known] by (simp only:)
qed

text \<open>The same two findings on a package whose score is only in the database add up.\<close>

lemma weights_add_up_in_the_database:
  "score_in (snd (apply_cluster_weights [(''HIGH'', 30)] (\<lambda>_. True) []
     [mk_cluster ''G005'' [] ''HIGH'' [] [members_param [''mpv'']], mk_cluster ''H052'' [] ''HIGH'' [] [members_param [''mpv'']]]
     [''mpv'' \<mapsto> \<lparr>pf_observations = 3, pf_score = 20, pf_risk = ''Low''\<rparr>])) ''mpv'' = Some 80"
  by code_simp

text \<open>A family whose members agree in one letter more than the dash is none.\<close>

lemma family_lost_by_a_letter:
  "\<not> one_name_family [''firefox-nightly-i18n-en-gb'', ''firefox-nightly-i18n-eo'', ''firefox-nightly-i18n-es-ar'',
      ''firefox-nightly-i18n-et'', ''firefox-nightly-i18n-eu'']
   \<and> one_name_family [''firefox-nightly-i18n-en-gb'', ''firefox-nightly-i18n-eo'', ''firefox-nightly-i18n-fr'']"
  by code_simp

text \<open>
  Two hand edits that end a whole cycle: a count of days with 310 digits, where only its conversion is guarded,
  and watchlist entries that are a number, although a malformed file is documented as empty, never an error.
\<close>

lemma endless_novelty_raises:
  "correlate sample_env [(''thresholds'', JObj [(''g003'', JObj [(''novel_days'', JInt (10 ^ 309))])])] rs = Inl Overflow_Error"
proof -
  let ?cfg = "[(''thresholds'', JObj [(''g003'', JObj [(''novel_days'', JInt (10 ^ 309))])])]"
  have "is_table ?cfg ''g003''" by (simp add: is_table_def thresholds_def section_of_def dict_get_def)
  moreover have "setting 0 (raw_section ?cfg ''g003'') ''novel_days'' 30 = 10 ^ 309"
    by (simp add: setting_def raw_section_def thresholds_def section_of_def dict_get_def safe_int_def)
  then have "too_long (raw_section ?cfg ''g003'') ''novel_days'' 30" by (simp add: too_long_def past_float_def)
  ultimately show ?thesis unfolding correlate_failures by simp
qed

lemma numeric_watchlist_raises:
  "correlate (sample_env\<lparr>ce_file := (\<lambda>_. Some [(''entries'', JInt 5)])\<rparr>) [] rs = Inl Watchlist_Raises"
proof -
  let ?env = "sample_env\<lparr>ce_file := (\<lambda>_. Some [(''entries'', JInt 5)])\<rparr>"
  have raw: "raw_section [] k = []" "guarded [] k = []" "is_table [] k" for k
    by (simp_all add: raw_section_def guarded_def is_table_def thresholds_def section_of_def dict_get_def)
  have "\<not> too_long [] k 30" "\<not> too_long [] k 180" for k
    by (simp_all add: too_long_def past_float_def setting_def safe_int_def dict_get_def)
  moreover have "watch_on []" "\<not> watch_readable ?env []"
    by (simp_all add: watch_on_def watch_readable_def raw dict_get_def)
  ultimately show ?thesis unfolding correlate_failures by (simp add: raw)
qed

end
