(* ===== verification/Temporal.thy ===== *)
theory Temporal
  imports Complex_Main Dep_Graph Relatedness Checksums
begin

text \<open>
  The rules over two metadata snapshots of the corpus (\<^verbatim>\<open>full_aur/temporal_engine.py\<close> and its emitters
  \<^verbatim>\<open>_temporal_adoption.py\<close>, \<^verbatim>\<open>_temporal_transitions.py\<close>, \<^verbatim>\<open>_temporal_divergence.py\<close>): the snapshot of one
  cycle's history, the rules H026, H044, H045, H052, H053, H055, H058, H059, H073 and H074, and the
  dispatch that ends with the graph rules of \<open>Dep_Graph\<close>.  A set is a list without repetitions, where the
  code iterates in no fixed order.  The mean and the deviation of the statistics library, with their
  rendering, are an argument; so are the naming settings.
\<close>

section \<open>Snapshots\<close>

record meta_row = meta_entry +
  mr_name :: string
  mr_base :: string
  mr_version :: "string option"
  mr_modified :: "int option"

text \<open>\<^verbatim>\<open>diff_metadata\<close>: what became of every package.\<close>

definition row_changed :: "meta_row \<Rightarrow> meta_row \<Rightarrow> bool" where
  "row_changed old new = (mr_modified new \<noteq> mr_modified old \<or> mr_version new \<noteq> mr_version old)"

definition diff_metadata :: "meta_row dict \<Rightarrow> meta_row dict \<Rightarrow> string dict" where
  "diff_metadata old new =
     List.map_filter (\<lambda>(name, r). case map_of old name of None \<Rightarrow> Some (name, ''added'')
        | Some o' \<Rightarrow> if row_changed o' r then Some (name, ''modified'') else None) new @
     map (\<lambda>(name, r). (name, ''removed'')) (filter (\<lambda>(name, r). map_of new name = None) old)"

definition maintainer_name :: "meta_row \<Rightarrow> string" where
  "maintainer_name r = py_lower (py_strip (me_maintainer r))"

definition ownership_transitions :: "meta_row dict \<Rightarrow> meta_row dict \<Rightarrow> transitions" where
  "ownership_transitions old new =
     List.map_filter (\<lambda>(name, r). case map_of old name of None \<Rightarrow> None
        | Some o' \<Rightarrow> if maintainer_name o' \<noteq> maintainer_name r
            then Some (name, (maintainer_name o', maintainer_name r)) else None) new"

record snapshot =
  hs_new :: "meta_row dict"
  hs_old :: "meta_row dict option"
  hs_changes :: "string dict"
  hs_transitions :: transitions
  hs_repos :: "string list dict"
  hs_introduced :: "int list"
  hs_activity :: "(string \<times> int) list"
  hs_edges :: "string list dict option"
  hs_routine :: "string list"
  hs_now :: int

record history =
  hi_repos :: "string list dict"
  hi_introduced :: "int list"
  hi_activity :: "(string \<times> int) list"
  hi_edges :: "string list dict option"
  hi_routine :: "string list"
  hi_now :: int

definition from_cycle :: "meta_row dict \<Rightarrow> meta_row dict option \<Rightarrow> history \<Rightarrow> snapshot" where
  "from_cycle new old hi = \<lparr>hs_new = new, hs_old = old,
     hs_changes = (case old of None \<Rightarrow> [] | Some o' \<Rightarrow> diff_metadata o' new),
     hs_transitions = (case old of None \<Rightarrow> [] | Some o' \<Rightarrow> ownership_transitions o' new),
     hs_repos = hi_repos hi, hs_introduced = hi_introduced hi, hs_activity = hi_activity hi,
     hs_edges = hi_edges hi, hs_routine = hi_routine hi, hs_now = hi_now hi\<rparr>"

section \<open>Settings and helpers\<close>

text \<open>What the statistics library makes of a value against earlier ones.\<close>

record z_stats =
  zs_z :: rat
  zs_text :: string
  zs_mean :: py_value
  zs_score :: py_value

record temporal_cfg =
  tc_templates :: "string dict"
  tc_variants :: "string list"
  tc_ecosystem :: "string list"
  tc_h045_packages :: int
  tc_h045_days :: int
  tc_h055_packages :: int
  tc_h055_hours :: int
  tc_h052_packages :: int
  tc_h074_days :: int
  tc_h073_cycles :: int
  tc_h073_z :: rat
  tc_h073_introduced :: int
  tc_h058_cycles :: int
  tc_h058_z :: rat
  tc_h058_activity :: int
  tc_h057_hops :: nat
  tc_h060_hops :: nat
  tc_h061_dependents :: nat
  tc_stats :: "int list \<Rightarrow> nat \<Rightarrow> z_stats"

text \<open>The statistics of an empty history raise.\<close>

datatype temporal_error = No_History string

definition row_maintainer :: "meta_row option \<Rightarrow> string" where
  "row_maintainer e = (case e of None \<Rightarrow> [] | Some r \<Rightarrow> maintainer_name r)"

definition last_modified :: "meta_row option \<Rightarrow> int option" where
  "last_modified e = (case e of None \<Rightarrow> None | Some r \<Rightarrow> if mr_modified r = Some 0 then None else mr_modified r)"

definition package_base :: "meta_row option \<Rightarrow> string" where
  "package_base e = (case e of None \<Rightarrow> []
     | Some r \<Rightarrow> py_strip (if mr_base r \<noteq> [] then mr_base r else mr_name r))"

text \<open>\<^verbatim>\<open>_package_base(entry) or name\<close>.\<close>

definition base_or_name :: "snapshot \<Rightarrow> string \<Rightarrow> string" where
  "base_or_name s name = (let b = package_base (map_of (hs_new s) name) in if b = [] then name else b)"

definition after_scheme :: "string \<Rightarrow> string" where
  "after_scheme url = (case py_find url ''://'' of None \<Rightarrow> url | Some i \<Rightarrow> drop (i + 3) url)"

definition upto_chars :: "char list \<Rightarrow> string \<Rightarrow> string" where
  "upto_chars cs s = takeWhile (\<lambda>c. c \<notin> set cs) s"

definition host_of :: "string \<Rightarrow> string" where
  "host_of url = py_lower (upto_chars ''#'' (upto_chars ''?'' (upto_chars ''/'' (after_scheme url))))"

definition strip_slashes :: "string \<Rightarrow> string" where
  "strip_slashes s = py_lstrip_of (\<lambda>c. c = CHR ''/'') (py_rstrip_of (\<lambda>c. c = CHR ''/'') s)"

definition cut_git :: "string \<Rightarrow> string" where
  "cut_git s = (if py_endswith s ''.git'' then take (length s - 4) s else s)"

definition repo_owner :: "string \<Rightarrow> (string \<times> string) option" where
  "repo_owner url =
     (let rest = upto_chars ''#'' (upto_chars ''?'' (after_scheme url)) in
      if CHR ''/'' \<notin> set rest then None
      else (let host = upto_chars ''/'' rest;
                owner = upto_chars ''/'' (strip_slashes (drop (length host + 1) rest))
            in if host = [] \<or> owner = [] then None
               else Some (py_lower host, py_lower (cut_git owner))))"

definition temporal_finding ::
    "string dict \<Rightarrow> string \<Rightarrow> string \<Rightarrow> string \<Rightarrow> string list \<Rightarrow> string \<Rightarrow> string \<Rightarrow> py_value dict \<Rightarrow> finding" where
  "temporal_finding templates rule name mt members severity category extra =
     stamp templates ((bare_finding rule name severity category)\<lparr>f_match := Some mt,
       f_params := Some ([(''members'', VStrs members), (''member_count'', VInt (int (length members)))] @ extra)\<rparr>)
       None"

text \<open>Values gathered under a key, in the order of their first appearance.\<close>

definition gathered :: "('k \<times> 'v) list \<Rightarrow> ('k \<times> 'v list) list" where
  "gathered kvs = map (\<lambda>k. (k, map snd (filter (\<lambda>kv. fst kv = k) kvs))) (uniq_first (map fst kvs))"

definition named_in :: "snapshot \<Rightarrow> string \<Rightarrow> string list" where
  "named_in s status = map fst (filter (\<lambda>(name, st). st = status) (hs_changes s))"

section \<open>Adoption: H045, H055 and H052\<close>

definition spread :: "int list \<Rightarrow> int" where
  "spread ts = (if ts = [] then 0 else Max (set ts) - Min (set ts))"

definition submissions :: "snapshot \<Rightarrow> (string \<times> (string \<times> int) list) list" where
  "submissions s = gathered (List.map_filter (\<lambda>name.
     let m = row_maintainer (map_of (hs_new s) name) in
     if m = [] then None
     else Some (m, (name, case last_modified (map_of (hs_new s) name) of None \<Rightarrow> 0 | Some t \<Rightarrow> t)))
     (named_in s ''added''))"

definition mass_adoption :: "temporal_cfg \<Rightarrow> snapshot \<Rightarrow> finding list" where
  "mass_adoption cfg s =
     map (\<lambda>(m, pkgs). temporal_finding (tc_templates cfg) ''H045'' ''Mass Adoption''
         (''maintainer '' @ m @ '' submitted '' @ show_nat (length (remdups (map (base_or_name s \<circ> fst) pkgs))) @
          '' package base(s) ('' @ show_nat (length pkgs) @ '' packages) within '' @ show_int (tc_h045_days cfg) @ '' days'')
         (sort (map fst pkgs)) ''HIGH'' ''adoption'' [(''maintainer'', VStr m)])
       (filter (\<lambda>(m, pkgs). tc_h045_packages cfg \<le> int (length (remdups (map (base_or_name s \<circ> fst) pkgs))) \<and>
          spread (map snd pkgs) \<le> tc_h045_days cfg * 86400) (submissions s))"

definition touches :: "snapshot \<Rightarrow> (string \<times> (string \<times> int) list) list" where
  "touches s = gathered (List.map_filter (\<lambda>name.
     case last_modified (map_of (hs_new s) name) of None \<Rightarrow> None
     | Some t \<Rightarrow> (let m = row_maintainer (map_of (hs_new s) name) in
         if m = [] then None else Some (m, (name, t)))) (named_in s ''modified''))"

definition one_stem :: "temporal_cfg \<Rightarrow> string list \<Rightarrow> bool" where
  "one_stem cfg bases = (length (remdups (map (package_stem (tc_variants cfg)) bases)) = 1)"

definition attribute_burst :: "temporal_cfg \<Rightarrow> snapshot \<Rightarrow> finding list" where
  "attribute_burst cfg s =
     map (\<lambda>(m, pkgs). temporal_finding (tc_templates cfg) ''H055'' ''Attribute Burst''
         (show_nat (length pkgs) @ '' packages by maintainer '' @ m @ '' modified within '' @
          show_int (tc_h055_hours cfg) @ ''h'')
         (sort (map fst pkgs)) ''MEDIUM'' ''adoption'' [(''maintainer'', VStr m)])
       (filter (\<lambda>(m, pkgs). let bases = remdups (map (base_or_name s \<circ> fst) pkgs) in
          tc_h055_packages cfg \<le> int (length bases) \<and> \<not> one_stem cfg bases \<and>
          spread (map snd pkgs) \<le> tc_h055_hours cfg * 3600) (touches s))"

definition repos_of :: "snapshot \<Rightarrow> string \<Rightarrow> string list" where
  "repos_of s name = dict_get (hs_repos s) name []"

definition repo_members :: "snapshot \<Rightarrow> (string \<times> string list) list" where
  "repo_members s = map (\<lambda>(repo, names). (repo, sort (remdups names)))
     (gathered (concat (map (\<lambda>(name, st). map (\<lambda>r. (cut_git r, name)) (repos_of s name)) (hs_changes s))))"

definition shared_repo_cluster :: "temporal_cfg \<Rightarrow> snapshot \<Rightarrow> finding list" where
  "shared_repo_cluster cfg s =
     map (\<lambda>(repo, members). temporal_finding (tc_templates cfg) ''H052'' ''Shared Source Repo Cluster''
         (show_nat (length members) @ '' unrelated packages share source '' @ repo)
         members ''HIGH'' ''adoption'' [(''repo'', VStr repo)])
       (filter (\<lambda>(repo, members). tc_h052_packages cfg \<le> int (length members) \<and>
          tc_h052_packages cfg \<le> int (length (remdups (map (\<lambda>n. package_base (map_of (hs_new s) n)) members))))
         (repo_members s))"

section \<open>Transitions: H044, H026 and H074\<close>

definition known_maintainers :: "meta_row dict \<Rightarrow> string list" where
  "known_maintainers old = filter (\<lambda>m. m \<noteq> []) (map (maintainer_name \<circ> snd) old)"

definition ownership_finding :: "temporal_cfg \<Rightarrow> string \<Rightarrow> string \<Rightarrow> string \<Rightarrow> finding" where
  "ownership_finding cfg name old_m new_m =
     temporal_finding (tc_templates cfg) ''H044'' ''Ownership Transition''
       (''maintainer of '' @ name @ '' changed from '' @ [SQ] @ (if old_m = [] then ''orphan'' else old_m) @ [SQ] @
        '' to '' @ [SQ] @ new_m @ [SQ])
       [name] ''MEDIUM'' ''maintainer'' [(''old'', VStr old_m), (''new'', VStr new_m)]"

definition newcomer_finding :: "temporal_cfg \<Rightarrow> string \<Rightarrow> string \<Rightarrow> string \<Rightarrow> finding" where
  "newcomer_finding cfg name old_m new_m =
     temporal_finding (tc_templates cfg) ''H026'' ''New Maintainer Without Prior History''
       (''maintainer of '' @ name @ '' changed to '' @ [SQ] @ new_m @ [SQ] @
        '', who maintained no package in the previous snapshot'')
       [name] ''HIGH'' ''maintainer'' [(''previous_maintainer'', VStr old_m), (''current_maintainer'', VStr new_m)]"

definition ownership_transition_findings :: "temporal_cfg \<Rightarrow> snapshot \<Rightarrow> finding list" where
  "ownership_transition_findings cfg s =
     (let known = known_maintainers (case hs_old s of None \<Rightarrow> [] | Some o' \<Rightarrow> o') in
      concat (map (\<lambda>(name, (old_m, new_m)).
        if new_m = [] then []
        else ownership_finding cfg name old_m new_m #
          (if new_m \<in> set known then [] else [newcomer_finding cfg name old_m new_m]))
        (sort_key fst (hs_transitions s))))"

definition version_of :: "meta_row option \<Rightarrow> string option" where
  "version_of e = (case e of None \<Rightarrow> None | Some r \<Rightarrow> mr_version r)"

definition adopted_and_modified :: "temporal_cfg \<Rightarrow> snapshot \<Rightarrow> string \<Rightarrow> bool" where
  "adopted_and_modified cfg s name =
     (let old_row = (case hs_old s of None \<Rightarrow> None | Some o' \<Rightarrow> map_of o' name); new_row = map_of (hs_new s) name in
      version_of old_row \<noteq> version_of new_row \<and>
      (case last_modified new_row of None \<Rightarrow> True
       | Some t \<Rightarrow> hs_now s = 0 \<or> hs_now s - t \<le> tc_h074_days cfg * 86400))"

definition adopt_then_modify_findings :: "temporal_cfg \<Rightarrow> snapshot \<Rightarrow> finding list" where
  "adopt_then_modify_findings cfg s =
     map (\<lambda>(m, members). temporal_finding (tc_templates cfg) ''H074'' ''Adopt-then-Modify''
         (''maintainer '' @ m @ '' adopted and immediately modified '' @ show_nat (length members) @ '' package(s)'')
         (sort members) ''MEDIUM'' ''maintainer'' [(''maintainer'', VStr m)])
       (gathered (map (\<lambda>(name, (old_m, new_m)). (new_m, name))
          (filter (\<lambda>(name, (old_m, new_m)). new_m \<noteq> [] \<and> adopted_and_modified cfg s name) (hs_transitions s))))"

section \<open>Rates against a baseline: H073 and H058\<close>

definition introduction_deviation :: "temporal_cfg \<Rightarrow> snapshot \<Rightarrow> temporal_error + finding list" where
  "introduction_deviation cfg s =
     (let introduced = length (named_in s ''added''); prior = hs_introduced s in
      if int (length prior) < tc_h073_cycles cfg then Inr []
      else if int introduced < tc_h073_introduced cfg then Inr []
      else if prior = [] then Inl (No_History ''H073'')
      else (let z = tc_stats cfg prior introduced in
        if zs_z z < tc_h073_z cfg then Inr []
        else Inr [temporal_finding (tc_templates cfg) ''H073'' ''Introduction-Rate Deviation''
          (''introduction rate '' @ show_nat introduced @ zs_text z)
          (sort (named_in s ''added'')) ''MEDIUM'' ''adoption''
          [(''introduced'', VInt (int introduced)), (''mean'', zs_mean z), (''z_score'', zs_score z)]]))"

definition AUTO_SUFFIXES :: "string list" where
  "AUTO_SUFFIXES = [''-git'', ''-hg'', ''-svn'', ''-bzr'', ''-cvs'', ''-darcs'', ''-fossil'', ''-latest'', ''-nightly'']"

text \<open>\<^verbatim>\<open>\.git(?:[#?]|$)\<close>, in either case, at the head of a text and anywhere in it.\<close>

definition git_url_here :: "string \<Rightarrow> bool" where
  "git_url_here s = (py_startswith (py_lower s) ''.git'' \<and>
     (case drop 4 s of [] \<Rightarrow> True | c # r \<Rightarrow> c = CHR ''#'' \<or> c = CHR ''?'' \<or> c = NL \<and> r = []))"

fun git_url :: "string \<Rightarrow> bool" where
  "git_url [] = False"
| "git_url (c # s) = (git_url_here (c # s) \<or> git_url s)"

definition is_auto_tracking :: "snapshot \<Rightarrow> string \<Rightarrow> bool" where
  "is_auto_tracking s name =
     (list_ex (\<lambda>x. py_endswith name x \<or> py_endswith name (x @ [NL])) AUTO_SUFFIXES \<or> list_ex git_url (repos_of s name))"

definition owners_of :: "snapshot \<Rightarrow> string \<Rightarrow> (string \<times> string) list" where
  "owners_of s name = List.map_filter repo_owner (repos_of s name)"

definition common_owner :: "(string \<times> string) list list \<Rightarrow> bool" where
  "common_owner os = (list_all (\<lambda>o'. o' \<noteq> []) os \<and>
     (case os of [] \<Rightarrow> False | o1 # rest \<Rightarrow> list_ex (\<lambda>x. list_all (\<lambda>o'. x \<in> set o') rest) o1))"

text \<open>A batch that is one upstream owner's, one family's or one base's.\<close>

definition one_logical_update :: "temporal_cfg \<Rightarrow> snapshot \<Rightarrow> string list \<Rightarrow> bool" where
  "one_logical_update cfg s members =
     (1 < length members \<and>
      (common_owner (map (owners_of s) members) \<or>
       one_related_cluster (is_related_package (tc_variants cfg) (tc_ecosystem cfg)) members = Some True \<or>
       one_stem cfg (remdups (map (base_or_name s) members))))"

definition activity_now :: "snapshot \<Rightarrow> (string \<times> string list) list" where
  "activity_now s = gathered (List.map_filter (\<lambda>(name, st).
     let m = row_maintainer (map_of (hs_new s) name) in
     if st = ''removed'' \<or> m = [] then None else Some (m, name)) (hs_changes s))"

definition prior_of :: "snapshot \<Rightarrow> string \<Rightarrow> int list" where
  "prior_of s m = map snd (filter (\<lambda>row. fst row = m) (hs_activity s))"

definition maintainer_deviation ::
    "temporal_cfg \<Rightarrow> snapshot \<Rightarrow> string \<Rightarrow> string list \<Rightarrow> temporal_error + finding option" where
  "maintainer_deviation cfg s m members =
     (let prior = prior_of s m; n = length members in
      if int n < tc_h058_activity cfg \<or> int (length prior) < tc_h058_cycles cfg then Inr None
      else if prior = [] then Inl (No_History ''H058'')
      else if int n \<le> Max (set prior) then Inr None
      else (let z = tc_stats cfg prior n in
        if zs_z z < tc_h058_z cfg \<or> list_all (is_auto_tracking s) members \<or> one_logical_update cfg s members \<or>
           list_all (\<lambda>name. name \<in> set (hs_routine s)) members
        then Inr None
        else Inr (Some (temporal_finding (tc_templates cfg) ''H058'' ''Maintainer Baseline Deviation''
          (''maintainer '' @ m @ '' active on '' @ show_nat n @ '' packages'' @ zs_text z)
          (sort members) ''MEDIUM'' ''adoption''
          [(''maintainer'', VStr m), (''activity'', VInt (int n)), (''mean'', zs_mean z), (''z_score'', zs_score z)]))))"

fun collect_results :: "('e + 'a option) list \<Rightarrow> 'e + 'a list" where
  "collect_results [] = Inr []"
| "collect_results (Inl e # rs) = Inl e"
| "collect_results (Inr x # rs) =
     (case collect_results rs of Inl e \<Rightarrow> Inl e
      | Inr xs \<Rightarrow> Inr (case x of None \<Rightarrow> xs | Some y \<Rightarrow> y # xs))"

definition maintainer_deviation_findings :: "temporal_cfg \<Rightarrow> snapshot \<Rightarrow> temporal_error + finding list" where
  "maintainer_deviation_findings cfg s =
     collect_results (map (\<lambda>(m, members). maintainer_deviation cfg s m members) (activity_now s))"

section \<open>Names against sources: H053 and H059\<close>

definition FORGE_HOSTS :: "string list" where
  "FORGE_HOSTS = [''github.com'', ''gitlab.com'', ''codeberg.org'', ''bitbucket.org'', ''sourceforge.net'',
     ''gitea.com'', ''gitea.io'', ''git.sr.ht'']"

definition PYTHON_HOSTS :: "string list" where
  "PYTHON_HOSTS = [''pypi.org'', ''pypi.io'', ''files.pythonhosted.org'', ''pypi.python.org'']"

definition NODE_HOSTS :: "string list" where
  "NODE_HOSTS = [''npmjs.com'', ''registry.npmjs.org'', ''nodejs.org'']"

definition ECOSYSTEM_HOSTS :: "string list dict" where
  "ECOSYSTEM_HOSTS = [(''python'', PYTHON_HOSTS), (''python2'', PYTHON_HOSTS), (''python3'', PYTHON_HOSTS),
     (''perl'', [''cpan.org'', ''metacpan.org'']), (''ruby'', [''rubygems.org'']), (''nodejs'', NODE_HOSTS),
     (''node'', NODE_HOSTS), (''php'', [''packagist.org'']), (''lua'', [''luarocks.org'']),
     (''rust'', [''crates.io'', ''static.crates.io'']), (''haskell'', [''hackage.haskell.org'']),
     (''ocaml'', [''opam.ocaml.org'']), (''texlive'', [''ctan.org'']),
     (''r'', [''cran.r-project.org'', ''cloud.r-project.org''])]"

definition ecosystem_prefix_of :: "string \<Rightarrow> string option" where
  "ecosystem_prefix_of name =
     find (\<lambda>p. py_startswith (py_lower name) (p @ ''-''))
       (sort_key (\<lambda>p. - int (length p)) (map fst ECOSYSTEM_HOSTS))"

definition host_matches :: "string list \<Rightarrow> string \<Rightarrow> bool" where
  "host_matches canonical host = list_ex (\<lambda>item. host = item \<or> py_endswith host (''.'' @ item)) canonical"

definition host_divergence :: "temporal_cfg \<Rightarrow> snapshot \<Rightarrow> string \<Rightarrow> finding option" where
  "host_divergence cfg s name =
     (case ecosystem_prefix_of name of None \<Rightarrow> None
      | Some eco \<Rightarrow>
          (let hosts = sort (remdups (map host_of (repos_of s name))) in
           if hosts = [] \<or> list_ex (host_matches (dict_get ECOSYSTEM_HOSTS eco [])) hosts \<or>
              list_ex (\<lambda>h. h \<in> set FORGE_HOSTS) hosts then None
           else Some (temporal_finding (tc_templates cfg) ''H053'' ''Ecosystem/Host Divergence''
             (name @ '' claims the '' @ eco @ '' ecosystem but sources from '' @ py_join '', '' (take 3 hosts))
             [name] ''MEDIUM'' ''naming'' [(''prefix'', VStr eco), (''hosts'', VStrs hosts)])))"

definition name_host_divergence_findings :: "temporal_cfg \<Rightarrow> snapshot \<Rightarrow> finding list" where
  "name_host_divergence_findings cfg s = List.map_filter (host_divergence cfg s) (named_in s ''added'')"

definition url_path :: "string \<Rightarrow> string" where
  "url_path url = (let rest = after_scheme url in drop (length (upto_chars ''/'' rest) + 1) rest)"

definition strip_archive :: "string \<Rightarrow> string" where
  "strip_archive part = fold (\<lambda>x t. replace_from 0 x [] t) [''.tar.gz'', ''.tgz'', ''.tar'', ''.zip'', ''.git''] part"

definition repo_path_tokens :: "string \<Rightarrow> string list" where
  "repo_path_tokens url =
     filter (\<lambda>t. 3 \<le> length t)
       (map (\<lambda>piece. py_lower (py_rstrip_of is_digit piece))
         (concat (map (\<lambda>part. py_split (CHR ''.'') (strip_archive part)) (py_split (CHR ''/'') (url_path url)))))"

definition is_upper :: "char \<Rightarrow> bool" where "is_upper c = (c \<in> set ''ABCDEFGHIJKLMNOPQRSTUVWXYZ'')"
definition is_lower :: "char \<Rightarrow> bool" where "is_lower c = (c \<in> set ''abcdefghijklmnopqrstuvwxyz'')"

text \<open>The first word of a piece by its capitals, and its length: an acronym before a capitalised word, a
  word with or without a capital, or a run of capitals.\<close>

definition first_word :: "string \<Rightarrow> string" where
  "first_word s =
     (let up = takeWhile is_upper s; rest = drop (length up) s; low = takeWhile is_lower rest in
      if low = [] then up
      else if 2 \<le> length up then butlast up
      else up @ low)"

function camel_words :: "string \<Rightarrow> string list" where
  "camel_words s =
     (if s = [] then []
      else if first_word s = [] then camel_words (drop 1 s)
      else first_word s # camel_words (drop (length (first_word s)) s))"
  by auto
termination by (relation "measure length") (auto simp: neq_Nil_conv)

declare camel_words.simps [simp del]

fun split_any :: "(char \<Rightarrow> bool) \<Rightarrow> string \<Rightarrow> string list" where
  "split_any P [] = [[]]"
| "split_any P (c # s) =
     (if P c then [] # split_any P s
      else (case split_any P s of [] \<Rightarrow> [[c]] | w # ws \<Rightarrow> (c # w) # ws))"

definition repo_path_words :: "string \<Rightarrow> string list" where
  "repo_path_words url =
     filter (\<lambda>w. 2 \<le> length w)
       (map py_lower (concat (map camel_words (split_any (\<lambda>c. c \<in> set ''/._-'') (url_path url)))))"

definition is_acronym :: "string \<Rightarrow> string list \<Rightarrow> bool" where
  "is_acronym token words =
     (let t = py_lower token in
      2 \<le> length t \<and> length t \<le> 5 \<and>
      list_ex (\<lambda>start. start + length t \<le> length words \<and> map hd (take (length t) (drop start words)) = t)
        [0..<Suc (length words)])"

definition repo_divergence :: "temporal_cfg \<Rightarrow> snapshot \<Rightarrow> string \<Rightarrow> finding option" where
  "repo_divergence cfg s name =
     (let repos = repos_of s name;
          parts = py_split (CHR ''-'') (package_stem (tc_variants cfg) name);
          tokens = remdups (filter (\<lambda>t. 3 \<le> length t) parts);
          repo_tokens = concat (map repo_path_tokens repos)
      in if repos = [] \<or> list_ex (\<lambda>r. CHR ''$'' \<in> set r \<or> CHR ''{'' \<in> set r) repos \<or>
            length tokens < 2 \<or> repo_tokens = [] \<or>
            list_ex (\<lambda>t. list_ex (\<lambda>rt. py_in t rt \<or> py_in rt t) repo_tokens) tokens
         then None
         else (let acronym = (case find (\<lambda>t. 3 \<le> length t \<and> t \<notin> set (tc_ecosystem cfg)) parts of
                   Some lead \<Rightarrow> list_ex (\<lambda>r. is_acronym lead (repo_path_words r)) repos | None \<Rightarrow> False);
                   sorted_repos = sort (remdups repos)
           in if acronym then None
           else Some (temporal_finding (tc_templates cfg) ''H059'' ''Name/Repo Divergence''
             (name @ '' sources from '' @ py_join '', '' (take 3 sorted_repos) @ '', sharing no token with its name'')
             [name] ''MEDIUM'' ''naming'' [(''repos'', VStrs (take 3 sorted_repos))])))"

definition name_repo_divergence_findings :: "temporal_cfg \<Rightarrow> snapshot \<Rightarrow> finding list" where
  "name_repo_divergence_findings cfg s = List.map_filter (repo_divergence cfg s) (named_in s ''added'')"

section \<open>The dispatch of a cycle\<close>

text \<open>The emitters in the order of \<^verbatim>\<open>CYCLE_INSTANCES\<close>.\<close>

definition cycle_emitters :: "temporal_cfg \<Rightarrow> (snapshot \<Rightarrow> temporal_error + finding list) list" where
  "cycle_emitters cfg =
     [Inr \<circ> mass_adoption cfg, Inr \<circ> attribute_burst cfg, Inr \<circ> shared_repo_cluster cfg,
      introduction_deviation cfg, maintainer_deviation_findings cfg, Inr \<circ> ownership_transition_findings cfg,
      Inr \<circ> adopt_then_modify_findings cfg, Inr \<circ> name_host_divergence_findings cfg,
      Inr \<circ> name_repo_divergence_findings cfg]"

fun run_emitters :: "(snapshot \<Rightarrow> temporal_error + finding list) list \<Rightarrow> snapshot \<Rightarrow> temporal_error + finding list" where
  "run_emitters [] s = Inr []"
| "run_emitters (e # es) s =
     (case e s of Inl err \<Rightarrow> Inl err
      | Inr fs \<Rightarrow> (case run_emitters es s of Inl err \<Rightarrow> Inl err | Inr gs \<Rightarrow> Inr (fs @ gs)))"

definition as_entries :: "meta_row dict \<Rightarrow> meta_entry dict" where
  "as_entries meta = map (\<lambda>(name, r). (name, meta_entry.truncate r)) meta"

definition graph_part :: "temporal_cfg \<Rightarrow> snapshot \<Rightarrow> finding list" where
  "graph_part cfg s = run_graph_sweep (tc_templates cfg) (tc_h057_hops cfg) (tc_h060_hops cfg) (tc_h061_dependents cfg)
     (as_entries (hs_new s)) (map_option as_entries (hs_old s)) (hs_changes s) (hs_transitions s) (hs_edges s)"

definition run_cycle_instances :: "temporal_cfg \<Rightarrow> snapshot \<Rightarrow> temporal_error + finding list" where
  "run_cycle_instances cfg s =
     (if hs_old s = None then Inr []
      else (case run_emitters (cycle_emitters cfg) s of Inl err \<Rightarrow> Inl err
            | Inr fs \<Rightarrow> Inr (fs @ graph_part cfg s)))"

definition run_corpus_sweep ::
    "temporal_cfg \<Rightarrow> meta_row dict \<Rightarrow> meta_row dict option \<Rightarrow> history \<Rightarrow> temporal_error + finding list" where
  "run_corpus_sweep cfg new old hi = run_cycle_instances cfg (from_cycle new old hi)"

section \<open>What a cycle reports\<close>

lemma map_filter_iff: "y \<in> set (List.map_filter f xs) \<longleftrightarrow> (\<exists>x \<in> set xs. f x = Some y)"
  by (induction xs) (auto simp: List.map_filter_simps split: option.splits)

lemma ownership_transitions_iff:
  "(name, (old_m, new_m)) \<in> set (ownership_transitions old new) \<longleftrightarrow>
   (\<exists>o' r. (name, r) \<in> set new \<and> map_of old name = Some o' \<and> maintainer_name o' = old_m \<and>
      maintainer_name r = new_m \<and> old_m \<noteq> new_m)"
  (is "?l \<longleftrightarrow> ?r")
proof
  assume ?l
  then obtain k r where kr: "(k, r) \<in> set new" "(case map_of old k of None \<Rightarrow> None
      | Some o' \<Rightarrow> if maintainer_name o' \<noteq> maintainer_name r
          then Some (k, (maintainer_name o', maintainer_name r)) else None) = Some (name, (old_m, new_m))"
    unfolding ownership_transitions_def map_filter_iff by auto
  then show ?r by (cases "map_of old k") (auto split: if_splits)
next
  assume ?r
  then obtain o' r where "(name, r) \<in> set new" "map_of old name = Some o'" "maintainer_name o' = old_m"
    "maintainer_name r = new_m" "old_m \<noteq> new_m" by blast
  then show ?l unfolding ownership_transitions_def map_filter_iff by (auto intro!: bexI [of _ "(name, r)"])
qed

lemma known_maintainers_iff:
  "m \<in> set (known_maintainers old) \<longleftrightarrow> m \<noteq> [] \<and> (\<exists>name r. (name, r) \<in> set old \<and> maintainer_name r = m)"
  by (force simp: known_maintainers_def)

text \<open>What became of a package, read off the two snapshots.\<close>

lemma diff_metadata_iff:
  "(name, st) \<in> set (diff_metadata old new) \<longleftrightarrow>
     (\<exists>r. (name, r) \<in> set new \<and> map_of old name = None \<and> st = ''added'') \<or>
     (\<exists>o' r. (name, r) \<in> set new \<and> map_of old name = Some o' \<and> row_changed o' r \<and> st = ''modified'') \<or>
     (\<exists>o'. (name, o') \<in> set old \<and> map_of new name = None \<and> st = ''removed'')"
  by (force simp: diff_metadata_def map_filter_iff split: option.splits if_splits)

lemma same_rows:
  assumes "distinct (map fst m)"
  shows "diff_metadata m m = []" and "ownership_transitions m m = []"
proof -
  have "(name, st) \<notin> set (diff_metadata m m)" for name st
    using assms unfolding diff_metadata_iff by (auto simp: row_changed_def dest: map_of_is_SomeI eq_key_imp_eq_value)
  then show "diff_metadata m m = []" by (metis last_in_set surj_pair)
  have "(name, (a, b)) \<notin> set (ownership_transitions m m)" for name a b
    using assms unfolding ownership_transitions_iff by (auto dest: map_of_is_SomeI eq_key_imp_eq_value)
  then show "ownership_transitions m m = []" by (metis last_in_set surj_pair)
qed

text \<open>C19: Two snapshots give an ownership finding for exactly the packages both of them hold whose
  maintainer, read without its case and its outer blanks, changed to a named one; each of them has a second finding
  exactly when no package of the earlier snapshot had the new maintainer.\<close>

theorem ownership_findings_exact:
  "f \<in> set (ownership_transition_findings cfg (from_cycle new (Some old) hi)) \<longleftrightarrow>
   (\<exists>name o' r. (name, r) \<in> set new \<and> map_of old name = Some o' \<and>
      maintainer_name r \<noteq> maintainer_name o' \<and> maintainer_name r \<noteq> [] \<and>
      (f = ownership_finding cfg name (maintainer_name o') (maintainer_name r) \<or>
       f = newcomer_finding cfg name (maintainer_name o') (maintainer_name r) \<and>
       (\<nexists>other q. (other, q) \<in> set old \<and> maintainer_name q = maintainer_name r)))"
proof -
  have "f \<in> set (ownership_transition_findings cfg (from_cycle new (Some old) hi)) \<longleftrightarrow>
    (\<exists>name old_m new_m. (name, (old_m, new_m)) \<in> set (ownership_transitions old new) \<and> new_m \<noteq> [] \<and>
       (f = ownership_finding cfg name old_m new_m \<or>
        f = newcomer_finding cfg name old_m new_m \<and> new_m \<notin> set (known_maintainers old)))"
    by (auto simp: ownership_transition_findings_def from_cycle_def Let_def split: if_splits)
  also have "\<dots> \<longleftrightarrow> (\<exists>name o' r. (name, r) \<in> set new \<and> map_of old name = Some o' \<and>
      maintainer_name r \<noteq> maintainer_name o' \<and> maintainer_name r \<noteq> [] \<and>
      (f = ownership_finding cfg name (maintainer_name o') (maintainer_name r) \<or>
       f = newcomer_finding cfg name (maintainer_name o') (maintainer_name r) \<and>
       maintainer_name r \<notin> set (known_maintainers old)))"
    unfolding ownership_transitions_iff by metis
  finally show ?thesis
    unfolding known_maintainers_iff by (simp cong: conj_cong)
qed

section \<open>Failing and quiet cycles\<close>

lemma collect_results_Inl:
  "(\<exists>e. collect_results rs = Inl e) \<longleftrightarrow> (\<exists>r \<in> set rs. \<exists>e. r = Inl e)"
  by (induction rs rule: collect_results.induct) (auto split: sum.splits option.splits)

lemma run_emitters_Inl:
  "(\<exists>e. run_emitters es s = Inl e) \<longleftrightarrow> (\<exists>em \<in> set es. \<exists>e. em s = Inl e)"
  by (induction es) (auto split: sum.splits)

lemma introduction_fails:
  "(\<exists>e. introduction_deviation cfg s = Inl e) \<longleftrightarrow>
   hs_introduced s = [] \<and> tc_h073_cycles cfg \<le> 0 \<and> tc_h073_introduced cfg \<le> int (length (named_in s ''added''))"
  by (auto simp: introduction_deviation_def Let_def)

lemma maintainer_deviation_fails:
  "(\<exists>e. maintainer_deviation cfg s m members = Inl e) \<longleftrightarrow>
   prior_of s m = [] \<and> tc_h058_cycles cfg \<le> 0 \<and> tc_h058_activity cfg \<le> int (length members)"
  by (auto simp: maintainer_deviation_def Let_def)

lemma cycle_emitters_fail:
  "(\<exists>e. run_emitters (cycle_emitters cfg) s = Inl e) \<longleftrightarrow>
   (\<exists>e. introduction_deviation cfg s = Inl e) \<or> (\<exists>e. maintainer_deviation_findings cfg s = Inl e)"
  unfolding run_emitters_Inl cycle_emitters_def by simp

text \<open>A sweep fails only for lack of history that the settings do not ask for: with both least numbers of
  cycles positive it always returns.\<close>

theorem sweep_fails_exactly:
  "(\<exists>e. run_corpus_sweep cfg new old hi = Inl e) \<longleftrightarrow>
   old \<noteq> None \<and>
   (let s = from_cycle new old hi in
    hi_introduced hi = [] \<and> tc_h073_cycles cfg \<le> 0 \<and> tc_h073_introduced cfg \<le> int (length (named_in s ''added'')) \<or>
    tc_h058_cycles cfg \<le> 0 \<and>
    (\<exists>(m, members) \<in> set (activity_now s). m \<notin> fst ` set (hi_activity hi) \<and> tc_h058_activity cfg \<le> int (length members)))"
proof -
  let ?s = "from_cycle new old hi"
  have old: "hs_old ?s = old" and acts: "hs_activity ?s = hi_activity hi" and ins: "hs_introduced ?s = hi_introduced hi"
    by (simp_all add: from_cycle_def)
  have prior: "prior_of ?s m = [] \<longleftrightarrow> m \<notin> fst ` set (hi_activity hi)" for m
    by (auto simp: prior_of_def acts filter_empty_conv)
  have "(\<exists>e. run_corpus_sweep cfg new old hi = Inl e) \<longleftrightarrow>
      old \<noteq> None \<and> (\<exists>e. run_emitters (cycle_emitters cfg) ?s = Inl e)"
    by (auto simp: run_corpus_sweep_def run_cycle_instances_def old split: sum.splits)
  moreover have "(\<exists>e. maintainer_deviation_findings cfg ?s = Inl e) \<longleftrightarrow> tc_h058_cycles cfg \<le> 0 \<and>
      (\<exists>(m, members) \<in> set (activity_now ?s). m \<notin> fst ` set (hi_activity hi) \<and>
         tc_h058_activity cfg \<le> int (length members))"
  proof -
    have "(\<exists>e. maintainer_deviation_findings cfg ?s = Inl e) \<longleftrightarrow>
        (\<exists>x \<in> set (activity_now ?s). \<exists>e. maintainer_deviation cfg ?s (fst x) (snd x) = Inl e)"
      unfolding maintainer_deviation_findings_def collect_results_Inl by (simp add: case_prod_unfold)
    then show ?thesis unfolding maintainer_deviation_fails prior by (auto simp: case_prod_unfold)
  qed
  ultimately show ?thesis
    unfolding cycle_emitters_fail introduction_fails Let_def ins by simp
qed

text \<open>Without changes every rule but the centrality of the graph is silent.\<close>

lemma quiet_emitters:
  assumes "hs_changes s = []" and "hs_transitions s = []" and "0 < tc_h073_introduced cfg"
  shows "run_emitters (cycle_emitters cfg) s = Inr []"
proof -
  have none: "named_in s st = []" for st by (simp add: named_in_def assms)
  have "mass_adoption cfg s = []" "attribute_burst cfg s = []" "shared_repo_cluster cfg s = []"
    "introduction_deviation cfg s = Inr []" "maintainer_deviation_findings cfg s = Inr []"
    "name_host_divergence_findings cfg s = []" "name_repo_divergence_findings cfg s = []"
    "ownership_transition_findings cfg s = []" "adopt_then_modify_findings cfg s = []"
    using assms
    by (simp_all add: mass_adoption_def submissions_def attribute_burst_def touches_def shared_repo_cluster_def
        repo_members_def introduction_deviation_def maintainer_deviation_findings_def activity_now_def
        name_host_divergence_findings_def name_repo_divergence_findings_def ownership_transition_findings_def
        adopt_then_modify_findings_def gathered_def none List.map_filter_simps Let_def)
  then show ?thesis by (simp add: cycle_emitters_def)
qed

text \<open>C33: A cycle whose snapshot is the one before it reports nothing but the packages many others depend
  on, whatever the history, the sources and the maintainers are.\<close>

theorem unchanged_corpus_is_quiet:
  assumes "distinct (map fst m)" and "0 < tc_h073_introduced cfg"
  shows "run_corpus_sweep cfg m (Some m) hi =
    Inr (centrality_findings (tc_templates cfg) (tc_h061_dependents cfg)
      (case hi_edges hi of Some g \<Rightarrow> g | None \<Rightarrow> dependency_edges (as_entries m)))"
proof -
  let ?s = "from_cycle m (Some m) hi"
  have s: "hs_changes ?s = []" "hs_transitions ?s = []" "hs_old ?s = Some m" "hs_new ?s = m" "hs_edges ?s = hi_edges hi"
    using same_rows [OF assms(1)] by (simp_all add: from_cycle_def)
  show ?thesis
    using quiet_emitters [OF s(1,2) assms(2)]
    by (simp add: run_corpus_sweep_def run_cycle_instances_def graph_part_def run_graph_sweep_def s
        orphan_dependency_findings_def transitive_exposure_findings_def transitive_orphan_findings_def Let_def)
qed

section \<open>The default settings\<close>

text \<open>The thresholds where no configuration sets them, over given naming settings and statistics.\<close>

definition default_thresholds ::
    "string dict \<Rightarrow> string list \<Rightarrow> string list \<Rightarrow> (int list \<Rightarrow> nat \<Rightarrow> z_stats) \<Rightarrow> temporal_cfg" where
  "default_thresholds templates variants ecosystem stats =
     \<lparr>tc_templates = templates, tc_variants = variants, tc_ecosystem = ecosystem,
      tc_h045_packages = 10, tc_h045_days = 7, tc_h055_packages = 5, tc_h055_hours = 24, tc_h052_packages = 3,
      tc_h074_days = 14, tc_h073_cycles = 3, tc_h073_z = 3, tc_h073_introduced = 3, tc_h058_cycles = 3, tc_h058_z = 2,
      tc_h058_activity = 3, tc_h057_hops = 2, tc_h060_hops = 2, tc_h061_dependents = 50, tc_stats = stats\<rparr>"

lemma unchanged_corpus_is_quiet_witness:
  "run_corpus_sweep (default_thresholds [] [''-bin''] [] (\<lambda>_ _. \<lparr>zs_z = 9, zs_text = [], zs_mean = VInt 0, zs_score = VInt 9\<rparr>))
     [(''mpv'', \<lparr>me_provides = [], me_depends = [''ffmpeg''], me_make_depends = [], me_check_depends = [],
        me_maintainer = ''alice'', mr_name = ''mpv'', mr_base = ''mpv'', mr_version = Some ''1-1'', mr_modified = Some 5\<rparr>)]
     (Some [(''mpv'', \<lparr>me_provides = [], me_depends = [''ffmpeg''], me_make_depends = [], me_check_depends = [],
        me_maintainer = ''alice'', mr_name = ''mpv'', mr_base = ''mpv'', mr_version = Some ''1-1'', mr_modified = Some 5\<rparr>)])
     \<lparr>hi_repos = [(''mpv'', [''https://evil.example/mpv'']) ], hi_introduced = [], hi_activity = [], hi_edges = Some [],
      hi_routine = [], hi_now = 9\<rparr> = Inr []"
  by (subst unchanged_corpus_is_quiet) (simp_all add: default_thresholds_def centrality_findings_def hubs_of_def
      indegrees_def)

text \<open>One package changed earlier in the same cycle hides five that one maintainer changed in one hour: the
  window is held against all of them, not against any five.\<close>

definition burst_row :: "string \<Rightarrow> int \<Rightarrow> string \<times> meta_row" where
  "burst_row name t = (name, \<lparr>me_provides = [], me_depends = [], me_make_depends = [], me_check_depends = [],
     me_maintainer = ''mallory'', mr_name = name, mr_base = name, mr_version = Some ''1-1'', mr_modified = Some t\<rparr>)"

lemma earlier_change_hides_burst:
  "let cfg = default_thresholds [] [''-bin''] [] (\<lambda>_ _. \<lparr>zs_z = 0, zs_text = [], zs_mean = VInt 0, zs_score = VInt 0\<rparr>);
       hi = \<lparr>hi_repos = [], hi_introduced = [], hi_activity = [], hi_edges = None, hi_routine = [], hi_now = 0\<rparr>;
       old = [burst_row ''a'' 1, burst_row ''b'' 1, burst_row ''c'' 1, burst_row ''d'' 1, burst_row ''e'' 1, burst_row ''f'' 1];
       five = [burst_row ''a'' 900000, burst_row ''b'' 900600, burst_row ''c'' 901200, burst_row ''d'' 901800, burst_row ''e'' 902400]
   in map f_rule_id (attribute_burst cfg (from_cycle (five @ [burst_row ''f'' 1]) (Some old) hi)) = [''H055''] \<and>
      attribute_burst cfg (from_cycle (five @ [burst_row ''f'' 800000]) (Some old) hi) = []"
  by code_simp

text \<open>A package and its two variants, of one upstream, count as three unrelated packages.\<close>

lemma one_family_shares_its_source:
  "let cfg = default_thresholds [] [''-bin'', ''-git''] [] (\<lambda>_ _. \<lparr>zs_z = 0, zs_text = [], zs_mean = VInt 0, zs_score = VInt 0\<rparr>);
       src = [''https://github.com/acme/foo''];
       hi = \<lparr>hi_repos = [(''foo'', src), (''foo-bin'', src), (''foo-git'', src)], hi_introduced = [], hi_activity = [],
             hi_edges = None, hi_routine = [], hi_now = 0\<rparr>;
       old = [burst_row ''foo'' 1, burst_row ''foo-bin'' 1, burst_row ''foo-git'' 1];
       new = [burst_row ''foo'' 9, burst_row ''foo-bin'' 9, burst_row ''foo-git'' 9]
   in map f_match (shared_repo_cluster cfg (from_cycle new (Some old) hi)) =
        [Some ''3 unrelated packages share source https://github.com/acme/foo''] \<and>
      one_stem cfg [''foo'', ''foo-bin'', ''foo-git'']"
  by code_simp

end
