(* ===== verification/Spec2Isabelle.thy ===== *)
theory Spec2Isabelle
  imports Layers Boundaries Scoring Diff_Doc Line_Lex Dep_Graph Meta_Rules Outbox Frames Version
    Aliases Shell_Words Clamp Watch Depth Dep_Order Longitudinal Composition Checksums
    Correlation Temporal
begin

text \<open>
  trustsight reads a change to an AUR build recipe, without running it, and reports how much a reviewer
  should distrust it.  This development models its core in Isabelle/HOL and proves what makes the core
  correct.  File names below are relative to \<^verbatim>\<open>src/src/trustsight/\<close>.

  How the parts interact.  A unified diff becomes a typed document (\<^verbatim>\<open>diffdoc.py\<close>); its lines are lexed
  into code, quotes, comments and heredoc bodies (\<^verbatim>\<open>line_lex.py\<close>, \<^verbatim>\<open>_heredoc.py\<close>) and their parameter
  expansions are resolved (\<^verbatim>\<open>expansion.py\<close>), inside a sandboxed process that talks over length-prefixed
  frames (\<^verbatim>\<open>sandbox/protocol.py\<close>, \<^verbatim>\<open>bounded_io.py\<close>).  Rules emit findings; the dependency graph of the
  corpus gives the rules H046, H057, H060 and H061 (\<^verbatim>\<open>full_aur/graph.py\<close>).  The score and the risk band
  come from the findings (\<^verbatim>\<open>scoring.py\<close>), held back by the anergy ledger (\<^verbatim>\<open>anergy.py\<close>), failed closed
  by the coverage gaps of the run (\<^verbatim>\<open>coverage.py\<close>), classified by assurance layer (\<^verbatim>\<open>layers.py\<close>) and
  rendered as analysis boundaries (\<^verbatim>\<open>boundaries.py\<close>).  Rules over other rules' findings escalate the band
  (\<^verbatim>\<open>analysis/meta.py\<close>), and the alert documents of a run leave through a durable queue
  (\<^verbatim>\<open>db/_outbox.py\<close>, \<^verbatim>\<open>notify.py\<close>).

  The theories, in the order they build on one another.

    \<^item> \<open>TS_Prelude\<close>: Python's string, list and dictionary operations as executable functions, with the
      lemmas the components share.  A \<^verbatim>\<open>str\<close> is a \<^typ>\<open>string\<close> (code points below 256), an \<^verbatim>\<open>int\<close> an \<^typ>\<open>int\<close>
      or, where the source keeps it from going negative, a \<^typ>\<open>nat\<close>; a \<^verbatim>\<open>dict\<close> an association list in
      insertion order.  \<^verbatim>\<open>\w\<close>, \<^verbatim>\<open>\s\<close> and \<^verbatim>\<open>\d\<close> are the classes of these characters.
    \<^item> \<open>Score_Schema\<close>: the records the components exchange (\<^verbatim>\<open>schema.py\<close>, \<^verbatim>\<open>findings.py\<close>).
    \<^item> \<open>Coverage\<close>: gap identifiers, the stage-failure record, \<^verbatim>\<open>gaps_from\<close>, the gap texts, and the
      fail-closed downgrade of a band.
    \<^item> \<open>Categories\<close>, \<open>Layers\<close>, \<open>Boundaries\<close>: the rule taxonomy and rename history, the layer of a rule,
      the layers a gap blinds, the least layer cut, and the boundaries of a fact.
    \<^item> \<open>Maturity\<close>, \<open>Anergy\<close>, \<open>Scoring\<close>: the maturity multiplier in binary floating point, the ledger, the
      review policy, and \<^verbatim>\<open>calculate_score\<close> with its breakdown, bands and labels.
    \<^item> \<open>Meta_Rules\<close>: M001 to M006 and W010.
    \<^item> \<open>Diff_Doc\<close>, \<open>Heredoc\<close>, \<open>Line_Lex\<close>: the diff state machine, the heredoc opener parser, and the
      lexical scan with the quote context threaded from line to line.
    \<^item> \<open>Glob\<close>, \<open>Expansion\<close>: the table-driven glob matcher with its step budget, one parameter expansion
      with all its operators, the resolve loops and the variable tables.
    \<^item> \<open>Version\<close>: versions as pacman writes them, their assembly from a recipe, the fallback comparison,
      and whether a diff moves a version field by its resolved value (\<^verbatim>\<open>analysis/version.py\<close>).
    \<^item> \<open>Joining\<close>, \<open>Aliases\<close>, \<open>Shell_Words\<close>, \<open>Clamp\<close>: logical lines of a diff and their index
      (\<^verbatim>\<open>_tokenizer_engine/_common.py\<close>), the alias table, the command words of a line (\<^verbatim>\<open>shell_words.py\<close>),
      and the line and size bounds before any rule runs (\<^verbatim>\<open>rules/_clamp.py\<close>).
    \<^item> \<open>Dep_Graph\<close>: the corpus graph, its reverse, breadth-first closures and the four rules.
    \<^item> \<open>Aur_Rpc\<close>: the query to the AUR with its attempts, the cache of its answers, and the pruning of
      packages the AUR no longer has (\<^verbatim>\<open>discovery.py\<close>, \<^verbatim>\<open>db/_history.py\<close>, \<^verbatim>\<open>prune\<close> of \<^verbatim>\<open>api/client.py\<close>).
    \<^item> \<open>Depth\<close>: dependency metadata behind one interface (a local snapshot, or the RPC with its cache and
      its give-up flag), the levels of a pre-install walk, the closure search and the gaps both report
      (\<^verbatim>\<open>depth.py\<close>).
    \<^item> \<open>Dep_Order\<close>: the order of a cycle in which dependencies are analysed before their dependents, the
      prefill scan and the prefetch window (\<^verbatim>\<open>full_aur/_pipeline_limits.py\<close>).
    \<^item> \<open>Property_Track\<close>, \<open>Longitudinal\<close>: the rows, the timeline and the breaks of tracked recipe
      properties (\<^verbatim>\<open>full_aur/properties.py\<close>), and the rules over those breaks
      (\<^verbatim>\<open>analysis/longitudinal.py\<close>).
    \<^item> \<open>Edit_Distance\<close>, \<open>Typosquat\<close>: the bounded edit-distance table, and the rules that find the popular
      name a package or dependency name resembles (\<^verbatim>\<open>novelty.py\<close>).
    \<^item> \<open>Novelty\<close>: the version-stable spelling of a URL, the tables of URLs and maintainers seen before and
      the novelty context of an analysis (\<^verbatim>\<open>novelty.py\<close>, \<^verbatim>\<open>buckets.py\<close>).
    \<^item> \<open>Override\<close>: the operator's file of overrides and acknowledged URLs, its writers, and the filter that
      hides overridden findings (\<^verbatim>\<open>override.py\<close>).
    \<^item> \<open>Checksums\<close>: the checksum arrays a diff touches, the verdict on them, and the comparison of source
      and checksum arrays (\<^verbatim>\<open>differ/_checksums.py\<close>), over the document of \<open>Diff_Doc\<close>.
    \<^item> \<open>Composition\<close>: the rules over the findings of one scan and the order in which a scan appends them
      (\<^verbatim>\<open>analysis/composition.py\<close>, the ends of \<^verbatim>\<open>pipeline/_core.py\<close> and \<^verbatim>\<open>full_aur/analyze/_fact.py\<close>).
    \<^item> \<open>Relatedness\<close>, \<open>Correlation\<close>: which package names are one family (\<^verbatim>\<open>deps.py\<close>), the joins over the
      records of a cycle (\<^verbatim>\<open>analysis/correlation.py\<close>), the watchlist one of them reads (\<^verbatim>\<open>watchlist.py\<close>)
      and the weights of their findings in the profiles
      (\<^verbatim>\<open>full_aur/_pipeline_helpers.py\<close>).
    \<^item> \<open>Temporal\<close>: the diff of two snapshots of the corpus and the rules over a cycle
      (\<^verbatim>\<open>full_aur/temporal_engine.py\<close> and its emitters); it ends with the graph rules of \<open>Dep_Graph\<close>.
    \<^item> \<open>Frames\<close>: bounded reads and frames over a stream that answers in arbitrary pieces.
    \<^item> \<open>Outbox\<close>: the alert queue, its backoff, and the flush that drives it.
    \<^item> \<open>Watch\<close>: the watch loop, its liveness record, its heartbeats and the health verdict over it
      (\<^verbatim>\<open>watch_state.py\<close>, \<^verbatim>\<open>full_aur/_pipeline_watch.py\<close>).

  What the properties show.  Each component has an invariant its operations keep or an exact account of
  its results: the score is the clamped sum of the breakdown it shows (the code keeps the sum and the
  breakdown apart, and so does the model), no incomplete run reads clean, a
  diff loses no line and its hunks partition its content, lexing keeps positions, the glob search is the
  leftmost-longest match of a declarative matching relation, the graph closures are exactly the least
  distances, a frame survives any splitting of the pipe, the queue drains whatever the sinks answer and
  marks nothing that was not sent or read while its sink was not configured, a walk without a gap vetted the
  closure that no earlier walk of the review had seen, and a property break is exactly a value that held.

  Interfaces are locales, each interpreted on the code's own definitions: \<open>byte_source\<close> in \<open>Frames\<close> (a file
  and a pipe with a clock), \<open>hop_distances\<close> and \<open>two_way_distances\<close> in \<open>Dep_Graph\<close> (the search along the
  edges, against them, and both), \<open>aur_metadata\<close> in \<open>Depth\<close> (the snapshot and the RPC as one source of
  dependency rows), and \<open>version_order\<close> in \<open>Version\<close> (the fallback comparison, and the one in
  force when no helper of pacman answers).

  Errors, loops and bounds.  An exception is a value of an error datatype or the \<open>None\<close> of an option, so
  that every raise is a branch.  A loop that need not end is a \<^verbatim>\<open>partial_function\<close> in the option monad,
  whose \<open>None\<close> is "does not return": the glob substitution is the one case.  One expansion gives no value
  when this loop does not return or when \<^verbatim>\<open>int\<close> raises at a number of more than 4300 digits, and
  \<open>expand_one_returns\<close> says exactly when; the diff parser refuses a hunk start of that length likewise.  Every other loop is structural or has a termination proof; no fuel is
  used except where the code itself counts passes (sixteen in \<^verbatim>\<open>resolve_expansions\<close>, eight in
  \<^verbatim>\<open>resolve_text\<close>), and there running out is the code's own result.

  Parameters.  What is not code under \<^verbatim>\<open>src/\<close> is an argument: the configuration, the loaded rule table,
  the answers of files, pipes, clocks, webhooks and the AUR, the JSON encoder, the digest of a property
  value and its weight ramp (floating point), the corpus.  SQLite tables are lists
  of rows; ISO times are seconds.

  Not modelled.  Command-line rendering, the public API classes and the release, channel and import
  machinery are I/O over these cores.  Analyses that are mainly large tables of regular expressions over
  recipe text, the git worker, and the database schema with its migrations are not modelled.  Code points
  from 256 on, and the host's floating point beyond the products of \<open>Maturity\<close>, are outside the model.
\<close>

end
